(* ===== verification/Prelude.thy ===== *)
theory Prelude
  imports Main "HOL-Library.Word"
begin

text \<open>
  Shared notions of the development: machine integers, results with an error side, bytes of
  UTF-8 text and decimal numerals.

  Rust's \<open>String\<close>, \<open>SmolStr\<close> and \<open>Arc<str>\<close> are UTF-8 byte sequences, and HOL's \<open>char\<close> is
  an eight-bit value, so every string of the program is a HOL \<open>string\<close> holding its UTF-8 bytes.
  \<open>usize\<close> lengths and offsets are \<open>nat\<close>; integers whose width matters are words.
\<close>

type_synonym u8 = "8 word"
type_synonym u32 = "32 word"
type_synonym u64 = "64 word"
type_synonym i128 = "128 word"

named_theorems lex_simps "evaluation of the byte classes on concrete bytes"
named_theorems emit_intros "what the lexer reads back from a piece of canonical text"

section \<open>Results\<close>

text \<open>Rust's \<open>?\<close> operator: the first error is returned, otherwise the computation goes on.\<close>

definition bindr :: "'e + 'a \<Rightarrow> ('a \<Rightarrow> 'e + 'b) \<Rightarrow> 'e + 'b" where
  "bindr m f = (case m of Inl e \<Rightarrow> Inl e | Inr x \<Rightarrow> f x)"

lemma bindr_simps [simp]:
  "bindr (Inl e) f = Inl e"
  "bindr (Inr x) f = f x"
  by (simp_all add: bindr_def)

lemma bindr_eq_Inr [simp]:
  "bindr m f = Inr y \<longleftrightarrow> (\<exists>x. m = Inr x \<and> f x = Inr y)"
  by (simp add: bindr_def split: sum.splits)

lemma bindr_eq_Inl:
  "bindr m f = Inl e \<longleftrightarrow> m = Inl e \<or> (\<exists>x. m = Inr x \<and> f x = Inl e)"
  by (simp add: bindr_def split: sum.splits)

lemma bindr_cong [fundef_cong]:
  "m = m' \<Longrightarrow> (\<And>x. m' = Inr x \<Longrightarrow> f x = g x) \<Longrightarrow> bindr m f = bindr m' g"
  by (simp add: bindr_def split: sum.splits)

definition ok_or :: "'e \<Rightarrow> 'a option \<Rightarrow> 'e + 'a" where
  "ok_or e x = (case x of None \<Rightarrow> Inl e | Some v \<Rightarrow> Inr v)"

lemma ok_or_simps [simp]: "ok_or e None = Inl e" "ok_or e (Some v) = Inr v"
  by (simp_all add: ok_or_def)

lemma ok_or_eq_Inr [simp]: "ok_or e x = Inr v \<longleftrightarrow> x = Some v"
  by (simp add: ok_or_def split: option.splits)

lemma in_map_filter: "y \<in> set (List.map_filter f xs) \<longleftrightarrow> (\<exists>x \<in> set xs. f x = Some y)"
  by (force simp: List.map_filter_def)

section \<open>Bytes\<close>

definition is_high :: "char \<Rightarrow> bool" where
  \<comment> \<open>\<open>c >= 0x80\<close>: the top bit is set\<close>
  "is_high c = digit7 c"

definition is_digit :: "char \<Rightarrow> bool" where
  "is_digit c \<longleftrightarrow> c \<in> set ''0123456789''"

definition is_alpha :: "char \<Rightarrow> bool" where
  "is_alpha c \<longleftrightarrow>
     c \<in> set ''abcdefghijklmnopqrstuvwxyzABCDEFGHIJKLMNOPQRSTUVWXYZ''"

definition is_alnum :: "char \<Rightarrow> bool" where
  "is_alnum c \<longleftrightarrow> is_alpha c \<or> is_digit c"

lemma digit_not_high: "is_digit c \<Longrightarrow> \<not> is_high c"
  by (auto simp: is_digit_def is_high_def)

section \<open>Well-formed UTF-8\<close>

definition in_range :: "nat \<Rightarrow> nat \<Rightarrow> char \<Rightarrow> bool" where
  "in_range lo hi c \<longleftrightarrow> lo \<le> of_char c \<and> of_char c \<le> hi"

abbreviation is_cont :: "char \<Rightarrow> bool" where
  "is_cont \<equiv> in_range 0x80 0xBF"

text \<open>\<open>std::str::from_utf8\<close> on the bytes of one encoded character (Unicode, table 3-7).\<close>

fun utf8_char_ok :: "string \<Rightarrow> bool" where
  "utf8_char_ok [a] = in_range 0x00 0x7F a"
| "utf8_char_ok [a, b] = (in_range 0xC2 0xDF a \<and> is_cont b)"
| "utf8_char_ok [a, b, c] =
     ((in_range 0xE0 0xE0 a \<and> in_range 0xA0 0xBF b
       \<or> in_range 0xE1 0xEC a \<and> is_cont b
       \<or> in_range 0xED 0xED a \<and> in_range 0x80 0x9F b
       \<or> in_range 0xEE 0xEF a \<and> is_cont b) \<and> is_cont c)"
| "utf8_char_ok [a, b, c, d] =
     ((in_range 0xF0 0xF0 a \<and> in_range 0x90 0xBF b
       \<or> in_range 0xF1 0xF3 a \<and> is_cont b
       \<or> in_range 0xF4 0xF4 a \<and> in_range 0x80 0x8F b) \<and> is_cont c \<and> is_cont d)"
| "utf8_char_ok _ = False"

text \<open>
  The length a leading byte announces: the masks \<open>0xE0\<close>, \<open>0xF0\<close>, \<open>0xF8\<close> of the lexer,
  read off the byte's top bits.
\<close>

definition utf8_len :: "char \<Rightarrow> nat option" where
  "utf8_len c =
     (if \<not> digit7 c then Some 1
      else if digit6 c \<and> \<not> digit5 c then Some 2
      else if digit6 c \<and> digit5 c \<and> \<not> digit4 c then Some 3
      else if digit6 c \<and> digit5 c \<and> digit4 c \<and> \<not> digit3 c then Some 4
      else None)"

lemma utf8_len_pos: "utf8_len c = Some n \<Longrightarrow> 0 < n"
  by (auto simp: utf8_len_def split: if_splits)

text \<open>A byte string that is valid UTF-8, as every Rust \<open>str\<close> is.\<close>

function utf8_valid :: "string \<Rightarrow> bool" where
  "utf8_valid [] = True"
| "utf8_valid (c # s) =
     (case utf8_len c of
        None \<Rightarrow> False
      | Some n \<Rightarrow> n \<le> Suc (length s) \<and> utf8_char_ok (take n (c # s)) \<and> utf8_valid (drop (n - 1) s))"
  by pat_completeness auto
termination
  by (relation "measure length") auto

text \<open>\<open>buf.push(b as char)\<close>: the byte becomes the code point of the same number.\<close>

definition latin1_utf8 :: "char \<Rightarrow> string" where
  "latin1_utf8 c =
     (if is_high c
      then [Char (digit6 c) True False False False False True True,
            Char (digit0 c) (digit1 c) (digit2 c) (digit3 c) (digit4 c) (digit5 c) False True]
      else [c])"

lemma latin1_utf8_ascii [simp]: "\<not> is_high c \<Longrightarrow> latin1_utf8 c = [c]"
  by (simp add: latin1_utf8_def)

section \<open>Decimal numerals\<close>

definition digit_char :: "int \<Rightarrow> char" where
  "digit_char n = ''0123456789'' ! nat (n mod 10)"

definition digit_val :: "char \<Rightarrow> int" where
  "digit_val c = of_char c - 48"

text \<open>\<open>to_string\<close> of an unsigned integer.\<close>

function int_dec :: "int \<Rightarrow> string" where
  "int_dec n = (if n < 10 then [digit_char n] else int_dec (n div 10) @ [digit_char (n mod 10)])"
  by pat_completeness auto
termination
  by (relation "measure nat") auto

declare int_dec.simps [simp del]

abbreviation nat_dec :: "nat \<Rightarrow> string" where
  "nat_dec n \<equiv> int_dec (int n)"

definition dec_val :: "string \<Rightarrow> int" where
  "dec_val s = foldl (\<lambda>a c. 10 * a + digit_val c) 0 s"


lemma digit_val_digit_char [simp]: "digit_val (digit_char n) = n mod 10"
proof -
  have "n mod 10 = 0 \<or> n mod 10 = 1 \<or> n mod 10 = 2 \<or> n mod 10 = 3 \<or> n mod 10 = 4
    \<or> n mod 10 = 5 \<or> n mod 10 = 6 \<or> n mod 10 = 7 \<or> n mod 10 = 8 \<or> n mod 10 = 9"
    by presburger
  then show ?thesis by (auto simp: digit_char_def digit_val_def)
qed

lemma is_digit_digit_char [simp]: "is_digit (digit_char n)"
proof -
  have "nat (n mod 10) < length ''0123456789''" by (simp add: nat_less_iff)
  then show ?thesis unfolding is_digit_def digit_char_def by (rule nth_mem)
qed

lemma digit_val_bounds: "is_digit c \<Longrightarrow> 0 \<le> digit_val c \<and> digit_val c \<le> 9"
  by (auto simp: is_digit_def digit_val_def)

lemma int_dec_digits [simp]: "list_all is_digit (int_dec n)"
proof (induction n rule: int_dec.induct)
  case (1 n)
  then show ?case by (subst int_dec.simps) simp
qed

lemma int_dec_nonempty [simp]: "int_dec n \<noteq> []"
  by (subst int_dec.simps) simp

lemma dec_val_Nil [simp]: "dec_val [] = 0"
  by (simp add: dec_val_def)

lemma dec_val_snoc [simp]: "dec_val (s @ [c]) = 10 * dec_val s + digit_val c"
  by (simp add: dec_val_def)

lemma dec_val_append: "dec_val (s @ t) = dec_val s * 10 ^ length t + dec_val t"
proof (induction t rule: rev_induct)
  case (snoc c t)
  then show ?case
    by (simp only: append_assoc [symmetric] dec_val_snoc) (simp add: algebra_simps)
qed simp

lemma dec_val_zeros [simp]: "dec_val (replicate n CHR ''0'') = 0"
proof (induction n)
  case (Suc n)
  have "dec_val (replicate (Suc n) CHR ''0'') = dec_val (replicate n CHR ''0'' @ [CHR ''0''])"
    by (simp add: replicate_append_same)
  with Suc show ?case by (simp only: dec_val_snoc) (simp add: digit_val_def)
qed simp

lemma dec_val_nonneg: "list_all is_digit s \<Longrightarrow> 0 \<le> dec_val s"
  by (induction s rule: rev_induct) (auto dest: digit_val_bounds)

lemma dec_val_int_dec [simp]: "0 \<le> n \<Longrightarrow> dec_val (int_dec n) = n"
proof (induction n rule: int_dec.induct)
  case (1 n)
  show ?case
  proof (cases "n < 10")
    case True
    then have "int_dec n = [] @ [digit_char n]" by (subst int_dec.simps) simp
    then show ?thesis using True 1(2) by (simp only: dec_val_snoc) simp
  next
    case False
    then have "int_dec n = int_dec (n div 10) @ [digit_char (n mod 10)]"
      by (subst int_dec.simps) simp
    with 1 False show ?thesis by simp
  qed
qed

section \<open>Identifiers that count up\<close>

lemma word_less_succ:
  assumes "x \<noteq> - 1"
  shows "x < x + (1 :: u64)"
proof (rule ccontr)
  assume "\<not> ?thesis"
  then have le: "x + 1 \<le> x" by simp
  have "x < - 1" using assms by (simp add: word_order.not_eq_extremum)
  then have "uint x < 2 ^ 64 - 1"
    by (simp add: word_less_def unsigned_minus_1_eq_mask mask_eq_exp_minus_1)
  then have "uint (x + 1) = uint x + 1" by (simp add: uint_word_ariths)
  with le show False by (simp add: word_le_def)
qed

end
