(* ===== verification/F32.thy ===== *)
theory F32
  imports Prelude
begin

text \<open>
  Rust's \<open>f32\<close>, as far as the program uses it: comparisons, \<open>+\<close>, \<open>-\<close>, \<open>*\<close>, \<open>abs\<close>, \<open>min\<close>,
  \<open>max\<close>, \<open>str::parse::<f32>\<close> and \<open>Display\<close>.

  Every finite binary32 value is an integer multiple of \<open>2^-149\<close>, so a finite value is a sign
  and that multiple: \<open>F32_Fin s k\<close> is \<open>(-1)^s * k * 2^-149\<close>. The multiple is an exact integer, so
  the arithmetic is integer arithmetic followed by one rounding to 24 significant bits, to nearest
  with ties to even, as IEEE 754 prescribes.
\<close>

datatype f32 = F32_NaN | F32_Inf bool | F32_Fin bool int

section \<open>Rounding\<close>

function bitlen :: "int \<Rightarrow> nat" where
  "bitlen k = (if k \<le> 0 then 0 else Suc (bitlen (k div 2)))"
  by pat_completeness auto
termination
  by (relation "measure nat") auto

declare bitlen.simps [simp del]

definition rnd_ne :: "int \<Rightarrow> int \<Rightarrow> int" where
  \<comment> \<open>the integer nearest to \<open>n / d\<close>, ties to even\<close>
  "rnd_ne n d =
     (let q = n div d; r = n mod d in
      if 2 * r < d then q else if d < 2 * r then q + 1 else if even q then q else q + 1)"

definition f32_mag :: "int \<Rightarrow> int \<Rightarrow> int" where
  \<comment> \<open>\<open>n / d\<close>, in units of \<open>2^-149\<close>, rounded to 24 significant bits\<close>
  "f32_mag n d =
     (let b = bitlen (n div d) in
      if b \<le> 24 then rnd_ne n d else rnd_ne n (d * 2 ^ (b - 24)) * 2 ^ (b - 24))"

definition f32_round :: "bool \<Rightarrow> int \<Rightarrow> int \<Rightarrow> f32" where
  "f32_round s n d = (let k = f32_mag n d in if 2 ^ 277 \<le> k then F32_Inf s else F32_Fin s k)"

definition f32_repr :: "int \<Rightarrow> bool" where
  \<comment> \<open>the magnitudes of the finite binary32 values\<close>
  "f32_repr k \<longleftrightarrow> 0 \<le> k \<and> k < 2 ^ 277 \<and> (bitlen k \<le> 24 \<or> 2 ^ (bitlen k - 24) dvd k)"

fun f32_wf :: "f32 \<Rightarrow> bool" where
  "f32_wf (F32_Fin s k) = f32_repr k"
| "f32_wf _ = True"

section \<open>Operations\<close>

fun f32_sval :: "f32 \<Rightarrow> int" where
  \<comment> \<open>the signed multiple of a finite value\<close>
  "f32_sval (F32_Fin s k) = (if s then - k else k)"
| "f32_sval _ = 0"

fun f32_cmp :: "f32 \<Rightarrow> f32 \<Rightarrow> int option" where
  \<comment> \<open>\<open>partial_cmp\<close>: the sign of \<open>a - b\<close>, \<open>None\<close> with a NaN\<close>
  "f32_cmp F32_NaN b = None"
| "f32_cmp a F32_NaN = None"
| "f32_cmp (F32_Inf s) (F32_Inf t) = Some (if s = t then 0 else if s then -1 else 1)"
| "f32_cmp (F32_Inf s) (F32_Fin t k) = Some (if s then -1 else 1)"
| "f32_cmp (F32_Fin t k) (F32_Inf s) = Some (if s then 1 else -1)"
| "f32_cmp (F32_Fin s k) (F32_Fin t l) = Some (sgn (f32_sval (F32_Fin s k) - f32_sval (F32_Fin t l)))"

definition f32_lt :: "f32 \<Rightarrow> f32 \<Rightarrow> bool" where
  "f32_lt a b \<longleftrightarrow> f32_cmp a b = Some (-1)"

definition f32_le :: "f32 \<Rightarrow> f32 \<Rightarrow> bool" where
  "f32_le a b \<longleftrightarrow> f32_cmp a b = Some (-1) \<or> f32_cmp a b = Some 0"

definition f32_eq :: "f32 \<Rightarrow> f32 \<Rightarrow> bool" where
  "f32_eq a b \<longleftrightarrow> f32_cmp a b = Some 0"

fun f32_neg :: "f32 \<Rightarrow> f32" where
  "f32_neg F32_NaN = F32_NaN"
| "f32_neg (F32_Inf s) = F32_Inf (\<not> s)"
| "f32_neg (F32_Fin s k) = F32_Fin (\<not> s) k"

fun f32_abs :: "f32 \<Rightarrow> f32" where
  "f32_abs F32_NaN = F32_NaN"
| "f32_abs (F32_Inf s) = F32_Inf False"
| "f32_abs (F32_Fin s k) = F32_Fin False k"

fun f32_add :: "f32 \<Rightarrow> f32 \<Rightarrow> f32" where
  "f32_add F32_NaN b = F32_NaN"
| "f32_add a F32_NaN = F32_NaN"
| "f32_add (F32_Inf s) (F32_Inf t) = (if s = t then F32_Inf s else F32_NaN)"
| "f32_add (F32_Inf s) (F32_Fin t k) = F32_Inf s"
| "f32_add (F32_Fin t k) (F32_Inf s) = F32_Inf s"
| "f32_add (F32_Fin s k) (F32_Fin t l) =
     (let v = f32_sval (F32_Fin s k) + f32_sval (F32_Fin t l) in
      if v = 0 then F32_Fin (s \<and> t) 0 else f32_round (v < 0) \<bar>v\<bar> 1)"

definition f32_sub :: "f32 \<Rightarrow> f32 \<Rightarrow> f32" where
  "f32_sub a b = f32_add a (f32_neg b)"

fun f32_mul :: "f32 \<Rightarrow> f32 \<Rightarrow> f32" where
  "f32_mul F32_NaN b = F32_NaN"
| "f32_mul a F32_NaN = F32_NaN"
| "f32_mul (F32_Inf s) (F32_Inf t) = F32_Inf (s \<noteq> t)"
| "f32_mul (F32_Inf s) (F32_Fin t k) = (if k = 0 then F32_NaN else F32_Inf (s \<noteq> t))"
| "f32_mul (F32_Fin t k) (F32_Inf s) = (if k = 0 then F32_NaN else F32_Inf (s \<noteq> t))"
| "f32_mul (F32_Fin s k) (F32_Fin t l) = f32_round (s \<noteq> t) (k * l) (2 ^ 149)"

definition f32_min :: "f32 \<Rightarrow> f32 \<Rightarrow> f32" where
  \<comment> \<open>\<open>f32::min\<close>: a NaN operand gives the other one\<close>
  "f32_min a b = (if a = F32_NaN then b else if b = F32_NaN then a else if f32_lt b a then b else a)"

definition f32_max :: "f32 \<Rightarrow> f32 \<Rightarrow> f32" where
  "f32_max a b = (if a = F32_NaN then b else if b = F32_NaN then a else if f32_lt a b then b else a)"

section \<open>Decimal text\<close>

definition f32_of_dec :: "bool \<Rightarrow> int \<Rightarrow> nat \<Rightarrow> f32" where
  \<comment> \<open>the value nearest to \<open>n / 10^p\<close>\<close>
  "f32_of_dec s n p = f32_round s (n * 2 ^ 149) (10 ^ p)"

text \<open>A decimal literal of the source, such as \<open>0.95\<close>.\<close>

definition f32_lit :: "int \<Rightarrow> nat \<Rightarrow> f32" where
  "f32_lit n p = f32_of_dec False n p"

definition split_point :: "string \<Rightarrow> string \<times> string" where
  \<comment> \<open>the text before and after the first \<open>'.'\<close> (nothing after it when there is none)\<close>
  "split_point s = (takeWhile (\<lambda>c. c \<noteq> CHR ''.'') s, tl (dropWhile (\<lambda>c. c \<noteq> CHR ''.'') s))"

text \<open>
  \<open>str::parse::<f32>\<close> on positional decimal text. The lexer's number tokens contain only digits,
  one optional point and one optional sign, so the exponent and \<open>inf\<close>/\<open>nan\<close> forms of the library
  cannot reach it.
\<close>

definition f32_mant :: "bool \<Rightarrow> string \<Rightarrow> f32 option" where
  "f32_mant neg r =
     (let (i, f) = split_point r in
      if i = [] \<and> f = [] then None
      else if list_all is_digit i \<and> list_all is_digit f
      then Some (f32_of_dec neg (dec_val (i @ f)) (length f))
      else None)"

definition f32_parse :: "string \<Rightarrow> f32 option" where
  "f32_parse s =
     (case s of
        [] \<Rightarrow> None
      | c # t \<Rightarrow>
          if c = CHR ''-'' then f32_mant True t
          else if c = CHR ''+'' then f32_mant False t
          else f32_mant False s)"

text \<open>The text of \<open>c / 10^p\<close> in positional notation, with every fractional place written.\<close>

definition dec_render :: "int \<Rightarrow> nat \<Rightarrow> string" where
  "dec_render c p =
     (let s = int_dec c in
      if p = 0 then s
      else if length s \<le> p then ''0.'' @ replicate (p - length s) CHR ''0'' @ s
      else take (length s - p) s @ ''.'' @ drop (length s - p) s)"

text \<open>
  \<open>Display\<close> prints the shortest decimal that reads back as the same value, and of those the one
  closest to it, without an exponent. A candidate is a multiple \<open>c\<close> of \<open>10^j\<close>; the search goes
  from coarse to fine steps and looks at the multiples next to the value.
\<close>

definition ten_num :: "int \<Rightarrow> int" where
  "ten_num j = (if 0 \<le> j then 10 ^ nat j else 1)"

definition ten_den :: "int \<Rightarrow> int" where
  "ten_den j = (if 0 \<le> j then 1 else 10 ^ nat (- j))"

definition reads_back :: "int \<Rightarrow> int \<Rightarrow> int \<Rightarrow> bool" where
  "reads_back k c j \<longleftrightarrow> f32_mag (c * ten_num j * 2 ^ 149) (ten_den j) = k"

definition short_at :: "int \<Rightarrow> int \<Rightarrow> int option" where
  "short_at k j =
     (let lo = (k * ten_den j) div (ten_num j * 2 ^ 149); hi = lo + 1 in
      if reads_back k lo j \<and> reads_back k hi j
      then Some (if 2 * k * ten_den j < (lo + hi) * ten_num j * 2 ^ 149 then lo else hi)
      else if reads_back k lo j then Some lo
      else if reads_back k hi j then Some hi
      else None)"

fun short_search :: "int \<Rightarrow> nat \<Rightarrow> int \<Rightarrow> (int \<times> int) option" where
  "short_search k 0 j = None"
| "short_search k (Suc n) j =
     (case short_at k j of Some c \<Rightarrow> Some (c, j) | None \<Rightarrow> short_search k n (j - 1))"

definition short_start :: "int \<Rightarrow> nat" where
  "short_start k = (if k div 2 ^ 149 = 0 then 0 else length (int_dec (k div 2 ^ 149)))"

definition f32_digits :: "int \<Rightarrow> string" where
  "f32_digits k =
     (case short_search k (short_start k + 150) (int (short_start k)) of
        None \<Rightarrow> []
      | Some (c, j) \<Rightarrow>
          if 0 \<le> j then int_dec c @ (if c = 0 then [] else replicate (nat j) CHR ''0'')
          else dec_render c (nat (- j)))"

fun f32_display :: "f32 \<Rightarrow> string" where
  "f32_display F32_NaN = ''NaN''"
| "f32_display (F32_Inf s) = (if s then ''-inf'' else ''inf'')"
| "f32_display (F32_Fin s k) = (if s then ''-'' else []) @ f32_digits k"

section \<open>Bit lengths and rounding\<close>

lemma bitlen_nonpos [simp]: "k \<le> 0 \<Longrightarrow> bitlen k = 0"
  by (subst bitlen.simps) simp

lemma bitlen_le_iff: "0 \<le> k \<Longrightarrow> bitlen k \<le> n \<longleftrightarrow> k < 2 ^ n"
proof (induction k arbitrary: n rule: bitlen.induct)
  case (1 k)
  show ?case
  proof (cases "k \<le> 0")
    case True
    with "1.prems" show ?thesis by simp
  next
    case False
    then have b: "bitlen k = Suc (bitlen (k div 2))" by (subst bitlen.simps) simp
    show ?thesis
    proof (cases n)
      case 0
      with b False show ?thesis by simp
    next
      case (Suc m)
      have "bitlen (k div 2) \<le> m \<longleftrightarrow> k div 2 < 2 ^ m"
        using "1.IH" False by simp
      also have "\<dots> \<longleftrightarrow> k < 2 ^ n" using Suc by auto
      finally show ?thesis using b Suc by simp
    qed
  qed
qed

lemma bitlen_less: "0 \<le> k \<Longrightarrow> k < 2 ^ bitlen k"
  using bitlen_le_iff by blast

lemma bitlen_ge: "0 < k \<Longrightarrow> 2 ^ (bitlen k - 1) \<le> k"
proof -
  assume k: "0 < k"
  then have "bitlen k = Suc (bitlen (k div 2))" by (subst bitlen.simps) simp
  then have "\<not> bitlen k \<le> bitlen k - 1" by simp
  with k show ?thesis by (simp add: bitlen_le_iff)
qed

lemma bitlen_eqI: "2 ^ n \<le> k \<Longrightarrow> k < 2 ^ Suc n \<Longrightarrow> bitlen k = Suc n"
proof -
  assume a: "2 ^ n \<le> k" "k < 2 ^ Suc n"
  then have "0 \<le> k" by (meson dual_order.trans zero_le_numeral zero_le_power)
  with a have "bitlen k \<le> Suc n" "\<not> bitlen k \<le> n" by (simp_all add: bitlen_le_iff)
  then show ?thesis by simp
qed

lemma rnd_ne_exact [simp]: "0 < d \<Longrightarrow> rnd_ne (k * d) d = k"
  by (simp add: rnd_ne_def)

lemma rnd_ne_bounds:
  assumes "0 < d"
  shows "n div d \<le> rnd_ne n d \<and> rnd_ne n d \<le> n div d + 1"
  by (simp add: rnd_ne_def Let_def)

text \<open>Rounding is to nearest: the result is within half a unit.\<close>

lemma rnd_ne_nearest:
  assumes "0 < d"
  shows "\<bar>2 * (rnd_ne n d * d - n)\<bar> \<le> d"
proof -
  define q r where "q = n div d" and "r = n mod d"
  have n: "n = q * d + r" by (simp add: q_def r_def)
  have r: "0 \<le> r" "r < d" using assms by (simp_all add: r_def)
  have "rnd_ne n d = (if 2 * r < d then q else if d < 2 * r then q + 1 else if even q then q else q + 1)"
    by (simp add: rnd_ne_def q_def r_def)
  then show ?thesis using n r by (auto simp: algebra_simps abs_le_iff)
qed

lemma f32_mag_exact:
  assumes "f32_repr k" "0 < d"
  shows "f32_mag (k * d) d = k"
proof (cases "bitlen k \<le> 24")
  case True
  with assms show ?thesis by (simp add: f32_mag_def Let_def)
next
  case False
  with assms(1) obtain m where m: "k = 2 ^ (bitlen k - 24) * m"
    unfolding f32_repr_def by (auto elim: dvdE)
  define e where "e = (2::int) ^ (bitlen k - 24)"
  have "0 < d * e" using assms(2) by (simp add: e_def)
  then have "rnd_ne (m * (d * e)) (d * e) = m" by simp
  moreover have "k * d = m * (d * e)" by (subst m) (simp add: e_def)
  ultimately have r: "rnd_ne (k * d) (d * e) = m" by (simp only:)
  have "f32_mag (k * d) d = rnd_ne (k * d) (d * e) * e"
    using False assms(2) by (simp add: f32_mag_def Let_def e_def)
  moreover have "m * e = k" using m [folded e_def] by simp
  ultimately show ?thesis using r by simp
qed

lemma repr_small:
  assumes "0 \<le> m" "m \<le> 2 ^ 24"
  shows "bitlen (m * 2 ^ j) \<le> 24 \<or> 2 ^ (bitlen (m * 2 ^ j) - 24) dvd m * 2 ^ j"
proof (cases "m = 2 ^ 24")
  case True
  then have "m * 2 ^ j = (2 :: int) ^ (24 + j)" by (simp only: power_add)
  moreover have "bitlen (2 ^ (24 + j)) = Suc (24 + j)" by (rule bitlen_eqI) simp_all
  ultimately have "2 ^ (bitlen (m * 2 ^ j) - 24) dvd (2::int) ^ (24 + j)"
    by (simp only:) (rule le_imp_power_dvd, simp)
  with \<open>m * 2 ^ j = 2 ^ (24 + j)\<close> have "2 ^ (bitlen (m * 2 ^ j) - 24) dvd m * 2 ^ j"
    by (simp only:)
  then show ?thesis by (rule disjI2)
next
  case False
  with assms have "m * 2 ^ j < 2 ^ 24 * 2 ^ j" by simp
  then have "m * 2 ^ j < 2 ^ (24 + j)" by (simp only: power_add)
  then have "bitlen (m * 2 ^ j) \<le> 24 + j" using assms by (simp add: bitlen_le_iff)
  then have "bitlen (m * 2 ^ j) - 24 \<le> j" by simp
  then show ?thesis by (meson dvd_mult le_imp_power_dvd)
qed

lemma div_less_pow: "(a::int) < 2 ^ 24 * 2 ^ j \<Longrightarrow> a div 2 ^ j < 2 ^ 24"
proof -
  assume a: "a < 2 ^ 24 * 2 ^ j"
  have "a div 2 ^ j * 2 ^ j \<le> a" by (simp add: minus_mod_eq_div_mult [symmetric])
  with a have "a div 2 ^ j * 2 ^ j < 2 ^ 24 * 2 ^ j" by linarith
  then show ?thesis by (rule mult_right_less_imp_less) simp
qed

lemma f32_mag_repr:
  assumes "0 \<le> n" "0 < d"
  shows "0 \<le> f32_mag n d
    \<and> (bitlen (f32_mag n d) \<le> 24 \<or> 2 ^ (bitlen (f32_mag n d) - 24) dvd f32_mag n d)"
proof (cases "bitlen (n div d) \<le> 24")
  case True
  have q: "0 \<le> n div d" using assms by (simp add: pos_imp_zdiv_nonneg_iff)
  have "rnd_ne n d \<le> n div d + 1" "n div d \<le> rnd_ne n d" using rnd_ne_bounds [OF assms(2)] by auto
  moreover have "n div d < 2 ^ 24" using True q bitlen_le_iff by blast
  ultimately have "0 \<le> rnd_ne n d" "rnd_ne n d \<le> 2 ^ 24" using q by auto
  then show ?thesis using repr_small [of "rnd_ne n d" 0] True by (simp add: f32_mag_def)
next
  case False
  define j where "j = bitlen (n div d) - 24"
  have q: "0 \<le> n div d" using assms by (simp add: pos_imp_zdiv_nonneg_iff)
  have d: "0 < d * 2 ^ j" using assms by simp
  have qq: "n div (d * 2 ^ j) = n div d div 2 ^ j"
    using assms by (simp add: zdiv_zmult2_eq)
  have "n div d < 2 ^ (24 + j)" using False q bitlen_less [of "n div d"] by (simp add: j_def)
  then have "n div d < 2 ^ 24 * 2 ^ j" by (simp only: power_add)
  then have "n div (d * 2 ^ j) < 2 ^ 24"
    unfolding qq by (rule div_less_pow)
  moreover have "0 \<le> n div (d * 2 ^ j)" using assms by (simp add: pos_imp_zdiv_nonneg_iff)
  ultimately have "0 \<le> rnd_ne n (d * 2 ^ j)" "rnd_ne n (d * 2 ^ j) \<le> 2 ^ 24"
    using rnd_ne_bounds [OF d, of n] by auto
  then show ?thesis using repr_small [of "rnd_ne n (d * 2 ^ j)" j] False
    by (simp add: f32_mag_def Let_def j_def)
qed

lemma f32_round_wf: "0 \<le> n \<Longrightarrow> 0 < d \<Longrightarrow> f32_wf (f32_round s n d)"
  using f32_mag_repr [of n d] by (simp add: f32_round_def Let_def f32_repr_def)

lemma f32_round_exact: "f32_repr k \<Longrightarrow> 0 < d \<Longrightarrow> f32_round s (k * d) d = F32_Fin s k"
  by (simp add: f32_round_def f32_mag_exact) (simp add: f32_repr_def)


section \<open>Decimal text reads back\<close>

lemma digit_no_dot: "list_all is_digit s \<Longrightarrow> \<forall>c \<in> set s. c \<noteq> CHR ''.''"
proof -
  have "\<And>c. is_digit c \<Longrightarrow> c \<noteq> CHR ''.''" by (auto simp: is_digit_def)
  then show "list_all is_digit s \<Longrightarrow> \<forall>c \<in> set s. c \<noteq> CHR ''.''" by (simp add: list_all_iff)
qed

lemma split_point_digits: "list_all is_digit s \<Longrightarrow> split_point s = (s, [])"
proof -
  assume "list_all is_digit s"
  then have "\<forall>c \<in> set s. c \<noteq> CHR ''.''" by (rule digit_no_dot)
  then have "dropWhile (\<lambda>c. c \<noteq> CHR ''.'') s = []" "takeWhile (\<lambda>c. c \<noteq> CHR ''.'') s = s"
    by (simp_all only: dropWhile_eq_Nil_conv takeWhile_eq_all_conv)
  then show ?thesis by (simp only: split_point_def list.sel)
qed

lemma split_point_dot: "list_all is_digit i \<Longrightarrow> split_point (i @ CHR ''.'' # f) = (i, f)"
proof -
  assume "list_all is_digit i"
  then have "\<forall>c \<in> set i. c \<noteq> CHR ''.''" by (rule digit_no_dot)
  then show ?thesis
    by (simp add: split_point_def takeWhile_append2 dropWhile_append2)
qed

lemma dec_render_0 [simp]: "dec_render c 0 = int_dec c"
  by (simp add: dec_render_def Let_def)

lemma dec_render_split:
  assumes "0 \<le> c" "0 < p"
  obtains i f where "dec_render c p = i @ CHR ''.'' # f" "list_all is_digit i" "list_all is_digit f"
    "i \<noteq> []" "length f = p" "dec_val (i @ f) = c"
proof (cases "length (int_dec c) \<le> p")
  case True
  define f where "f = replicate (p - length (int_dec c)) CHR ''0'' @ int_dec c"
  have "dec_render c p = ''0'' @ CHR ''.'' # f"
    using True assms by (simp add: dec_render_def Let_def f_def)
  moreover have "list_all is_digit ''0''" by (simp add: is_digit_def)
  moreover have "list_all is_digit f" by (simp add: f_def list_all_append) (simp add: list_all_iff is_digit_def)
  moreover have "length f = p" using True by (simp add: f_def)
  moreover have "dec_val (''0'' @ f) = c"
    using assms(1) dec_val_zeros [of 1] by (simp only: f_def dec_val_append) simp
  ultimately show ?thesis using that by blast
next
  case False
  define i f where "i = take (length (int_dec c) - p) (int_dec c)"
    and "f = drop (length (int_dec c) - p) (int_dec c)"
  have "dec_render c p = i @ CHR ''.'' # f"
    using False assms by (simp add: dec_render_def Let_def i_def f_def)
  moreover have "list_all is_digit i" "list_all is_digit f"
    using int_dec_digits [of c] by (simp_all add: i_def f_def list_all_iff) (meson in_set_takeD in_set_dropD)+
  moreover have "i \<noteq> []" "length f = p" using False by (simp_all add: i_def f_def)
  moreover have "dec_val (i @ f) = c" using assms(1) by (simp add: i_def f_def)
  ultimately show ?thesis using that by blast
qed

lemma digit_no_sign: "is_digit c \<Longrightarrow> c \<noteq> CHR ''-'' \<and> c \<noteq> CHR ''+''"
  by (auto simp: is_digit_def)

lemma f32_parse_unsigned: "is_digit c \<Longrightarrow> f32_parse (c # s) = f32_mant False (c # s)"
  using digit_no_sign [of c] by (simp add: f32_parse_def)

lemma f32_parse_minus: "f32_parse (CHR ''-'' # s) = f32_mant True s"
  by (simp add: f32_parse_def)

lemma f32_mant_digits:
  "list_all is_digit s \<Longrightarrow> s \<noteq> [] \<Longrightarrow> f32_mant neg s = Some (f32_of_dec neg (dec_val s) 0)"
  by (simp add: f32_mant_def split_point_digits)

lemma f32_mant_dot:
  "list_all is_digit i \<Longrightarrow> list_all is_digit f \<Longrightarrow> i \<noteq> [] \<Longrightarrow>
   f32_mant neg (i @ CHR ''.'' # f) = Some (f32_of_dec neg (dec_val (i @ f)) (length f))"
  by (simp add: f32_mant_def split_point_dot)

lemma f32_parse_mant:
  "list_all is_digit i \<Longrightarrow> i \<noteq> [] \<Longrightarrow> f32_parse (i @ s) = f32_mant False (i @ s)"
  by (cases i) (simp_all add: f32_parse_unsigned)

section \<open>The shortest digits read back\<close>

lemma reads_back_round:
  assumes "reads_back k c j" "f32_repr k"
  shows "f32_round s (c * ten_num j * 2 ^ 149) (ten_den j) = F32_Fin s k"
  using assms by (simp add: reads_back_def f32_round_def f32_repr_def)

lemma short_at_Some:
  assumes "short_at k j = Some c" "0 \<le> k"
  shows "reads_back k c j \<and> 0 \<le> c"
proof -
  have "0 \<le> (k * ten_den j) div (ten_num j * 2 ^ 149)"
    using assms(2) by (simp add: ten_den_def ten_num_def pos_imp_zdiv_nonneg_iff)
  then show ?thesis
    using assms(1) by (auto simp: short_at_def Let_def split: if_splits)
qed

lemma short_search_Some:
  "short_search k n j = Some (c, i) \<Longrightarrow> 0 \<le> k \<Longrightarrow> reads_back k c i \<and> 0 \<le> c"
  by (induction k n j rule: short_search.induct)
     (auto split: option.splits dest: short_at_Some)

text \<open>At \<open>10^-149\<close> the value itself is a candidate, so the search always ends with one.\<close>

lemma short_at_exact: "f32_repr k \<Longrightarrow> short_at k (-149) \<noteq> None"
proof -
  assume k: "f32_repr k"
  define A B :: int where "A = 5 ^ 149" and "B = 2 ^ 149"
  have B: "0 < B" and A: "0 < A" by (simp_all add: A_def B_def)
  have "(10::int) ^ 149 = 5 ^ 149 * 2 ^ 149" by (simp only: power_mult_distrib [symmetric]) simp
  moreover have "ten_den (-149) = 10 ^ 149" by (simp add: ten_den_def)
  ultimately have den: "ten_den (-149) = A * B" by (simp only: A_def B_def)
  have num: "ten_num (-149) = 1" by (simp add: ten_num_def)
  have lo: "(k * (A * B)) div (1 * B) = k * A" using B by simp
  have "reads_back k (k * A) (-149)"
    unfolding reads_back_def den num B_def [symmetric]
    using f32_mag_exact [OF k, of "A * B"] A B by (simp add: mult.assoc)
  then show ?thesis
    unfolding short_at_def den num B_def [symmetric] lo Let_def by (simp split: if_split)
qed

lemma short_search_ends:
  assumes "f32_repr k" "j = int n - 150" "0 < n"
  shows "short_search k n j \<noteq> None"
  using assms(2,3)
proof (induction n arbitrary: j)
  case (Suc n)
  show ?case
  proof (cases "n = 0")
    case True
    with Suc.prems assms(1) show ?thesis by (simp add: short_at_exact split: option.splits)
  next
    case False
    with Suc show ?thesis by (simp split: option.splits)
  qed
qed simp

lemma f32_digits_reads:
  assumes "f32_repr k"
  shows "f32_parse (f32_digits k) = Some (F32_Fin False k)"
    and "f32_parse (CHR ''-'' # f32_digits k) = Some (F32_Fin True k)"
proof -
  have k: "0 \<le> k" using assms by (simp add: f32_repr_def)
  obtain c j where cj: "short_search k (short_start k + 150) (int (short_start k)) = Some (c, j)"
    using short_search_ends [OF assms, of "int (short_start k)" "short_start k + 150"] by auto
  with k have c: "reads_back k c j" "0 \<le> c" using short_search_Some by blast+
  note r = reads_back_round [OF c(1) assms]
  have "f32_parse (f32_digits k) = Some (F32_Fin False k) \<and>
        f32_parse (CHR ''-'' # f32_digits k) = Some (F32_Fin True k)"
  proof (cases "0 \<le> j")
    case True
    define s where "s = int_dec c @ (if c = 0 then [] else replicate (nat j) CHR ''0'')"
    have s: "f32_digits k = s" using cj True by (simp add: f32_digits_def s_def)
    have "list_all is_digit s" by (simp add: s_def) (simp add: list_all_iff is_digit_def)
    moreover have "s \<noteq> []" by (simp add: s_def)
    moreover have "dec_val s = c * 10 ^ nat j" using c(2) by (auto simp: s_def dec_val_append)
    ultimately show ?thesis
      using r True unfolding s by (simp add: f32_parse_minus f32_parse_mant [of s "[]", simplified] f32_mant_digits f32_of_dec_def ten_num_def ten_den_def)
  next
    case False
    then have "0 < nat (- j)" by simp
    then obtain i f where i: "dec_render c (nat (- j)) = i @ CHR ''.'' # f" "list_all is_digit i"
      "list_all is_digit f" "i \<noteq> []" "length f = nat (- j)" "dec_val (i @ f) = c"
      using dec_render_split [OF c(2)] by metis
    then show ?thesis
      using r False cj by (simp add: f32_digits_def f32_parse_minus f32_parse_mant f32_mant_dot f32_of_dec_def ten_num_def ten_den_def)
  qed
  then show "f32_parse (f32_digits k) = Some (F32_Fin False k)"
    and "f32_parse (CHR ''-'' # f32_digits k) = Some (F32_Fin True k)" by auto
qed

lemma f32_display_reads:
  "f32_repr k \<Longrightarrow> f32_parse (f32_display (F32_Fin s k)) = Some (F32_Fin s k)"
  by (cases s) (simp_all add: f32_digits_reads)

text \<open>A decimal point and a zero at the end of whole numbers do not change the value.\<close>

lemma rnd_ne_scale: "0 < c \<Longrightarrow> rnd_ne (c * n) (c * d) = rnd_ne n d"
proof -
  assume c: "0 < c"
  have "2 * (c * (n mod d)) < c * d \<longleftrightarrow> 2 * (n mod d) < d"
    using c mult_less_cancel_left_pos [of c "2 * (n mod d)" d] by (simp add: mult.left_commute)
  moreover have "c * d < 2 * (c * (n mod d)) \<longleftrightarrow> d < 2 * (n mod d)"
    using c mult_less_cancel_left_pos [of c d "2 * (n mod d)"] by (simp add: mult.left_commute)
  ultimately show ?thesis using c by (simp add: rnd_ne_def Let_def mult_mod_right [symmetric])
qed

lemma f32_round_scale: "0 < c \<Longrightarrow> f32_round s (c * n) (c * d) = f32_round s n d"
proof -
  assume c: "0 < c"
  have "rnd_ne (c * n) (c * d * e) = rnd_ne n (d * e)" for e
    using rnd_ne_scale [OF c, of n "d * e"] by (simp only: mult.assoc)
  then show ?thesis using c by (simp add: f32_round_def f32_mag_def Let_def rnd_ne_scale)
qed

lemma f32_mant_point_zero:
  assumes "list_all is_digit ds" "ds \<noteq> []"
  shows "f32_mant neg (ds @ ''.0'') = f32_mant neg ds"
proof -
  have z: "list_all is_digit ''0''" by (simp add: is_digit_def)
  have "dec_val (ds @ ''0'') = 10 * dec_val ds" by (simp add: digit_val_def)
  then have "f32_of_dec neg (dec_val (ds @ ''0'')) 1 = f32_of_dec neg (dec_val ds) 0"
    using f32_round_scale [of 10 neg "dec_val ds * 2 ^ 149" 1]
    by (simp only: f32_of_dec_def power_one_right power_0 mult.assoc) simp
  then show ?thesis
    using f32_mant_dot [OF assms(1) z assms(2), of neg] f32_mant_digits [OF assms(1,2), of neg] by simp
qed

lemma f32_digits_shape:
  assumes "f32_repr k"
  obtains (whole) "list_all is_digit (f32_digits k)" "f32_digits k \<noteq> []"
  | (point) i f where "f32_digits k = i @ CHR ''.'' # f" "list_all is_digit i" "list_all is_digit f"
      "i \<noteq> []" "f \<noteq> []"
proof -
  have k: "0 \<le> k" using assms by (simp add: f32_repr_def)
  obtain c j where cj: "short_search k (short_start k + 150) (int (short_start k)) = Some (c, j)"
    using short_search_ends [OF assms, of "int (short_start k)" "short_start k + 150"] by auto
  with k have c: "0 \<le> c" using short_search_Some by blast
  show ?thesis
  proof (cases "0 \<le> j")
    case True
    have "f32_digits k = int_dec c @ (if c = 0 then [] else replicate (nat j) CHR ''0'')"
      using cj True by (simp add: f32_digits_def)
    moreover have "list_all is_digit (replicate (nat j) CHR ''0'')"
      by (simp add: list_all_iff is_digit_def)
    ultimately show ?thesis using whole by simp
  next
    case False
    then have p: "0 < nat (- j)" by simp
    obtain i f where i: "dec_render c (nat (- j)) = i @ CHR ''.'' # f" "list_all is_digit i"
      "list_all is_digit f" "i \<noteq> []" "length f = nat (- j)"
      using dec_render_split [OF c p] by metis
    moreover have "f \<noteq> []" using i(5) p by auto
    moreover have "f32_digits k = dec_render c (nat (- j))" using cj False by (simp add: f32_digits_def)
    ultimately show ?thesis using point by simp
  qed
qed

end
