(* ===== verification/Types.thy ===== *)
theory Types
  imports F32
begin

text \<open>
  The core data types of \<open>factum-core/src/types.rs\<close>: identifiers, validity windows, provenance,
  literals, terms, predicates, permission tags and the knowledge node, with the operations of that
  file. The newtypes around strings and numbers are synonyms.

  Two library types appear as numbers. \<open>NaiveDate\<close> is the number of days since 1970-01-01 and
  \<open>DateTime<Utc>\<close> the number of nanoseconds since the Unix epoch. How \<open>chrono\<close> prints and parses
  them is not code of the repository: it is the record \<open>chrono\<close>, an argument of every definition
  that prints or parses a date.
\<close>

type_synonym node_id = string
type_synonym entity_id = string
type_synonym doc_id = string
type_synonym principal = string
type_synonym rule_id = string
type_synonym date = int
type_synonym datetime = int

record chrono =
  parse_date :: "string \<Rightarrow> date option"
  fmt_date :: "date \<Rightarrow> string"
  parse_datetime :: "string \<Rightarrow> datetime option"
  fmt_rfc3339 :: "datetime \<Rightarrow> string"
  overflow_checks :: bool
  \<comment> \<open>of the build: whether integer arithmetic that overflows panics (debug, \<open>cargo fuzz\<close>) or wraps (release)\<close>
  hash_rank :: "string \<Rightarrow> nat"
  \<comment> \<open>of the run: where the hash of a key puts it when a \<open>HashMap<String, _>\<close> is visited\<close>

definition release :: "chrono \<Rightarrow> chrono" where
  \<comment> \<open>the same library in a release build\<close>
  "release C = C\<lparr>overflow_checks := False\<rparr>"

lemma release_simps [simp]:
  "parse_date (release C) = parse_date C" "fmt_date (release C) = fmt_date C"
  "parse_datetime (release C) = parse_datetime C" "fmt_rfc3339 (release C) = fmt_rfc3339 C"
  "overflow_checks (release C) = False" "hash_rank (release C) = hash_rank C"
  by (simp_all add: release_def)

definition mul_u64 :: "bool \<Rightarrow> u64 \<Rightarrow> u64 \<Rightarrow> u64 option" where
  \<comment> \<open>\<open>a * b\<close>; \<open>None\<close> is the panic of a build with overflow checks\<close>
  "mul_u64 checks a b = (if checks \<and> 2 ^ 64 \<le> uint a * uint b then None else Some (a * b))"

definition midnight :: "date \<Rightarrow> datetime" where
  \<comment> \<open>\<open>and_hms_opt(0, 0, 0).unwrap().and_utc()\<close>\<close>
  "midnight d = d * 86400 * 1000000000"

definition timestamp :: "datetime \<Rightarrow> int" where
  \<comment> \<open>\<open>DateTime::timestamp\<close>: whole seconds since the epoch, rounded down\<close>
  "timestamp t = t div 1000000000"

record span =
  sp_start :: u32
  sp_end :: u32

record model_ref =
  m_name :: string
  m_version :: string

section \<open>Errors\<close>

datatype core_error =
    ConfidenceOutOfRange f32
  | AuthorityOutOfRange f32
  | InvalidDecimal string
  | DecimalOverflow
  | MorphemeNotFound string
  | MissingModelRef

section \<open>Validity\<close>

datatype validity = Forever | Window datetime "datetime option"

fun is_valid_at :: "validity \<Rightarrow> datetime \<Rightarrow> bool" where
  "is_valid_at Forever t = True"
| "is_valid_at (Window from until) t =
     (from \<le> t \<and> (case until of None \<Rightarrow> True | Some u \<Rightarrow> t < u))"

section \<open>Provenance\<close>

datatype provenance =
    Verbatim doc_id span
  | Summary doc_id span
  | Extracted doc_id span model_ref
  | Derived node_id rule_id
  | Asserted principal

definition default_provenance :: provenance where
  "default_provenance = Asserted ''system''"

section \<open>Confidence and authority\<close>

definition f32_zero :: f32 where "f32_zero = F32_Fin False 0"
definition f32_one :: f32 where "f32_one = F32_Fin False (2 ^ 149)"

definition in_unit :: "f32 \<Rightarrow> bool" where
  \<comment> \<open>\<open>(0.0..=1.0).contains(&v)\<close>\<close>
  "in_unit v \<longleftrightarrow> f32_le f32_zero v \<and> f32_le v f32_one"

definition confidence_new :: "f32 \<Rightarrow> core_error + f32" where
  "confidence_new v = (if in_unit v then Inr v else Inl (ConfidenceOutOfRange v))"

definition authority_new :: "f32 \<Rightarrow> core_error + f32" where
  "authority_new v = (if in_unit v then Inr v else Inl (AuthorityOutOfRange v))"

definition confidence_certain :: f32 where "confidence_certain = f32_one"
definition authority_max :: f32 where "authority_max = f32_one"
definition default_confidence :: f32 where "default_confidence = f32_lit 60 2"
definition default_authority :: f32 where "default_authority = f32_lit 5 1"

section \<open>Literals\<close>

datatype literal =
    LDec i128 u8
  | LStr string
  | LDate date
  | LDur int \<comment> \<open>\<open>std::time::Duration\<close>, its number of nanoseconds (not negative)\<close>
  | LBool bool
  | LUri string

text \<open>\<open>str::trim\<close>: the UTF-8 encodings of the characters with the Unicode property White\_Space.\<close>

definition unicode_ws :: "nat list list" where
  "unicode_ws =
     map (\<lambda>b. [b]) [9, 10, 11, 12, 13, 32] @
     [[0xC2, 0x85], [0xC2, 0xA0], [0xE1, 0x9A, 0x80]] @
     map (\<lambda>b. [0xE2, 0x80, b])
       [0x80, 0x81, 0x82, 0x83, 0x84, 0x85, 0x86, 0x87, 0x88, 0x89, 0x8A, 0xA8, 0xA9, 0xAF] @
     [[0xE2, 0x81, 0x9F], [0xE3, 0x80, 0x80]]"

definition ws_len :: "nat list list \<Rightarrow> string \<Rightarrow> nat" where
  \<comment> \<open>how many bytes of the text a leading white-space character takes, 0 without one\<close>
  "ws_len ws s =
     (case find (\<lambda>w. take (length w) (map of_char (take 3 s)) = w) ws of
        None \<Rightarrow> 0 | Some w \<Rightarrow> length w)"

function strip_ws :: "nat list list \<Rightarrow> string \<Rightarrow> string" where
  "strip_ws ws s = (if ws_len ws s = 0 \<or> s = [] then s else strip_ws ws (drop (ws_len ws s) s))"
  by pat_completeness auto
termination
  by (relation "measure (\<lambda>(ws, s). length s)") auto

declare strip_ws.simps [simp del]

definition trim :: "string \<Rightarrow> string" where
  "trim s = rev (strip_ws (map rev unicode_ws) (rev (strip_ws unicode_ws s)))"

definition strip_sign :: "string \<Rightarrow> int \<times> string" where
  "strip_sign s =
     (case s of
        [] \<Rightarrow> (1, [])
      | c # r \<Rightarrow> if c = CHR ''-'' then (-1, r) else if c = CHR ''+'' then (1, r) else (1, s))"

text \<open>
  \<open>Literal::dec_from_str\<close>. The scale is the number of fractional digits \<^emph>\<open>as u8\<close>, that is,
  modulo 256. \<open>combined.parse::<i128>()\<close> fails at \<open>2^127\<close>; multiplying by the sign cannot
  overflow afterwards, because the magnitude is below \<open>2^127\<close>.
\<close>

definition dec_from_str :: "string \<Rightarrow> core_error + literal" where
  "dec_from_str s0 =
     (let s = trim s0; (sign, rest) = strip_sign s; (i, f) = split_point rest in
      if i = [] \<and> f = [] then Inl (InvalidDecimal s)
      else if \<not> list_all is_digit i \<or> \<not> list_all is_digit f then Inl (InvalidDecimal s)
      else let scale = word_of_nat (length f); m = dec_val (i @ f) in
        if 2 ^ 127 \<le> m then Inl (InvalidDecimal s)
        else if sign * m < - (2 ^ 127) \<or> 2 ^ 127 \<le> sign * m then Inl DecimalOverflow
        else Inr (LDec (word_of_int (sign * m)) scale))"

definition dec_canonical :: "i128 \<Rightarrow> u8 \<Rightarrow> string" where
  "dec_canonical m sc =
     (let r = dec_render \<bar>sint m\<bar> (unat sc) in if sint m < 0 then ''-'' @ r else r)"

definition escape_min :: "string \<Rightarrow> string" where
  \<comment> \<open>\<open>replace('\\', "\\\\").replace('"', "\\\"")\<close>\<close>
  "escape_min s = concat (map (\<lambda>c. if c = CHR 0x5C then [CHR 0x5C, CHR 0x5C]
                                   else if c = CHR 0x22 then [CHR 0x5C, CHR 0x22] else [c]) s)"

fun to_canonical_string :: "chrono \<Rightarrow> literal \<Rightarrow> string" where
  "to_canonical_string C (LDec m sc) = dec_canonical m sc"
| "to_canonical_string C (LStr s) = [CHR 0x22] @ escape_min s @ [CHR 0x22]"
| "to_canonical_string C (LDate d) = fmt_date C d"
| "to_canonical_string C (LDur d) = int_dec d @ ''ns''"
| "to_canonical_string C (LBool b) = (if b then ''true'' else ''false'')"
| "to_canonical_string C (LUri u) = ''<'' @ u @ ''>''"

section \<open>Terms and predicates\<close>

datatype predicate_head = HeadId u32 | HeadName string

datatype trm =
    TVar string
  | TEnt entity_id
  | TLit literal
  | TCompound predicate
  | TList "trm list"
and predicate = Predicate (pr_head: predicate_head) (pr_args: "trm list") (pr_named: "(string \<times> trm) list")

definition predicate_new :: "predicate_head \<Rightarrow> predicate" where
  "predicate_new h = Predicate h [] []"

definition with_args :: "trm list \<Rightarrow> predicate \<Rightarrow> predicate" where
  "with_args as p = Predicate (pr_head p) as (pr_named p)"

definition with_named :: "string \<Rightarrow> trm \<Rightarrow> predicate \<Rightarrow> predicate" where
  "with_named k v p = Predicate (pr_head p) (pr_args p) (pr_named p @ [(k, v)])"

section \<open>Permission tags\<close>

unbundle bit_operations_syntax

definition PUBLIC :: u32 where "PUBLIC = 1"
definition INTERNAL :: u32 where "INTERNAL = 2"
definition CONFIDENTIAL :: u32 where "CONFIDENTIAL = 4"
definition RESTRICTED :: u32 where "RESTRICTED = 8"

definition tag_grants :: "u32 \<Rightarrow> u32 \<Rightarrow> bool" where
  "tag_grants tag role_mask \<longleftrightarrow> tag AND role_mask \<noteq> 0"

definition tag_union :: "u32 \<Rightarrow> u32 \<Rightarrow> u32" where
  "tag_union a b = a OR b"

section \<open>Nodes\<close>

datatype node_status = Active | Retracted | Pending

record node =
  nd_id :: node_id
  nd_pred :: predicate
  nd_validity :: validity
  nd_prov :: provenance
  nd_conf :: f32
  nd_auth :: f32
  nd_perm :: u32
  nd_deps :: "node_id list"
  nd_status :: node_status
  nd_note :: "string option"

definition node_new :: "node_id \<Rightarrow> predicate \<Rightarrow> node" where
  "node_new i p =
     \<lparr>nd_id = i, nd_pred = p, nd_validity = Forever, nd_prov = default_provenance,
      nd_conf = default_confidence, nd_auth = default_authority, nd_perm = PUBLIC,
      nd_deps = [], nd_status = Active, nd_note = None\<rparr>"

definition with_validity :: "validity \<Rightarrow> node \<Rightarrow> node" where "with_validity v n = n\<lparr>nd_validity := v\<rparr>"
definition with_provenance :: "provenance \<Rightarrow> node \<Rightarrow> node" where "with_provenance p n = n\<lparr>nd_prov := p\<rparr>"
definition with_confidence :: "f32 \<Rightarrow> node \<Rightarrow> node" where "with_confidence c n = n\<lparr>nd_conf := c\<rparr>"
definition with_authority :: "f32 \<Rightarrow> node \<Rightarrow> node" where "with_authority a n = n\<lparr>nd_auth := a\<rparr>"
definition with_permissions :: "u32 \<Rightarrow> node \<Rightarrow> node" where "with_permissions p n = n\<lparr>nd_perm := p\<rparr>"
definition with_dep :: "node_id \<Rightarrow> node \<Rightarrow> node" where "with_dep d n = n\<lparr>nd_deps := nd_deps n @ [d]\<rparr>"
definition with_note :: "string \<Rightarrow> node \<Rightarrow> node" where "with_note s n = n\<lparr>nd_note := Some s\<rparr>"

definition is_active_valid_at :: "node \<Rightarrow> datetime \<Rightarrow> bool" where
  "is_active_valid_at n t \<longleftrightarrow> nd_status n = Active \<and> is_valid_at (nd_validity n) t"

definition is_now :: "datetime \<Rightarrow> validity \<Rightarrow> bool" where
  \<comment> \<open>the clock, \<open>Utc::now()\<close>, is the first argument\<close>
  "is_now now v = is_valid_at v now"

definition is_active_valid :: "datetime \<Rightarrow> node \<Rightarrow> bool" where
  "is_active_valid now n \<longleftrightarrow> nd_status n = Active \<and> is_now now (nd_validity n)"

text \<open>\<open>impl PartialEq for Node\<close>: status and note do not take part; the floats compare as floats.\<close>

definition node_eq :: "node \<Rightarrow> node \<Rightarrow> bool" where
  "node_eq a b \<longleftrightarrow>
     nd_id a = nd_id b \<and> nd_pred a = nd_pred b \<and> nd_validity a = nd_validity b
     \<and> nd_prov a = nd_prov b \<and> f32_eq (nd_conf a) (nd_conf b) \<and> f32_eq (nd_auth a) (nd_auth b)
     \<and> nd_perm a = nd_perm b \<and> nd_deps a = nd_deps b"

section \<open>Trimming and decimal literals\<close>

lemma ws_len_first:
  assumes "\<And>w. w \<in> set ws \<Longrightarrow> w \<noteq> [] \<and> hd w \<noteq> of_char c"
  shows "ws_len ws (c # s) = 0"
proof -
  have "find (\<lambda>w. take (length w) (map of_char (take 3 (c # s))) = w) ws = None"
  proof (unfold find_None_iff, intro notI)
    assume "\<exists>w. w \<in> set ws \<and> take (length w) (map of_char (take 3 (c # s))) = w"
    then obtain w where w: "w \<in> set ws" "take (length w) (map of_char (take 3 (c # s))) = w" by blast
    with assms [OF w(1)] show False by (cases w) auto
  qed
  then show ?thesis by (simp add: ws_len_def)
qed

definition plain_byte :: "char \<Rightarrow> bool" where
  \<comment> \<open>an ASCII byte that is not white space\<close>
  "plain_byte c \<longleftrightarrow> 0x20 < (of_char c :: nat) \<and> (of_char c :: nat) < 0x80"

lemma plain_byte_ends:
  assumes "plain_byte c"
  shows "ws_len unicode_ws (c # s) = 0" "ws_len (map rev unicode_ws) (c # s) = 0"
  using assms
  by (auto intro!: ws_len_first simp: unicode_ws_def plain_byte_def simp del: of_char_of)

lemma trim_plain:
  assumes "s \<noteq> []" "plain_byte (hd s)" "plain_byte (last s)"
  shows "trim s = s"
proof -
  obtain c t where s: "s = c # t" using assms(1) by (cases s) auto
  obtain d u where r: "rev s = d # u" "d = last s" using assms(1)
    by (metis last_rev list.collapse rev_is_Nil_conv rev_rev_ident hd_rev)
  have "ws_len unicode_ws s = 0" using plain_byte_ends(1) [OF assms(2), of t] s by simp
  then have "strip_ws unicode_ws s = s" by (subst strip_ws.simps) simp
  moreover have "ws_len (map rev unicode_ws) (rev s) = 0"
    using plain_byte_ends(2) [OF assms(3), of u] unfolding r by simp
  then have "strip_ws (map rev unicode_ws) (rev s) = rev s" by (subst strip_ws.simps) simp
  ultimately show ?thesis by (simp add: trim_def)
qed

lemma digit_plain: "is_digit c \<Longrightarrow> plain_byte c"
  by (auto simp: is_digit_def plain_byte_def)

lemma dec_from_str_digits:
  assumes "list_all is_digit i" "list_all is_digit f" "i \<noteq> []" "t = (if f = [] then i else i @ CHR ''.'' # f)"
  shows "dec_from_str (if neg then CHR ''-'' # t else t) =
    (if dec_val (i @ f) < 2 ^ 127
     then Inr (LDec (word_of_int ((if neg then -1 else 1) * dec_val (i @ f))) (word_of_nat (length f)))
     else Inl (InvalidDecimal (if neg then CHR ''-'' # t else t)))"
proof -
  let ?s = "if neg then CHR ''-'' # t else t"
  have hd: "is_digit (hd t)" using assms(1,3,4) by (cases i) auto
  have ne: "t \<noteq> []" using assms(3,4) by auto
  have la: "is_digit (last t)"
    using assms(1,2,3,4) by (auto simp: list_all_iff)
  have "plain_byte (hd ?s)" using digit_plain [OF hd] by (simp add: plain_byte_def)
  moreover have "plain_byte (last ?s)" using la ne by (simp add: digit_plain)
  ultimately have tr: "trim ?s = ?s" using ne by (intro trim_plain) auto
  have ss: "strip_sign ?s = (if neg then -1 else 1, t)"
    using hd ne by (cases t) (auto simp: strip_sign_def dest: digit_no_sign)
  have sp: "split_point t = (i, f)"
    using assms(1,2,4) by (auto simp: split_point_digits split_point_dot)
  have nn: "0 \<le> dec_val (i @ f)" using assms(1,2) by (intro dec_val_nonneg) simp
  show ?thesis
    using assms(1-3) nn by (simp add: dec_from_str_def tr ss sp Let_def)
qed

lemma sint_bounds_128: "- (2 ^ 127) \<le> sint (m :: i128)" "sint (m :: i128) < 2 ^ 127"
  using sint_greater_eq [of m] sint_less [of m] by simp_all

text \<open>The magnitude of the least mantissa is one too large to be read.\<close>

lemma dec_from_canonical:
  "dec_from_str (dec_canonical m sc) =
    (if sint m = - (2 ^ 127) then Inl (InvalidDecimal (dec_canonical m sc)) else Inr (LDec m sc))"
proof -
  define neg where "neg = (sint m < 0)"
  have c: "0 \<le> \<bar>sint m\<bar>" "\<bar>sint m\<bar> < 2 ^ 127 \<longleftrightarrow> sint m \<noteq> - (2 ^ 127)"
    using sint_bounds_128 [of m] by auto
  have sg: "(if neg then -1 else 1) * \<bar>sint m\<bar> = sint m" by (simp add: neg_def)
  obtain i f where f: "list_all is_digit i" "list_all is_digit f" "i \<noteq> []" "length f = unat sc"
    "dec_val (i @ f) = \<bar>sint m\<bar>" "dec_render \<bar>sint m\<bar> (unat sc) = (if f = [] then i else i @ CHR ''.'' # f)"
  proof (cases "unat sc = 0")
    case True
    with that [of "int_dec \<bar>sint m\<bar>" "[]"] c show ?thesis by simp
  next
    case False
    then show ?thesis
      using that dec_render_split [OF c(1), of "unat sc"] by (metis length_0_conv not_gr_zero)
  qed
  have "dec_canonical m sc = (if neg then CHR ''-'' # dec_render \<bar>sint m\<bar> (unat sc)
      else dec_render \<bar>sint m\<bar> (unat sc))"
    by (simp add: dec_canonical_def neg_def)
  then show ?thesis
    using dec_from_str_digits [OF f(1,2,3) f(6), of neg] c(2) by (simp only: f(4,5) sg) simp
qed

lemma dec_roundtrip_aux:
  "sint m \<noteq> - (2 ^ 127) \<Longrightarrow> dec_from_str (dec_canonical m sc) = Inr (LDec m sc)"
  by (simp add: dec_from_canonical)

end
