(* ===== verification/Lexer.thy ===== *)
theory Lexer
  imports Types
begin

text \<open>
  The S-expression lexer, \<open>factum-core/src/lexer.rs\<close>. The state is the text that is left
  (\<open>src[pos..]\<close>) with the position counters; \<open>line\<close> and \<open>col\<close> are \<open>u32\<close> and wrap as in a
  release build. Every loop consumes at least one byte per round, which is its termination measure.
\<close>

section \<open>Tokens, errors, state\<close>

datatype token_kind =
    LParen | RParen | LBracket | RBracket
  | Symbol string
  | VarTok string
  | Keyword string
  | StrTok string
  | Number string
  | DateTok string
  | DurationTok string
  | BoolTok bool
  | UriTok string
  | EntityTok string
  | Eof

record token =
  tk_kind :: token_kind
  tk_offset :: nat
  tk_line :: u32
  tk_col :: u32

datatype lex_msg =
    TooManyTokens
  | UnterminatedString
  | UnterminatedEscape
  | InvalidUtf8
  | TruncatedUtf8
  | VarNameExpected
  | KeywordNameExpected
  | UnterminatedUri
  | EntityNameExpected
  | ExpectedDate
  | ExpectedParenAfterDate
  | ExpectedDur
  | ExpectedParenAfterDur
  | UnknownHashPrefix
  | MultiDotNumber string
  | UnexpectedCharacter string

record lex_error =
  le_message :: lex_msg
  le_offset :: nat
  le_line :: u32
  le_col :: u32

record lexer =
  lx_rest :: string
  lx_pos :: nat
  lx_line :: u32
  lx_col :: u32

definition lexer_new :: "string \<Rightarrow> lexer" where
  "lexer_new src = \<lparr>lx_rest = src, lx_pos = 0, lx_line = 1, lx_col = 1\<rparr>"

definition make_token :: "token_kind \<Rightarrow> lexer \<Rightarrow> token" where
  "make_token k s = \<lparr>tk_kind = k, tk_offset = lx_pos s, tk_line = lx_line s, tk_col = lx_col s\<rparr>"

definition err_at :: "lex_msg \<Rightarrow> lexer \<Rightarrow> lex_error" where
  "err_at m s = \<lparr>le_message = m, le_offset = lx_pos s, le_line = lx_line s, le_col = lx_col s\<rparr>"

definition advance :: "lexer \<Rightarrow> lexer" where
  "advance s = s\<lparr>lx_rest := tl (lx_rest s), lx_pos := lx_pos s + 1, lx_col := lx_col s + 1\<rparr>"

definition peek :: "lexer \<Rightarrow> char option" where
  "peek s = (case lx_rest s of [] \<Rightarrow> None | c # _ \<Rightarrow> Some c)"

definition peek_at :: "lexer \<Rightarrow> nat \<Rightarrow> char option" where
  "peek_at s k = (if k < length (lx_rest s) then Some (lx_rest s ! k) else None)"

lemma advance_sel [simp]:
  "lx_rest (advance s) = tl (lx_rest s)"
  "lx_pos (advance s) = lx_pos s + 1"
  by (simp_all add: advance_def)

lemma advance_pow_rest [simp]: "lx_rest ((advance ^^ n) s) = drop n (lx_rest s)"
  by (induction n arbitrary: s) (simp_all add: drop_Suc funpow_swap1 tl_drop)

lemma peek_Some [simp]: "peek s = Some c \<longleftrightarrow> (\<exists>t. lx_rest s = c # t)"
  by (simp add: peek_def split: list.splits)

lemma peek_None [simp]: "peek s = None \<longleftrightarrow> lx_rest s = []"
  by (simp add: peek_def split: list.splits)

section \<open>White space and comments\<close>

definition is_blank :: "char \<Rightarrow> bool" where
  "is_blank c \<longleftrightarrow> c = CHR '' '' \<or> c = CHR 0x09 \<or> c = CHR 0x0D"

function skip_ws :: "lexer \<Rightarrow> lexer" where
  "skip_ws s =
     (case peek s of
        None \<Rightarrow> s
      | Some c \<Rightarrow>
          if is_blank c then skip_ws (advance s)
          else if c = CHR 0x0A
          then skip_ws ((advance s)\<lparr>lx_line := lx_line s + 1, lx_col := 1\<rparr>)
          else s)"
  by pat_completeness auto
termination
  by (relation "measure (\<lambda>s. length (lx_rest s))") auto

function skip_comment :: "lexer \<Rightarrow> lexer" where
  "skip_comment s =
     (case peek s of
        None \<Rightarrow> s
      | Some c \<Rightarrow> if c \<noteq> CHR 0x0A then skip_comment (advance s) else s)"
  by pat_completeness auto
termination
  by (relation "measure (\<lambda>s. length (lx_rest s))") auto

declare skip_ws.simps [simp del] skip_comment.simps [simp del]

lemma skip_ws_length: "length (lx_rest (skip_ws s)) \<le> length (lx_rest s)"
proof (induction s rule: skip_ws.induct)
  case (1 s)
  then show ?case by (subst skip_ws.simps) (fastforce split: option.splits)
qed

lemma skip_comment_length: "length (lx_rest (skip_comment s)) \<le> length (lx_rest s)"
proof (induction s rule: skip_comment.induct)
  case (1 s)
  then show ?case by (subst skip_comment.simps) (fastforce split: option.splits)
qed

lemma skip_comment_less:
  assumes "peek s = Some c" "c \<noteq> CHR 0x0A"
  shows "length (lx_rest (skip_comment s)) < length (lx_rest s)"
proof -
  have "skip_comment s = skip_comment (advance s)"
    by (subst skip_comment.simps) (use assms in \<open>simp only: option.case if_True simp_thms\<close>)
  moreover obtain t where "lx_rest s = c # t" using assms(1) by auto
  ultimately show ?thesis using skip_comment_length [of "advance s"] by simp
qed

function skip_ws_and_comments :: "lexer \<Rightarrow> lexer" where
  "skip_ws_and_comments s =
     (if peek (skip_ws s) = Some CHR '';'' then skip_ws_and_comments (skip_comment (skip_ws s))
      else skip_ws s)"
  by pat_completeness auto
termination
proof (relation "measure (\<lambda>s. length (lx_rest s))")
  fix s :: lexer
  assume "peek (skip_ws s) = Some CHR '';''"
  then have "length (lx_rest (skip_comment (skip_ws s))) < length (lx_rest (skip_ws s))"
    by (rule skip_comment_less) simp
  also have "\<dots> \<le> length (lx_rest s)" by (rule skip_ws_length)
  finally show "(skip_comment (skip_ws s), s) \<in> measure (\<lambda>s. length (lx_rest s))" by simp
qed simp

declare skip_ws_and_comments.simps [simp del]

lemma skip_ws_and_comments_length:
  "length (lx_rest (skip_ws_and_comments s)) \<le> length (lx_rest s)"
proof (induction s rule: skip_ws_and_comments.induct)
  case (1 s)
  show ?case
  proof (cases "peek (skip_ws s) = Some CHR '';''")
    case True
    have "skip_ws_and_comments s = skip_ws_and_comments (skip_comment (skip_ws s))"
      by (subst skip_ws_and_comments.simps) (simp only: True if_True simp_thms)
    then show ?thesis
      using "1.IH" [OF True] skip_comment_length [of "skip_ws s"] skip_ws_length [of s] by simp
  next
    case False
    have "skip_ws_and_comments s = skip_ws s"
      by (subst skip_ws_and_comments.simps) (simp only: False if_False)
    then show ?thesis using skip_ws_length by simp
  qed
qed

section \<open>Characters of several bytes\<close>

definition read_utf8_char :: "lexer \<Rightarrow> lex_error + string \<times> lexer" where
  "read_utf8_char s =
     (case lx_rest s of
        [] \<Rightarrow> Inl (err_at InvalidUtf8 s)
      | c # _ \<Rightarrow>
          (case utf8_len c of
             None \<Rightarrow> Inl (err_at InvalidUtf8 s)
           | Some n \<Rightarrow>
               if length (lx_rest s) < n then Inl (err_at TruncatedUtf8 s)
               else if utf8_char_ok (take n (lx_rest s))
               then Inr (take n (lx_rest s), (advance ^^ n) s)
               else Inl (err_at InvalidUtf8 s)))"

lemma read_utf8_char_length:
  "read_utf8_char s = Inr (b, s') \<Longrightarrow> length (lx_rest s') < length (lx_rest s)"
  by (auto simp: read_utf8_char_def split: list.splits option.splits if_splits dest: utf8_len_pos)

text \<open>
  The loop shared by variables, keywords, entities and symbols: bytes with \<open>P\<close> are pushed, a
  byte from \<open>0x80\<close> on starts a whole character, the first other byte ends the run.
\<close>

function lex_run :: "(char \<Rightarrow> bool) \<Rightarrow> string \<Rightarrow> lexer \<Rightarrow> lex_error + string \<times> lexer" where
  "lex_run P buf s =
     (case peek s of
        None \<Rightarrow> Inr (buf, s)
      | Some c \<Rightarrow>
          if P c \<or> is_high c then
            if is_high c then
              (case read_utf8_char s of
                 Inl e \<Rightarrow> Inl e
               | Inr (b, s') \<Rightarrow> lex_run P (buf @ b) s')
            else lex_run P (buf @ [c]) (advance s)
          else Inr (buf, s))"
  by pat_completeness auto
termination
  by (relation "measure (\<lambda>(P, buf, s). length (lx_rest s))") (auto dest: read_utf8_char_length)

declare lex_run.simps [simp del]

definition ident_byte :: "char \<Rightarrow> bool" where
  "ident_byte c \<longleftrightarrow> is_alnum c \<or> c = CHR ''-'' \<or> c = CHR ''_''"

definition entity_byte :: "char \<Rightarrow> bool" where
  "entity_byte c \<longleftrightarrow> ident_byte c \<or> c = CHR '':'' \<or> c = CHR ''.''"

definition symbol_byte :: "char \<Rightarrow> bool" where
  "symbol_byte c \<longleftrightarrow>
     c \<notin> set [CHR ''('', CHR '')'', CHR ''['', CHR '']'', CHR '' '', CHR 0x09, CHR 0x0A, CHR 0x0D,
             CHR '';'', CHR 0x22, CHR '':'', CHR ''?'', CHR ''@'', CHR ''<'', CHR ''#'']"

section \<open>One token\<close>

function lex_string_loop :: "lexer \<Rightarrow> string \<Rightarrow> lexer \<Rightarrow> lex_error + string \<times> lexer" where
  "lex_string_loop start buf s =
     (case peek s of
        None \<Rightarrow> Inl (err_at UnterminatedString start)
      | Some c \<Rightarrow>
          if c = CHR 0x22 then Inr (buf, advance s)
          else if c = CHR 0x5C then
            (case peek (advance s) of
               None \<Rightarrow> Inl (err_at UnterminatedEscape (advance s))
             | Some d \<Rightarrow>
                 lex_string_loop start
                   (buf @ (if d = CHR ''n'' then [CHR 0x0A] else if d = CHR ''t'' then [CHR 0x09]
                           else if d = CHR ''r'' then [CHR 0x0D] else latin1_utf8 d))
                   (advance (advance s)))
          else if \<not> is_high c then lex_string_loop start (buf @ [c]) (advance s)
          else
            (case read_utf8_char s of
               Inl e \<Rightarrow> Inl e
             | Inr (b, s') \<Rightarrow> lex_string_loop start (buf @ b) s'))"
  by pat_completeness auto
termination
  by (relation "measure (\<lambda>(st, buf, s). length (lx_rest s))") (auto dest: read_utf8_char_length)

function lex_uri_loop :: "lexer \<Rightarrow> string \<Rightarrow> lexer \<Rightarrow> lex_error + string \<times> lexer" where
  "lex_uri_loop start buf s =
     (case peek s of
        None \<Rightarrow> Inl (err_at UnterminatedUri start)
      | Some c \<Rightarrow>
          if c = CHR ''>'' then Inr (buf, advance s)
          else if is_high c then
            (case read_utf8_char s of
               Inl e \<Rightarrow> Inl e
             | Inr (b, s') \<Rightarrow> lex_uri_loop start (buf @ b) s')
          else lex_uri_loop start (buf @ [c]) (advance s))"
  by pat_completeness auto
termination
  by (relation "measure (\<lambda>(st, buf, s). length (lx_rest s))") (auto dest: read_utf8_char_length)

text \<open>The body of \<open>#date(..)\<close> and \<open>#dur(..)\<close>: it ends at \<open>')'\<close> or at the end of the text.\<close>

function lex_paren_loop :: "string \<Rightarrow> lexer \<Rightarrow> string \<times> lexer" where
  "lex_paren_loop buf s =
     (case peek s of
        None \<Rightarrow> (buf, s)
      | Some c \<Rightarrow>
          if c = CHR '')'' then (buf, advance s)
          else lex_paren_loop (buf @ latin1_utf8 c) (advance s))"
  by pat_completeness auto
termination
  by (relation "measure (\<lambda>(buf, s). length (lx_rest s))") auto

function lex_digits :: "string \<Rightarrow> lexer \<Rightarrow> string \<times> lexer" where
  "lex_digits buf s =
     (case peek s of
        None \<Rightarrow> (buf, s)
      | Some c \<Rightarrow> if is_digit c then lex_digits (buf @ [c]) (advance s) else (buf, s))"
  by pat_completeness auto
termination
  by (relation "measure (\<lambda>(buf, s). length (lx_rest s))") auto

declare lex_string_loop.simps [simp del] lex_uri_loop.simps [simp del]
  lex_paren_loop.simps [simp del] lex_digits.simps [simp del]

definition lex_string :: "lexer \<Rightarrow> lex_error + token \<times> lexer" where
  "lex_string s =
     bindr (lex_string_loop s [] (advance s)) (\<lambda>(buf, s'). Inr (make_token (StrTok buf) s, s'))"

definition lex_var :: "lexer \<Rightarrow> lex_error + token \<times> lexer" where
  "lex_var s =
     bindr (lex_run ident_byte [] (advance s)) (\<lambda>(buf, s').
       if buf = [] then Inl (err_at VarNameExpected s)
       else Inr (make_token (VarTok buf) s, s'))"

definition lex_keyword :: "lexer \<Rightarrow> lex_error + token \<times> lexer" where
  "lex_keyword s =
     bindr (lex_run ident_byte [] (advance s)) (\<lambda>(buf, s').
       if buf = [] then Inl (err_at KeywordNameExpected s)
       else Inr (make_token (Keyword buf) s, s'))"

definition lex_uri :: "lexer \<Rightarrow> lex_error + token \<times> lexer" where
  "lex_uri s =
     bindr (lex_uri_loop s [] (advance s)) (\<lambda>(buf, s'). Inr (make_token (UriTok buf) s, s'))"

definition lex_entity :: "lexer \<Rightarrow> lex_error + token \<times> lexer" where
  "lex_entity s =
     bindr (lex_run entity_byte [] (advance s)) (\<lambda>(buf, s').
       if buf = [] then Inl (err_at EntityNameExpected s)
       else Inr (make_token (EntityTok buf) s, s'))"

fun expect_bytes :: "lex_error \<Rightarrow> string \<Rightarrow> lexer \<Rightarrow> lex_error + lexer" where
  "expect_bytes e [] s = Inr s"
| "expect_bytes e (c # cs) s =
     (if peek s = Some c then expect_bytes e cs (advance s) else Inl e)"

definition lex_hash_prefixed :: "lexer \<Rightarrow> lex_error + token \<times> lexer" where
  "lex_hash_prefixed s0 =
     (let s = advance s0 in
      if peek s = Some CHR ''t'' then Inr (make_token (BoolTok True) s0, advance s)
      else if peek s = Some CHR ''f'' then Inr (make_token (BoolTok False) s0, advance s)
      else if peek s = Some CHR ''d'' \<and> peek_at s 1 = Some CHR ''a'' then
        bindr (expect_bytes (err_at ExpectedDate s0) ''ate'' (advance s)) (\<lambda>s1.
        bindr (expect_bytes (err_at ExpectedParenAfterDate s0) ''('' s1) (\<lambda>s2.
        case lex_paren_loop [] s2 of (buf, s3) \<Rightarrow> Inr (make_token (DateTok buf) s0, s3)))
      else if peek s = Some CHR ''d'' \<and> peek_at s 1 = Some CHR ''u'' then
        bindr (expect_bytes (err_at ExpectedDur s0) ''ur'' (advance s)) (\<lambda>s1.
        bindr (expect_bytes (err_at ExpectedParenAfterDur s0) ''('' s1) (\<lambda>s2.
        case lex_paren_loop [] s2 of (buf, s3) \<Rightarrow> Inr (make_token (DurationTok buf) s0, s3)))
      else Inl (err_at UnknownHashPrefix s0))"

definition is_digit_opt :: "char option \<Rightarrow> bool" where
  "is_digit_opt c = (case c of None \<Rightarrow> False | Some d \<Rightarrow> is_digit d)"

definition lex_number :: "lexer \<Rightarrow> lex_error + token \<times> lexer" where
  "lex_number s0 =
     (let (buf0, s1) = (if peek s0 = Some CHR ''-'' then (''-'', advance s0) else ([], s0));
          (buf1, s2) = lex_digits buf0 s1;
          (buf2, s3) = (if peek s2 = Some CHR ''.'' then lex_digits (buf1 @ ''.'') (advance s2)
                        else (buf1, s2))
      in if peek s3 = Some CHR ''.'' \<and> is_digit_opt (peek_at s3 1)
         then Inl (err_at (MultiDotNumber buf2) s0)
         else Inr (make_token (Number buf2) s0, s3))"

definition lex_symbol :: "lexer \<Rightarrow> lex_error + token \<times> lexer" where
  "lex_symbol s =
     bindr (lex_run symbol_byte [] s) (\<lambda>(buf, s').
       if buf = []
       then Inl (err_at (UnexpectedCharacter (case peek s' of None \<Rightarrow> '' '' | Some c \<Rightarrow> latin1_utf8 c)) s)
       else Inr (make_token (Symbol buf) s, s'))"

definition next_token :: "lexer \<Rightarrow> lex_error + token \<times> lexer" where
  "next_token s =
     (case lx_rest s of
        [] \<Rightarrow> Inl (err_at (UnexpectedCharacter '' '') s)
      | c # _ \<Rightarrow>
          if c = CHR ''('' then Inr (make_token LParen s, advance s)
          else if c = CHR '')'' then Inr (make_token RParen s, advance s)
          else if c = CHR ''['' then Inr (make_token LBracket s, advance s)
          else if c = CHR '']'' then Inr (make_token RBracket s, advance s)
          else if c = CHR 0x22 then lex_string s
          else if c = CHR ''?'' then lex_var s
          else if c = CHR '':'' then lex_keyword s
          else if c = CHR ''<'' then lex_uri s
          else if c = CHR ''@'' then lex_entity s
          else if c = CHR ''#'' then lex_hash_prefixed s
          else if is_digit c \<or> c = CHR ''-'' \<and> is_digit_opt (peek_at s 1) then lex_number s
          else lex_symbol s)"

section \<open>The token list\<close>

definition MAX_TOKENS :: int where "MAX_TOKENS = 1000000"

lemma lex_run_length:
  "lex_run P buf s = Inr (b, s') \<Longrightarrow>
     length (lx_rest s') \<le> length (lx_rest s) \<and> (b \<noteq> buf \<longrightarrow> length (lx_rest s') < length (lx_rest s))"
proof (induction P buf s rule: lex_run.induct)
  case (1 P buf s)
  show ?case
    using "1.prems" "1.IH"
    by (subst (asm) lex_run.simps)
      (fastforce split: option.splits if_splits sum.splits prod.splits dest: read_utf8_char_length)
qed

lemma lex_string_loop_length:
  "lex_string_loop st buf s = Inr (b, s') \<Longrightarrow> length (lx_rest s') \<le> length (lx_rest s)"
proof (induction st buf s rule: lex_string_loop.induct)
  case (1 st buf s)
  show ?case
    using "1.prems" "1.IH"
    by (subst (asm) lex_string_loop.simps)
      (fastforce split: option.splits if_splits sum.splits prod.splits dest: read_utf8_char_length)
qed

lemma lex_uri_loop_length:
  "lex_uri_loop st buf s = Inr (b, s') \<Longrightarrow> length (lx_rest s') \<le> length (lx_rest s)"
proof (induction st buf s rule: lex_uri_loop.induct)
  case (1 st buf s)
  show ?case
    using "1.prems" "1.IH"
    by (subst (asm) lex_uri_loop.simps)
      (fastforce split: option.splits if_splits sum.splits prod.splits dest: read_utf8_char_length)
qed

lemma lex_paren_loop_length:
  "lex_paren_loop buf s = (b, s') \<Longrightarrow> length (lx_rest s') \<le> length (lx_rest s)"
proof (induction buf s rule: lex_paren_loop.induct)
  case (1 buf s)
  show ?case
    using "1.prems" "1.IH"
    by (subst (asm) lex_paren_loop.simps) (fastforce split: option.splits if_splits)
qed

lemma lex_digits_length:
  "lex_digits buf s = (b, s') \<Longrightarrow>
     length (lx_rest s') \<le> length (lx_rest s)
     \<and> (is_digit_opt (peek s) \<longrightarrow> length (lx_rest s') < length (lx_rest s))"
proof (induction buf s rule: lex_digits.induct)
  case (1 buf s)
  show ?case
    using "1.prems" "1.IH"
    by (subst (asm) lex_digits.simps)
      (fastforce simp: is_digit_opt_def split: option.splits if_splits)
qed

lemma expect_bytes_length:
  "expect_bytes e cs s = Inr s' \<Longrightarrow> length (lx_rest s') \<le> length (lx_rest s)"
  by (induction e cs s rule: expect_bytes.induct) (fastforce split: if_splits)+

lemma lex_hash_prefixed_length:
  assumes "lex_hash_prefixed s = Inr (t, s')" "lx_rest s = c # r"
  shows "length (lx_rest s') < length (lx_rest s)"
proof -
  have paren: "length (lx_rest (snd (lex_paren_loop b u))) \<le> length (lx_rest u)" for b u
    using lex_paren_loop_length [of b u "fst (lex_paren_loop b u)"] by simp
  have exp: "length (lx_rest v) \<le> length (lx_rest u)" if "expect_bytes e cs u = Inr v" for e cs u v
    using expect_bytes_length [OF that] .
  show ?thesis
    using assms
    by (auto simp: lex_hash_prefixed_def Let_def case_prod_unfold simp del: expect_bytes.simps
        split: if_splits dest!: exp intro: le_less_trans [OF paren])
qed

lemma lex_number_length:
  assumes "lex_number s = Inr (t, s')" "lx_rest s = c # r" "is_digit c \<or> c = CHR ''-''"
  shows "length (lx_rest s') < length (lx_rest s)"
proof -
  obtain b1 s2 where a: "lex_digits (if c = CHR ''-'' then ''-'' else [])
      (if c = CHR ''-'' then advance s else s) = (b1, s2)"
    by (cases "lex_digits (if c = CHR ''-'' then ''-'' else [])
      (if c = CHR ''-'' then advance s else s)")
  have "length (lx_rest s2) < length (lx_rest s)"
    using lex_digits_length [OF a] assms(2,3)
    by (auto simp: is_digit_opt_def peek_def split: if_splits)
  moreover have "length (lx_rest s') \<le> length (lx_rest s2)"
    using assms(1,2) a
    by (auto simp: lex_number_def split: if_splits prod.splits dest!: lex_digits_length)
  ultimately show ?thesis by simp
qed

lemma next_token_length:
  assumes "next_token s = Inr (t, s')" "lx_rest s \<noteq> []"
  shows "length (lx_rest s') < length (lx_rest s)"
proof -
  obtain c r where c: "lx_rest s = c # r" using assms(2) by (cases "lx_rest s") auto
  have eqs: "is_digit c \<or> c = CHR ''-'' \<and> is_digit_opt (peek_at s 1) \<Longrightarrow> is_digit c \<or> c = CHR ''-''"
    by blast
  show ?thesis
    using assms c lex_number_length [OF _ c] lex_hash_prefixed_length [of s t s']
    unfolding next_token_def
    by (fastforce simp: lex_string_def lex_var_def lex_keyword_def lex_uri_def lex_entity_def
        lex_symbol_def split: if_splits prod.splits
        dest!: lex_run_length lex_string_loop_length lex_uri_loop_length)
qed

text \<open>\<open>Lexer::tokenize\<close>; \<open>n\<close> is the number of tokens pushed so far.\<close>

function tokenize_loop :: "int \<Rightarrow> lexer \<Rightarrow> lex_error + token list" where
  "tokenize_loop n s0 =
     (let s = skip_ws_and_comments s0 in
      if lx_rest s = [] then Inr [make_token Eof s]
      else if MAX_TOKENS \<le> n then Inl (err_at TooManyTokens s)
      else (case next_token s of
              Inl e \<Rightarrow> Inl e
            | Inr (t, s') \<Rightarrow>
                (case tokenize_loop (n + 1) s' of
                   Inl e \<Rightarrow> Inl e
                 | Inr ts \<Rightarrow> Inr (t # ts))))"
  by pat_completeness auto
termination
proof (relation "measure (\<lambda>(n, s). length (lx_rest s))")
  fix n s0 s p t s'
  assume "s = skip_ws_and_comments s0" "lx_rest s \<noteq> []" "next_token s = Inr p" "(t, s') = p"
  then show "((n + 1, s'), n, s0) \<in> measure (\<lambda>(n, s). length (lx_rest s))"
    using next_token_length [of s t s'] skip_ws_and_comments_length [of s0] by auto
qed simp

declare tokenize_loop.simps [simp del]

definition tokenize :: "string \<Rightarrow> lex_error + token list" where
  "tokenize src = tokenize_loop 0 (lexer_new src)"

end
