(* ===== verification/Parser.thy ===== *)
theory Parser
  imports Lexer
begin

text \<open>
  The recursive-descent parser, \<open>factum-core/src/parser.rs\<close>. The parser's state is the list of
  tokens that are left (\<open>tokens[pos..]\<close>, which always ends in \<open>Eof\<close>) and the nesting depth.
  The depth is an argument, because \<open>with_depth\<close> restores it: \<open>k\<close> is what is left of it,
  \<open>MAX_PARSE_DEPTH - depth\<close>. Dates go through the argument \<open>C\<close>.

  A \<open>while\<close> loop of the source has a fuel argument; started with one more than the number of
  tokens left it cannot run out, because every round consumes a token
  (\<open>Parser_Facts\<close>). Running out is the value \<open>Diverges\<close>, which no message of the source is.

  The one operation that can panic is the product in a duration, in a build with overflow checks. A panic
  ends the run, as an error does that nothing catches; it is the value \<open>Panicked\<close>, no message of the
  source either. \<open>parse_build\<close> is the parser in the build that \<open>C\<close> names; \<open>parse\<close> and \<open>parse_predicate\<close>
  are the release build, which is what the other parts call.
\<close>

section \<open>Errors and the token cursor\<close>

datatype parse_msg =
    LexFailed lex_msg
  | TokenCountExceeded
  | UnbalancedParen
  | ExpectedGot token_kind token_kind
  | ExpectedSymbol string
  | DepthLimitExceeded
  | ExpectedNodeId
  | UnknownNodeField string
  | ExpectedKeyword token_kind
  | MissingPredField
  | ExpectedNote
  | BadFloat string
  | ExpectedNumber
  | BadInteger string
  | UnknownPermissionTag string
  | ExpectedPermissionTag
  | ExpectedIdInList
  | ExpectedHead
  | NamedArgBeforePositional
  | Refused core_error
  | BadDate string
  | BadDateTime string
  | BadDuration string
  | UnexpectedTerm token_kind
  | ExpectedValidity
  | ExpectedDateTime
  | ExpectedProvenanceKind
  | UnknownProvenanceKind string
  | ExpectedDerivedFrom
  | ExpectedDocId
  | MissingModelRefField
  | ExpectedStringOrSymbol
  | Diverges
  | Panicked

record parse_error =
  pe_message :: parse_msg
  pe_line :: u32
  pe_col :: u32
  pe_offset :: nat

type_synonym 'a parser = "token list \<Rightarrow> parse_error + 'a \<times> token list"

definition MAX_PARSE_DEPTH :: nat where "MAX_PARSE_DEPTH = 128"

definition peek_kind :: "token list \<Rightarrow> token_kind" where
  "peek_kind ts = (case ts of [] \<Rightarrow> Eof | t # _ \<Rightarrow> tk_kind t)"

definition peek_kind_at :: "nat \<Rightarrow> token list \<Rightarrow> token_kind option" where
  "peek_kind_at k ts = (if k < length ts then Some (tk_kind (ts ! k)) else None)"

definition is_at_end :: "token list \<Rightarrow> bool" where
  "is_at_end ts \<longleftrightarrow> peek_kind ts = Eof"

definition bump :: "token list \<Rightarrow> token list" where
  \<comment> \<open>\<open>Parser::advance\<close>: the cursor stays on \<open>Eof\<close>\<close>
  "bump ts = (case ts of [] \<Rightarrow> [] | t # r \<Rightarrow> if tk_kind t = Eof then ts else r)"

definition perror :: "parse_msg \<Rightarrow> token list \<Rightarrow> parse_error" where
  "perror m ts =
     (case ts of
        [] \<Rightarrow> \<lparr>pe_message = m, pe_line = 0, pe_col = 0, pe_offset = 0\<rparr>
      | t # _ \<Rightarrow> \<lparr>pe_message = m, pe_line = tk_line t, pe_col = tk_col t, pe_offset = tk_offset t\<rparr>)"

definition expect :: "token_kind \<Rightarrow> token list \<Rightarrow> parse_error + token list" where
  "expect k ts =
     (if peek_kind ts = k then Inr (bump ts)
      else if k = RParen \<and> peek_kind ts = Eof then Inl (perror UnbalancedParen ts)
      else Inl (perror (ExpectedGot k (peek_kind ts)) ts))"

definition expect_symbol :: "string \<Rightarrow> token list \<Rightarrow> parse_error + token list" where
  "expect_symbol s ts =
     (if peek_kind ts = Symbol s then Inr (bump ts) else Inl (perror (ExpectedSymbol s) ts))"

definition with_depth :: "nat \<Rightarrow> (nat \<Rightarrow> 'a parser) \<Rightarrow> 'a parser" where
  \<comment> \<open>\<open>check_depth\<close> and \<open>with_depth\<close>, on the depth that is left\<close>
  "with_depth k f ts =
     (case k of 0 \<Rightarrow> Inl (perror DepthLimitExceeded ts) | Suc k' \<Rightarrow> f k' ts)"

fun skip_loop :: "token_kind \<Rightarrow> int \<Rightarrow> token list \<Rightarrow> token list" where
  "skip_loop close d [] = []"
| "skip_loop close d (t # r) =
     (if 0 < d \<and> tk_kind t \<noteq> Eof then
        if tk_kind t = LParen \<or> tk_kind t = LBracket then skip_loop close (d + 1) r
        else if tk_kind t = RParen \<or> tk_kind t = RBracket
        then skip_loop close (if tk_kind t = close then d - 1 else d) r
        else skip_loop close d r
      else t # r)"

definition skip_sexp :: "token list \<Rightarrow> token list" where
  "skip_sexp ts =
     (if peek_kind ts = LParen \<or> peek_kind ts = LBracket
      then skip_loop (if peek_kind ts = LParen then RParen else RBracket) 1 (bump ts)
      else bump ts)"

section \<open>Numbers and durations\<close>

definition parse_uint :: "int \<Rightarrow> string \<Rightarrow> int option" where
  \<comment> \<open>\<open>str::parse\<close> of an unsigned integer below \<open>b\<close>; a leading plus is accepted\<close>
  "parse_uint b s =
     (let r = (case s of c # r \<Rightarrow> if c = CHR ''+'' then r else s | [] \<Rightarrow> s) in
      if r = [] \<or> \<not> list_all is_digit r \<or> b \<le> dec_val r then None else Some (dec_val r))"

definition strip_suffix :: "string \<Rightarrow> string \<Rightarrow> string option" where
  "strip_suffix e s =
     (if length e \<le> length s \<and> drop (length s - length e) s = e
      then Some (take (length s - length e) s) else None)"

text \<open>
  \<open>num * 60\<close> and the like are \<open>u64\<close> multiplications: they wrap in a release build and panic where
  overflow checks are on.
\<close>

definition duration_secs :: "bool \<Rightarrow> string \<Rightarrow> u64 \<Rightarrow> parse_msg \<Rightarrow> parse_msg + u64" where
  \<comment> \<open>the last argument is the error for an unknown unit\<close>
  "duration_secs checks unit num bad =
     (let product = (\<lambda>k. case mul_u64 checks num k of None \<Rightarrow> Inl Panicked | Some secs \<Rightarrow> Inr secs) in
      if unit = ''s'' then Inr num
      else if unit = ''m'' then product 60
      else if unit = ''h'' then product 3600
      else if unit = ''d'' then product 86400
      else Inl bad)"

definition parse_duration :: "bool \<Rightarrow> string \<Rightarrow> parse_msg + int" where
  "parse_duration checks s0 =
     (let s = trim s0 in
      if s = [] then Inl (BadDuration s0)
      else case strip_suffix ''ns'' s of
        Some rest \<Rightarrow> ok_or (BadDuration s0) (parse_uint (2 ^ 64) rest)
      | None \<Rightarrow>
          let num_str = takeWhile is_digit s; unit = dropWhile is_digit s in
          (case parse_uint (2 ^ 64) num_str of
             None \<Rightarrow> Inl (BadDuration s0)
           | Some num \<Rightarrow>
               bindr (duration_secs checks unit (word_of_int num) (BadDuration s0))
                 (\<lambda>secs. Inr (uint secs * 1000000000))))"

lemma release_no_panic [simp]: "parse_duration False s \<noteq> Inl Panicked"
  by (auto simp: parse_duration_def duration_secs_def mul_u64_def Let_def ok_or_def split: option.split)

section \<open>Leaves\<close>

definition parse_f32 :: "f32 parser" where
  "parse_f32 ts =
     (case peek_kind ts of
        Number s \<Rightarrow>
          bindr (ok_or (perror (BadFloat s) (bump ts)) (f32_parse s)) (\<lambda>v. Inr (v, bump ts))
      | _ \<Rightarrow> Inl (perror ExpectedNumber (bump ts)))"

definition parse_u32 :: "u32 parser" where
  "parse_u32 ts =
     (case peek_kind ts of
        Number s \<Rightarrow>
          bindr (ok_or (perror (BadInteger s) (bump ts)) (parse_uint (2 ^ 32) s))
            (\<lambda>v. Inr (word_of_int v, bump ts))
      | _ \<Rightarrow> Inl (perror ExpectedNumber (bump ts)))"

definition parse_smol_str :: "string parser" where
  "parse_smol_str ts =
     (case peek_kind ts of
        Symbol s \<Rightarrow> Inr (s, bump ts)
      | StrTok s \<Rightarrow> Inr (s, bump ts)
      | _ \<Rightarrow> Inl (perror ExpectedStringOrSymbol (bump ts)))"

definition parse_doc_id :: "doc_id parser" where
  "parse_doc_id ts =
     (case peek_kind ts of
        Symbol s \<Rightarrow> Inr (s, bump ts)
      | StrTok s \<Rightarrow> Inr (s, bump ts)
      | _ \<Rightarrow> Inl (perror ExpectedDocId (bump ts)))"

definition parse_rule_id :: "rule_id parser" where "parse_rule_id ts = parse_smol_str ts"

definition parse_principal :: "principal parser" where "parse_principal ts = parse_smol_str ts"

definition parse_note :: "string parser" where
  "parse_note ts =
     (case peek_kind ts of
        StrTok s \<Rightarrow> Inr (s, bump ts)
      | Symbol s \<Rightarrow> Inr (s, bump ts)
      | _ \<Rightarrow> Inl (perror ExpectedNote (bump ts)))"

definition parse_permission_tag :: "u32 parser" where
  "parse_permission_tag ts =
     (case peek_kind ts of
        Symbol s \<Rightarrow>
          if s = ''public'' then Inr (PUBLIC, bump ts)
          else if s = ''internal'' then Inr (INTERNAL, bump ts)
          else if s = ''confidential'' then Inr (CONFIDENTIAL, bump ts)
          else if s = ''restricted'' then Inr (RESTRICTED, bump ts)
          else Inl (perror (UnknownPermissionTag s) (bump ts))
      | _ \<Rightarrow> Inl (perror ExpectedPermissionTag (bump ts)))"

fun id_list_loop :: "nat \<Rightarrow> node_id list \<Rightarrow> node_id list parser" where
  "id_list_loop 0 ids ts = Inl (perror Diverges ts)"
| "id_list_loop (Suc n) ids ts =
     (if peek_kind ts = RBracket \<or> peek_kind ts = Eof then Inr (ids, ts)
      else case peek_kind ts of
        Symbol s \<Rightarrow> id_list_loop n (ids @ [s]) (bump ts)
      | _ \<Rightarrow> Inl (perror ExpectedIdInList (bump ts)))"

definition parse_id_list :: "node_id list parser" where
  "parse_id_list ts =
     (if peek_kind ts = LBracket then
        bindr (id_list_loop (Suc (length ts)) [] (bump ts)) (\<lambda>(ids, ts).
        bindr (expect RBracket ts) (\<lambda>ts. Inr (ids, ts)))
      else case peek_kind ts of
        Symbol s \<Rightarrow> Inr ([s], bump ts)
      | _ \<Rightarrow> Inl (perror ExpectedNodeId (bump ts)))"

section \<open>Validity and provenance\<close>

definition parse_datetime_tok :: "chrono \<Rightarrow> datetime parser" where
  "parse_datetime_tok C ts =
     (case peek_kind ts of
        DateTok s \<Rightarrow>
          bindr (ok_or (perror (BadDate s) (bump ts)) (parse_date C s)) (\<lambda>d. Inr (midnight d, bump ts))
      | StrTok s \<Rightarrow>
          bindr (ok_or (perror (BadDateTime s) (bump ts)) (parse_datetime C s)) (\<lambda>t. Inr (t, bump ts))
      | _ \<Rightarrow> Inl (perror ExpectedDateTime (bump ts)))"

definition parse_until :: "chrono \<Rightarrow> datetime option parser" where
  \<comment> \<open>the optional end of a window\<close>
  "parse_until C ts =
     (if peek_kind ts \<noteq> RParen
      then bindr (parse_datetime_tok C ts) (\<lambda>(u, ts). Inr (Some u, ts))
      else Inr (None, ts))"

definition parse_validity :: "chrono \<Rightarrow> validity parser" where
  "parse_validity C ts =
     (if peek_kind ts = Symbol ''forever'' then Inr (Forever, bump ts)
      else if peek_kind ts = LParen then
        bindr (expect_symbol ''window'' (bump ts)) (\<lambda>ts.
        bindr (parse_datetime_tok C ts) (\<lambda>(from, ts).
        bindr (parse_until C ts) (\<lambda>(until, ts).
        bindr (expect RParen ts) (\<lambda>ts. Inr (Window from until, ts)))))
      else Inl (perror ExpectedValidity ts))"

definition parse_span :: "span parser" where
  "parse_span ts =
     (if peek_kind ts = LBracket then
        bindr (parse_u32 (bump ts)) (\<lambda>(a, ts).
        bindr (parse_u32 ts) (\<lambda>(b, ts).
        bindr (expect RBracket ts) (\<lambda>ts. Inr (\<lparr>sp_start = a, sp_end = b\<rparr>, ts))))
      else
        bindr (parse_u32 ts) (\<lambda>(a, ts).
        bindr (parse_u32 ts) (\<lambda>(b, ts). Inr (\<lparr>sp_start = a, sp_end = b\<rparr>, ts))))"

definition is_str_or_symbol :: "token_kind \<Rightarrow> bool" where
  "is_str_or_symbol k = (case k of Symbol _ \<Rightarrow> True | StrTok _ \<Rightarrow> True | _ \<Rightarrow> False)"

definition parse_model_ref :: "model_ref parser" where
  "parse_model_ref ts =
     (if peek_kind ts = LParen then
        bindr (expect_symbol ''model'' (bump ts)) (\<lambda>ts.
        bindr (parse_smol_str ts) (\<lambda>(nm, ts).
        bindr (parse_smol_str ts) (\<lambda>(v, ts).
        bindr (expect RParen ts) (\<lambda>ts. Inr (\<lparr>m_name = nm, m_version = v\<rparr>, ts)))))
      else if is_str_or_symbol (peek_kind ts) then
        bindr (parse_smol_str ts) (\<lambda>(nm, ts).
        bindr (parse_smol_str ts) (\<lambda>(v, ts). Inr (\<lparr>m_name = nm, m_version = v\<rparr>, ts)))
      else Inl (perror MissingModelRefField ts))"

definition parse_derived :: "provenance parser" where
  \<comment> \<open>the branch \<open>"derived"\<close> of \<open>parse_provenance\<close>\<close>
  "parse_derived ts =
     (case peek_kind ts of
        Symbol s \<Rightarrow> bindr (parse_rule_id (bump ts)) (\<lambda>(r, ts). Inr (Derived s r, ts))
      | _ \<Rightarrow> Inl (perror ExpectedDerivedFrom (bump ts)))"

definition parse_provenance_kind :: "string \<Rightarrow> provenance parser" where
  \<comment> \<open>\<open>match kind\<close> in \<open>parse_provenance\<close>\<close>
  "parse_provenance_kind kind ts =
     (if kind = ''verbatim'' then
        bindr (parse_doc_id ts) (\<lambda>(d, ts). bindr (parse_span ts) (\<lambda>(sp, ts). Inr (Verbatim d sp, ts)))
      else if kind = ''summary'' then
        bindr (parse_doc_id ts) (\<lambda>(d, ts). bindr (parse_span ts) (\<lambda>(sp, ts). Inr (Summary d sp, ts)))
      else if kind = ''extracted'' then
        bindr (parse_doc_id ts) (\<lambda>(d, ts). bindr (parse_span ts) (\<lambda>(sp, ts).
        bindr (parse_model_ref ts) (\<lambda>(m, ts). Inr (Extracted d sp m, ts))))
      else if kind = ''derived'' then parse_derived ts
      else if kind = ''asserted'' then bindr (parse_principal ts) (\<lambda>(b, ts). Inr (Asserted b, ts))
      else Inl (perror (UnknownProvenanceKind kind) ts))"

definition parse_provenance :: "provenance parser" where
  "parse_provenance ts =
     bindr (expect LParen ts) (\<lambda>ts.
     case peek_kind ts of
       Symbol kind \<Rightarrow>
         bindr (parse_provenance_kind kind (bump ts)) (\<lambda>(p, ts).
         bindr (expect RParen ts) (\<lambda>ts. Inr (p, ts)))
     | _ \<Rightarrow> Inl (perror ExpectedProvenanceKind (bump ts)))"

section \<open>Terms and predicates\<close>

text \<open>
  The loops take the term parser as an argument; \<open>parse_term\<close> ties the knot by recursion on the
  depth that is left. \<open>sub = None\<close> means that the depth is used up.
\<close>

fun args_loop :: "trm parser \<Rightarrow> nat \<Rightarrow> trm list \<Rightarrow> (string \<times> trm) list \<Rightarrow> bool
    \<Rightarrow> (trm list \<times> (string \<times> trm) list) parser" where
  "args_loop pt 0 args named in_named ts = Inl (perror Diverges ts)"
| "args_loop pt (Suc n) args named in_named ts =
     (if peek_kind ts = RParen \<or> peek_kind ts = Eof then Inr ((args, named), ts)
      else case peek_kind ts of
        Keyword key \<Rightarrow>
          bindr (pt (bump ts)) (\<lambda>(v, ts). args_loop pt n args (named @ [(key, v)]) True ts)
      | _ \<Rightarrow>
          if in_named then Inl (perror NamedArgBeforePositional ts)
          else bindr (pt ts) (\<lambda>(a, ts). args_loop pt n (args @ [a]) named in_named ts))"

definition parse_predicate_body_inner :: "trm parser \<Rightarrow> predicate parser" where
  "parse_predicate_body_inner pt ts =
     (case peek_kind ts of
        Symbol s \<Rightarrow>
          bindr (args_loop pt (Suc (length ts)) [] [] False (bump ts))
            (\<lambda>((args, named), ts). Inr (Predicate (HeadName s) args named, ts))
      | _ \<Rightarrow> Inl (perror ExpectedHead (bump ts)))"

fun items_loop :: "trm parser \<Rightarrow> nat \<Rightarrow> trm list \<Rightarrow> trm list parser" where
  "items_loop pt 0 items ts = Inl (perror Diverges ts)"
| "items_loop pt (Suc n) items ts =
     (if peek_kind ts = RBracket \<or> peek_kind ts = Eof then Inr (items, ts)
      else bindr (pt ts) (\<lambda>(t, ts). items_loop pt n (items @ [t]) ts))"

definition parse_term_with :: "chrono \<Rightarrow> trm parser option \<Rightarrow> trm parser" where
  "parse_term_with C sub ts =
     (case peek_kind ts of
        VarTok s \<Rightarrow> Inr (TVar s, bump ts)
      | EntityTok s \<Rightarrow> Inr (TEnt s, bump ts)
      | Number s \<Rightarrow>
          (case dec_from_str s of
             Inl e \<Rightarrow> Inl (perror (Refused e) (bump ts))
           | Inr l \<Rightarrow> Inr (TLit l, bump ts))
      | StrTok s \<Rightarrow> Inr (TLit (LStr s), bump ts)
      | BoolTok b \<Rightarrow> Inr (TLit (LBool b), bump ts)
      | DateTok s \<Rightarrow>
          bindr (ok_or (perror (BadDate s) (bump ts)) (parse_date C s))
            (\<lambda>d. Inr (TLit (LDate d), bump ts))
      | DurationTok s \<Rightarrow>
          (case parse_duration (overflow_checks C) s of
             Inl m \<Rightarrow> Inl (perror m (bump ts))
           | Inr d \<Rightarrow> Inr (TLit (LDur d), bump ts))
      | UriTok s \<Rightarrow> Inr (TLit (LUri s), bump ts)
      | LParen \<Rightarrow>
          (case sub of
             None \<Rightarrow> Inl (perror DepthLimitExceeded ts)
           | Some pt \<Rightarrow>
               bindr (parse_predicate_body_inner pt (bump ts)) (\<lambda>(p, ts).
               bindr (expect RParen ts) (\<lambda>ts. Inr (TCompound p, ts))))
      | LBracket \<Rightarrow>
          (case sub of
             None \<Rightarrow> Inl (perror DepthLimitExceeded ts)
           | Some pt \<Rightarrow>
               bindr (items_loop pt (Suc (length ts)) [] (bump ts)) (\<lambda>(items, ts).
               bindr (expect RBracket ts) (\<lambda>ts. Inr (TList items, ts))))
      | Symbol s \<Rightarrow> Inr (TEnt s, bump ts)
      | k \<Rightarrow> Inl (perror (UnexpectedTerm k) ts))"

fun parse_term :: "chrono \<Rightarrow> nat \<Rightarrow> trm parser" where
  "parse_term C 0 ts = parse_term_with C None ts"
| "parse_term C (Suc k) ts = parse_term_with C (Some (parse_term C k)) ts"

definition parse_predicate_form :: "chrono \<Rightarrow> nat \<Rightarrow> predicate parser" where
  "parse_predicate_form C k =
     with_depth k (\<lambda>k' ts.
       bindr (expect LParen ts) (\<lambda>ts.
       bindr (parse_predicate_body_inner (parse_term C k') ts) (\<lambda>(p, ts).
       bindr (expect RParen ts) (\<lambda>ts. Inr (p, ts)))))"

definition parse_predicate_body :: "chrono \<Rightarrow> nat \<Rightarrow> predicate parser" where
  "parse_predicate_body C k =
     with_depth k (\<lambda>k' ts. parse_predicate_body_inner (parse_term C k') ts)"

section \<open>Nodes\<close>

text \<open>The local variables of \<open>parse_node\<close>.\<close>

record fields =
  fd_pred :: "predicate option"
  fd_validity :: validity
  fd_prov :: provenance
  fd_conf :: f32
  fd_auth :: f32
  fd_perm :: u32
  fd_deps :: "node_id list"
  fd_note :: "string option"

definition default_fields :: fields where
  "default_fields =
     \<lparr>fd_pred = None, fd_validity = Forever, fd_prov = default_provenance,
      fd_conf = default_confidence, fd_auth = default_authority, fd_perm = PUBLIC,
      fd_deps = [], fd_note = None\<rparr>"

definition refused :: "core_error + f32 \<Rightarrow> token list \<Rightarrow> parse_error + f32" where
  \<comment> \<open>\<open>.map_err(|e| p.error(e.to_string()))\<close>\<close>
  "refused r ts = (case r of Inl e \<Rightarrow> Inl (perror (Refused e) ts) | Inr v \<Rightarrow> Inr v)"

definition parse_field :: "chrono \<Rightarrow> nat \<Rightarrow> string \<Rightarrow> fields \<Rightarrow> fields parser" where
  \<comment> \<open>\<open>match k.as_str()\<close> in \<open>parse_node\<close>, the keyword already consumed\<close>
  "parse_field C k key f ts =
     (if key = ''pred'' then
        bindr (parse_predicate_form C k ts) (\<lambda>(p, ts). Inr (f\<lparr>fd_pred := Some p\<rparr>, ts))
      else if key = ''valid'' then
        bindr (parse_validity C ts) (\<lambda>(v, ts). Inr (f\<lparr>fd_validity := v\<rparr>, ts))
      else if key = ''src'' then
        bindr (parse_provenance ts) (\<lambda>(p, ts). Inr (f\<lparr>fd_prov := p\<rparr>, ts))
      else if key = ''conf'' then
        bindr (parse_f32 ts) (\<lambda>(v, ts).
        bindr (refused (confidence_new v) ts) (\<lambda>c. Inr (f\<lparr>fd_conf := c\<rparr>, ts)))
      else if key = ''auth'' then
        bindr (parse_f32 ts) (\<lambda>(v, ts).
        bindr (refused (authority_new v) ts) (\<lambda>a. Inr (f\<lparr>fd_auth := a\<rparr>, ts)))
      else if key = ''perm'' then
        bindr (parse_permission_tag ts) (\<lambda>(p, ts). Inr (f\<lparr>fd_perm := p\<rparr>, ts))
      else if key = ''deps'' then
        bindr (parse_id_list ts) (\<lambda>(d, ts). Inr (f\<lparr>fd_deps := d\<rparr>, ts))
      else if key = ''note'' then
        bindr (parse_note ts) (\<lambda>(s, ts). Inr (f\<lparr>fd_note := Some s\<rparr>, ts))
      else Inl (perror (UnknownNodeField key) ts))"

fun fields_loop :: "chrono \<Rightarrow> nat \<Rightarrow> nat \<Rightarrow> fields \<Rightarrow> fields parser" where
  "fields_loop C k 0 f ts = Inl (perror Diverges ts)"
| "fields_loop C k (Suc n) f ts =
     (if peek_kind ts = RParen \<or> peek_kind ts = Eof then Inr (f, ts)
      else case peek_kind ts of
        Keyword key \<Rightarrow>
          bindr (parse_field C k key f (bump ts)) (\<lambda>(f, ts). fields_loop C k n f ts)
      | t \<Rightarrow> Inl (perror (ExpectedKeyword t) ts))"

definition node_of_fields :: "node_id \<Rightarrow> fields \<Rightarrow> predicate \<Rightarrow> node" where
  "node_of_fields i f p =
     \<lparr>nd_id = i, nd_pred = p, nd_validity = fd_validity f, nd_prov = fd_prov f,
      nd_conf = fd_conf f, nd_auth = fd_auth f, nd_perm = fd_perm f, nd_deps = fd_deps f,
      nd_status = Active, nd_note = fd_note f\<rparr>"

definition parse_node :: "chrono \<Rightarrow> nat \<Rightarrow> node parser" where
  "parse_node C k =
     with_depth k (\<lambda>k' ts.
       bindr (expect LParen ts) (\<lambda>ts.
       bindr (expect_symbol ''node'' ts) (\<lambda>ts.
       case peek_kind ts of
         Symbol i \<Rightarrow>
           bindr (fields_loop C k' (Suc (length ts)) default_fields (bump ts)) (\<lambda>(f, ts).
           bindr (expect RParen ts) (\<lambda>ts.
           bindr (ok_or (perror MissingPredField ts) (fd_pred f)) (\<lambda>p.
           Inr (node_of_fields i f p, ts))))
       | _ \<Rightarrow> Inl (perror ExpectedNodeId (bump ts)))))"

section \<open>Entry points\<close>

fun parse_loop :: "chrono \<Rightarrow> nat \<Rightarrow> node list \<Rightarrow> node list parser" where
  "parse_loop C 0 ns ts = Inl (perror Diverges ts)"
| "parse_loop C (Suc n) ns ts =
     (if is_at_end ts then Inr (ns, ts)
      else if peek_kind ts = LParen then
        if peek_kind_at 1 ts = Some (Symbol ''node'')
        then bindr (parse_node C MAX_PARSE_DEPTH ts) (\<lambda>(d, ts). parse_loop C n (ns @ [d]) ts)
        else parse_loop C n ns (skip_sexp ts)
      else parse_loop C n ns (bump ts))"

definition lex_failed :: "lex_error \<Rightarrow> parse_error" where
  "lex_failed e = \<lparr>pe_message = LexFailed (le_message e), pe_line = le_line e, pe_col = le_col e,
                   pe_offset = le_offset e\<rparr>"

definition tokens_of :: "string \<Rightarrow> parse_error + token list" where
  "tokens_of src =
     (case tokenize src of
        Inl e \<Rightarrow> Inl (lex_failed e)
      | Inr ts \<Rightarrow>
          if MAX_TOKENS < int (length ts)
          then Inl \<lparr>pe_message = TokenCountExceeded, pe_line = 0, pe_col = 0, pe_offset = 0\<rparr>
          else Inr ts)"

definition parse_build :: "chrono \<Rightarrow> string \<Rightarrow> parse_error + node list" where
  \<comment> \<open>\<open>Parser::parse\<close>\<close>
  "parse_build C src =
     bindr (tokens_of src) (\<lambda>ts.
     bindr (parse_loop C (Suc (length ts)) [] ts) (\<lambda>(ns, ts). Inr ns))"

definition parse :: "chrono \<Rightarrow> string \<Rightarrow> parse_error + node list" where
  "parse C src = parse_build (release C) src"

definition parse_predicate :: "chrono \<Rightarrow> string \<Rightarrow> parse_error + predicate" where
  "parse_predicate C src =
     bindr (tokens_of src) (\<lambda>ts.
     bindr (expect LParen ts) (\<lambda>ts.
     bindr (parse_predicate_body (release C) MAX_PARSE_DEPTH ts) (\<lambda>(p, ts).
     bindr (expect RParen ts) (\<lambda>ts. Inr p))))"

end
