(* ===== verification/Serialize.thy ===== *)
theory Serialize
  imports Parser
begin

text \<open>
  The canonical form of \<open>factum-core/src/serialize.rs\<close>: the text a node is printed as. The source
  pushes onto a buffer; here each function returns what it pushes.
\<close>

definition format_f32_with_decimal :: "f32 \<Rightarrow> string" where
  "format_f32_with_decimal v =
     (let s = f32_display v in if CHR ''.'' \<in> set s then s else s @ ''.0'')"

definition escape_char :: "char \<Rightarrow> string" where
  "escape_char c =
     (if c = CHR 0x5C then [CHR 0x5C, CHR 0x5C]
      else if c = CHR 0x22 then [CHR 0x5C, CHR 0x22]
      else if c = CHR 0x0A then [CHR 0x5C, CHR ''n'']
      else if c = CHR 0x09 then [CHR 0x5C, CHR ''t'']
      else if c = CHR 0x0D then [CHR 0x5C, CHR ''r'']
      else [c])"

definition quoted_with :: "(char \<Rightarrow> string) \<Rightarrow> string \<Rightarrow> string" where
  "quoted_with enc s = CHR 0x22 # concat (map enc s) @ [CHR 0x22]"

definition quoted :: "string \<Rightarrow> string" where
  \<comment> \<open>a quoted string with its special characters escaped\<close>
  "quoted = quoted_with escape_char"

definition raw_quoted :: "string \<Rightarrow> string" where
  \<comment> \<open>\<open>"{}"\<close> in a format string: nothing is escaped\<close>
  "raw_quoted = quoted_with (\<lambda>c. [c])"

definition canonical_literal :: "chrono \<Rightarrow> literal \<Rightarrow> string" where
  "canonical_literal C l =
     (case l of
        LDec _ _ \<Rightarrow> to_canonical_string C l
      | LStr s \<Rightarrow> quoted s
      | LDate d \<Rightarrow> ''#date('' @ fmt_date C d @ '')''
      | LDur d \<Rightarrow> ''#dur('' @ int_dec d @ ''ns)''
      | LBool b \<Rightarrow> (if b then ''#t'' else ''#f'')
      | LUri u \<Rightarrow> ''<'' @ u @ ''>'')"

definition head_text :: "predicate_head \<Rightarrow> string" where
  "head_text h = (case h of HeadId i \<Rightarrow> ''M'' @ int_dec (uint i) | HeadName s \<Rightarrow> s)"

fun join_sp :: "string list \<Rightarrow> string" where
  \<comment> \<open>the items with a space between them\<close>
  "join_sp [] = []"
| "join_sp [x] = x"
| "join_sp (x # y # r) = x @ '' '' @ join_sp (y # r)"

fun canonical_term :: "chrono \<Rightarrow> trm \<Rightarrow> string"
  and canonical_predicate_inner :: "chrono \<Rightarrow> predicate \<Rightarrow> string" where
  "canonical_term C (TVar s) = ''?'' @ s"
| "canonical_term C (TEnt e) = ''@'' @ e"
| "canonical_term C (TLit l) = canonical_literal C l"
| "canonical_term C (TCompound p) = canonical_predicate_inner C p"
| "canonical_term C (TList items) = ''['' @ join_sp (map (canonical_term C) items) @ '']''"
| "canonical_predicate_inner C (Predicate h as ns) =
     ''('' @ head_text h
     @ concat (map (\<lambda>a. '' '' @ canonical_term C a) as)
     @ concat (map (\<lambda>(k, v). '' :'' @ k @ '' '' @ canonical_term C v) ns) @ '')''"

definition canonical_predicate :: "chrono \<Rightarrow> predicate \<Rightarrow> string" where
  "canonical_predicate C p = canonical_predicate_inner C p"

definition canonical_validity :: "chrono \<Rightarrow> validity \<Rightarrow> string" where
  "canonical_validity C v =
     (case v of
        Forever \<Rightarrow> ''forever''
      | Window from until \<Rightarrow>
          ''(window '' @ raw_quoted (fmt_rfc3339 C from)
          @ (case until of None \<Rightarrow> [] | Some u \<Rightarrow> '' '' @ raw_quoted (fmt_rfc3339 C u)) @ '')'')"

definition span_text :: "span \<Rightarrow> string" where
  "span_text sp = ''['' @ int_dec (uint (sp_start sp)) @ '' '' @ int_dec (uint (sp_end sp)) @ '']''"

definition canonical_provenance :: "provenance \<Rightarrow> string" where
  "canonical_provenance p =
     (case p of
        Verbatim d sp \<Rightarrow> ''(verbatim '' @ raw_quoted d @ '' '' @ span_text sp @ '')''
      | Summary d sp \<Rightarrow> ''(summary '' @ raw_quoted d @ '' '' @ span_text sp @ '')''
      | Extracted d sp m \<Rightarrow>
          ''(extracted '' @ raw_quoted d @ '' '' @ span_text sp @ '' (model ''
          @ raw_quoted (m_name m) @ '' '' @ raw_quoted (m_version m) @ ''))''
      | Derived from r \<Rightarrow> ''(derived '' @ from @ '' '' @ raw_quoted r @ '')''
      | Asserted b \<Rightarrow> ''(asserted '' @ raw_quoted b @ '')'')"

definition perm_text :: "u32 \<Rightarrow> string" where
  "perm_text p =
     (if p = 1 then ''public'' else if p = 2 then ''internal''
      else if p = 4 then ''confidential'' else if p = 8 then ''restricted'' else ''custom'')"

definition canonical_node :: "chrono \<Rightarrow> node \<Rightarrow> string" where
  "canonical_node C n =
     ''(node '' @ nd_id n
     @ '' :pred '' @ canonical_predicate_inner C (nd_pred n)
     @ '' :valid '' @ canonical_validity C (nd_validity n)
     @ '' :src '' @ canonical_provenance (nd_prov n)
     @ '' :conf '' @ format_f32_with_decimal (nd_conf n)
     @ '' :auth '' @ format_f32_with_decimal (nd_auth n)
     @ '' :perm '' @ perm_text (nd_perm n)
     @ (if nd_deps n = [] then [] else '' :deps ['' @ join_sp (nd_deps n) @ '']'')
     @ (case nd_note n of None \<Rightarrow> [] | Some s \<Rightarrow> '' :note '' @ quoted s) @ '')''"

definition canonical :: "chrono \<Rightarrow> node \<Rightarrow> string" where
  "canonical C n = canonical_node C n"

definition canonical_all :: "chrono \<Rightarrow> node list \<Rightarrow> string" where
  "canonical_all C ns = concat (map (\<lambda>n. canonical_node C n @ [CHR 0x0A]) ns)"

text \<open>\<open>verify_roundtrip\<close>; the three ways it can fail.\<close>

datatype roundtrip_error =
    ReparseFailed parse_error
  | NotOneNode nat
  | RoundtripMismatch node

definition verify_roundtrip :: "chrono \<Rightarrow> node \<Rightarrow> roundtrip_error + unit" where
  "verify_roundtrip C n =
     (case parse C (canonical C n) of
        Inl e \<Rightarrow> Inl (ReparseFailed e)
      | Inr ns \<Rightarrow>
          if length ns \<noteq> 1 then Inl (NotOneNode (length ns))
          else if \<not> node_eq n (hd ns) then Inl (RoundtripMismatch (hd ns))
          else Inr ())"

text \<open>The printer does not depend on the build.\<close>

lemma canonical_term_release [simp]:
  "canonical_term (release C) t = canonical_term C t"
  "canonical_predicate_inner (release C) p = canonical_predicate_inner C p"
proof (induction C t and C p rule: canonical_term_canonical_predicate_inner.induct)
  case (6 C h as ns)
  then have "map (\<lambda>a. '' '' @ canonical_term (release C) a) as = map (\<lambda>a. '' '' @ canonical_term C a) as"
    "map (\<lambda>(k, v). '' :'' @ k @ '' '' @ canonical_term (release C) v) ns
     = map (\<lambda>(k, v). '' :'' @ k @ '' '' @ canonical_term C v) ns"
    by (auto simp del: append.simps)
  then show ?case by (simp only: canonical_predicate_inner.simps)
qed (auto simp: canonical_literal_def split: literal.split intro!: arg_cong [where f = join_sp])

lemma canonical_validity_release [simp]: "canonical_validity (release C) v = canonical_validity C v"
  by (simp add: canonical_validity_def split: validity.split option.split)

lemma canonical_node_release [simp]: "canonical_node (release C) n = canonical_node C n"
  by (simp only: canonical_node_def canonical_term_release canonical_validity_release)

lemma canonical_release [simp]:
  "canonical (release C) n = canonical C n" "canonical_all (release C) ns = canonical_all C ns"
  by (simp_all add: canonical_def canonical_all_def)

end
