(* ===== verification/Lexing.thy ===== *)
theory Lexing
  imports Serialize
begin

text \<open>
  What the lexer reads back from a piece of canonical text. \<open>emits txt ks rest\<close> says that in front
  of \<open>rest\<close> the text \<open>txt\<close> lexes to tokens of the kinds \<open>ks\<close>; there is one rule per kind of
  token, collected in \<open>emit_intros\<close>, and one for putting pieces next to each other.
\<close>

definition lexes :: "lexer \<Rightarrow> token_kind list \<Rightarrow> lexer \<Rightarrow> bool" where
  "lexes s ks s' \<longleftrightarrow>
     (\<forall>n. n + int (length ks) \<le> MAX_TOKENS \<longrightarrow>
        (\<exists>ts. map tk_kind ts = ks
          \<and> tokenize_loop n s =
              (case tokenize_loop (n + int (length ks)) s' of
                 Inl e \<Rightarrow> Inl e | Inr us \<Rightarrow> Inr (ts @ us))))"

definition emits :: "string \<Rightarrow> token_kind list \<Rightarrow> string \<Rightarrow> bool" where
  "emits txt ks rest \<longleftrightarrow>
     length ks \<le> length txt
     \<and> (\<forall>s. lx_rest s = txt @ rest \<longrightarrow> (\<exists>s'. lx_rest s' = rest \<and> lexes s ks s'))"

lemma lexes_trans:
  assumes "lexes s ks s'" "lexes s' ls s''"
  shows "lexes s (ks @ ls) s''"
  unfolding lexes_def
proof (intro allI impI)
  fix n
  assume n: "n + int (length (ks @ ls)) \<le> MAX_TOKENS"
  then have "n + int (length ks) \<le> MAX_TOKENS" by simp
  with assms(1) obtain ts where ts: "map tk_kind ts = ks"
    "tokenize_loop n s = (case tokenize_loop (n + int (length ks)) s' of
       Inl e \<Rightarrow> Inl e | Inr us \<Rightarrow> Inr (ts @ us))"
    unfolding lexes_def by blast
  from n have "n + int (length ks) + int (length ls) \<le> MAX_TOKENS" by simp
  with assms(2) obtain us where us: "map tk_kind us = ls"
    "tokenize_loop (n + int (length ks)) s' =
       (case tokenize_loop (n + int (length ks) + int (length ls)) s'' of
          Inl e \<Rightarrow> Inl e | Inr vs \<Rightarrow> Inr (us @ vs))"
    unfolding lexes_def by blast
  show "\<exists>ts. map tk_kind ts = ks @ ls \<and> tokenize_loop n s =
      (case tokenize_loop (n + int (length (ks @ ls))) s'' of Inl e \<Rightarrow> Inl e | Inr us \<Rightarrow> Inr (ts @ us))"
    by (rule exI [of _ "ts @ us"]) (use ts us in \<open>auto split: sum.splits simp: add.assoc\<close>)
qed

lemma emits_Nil [emit_intros]: "emits [] [] rest"
proof -
  have "lexes s [] s" for s
    by (auto simp: lexes_def split: sum.split)
  then show ?thesis by (auto simp: emits_def)
qed

lemma emits_append:
  assumes "emits a ks (b @ rest)" "emits b ls rest"
  shows "emits (a @ b) (ks @ ls) rest"
  using assms unfolding emits_def by (fastforce intro: lexes_trans)

section \<open>White space\<close>

lemma skip_nothing:
  assumes "lx_rest s = c # t" "\<not> is_blank c" "c \<noteq> CHR 0x0A" "c \<noteq> CHR '';''"
  shows "skip_ws_and_comments s = s"
proof -
  have "peek s = Some c" using assms(1) by simp
  then have ws: "skip_ws s = s"
    by (subst skip_ws.simps) (use assms in \<open>simp only: option.case if_False simp_thms\<close>)
  show ?thesis
    by (subst skip_ws_and_comments.simps) (use assms in \<open>simp add: ws\<close>)
qed

lemma skip_ws_and_comments_cong:
  "skip_ws s = skip_ws s' \<Longrightarrow> skip_ws_and_comments s = skip_ws_and_comments s'"
  by (subst (1 2) skip_ws_and_comments.simps) simp

lemma tokenize_loop_cong:
  "skip_ws_and_comments s = skip_ws_and_comments s' \<Longrightarrow> tokenize_loop n s = tokenize_loop n s'"
  by (subst (1 2) tokenize_loop.simps) simp

lemma emits_ws:
  assumes "c = CHR '' '' \<or> c = CHR 0x0A"
  shows "emits [c] [] rest"
  unfolding emits_def
proof (intro conjI allI impI)
  fix s :: lexer
  assume s: "lx_rest s = [c] @ rest"
  define s' where "s' = (if c = CHR '' '' then advance s else (advance s)\<lparr>lx_line := lx_line s + 1, lx_col := 1\<rparr>)"
  have pk: "peek s = Some c" using s by simp
  have bl: "is_blank c = (c = CHR '' '')" using assms by (auto simp: is_blank_def)
  have "skip_ws s = skip_ws s'"
    by (subst skip_ws.simps) (use assms in \<open>auto simp: pk bl s'_def simp del: peek_Some\<close>)
  then have "tokenize_loop n s = tokenize_loop n s'" for n
    by (intro tokenize_loop_cong skip_ws_and_comments_cong)
  then have "lexes s [] s'" by (auto simp: lexes_def split: sum.split)
  moreover have "lx_rest s' = rest" using s by (simp add: s'_def)
  ultimately show "\<exists>s'. lx_rest s' = rest \<and> lexes s [] s'" by blast
qed simp

lemma emits_space [emit_intros]: "emits '' '' [] rest"
  by (rule emits_ws) simp

lemma emits_newline [emit_intros]: "emits [CHR 0x0A] [] rest"
  by (rule emits_ws) simp

section \<open>One token\<close>

definition token_start :: "char \<Rightarrow> bool" where
  "token_start c \<longleftrightarrow> \<not> is_blank c \<and> c \<noteq> CHR 0x0A \<and> c \<noteq> CHR '';''"

lemma emits_token:
  assumes "token_start c"
    and nt: "\<And>s. lx_rest s = c # t @ rest \<Longrightarrow>
      \<exists>tok s'. next_token s = Inr (tok, s') \<and> tk_kind tok = k \<and> lx_rest s' = rest"
  shows "emits (c # t) [k] rest"
  unfolding emits_def
proof (intro conjI allI impI)
  fix s :: lexer
  assume "lx_rest s = (c # t) @ rest"
  then have s: "lx_rest s = c # t @ rest" by simp
  have sk: "skip_ws_and_comments s = s"
    by (rule skip_nothing [OF s]) (use assms(1) in \<open>auto simp: token_start_def\<close>)
  obtain tok s' where nx: "next_token s = Inr (tok, s')" "tk_kind tok = k" "lx_rest s' = rest"
    using nt [OF s] by blast
  have "lexes s [k] s'"
    unfolding lexes_def
  proof (intro allI impI exI [of _ "[tok]"] conjI)
    fix n
    assume "n + int (length [k]) \<le> MAX_TOKENS"
    then have "\<not> MAX_TOKENS \<le> n" by simp
    then show "tokenize_loop n s = (case tokenize_loop (n + int (length [k])) s' of
        Inl e \<Rightarrow> Inl e | Inr us \<Rightarrow> Inr ([tok] @ us))"
      by (subst tokenize_loop.simps) (simp add: sk s nx(1) split: sum.split)
  qed (simp add: nx(2))
  with nx(3) show "\<exists>s'. lx_rest s' = rest \<and> lexes s [k] s'" by blast
qed simp

lemma emits_punct [emit_intros]:
  "emits ''('' [LParen] rest" "emits '')'' [RParen] rest"
  "emits ''['' [LBracket] rest" "emits '']'' [RBracket] rest"
  by (rule emits_token; simp add: token_start_def is_blank_def next_token_def make_token_def)+

lemma emits_bool [emit_intros]:
  "emits ''#t'' [BoolTok True] rest" "emits ''#f'' [BoolTok False] rest"
  by (rule emits_token; simp add: token_start_def is_blank_def next_token_def lex_hash_prefixed_def
      Let_def make_token_def)+

subsection \<open>Runs of bytes\<close>

definition stops :: "(char \<Rightarrow> bool) \<Rightarrow> string \<Rightarrow> bool" where
  "stops P rest \<longleftrightarrow> (case rest of [] \<Rightarrow> True | c # _ \<Rightarrow> \<not> P c \<and> \<not> is_high c)"

definition run_ok :: "(char \<Rightarrow> bool) \<Rightarrow> string \<Rightarrow> bool" where
  "run_ok P s \<longleftrightarrow> list_all (\<lambda>c. P c \<or> is_high c) s \<and> utf8_valid s"

definition delim :: "string \<Rightarrow> bool" where
  \<comment> \<open>the text goes on with a space or a closing bracket\<close>
  "delim rest \<longleftrightarrow> (case rest of [] \<Rightarrow> False | c # _ \<Rightarrow> c = CHR '' '' \<or> c = CHR '')'' \<or> c = CHR '']'')"

lemma delim_Cons [simp]: "delim (c # t) \<longleftrightarrow> c = CHR '' '' \<or> c = CHR '')'' \<or> c = CHR '']''"
  by (simp add: delim_def)

lemma delim_stops:
  "delim rest \<Longrightarrow> stops ident_byte rest" "delim rest \<Longrightarrow> stops entity_byte rest"
  "delim rest \<Longrightarrow> stops symbol_byte rest"
  by (auto simp: delim_def stops_def ident_byte_def entity_byte_def symbol_byte_def is_alnum_def
      is_alpha_def is_digit_def is_high_def split: list.splits)

lemma utf8_len_ascii: "\<not> is_high c \<Longrightarrow> utf8_len c = Some 1"
  by (simp add: utf8_len_def is_high_def)

lemma read_utf8_char_valid:
  assumes "utf8_valid (c # s)" "lx_rest u = (c # s) @ rest"
  obtains n where "utf8_len c = Some n" "n \<le> Suc (length s)" "utf8_valid (drop (n - 1) s)"
    "read_utf8_char u = Inr (take n (c # s), (advance ^^ n) u)" "0 < n"
proof -
  from assms(1) obtain n where n: "utf8_len c = Some n" "n \<le> Suc (length s)"
    "utf8_char_ok (take n (c # s))" "utf8_valid (drop (n - 1) s)"
    by (auto split: option.splits)
  moreover have "take n (lx_rest u) = take n (c # s)"
    unfolding assms(2) using n(2) by (simp only: take_append) simp
  then have "read_utf8_char u = Inr (take n (c # s), (advance ^^ n) u)"
    using assms(2) n by (simp add: read_utf8_char_def)
  ultimately show ?thesis using that utf8_len_pos [OF n(1)] by blast
qed

lemma take_drop_split: "n \<le> Suc (length s) \<Longrightarrow> 0 < n \<Longrightarrow> take n (c # s) @ drop (n - 1) s = c # s"
  by (cases n) simp_all

lemma lex_run_reads:
  "run_ok P s \<Longrightarrow> lx_rest u = s @ rest \<Longrightarrow> stops P rest \<Longrightarrow>
    \<exists>u'. lex_run P buf u = Inr (buf @ s, u') \<and> lx_rest u' = rest"
proof (induction s arbitrary: buf u rule: utf8_valid.induct)
  case 1
  then show ?case by (subst lex_run.simps) (auto simp: stops_def peek_def split: list.splits)
next
  case (2 c s)
  have pk: "peek u = Some c" using 2(3) by simp
  have P: "P c \<or> is_high c" using 2(2) by (simp add: run_ok_def)
  have valid: "utf8_valid (c # s)" using 2(2) by (simp only: run_ok_def)
  obtain n where n: "utf8_len c = Some n" "n \<le> Suc (length s)" "utf8_valid (drop (n - 1) s)"
    "read_utf8_char u = Inr (take n (c # s), (advance ^^ n) u)" "0 < n"
    using read_utf8_char_valid [OF valid 2(3)] .
  have ok: "run_ok P (drop (n - 1) s)"
    using 2(2) n(3) by (auto simp: run_ok_def list_all_iff dest: in_set_dropD)
  have step: "lex_run P buf u = lex_run P (buf @ take n (c # s)) ((advance ^^ n) u)"
  proof (cases "is_high c")
    case True
    then show ?thesis by (subst lex_run.simps) (simp add: pk P n(4) del: peek_Some)
  next
    case False
    then have "n = 1" using n(1) by (simp add: utf8_len_ascii)
    with False show ?thesis by (subst lex_run.simps) (use P in \<open>simp add: pk del: peek_Some\<close>)
  qed
  have "lx_rest ((advance ^^ n) u) = drop (n - 1) s @ rest"
    unfolding advance_pow_rest 2(3) using n(2,5) by (cases n) simp_all
  from "2.IH" [OF n(1) ok this 2(4), of "buf @ take n (c # s)"]
  show ?case using step take_drop_split [OF n(2,5), of c] by simp
qed

lemma advance_rest: "lx_rest s = c # t \<Longrightarrow> lx_rest (advance s) = t"
  by simp

subsection \<open>Symbols and names\<close>

definition number_start :: "string \<Rightarrow> bool" where
  "number_start s \<longleftrightarrow>
     (case s of [] \<Rightarrow> False
      | c # t \<Rightarrow> is_digit c \<or> c = CHR ''-'' \<and> (case t of [] \<Rightarrow> False | d # _ \<Rightarrow> is_digit d))"

definition sym_ok :: "string \<Rightarrow> bool" where
  \<comment> \<open>the text reads as one symbol\<close>
  "sym_ok s \<longleftrightarrow> s \<noteq> [] \<and> run_ok symbol_byte s \<and> \<not> number_start s"

definition name_ok :: "(char \<Rightarrow> bool) \<Rightarrow> string \<Rightarrow> bool" where
  "name_ok P s \<longleftrightarrow> s \<noteq> [] \<and> run_ok P s"

lemma symbol_first:
  assumes "symbol_byte c \<or> is_high c"
  shows "c \<notin> set [CHR ''('', CHR '')'', CHR ''['', CHR '']'', CHR 0x22, CHR ''?'', CHR '':'',
      CHR ''<'', CHR ''@'', CHR ''#'']" "token_start c"
  using assms by (auto simp: symbol_byte_def is_high_def token_start_def is_blank_def)

lemma emits_symbol [emit_intros]:
  assumes "sym_ok s" "delim rest"
  shows "emits s [Symbol s] rest"
proof -
  obtain c t where s: "s = c # t" using assms(1) by (cases s) (simp_all add: sym_ok_def)
  have c: "symbol_byte c \<or> is_high c" using assms(1) by (simp add: s sym_ok_def run_ok_def)
  show ?thesis
    unfolding s
  proof (rule emits_token)
    fix u :: lexer
    assume u: "lx_rest u = c # t @ rest"
    then have u': "lx_rest u = s @ rest" by (simp add: s)
    have "run_ok symbol_byte s" using assms(1) by (simp add: sym_ok_def)
    from lex_run_reads [OF this u' delim_stops(3) [OF assms(2)], where buf = "[]"]
    obtain v where v: "lex_run symbol_byte [] u = Inr ([] @ s, v)" "lx_rest v = rest" by blast
    have nd: "\<not> (is_digit c \<or> c = CHR ''-'' \<and> is_digit_opt (peek_at u 1))"
    proof -
      have "\<not> number_start s" using assms(1) by (simp add: sym_ok_def)
      moreover have "\<not> is_digit d" if "rest = d # r" for d r
        using assms(2) that by (auto simp: is_digit_def)
      ultimately show ?thesis
        using u assms(2) by (cases t; cases rest) (auto simp: s number_start_def peek_at_def is_digit_opt_def)
    qed
    have "next_token u = lex_symbol u"
      unfolding next_token_def using u nd symbol_first(1) [OF c] by auto
    then show "\<exists>tok u'. next_token u = Inr (tok, u') \<and> tk_kind tok = Symbol (c # t) \<and> lx_rest u' = rest"
      using v by (simp add: lex_symbol_def make_token_def s)
  qed (use symbol_first(2) [OF c] in simp)
qed

lemma name_token:
  assumes "name_ok P s" "stops P rest" "token_start c"
    and "\<And>u. lx_rest u = c # s @ rest \<Longrightarrow>
      next_token u = bindr (lex_run P [] (advance u)) (\<lambda>(buf, u').
        if buf = [] then Inl (err_at m u) else Inr (make_token (k buf) u, u'))"
  shows "emits (c # s) [k s] rest"
proof (rule emits_token [OF assms(3)])
  fix u :: lexer
  assume u: "lx_rest u = c # s @ rest"
  have "run_ok P s" using assms(1) by (simp add: name_ok_def)
  from lex_run_reads [OF this advance_rest [OF u] assms(2), where buf = "[]"]
  obtain v where v: "lex_run P [] (advance u) = Inr ([] @ s, v)" "lx_rest v = rest" by blast
  show "\<exists>tok u'. next_token u = Inr (tok, u') \<and> tk_kind tok = k s \<and> lx_rest u' = rest"
    using v assms(1) by (simp add: assms(4) [OF u] make_token_def name_ok_def)
qed

lemma emits_var [emit_intros]:
  "name_ok ident_byte s \<Longrightarrow> delim rest \<Longrightarrow> emits (CHR ''?'' # s) [VarTok s] rest"
  by (rule name_token [OF _ delim_stops(1)])
    (simp_all add: next_token_def lex_var_def token_start_def is_blank_def)

lemma emits_keyword [emit_intros]:
  "name_ok ident_byte s \<Longrightarrow> delim rest \<Longrightarrow> emits (CHR '':'' # s) [Keyword s] rest"
  by (rule name_token [OF _ delim_stops(1)])
    (simp_all add: next_token_def lex_keyword_def token_start_def is_blank_def)

lemma emits_entity [emit_intros]:
  "name_ok entity_byte s \<Longrightarrow> delim rest \<Longrightarrow> emits (CHR ''@'' # s) [EntityTok s] rest"
  by (rule name_token [OF _ delim_stops(2)])
    (simp_all add: next_token_def lex_entity_def token_start_def is_blank_def)

subsection \<open>Strings and URIs\<close>

text \<open>An encoding of bytes that the string lexer undoes: high bytes are left alone.\<close>

definition unescape :: "char \<Rightarrow> char" where
  "unescape d =
     (if d = CHR ''n'' then CHR 0x0A else if d = CHR ''t'' then CHR 0x09
      else if d = CHR ''r'' then CHR 0x0D else d)"

definition enc_ok :: "(char \<Rightarrow> string) \<Rightarrow> char \<Rightarrow> bool" where
  "enc_ok enc c \<longleftrightarrow>
     (if is_high c then enc c = [c]
      else enc c = [c] \<and> c \<noteq> CHR 0x22 \<and> c \<noteq> CHR 0x5C
        \<or> (\<exists>d. enc c = [CHR 0x5C, d] \<and> \<not> is_high d \<and> unescape d = c))"

lemma escape_char_ok: "enc_ok escape_char c"
  by (auto simp: enc_ok_def escape_char_def is_high_def unescape_def)

lemma high_not_special: "is_high c \<Longrightarrow> c \<noteq> CHR 0x22 \<and> c \<noteq> CHR 0x5C \<and> c \<noteq> CHR ''>''"
  by (auto simp: is_high_def)

lemma in_range_high: "in_range lo hi d \<Longrightarrow> 128 \<le> lo \<Longrightarrow> is_high d"
proof -
  assume "in_range lo hi d" "128 \<le> lo"
  then have "128 \<le> (of_char d :: nat)" by (simp add: in_range_def)
  then show ?thesis
    by (cases d) (auto simp: is_high_def of_char_def horner_sum_simps of_bool_def split: if_splits)
qed

lemma utf8_char_high_aux:
  "utf8_char_ok xs \<Longrightarrow> is_high (hd xs) \<Longrightarrow> d \<in> set xs \<Longrightarrow> is_high d"
  by (cases xs rule: utf8_char_ok.cases) (auto dest!: in_range_high)

lemma utf8_char_high:
  assumes "utf8_len c = Some n" "utf8_char_ok (take n (c # s))" "is_high c" "d \<in> set (take n (c # s))"
  shows "is_high d"
proof -
  have "hd (take n (c # s)) = c" using utf8_len_pos [OF assms(1)] by (cases n) simp_all
  then show ?thesis using utf8_char_high_aux [OF assms(2) _ assms(4)] assms(3) by simp
qed

lemma enc_high: "(\<And>c. c \<in> set xs \<Longrightarrow> enc_ok enc c) \<Longrightarrow> \<forall>d \<in> set xs. is_high d \<Longrightarrow> concat (map enc xs) = xs"
  by (induction xs) (auto simp: enc_ok_def)

lemma lex_string_loop_reads:
  "utf8_valid s \<Longrightarrow> (\<And>c. c \<in> set s \<Longrightarrow> enc_ok enc c) \<Longrightarrow>
    lx_rest u = concat (map enc s) @ CHR 0x22 # rest \<Longrightarrow>
    \<exists>u'. lex_string_loop st buf u = Inr (buf @ s, u') \<and> lx_rest u' = rest"
proof (induction s arbitrary: buf u rule: utf8_valid.induct)
  case 1
  then show ?case by (subst lex_string_loop.simps) (simp add: peek_def)
next
  case (2 c s)
  from 2(2) obtain n where n: "utf8_len c = Some n" "n \<le> Suc (length s)"
    "utf8_char_ok (take n (c # s))" "utf8_valid (drop (n - 1) s)"
    by (auto split: option.splits)
  note pos = utf8_len_pos [OF n(1)]
  note split = take_drop_split [OF n(2) pos, of c]
  let ?t = "drop (n - 1) s"
  have enc: "enc_ok enc d" if "d \<in> set (take n (c # s)) \<or> d \<in> set ?t" for d
  proof -
    have "d \<in> set (take n (c # s) @ ?t)" using that by simp
    then show ?thesis unfolding split by (rule 2(3))
  qed
  have content: "lx_rest u = concat (map enc (take n (c # s))) @ concat (map enc ?t) @ CHR 0x22 # rest"
  proof -
    have "concat (map enc (take n (c # s) @ ?t)) = concat (map enc (c # s))" by (simp only: split)
    from arg_cong [OF this, of "\<lambda>z. z @ CHR 0x22 # rest"] show ?thesis
      unfolding 2(4) by (simp only: map_append concat_append append_assoc)
  qed
  have "\<exists>v. lx_rest v = concat (map enc ?t) @ CHR 0x22 # rest
      \<and> lex_string_loop st buf u = lex_string_loop st (buf @ take n (c # s)) v"
  proof (cases "is_high c")
    case True
    then have high: "\<forall>d \<in> set (take n (c # s)). is_high d"
      using utf8_char_high [OF n(1,3)] by blast
    then have "concat (map enc (take n (c # s))) = take n (c # s)"
      by (intro enc_high) (use enc in auto)
    then have u: "lx_rest u = take n (c # s) @ concat (map enc ?t) @ CHR 0x22 # rest"
      using content by simp
    obtain w where w: "lx_rest u = c # w" using u pos by (cases n) simp_all
    have "take n (lx_rest u) = take n (c # s)" "\<not> length (lx_rest u) < n"
      unfolding u using n(2) by simp_all
    then have "read_utf8_char u = Inr (take n (c # s), (advance ^^ n) u)"
      using w n by (simp add: read_utf8_char_def)
    moreover have "lx_rest ((advance ^^ n) u) = concat (map enc ?t) @ CHR 0x22 # rest"
      unfolding advance_pow_rest u using n(2) by simp
    moreover have "peek u = Some c" using w by simp
    ultimately show ?thesis
      using True high_not_special [OF True]
      by (intro exI [of _ "(advance ^^ n) u"] conjI)
        (auto simp: lex_string_loop.simps [of st buf u] simp del: peek_Some)
  next
    case False
    then have n1: "n = 1" using n(1) by (simp add: utf8_len_ascii)
    from enc [of c] n1 have "enc_ok enc c" by simp
    then consider (plain) "enc c = [c]" "c \<noteq> CHR 0x22" "c \<noteq> CHR 0x5C"
      | (esc) d where "enc c = [CHR 0x5C, d]" "\<not> is_high d" "unescape d = c"
      using False by (auto simp: enc_ok_def)
    then show ?thesis
    proof cases
      case plain
      have "lx_rest u = c # concat (map enc ?t) @ CHR 0x22 # rest"
        using content n1 plain(1) by simp
      with plain False show ?thesis
        by (intro exI [of _ "advance u"] conjI)
          (simp_all add: lex_string_loop.simps [of st buf u] peek_def n1)
    next
      case esc
      have u: "lx_rest u = CHR 0x5C # d # concat (map enc ?t) @ CHR 0x22 # rest"
        using content n1 esc(1) by simp
      have "(if d = CHR ''n'' then [CHR 0x0A] else if d = CHR ''t'' then [CHR 0x09]
          else if d = CHR ''r'' then [CHR 0x0D] else latin1_utf8 d) = [c]"
        using esc(2,3) by (auto simp: unescape_def)
      with u show ?thesis
        by (intro exI [of _ "advance (advance u)"] conjI)
          (simp_all add: lex_string_loop.simps [of st buf u] peek_def n1)
    qed
  qed
  then obtain v where v: "lx_rest v = concat (map enc ?t) @ CHR 0x22 # rest"
    "lex_string_loop st buf u = lex_string_loop st (buf @ take n (c # s)) v" by blast
  from "2.IH" [OF n(1,4) _ v(1), of "buf @ take n (c # s)"] enc split v(2)
  show ?case by auto
qed

lemma emits_quoted_with:
  assumes "utf8_valid s" "\<And>c. c \<in> set s \<Longrightarrow> enc_ok enc c"
  shows "emits (quoted_with enc s) [StrTok s] rest"
  unfolding quoted_with_def
proof (rule emits_token)
  fix u :: lexer
  assume u: "lx_rest u = CHR 0x22 # (concat (map enc s) @ [CHR 0x22]) @ rest"
  then have "lx_rest (advance u) = concat (map enc s) @ CHR 0x22 # rest" by simp
  from lex_string_loop_reads [OF assms this, where buf = "[]" and st = u]
  obtain v where "lex_string_loop u [] (advance u) = Inr (s, v)" "lx_rest v = rest" by auto
  with u show "\<exists>tok u'. next_token u = Inr (tok, u') \<and> tk_kind tok = StrTok s \<and> lx_rest u' = rest"
    by (simp add: next_token_def lex_string_def make_token_def)
qed (simp add: token_start_def is_blank_def)

lemma emits_quoted [emit_intros]: "utf8_valid s \<Longrightarrow> emits (quoted s) [StrTok s] rest"
  unfolding quoted_def by (rule emits_quoted_with [OF _ escape_char_ok])

definition raw_ok :: "string \<Rightarrow> bool" where
  \<comment> \<open>the text can stand between quotes as it is\<close>
  "raw_ok s \<longleftrightarrow> utf8_valid s \<and> CHR 0x22 \<notin> set s \<and> CHR 0x5C \<notin> set s"

lemma emits_raw_quoted [emit_intros]: "raw_ok s \<Longrightarrow> emits (raw_quoted s) [StrTok s] rest"
  unfolding raw_quoted_def by (rule emits_quoted_with) (auto simp: raw_ok_def enc_ok_def)

definition uri_ok :: "string \<Rightarrow> bool" where
  "uri_ok s \<longleftrightarrow> utf8_valid s \<and> CHR ''>'' \<notin> set s"

lemma lex_uri_loop_reads:
  "uri_ok s \<Longrightarrow> lx_rest u = s @ CHR ''>'' # rest \<Longrightarrow>
    \<exists>u'. lex_uri_loop st buf u = Inr (buf @ s, u') \<and> lx_rest u' = rest"
proof (induction s arbitrary: buf u rule: utf8_valid.induct)
  case 1
  then show ?case by (subst lex_uri_loop.simps) (simp add: peek_def)
next
  case (2 c s)
  have pk: "peek u = Some c" using 2(3) by simp
  have ne: "c \<noteq> CHR ''>''" using 2(2) by (auto simp: uri_ok_def)
  have valid: "utf8_valid (c # s)" using 2(2) by (simp only: uri_ok_def)
  obtain n where n: "utf8_len c = Some n" "n \<le> Suc (length s)" "utf8_valid (drop (n - 1) s)"
    "read_utf8_char u = Inr (take n (c # s), (advance ^^ n) u)" "0 < n"
    using read_utf8_char_valid [OF valid 2(3)] .
  have ok: "uri_ok (drop (n - 1) s)"
    using 2(2) n(3) by (auto simp: uri_ok_def dest: in_set_dropD)
  have step: "lex_uri_loop st buf u = lex_uri_loop st (buf @ take n (c # s)) ((advance ^^ n) u)"
  proof (cases "is_high c")
    case True
    then show ?thesis by (subst lex_uri_loop.simps) (simp add: pk n(4) ne del: peek_Some)
  next
    case False
    then have "n = 1" using n(1) by (simp add: utf8_len_ascii)
    with False show ?thesis by (subst lex_uri_loop.simps) (simp add: pk ne del: peek_Some)
  qed
  have "lx_rest ((advance ^^ n) u) = drop (n - 1) s @ CHR ''>'' # rest"
    unfolding advance_pow_rest 2(3) using n(2,5) by (cases n) simp_all
  from "2.IH" [OF n(1) ok this, of "buf @ take n (c # s)"]
  show ?case using step take_drop_split [OF n(2,5), of c] by simp
qed

lemma emits_uri [emit_intros]:
  assumes "uri_ok s"
  shows "emits (''<'' @ s @ ''>'') [UriTok s] rest"
  unfolding append_Cons append_Nil
proof (rule emits_token)
  fix u :: lexer
  assume u: "lx_rest u = CHR ''<'' # (s @ ''>'') @ rest"
  then have "lx_rest (advance u) = s @ CHR ''>'' # rest" by simp
  from lex_uri_loop_reads [OF assms this, where buf = "[]" and st = u]
  obtain v where "lex_uri_loop u [] (advance u) = Inr (s, v)" "lx_rest v = rest" by auto
  with u show "\<exists>tok u'. next_token u = Inr (tok, u') \<and> tk_kind tok = UriTok s \<and> lx_rest u' = rest"
    by (simp add: next_token_def lex_uri_def make_token_def)
qed (simp add: token_start_def is_blank_def)

subsection \<open>Dates, durations and numbers\<close>

definition paren_ok :: "string \<Rightarrow> bool" where
  "paren_ok s \<longleftrightarrow> list_all (\<lambda>c. \<not> is_high c \<and> c \<noteq> CHR '')'') s"

lemma lex_paren_loop_reads:
  "paren_ok s \<Longrightarrow> lx_rest u = s @ CHR '')'' # rest \<Longrightarrow>
    \<exists>u'. lex_paren_loop buf u = (buf @ s, u') \<and> lx_rest u' = rest"
proof (induction s arbitrary: buf u)
  case Nil
  then show ?case by (subst lex_paren_loop.simps) (simp add: peek_def)
next
  case (Cons c s)
  have pk: "peek u = Some c" using Cons.prems by simp
  have c: "\<not> is_high c" "c \<noteq> CHR '')''" "paren_ok s" using Cons.prems(1) by (simp_all add: paren_ok_def)
  have "lx_rest (advance u) = s @ CHR '')'' # rest" using Cons.prems by simp
  from Cons.IH [OF c(3) this, of "buf @ [c]"] c
  show ?case by (subst lex_paren_loop.simps) (simp add: pk del: peek_Some)
qed

lemma emits_date [emit_intros]:
  assumes "paren_ok s"
  shows "emits (''#date('' @ s @ '')'') [DateTok s] rest"
  unfolding append_Cons append_Nil
proof (rule emits_token)
  fix u :: lexer
  assume u: "lx_rest u = CHR ''#'' # (CHR ''d'' # CHR ''a'' # CHR ''t'' # CHR ''e'' # CHR ''('' # s @ '')'') @ rest"
  then have "lx_rest ((advance ^^ 6) u) = s @ CHR '')'' # rest" by simp
  from lex_paren_loop_reads [OF assms this, where buf = "[]"]
  obtain v where "lex_paren_loop [] ((advance ^^ 6) u) = (s, v)" "lx_rest v = rest" by auto
  with u show "\<exists>tok u'. next_token u = Inr (tok, u') \<and> tk_kind tok = DateTok s \<and> lx_rest u' = rest"
    by (simp add: next_token_def lex_hash_prefixed_def Let_def make_token_def peek_def peek_at_def
        numeral_eq_Suc)
qed (simp add: token_start_def is_blank_def)

lemma emits_duration [emit_intros]:
  assumes "paren_ok s"
  shows "emits (''#dur('' @ s @ '')'') [DurationTok s] rest"
  unfolding append_Cons append_Nil
proof (rule emits_token)
  fix u :: lexer
  assume u: "lx_rest u = CHR ''#'' # (CHR ''d'' # CHR ''u'' # CHR ''r'' # CHR ''('' # s @ '')'') @ rest"
  then have "lx_rest ((advance ^^ 5) u) = s @ CHR '')'' # rest" by simp
  from lex_paren_loop_reads [OF assms this, where buf = "[]"]
  obtain v where "lex_paren_loop [] ((advance ^^ 5) u) = (s, v)" "lx_rest v = rest" by auto
  with u show "\<exists>tok u'. next_token u = Inr (tok, u') \<and> tk_kind tok = DurationTok s \<and> lx_rest u' = rest"
    by (simp add: next_token_def lex_hash_prefixed_def Let_def make_token_def peek_def peek_at_def
        numeral_eq_Suc)
qed (simp add: token_start_def is_blank_def)

lemma lex_digits_reads:
  "list_all is_digit s \<Longrightarrow> lx_rest u = s @ rest \<Longrightarrow> (case rest of [] \<Rightarrow> True | c # _ \<Rightarrow> \<not> is_digit c) \<Longrightarrow>
    \<exists>u'. lex_digits buf u = (buf @ s, u') \<and> lx_rest u' = rest"
proof (induction s arbitrary: buf u)
  case Nil
  then show ?case by (subst lex_digits.simps) (simp add: peek_def split: list.splits)
next
  case (Cons c s)
  have "lx_rest (advance u) = s @ rest" using Cons.prems by simp
  from Cons.IH [OF _ this Cons.prems(3), of "buf @ [c]"] Cons.prems(1,2)
  show ?case by (subst lex_digits.simps) (simp add: peek_def)
qed

definition num_text :: "bool \<Rightarrow> string \<Rightarrow> string \<Rightarrow> string" where
  "num_text neg i f = (if neg then ''-'' else []) @ i @ (if f = [] then [] else CHR ''.'' # f)"

lemma delim_not_digit:
  "delim rest \<Longrightarrow> (case rest of [] \<Rightarrow> True | c # _ \<Rightarrow> \<not> is_digit c)"
  by (auto simp: delim_def is_digit_def split: list.splits)

lemma lex_number_reads:
  assumes "list_all is_digit i" "list_all is_digit f" "i \<noteq> []" "delim rest"
    and u: "lx_rest u = num_text neg i f @ rest"
  shows "\<exists>tok u'. lex_number u = Inr (tok, u') \<and> tk_kind tok = Number (num_text neg i f) \<and> lx_rest u' = rest"
proof -
  let ?b = "if neg then ''-'' else []" and ?u = "if neg then advance u else u"
  have i0: "i = hd i # tl i" "is_digit (hd i)" using assms(1,3) by (cases i; simp)+
  have start: "(if peek u = Some CHR ''-'' then (''-'', advance u) else ([], u)) = (?b, ?u)"
    using u i0 digit_no_sign [OF i0(2)] by (cases i) (auto simp: peek_def num_text_def)
  have ru: "lx_rest ?u = i @ (if f = [] then [] else CHR ''.'' # f) @ rest"
    using u by (simp add: num_text_def)
  have "case (if f = [] then [] else CHR ''.'' # f) @ rest of [] \<Rightarrow> True | c # _ \<Rightarrow> \<not> is_digit c"
    using delim_not_digit [OF assms(4)] by (simp add: is_digit_def)
  from lex_digits_reads [OF assms(1) ru this, where buf = ?b]
  obtain v where v: "lex_digits ?b ?u = (?b @ i, v)"
    "lx_rest v = (if f = [] then [] else CHR ''.'' # f) @ rest" by blast
  have nodot: "\<not> (peek w = Some CHR ''.'' \<and> x)" if "lx_rest w = rest" for w x
    using assms(4) that by (auto simp: peek_def delim_def split: list.splits)
  show ?thesis
  proof (cases "f = []")
    case True
    then have rv: "lx_rest v = rest" using v(2) by simp
    then have "peek v \<noteq> Some CHR ''.''" using nodot [OF rv, of True] by simp
    then show ?thesis
      unfolding lex_number_def Let_def start using v(1) rv True
      by (simp add: make_token_def num_text_def del: peek_Some)
  next
    case False
    then have dot: "peek v = Some CHR ''.''" and rv: "lx_rest (advance v) = f @ rest"
      using v(2) by (simp_all add: peek_def)
    from lex_digits_reads [OF assms(2) rv delim_not_digit [OF assms(4)], where buf = "(?b @ i) @ ''.''"]
    obtain w where w: "lex_digits ((?b @ i) @ ''.'') (advance v) = ((?b @ i) @ ''.'' @ f, w)"
      "lx_rest w = rest" by auto
    have "peek w \<noteq> Some CHR ''.''" using nodot [OF w(2), of True] by simp
    then show ?thesis
      unfolding lex_number_def Let_def start using v(1) dot w False
      by (simp add: make_token_def num_text_def del: peek_Some)
  qed
qed

lemma emits_number [emit_intros]:
  assumes "list_all is_digit i" "list_all is_digit f" "i \<noteq> []" "delim rest"
  shows "emits (num_text neg i f) [Number (num_text neg i f)] rest"
proof -
  obtain d r where i: "i = d # r" "is_digit d" using assms(1,3) by (cases i) auto
  obtain c t where s: "num_text neg i f = c # t" by (cases neg) (auto simp: num_text_def i)
  have c: "c = d \<and> \<not> neg \<or> c = CHR ''-'' \<and> neg \<and> t \<noteq> [] \<and> hd t = d"
    using s by (auto simp: num_text_def i split: if_splits)
  have "token_start c"
    using c i(2) by (auto simp: token_start_def is_blank_def is_digit_def)
  then show ?thesis
    unfolding s
  proof (rule emits_token)
    fix u :: lexer
    assume u: "lx_rest u = c # t @ rest"
    have sp: "c \<notin> set [CHR ''('', CHR '')'', CHR ''['', CHR '']'', CHR 0x22, CHR ''?'', CHR '':'',
        CHR ''<'', CHR ''@'', CHR ''#'']"
      using c i(2) by (auto simp: is_digit_def)
    have "is_digit c \<or> c = CHR ''-'' \<and> is_digit_opt (peek_at u 1)"
      using c i(2) u by (cases t) (auto simp: peek_at_def is_digit_opt_def)
    then have "next_token u = lex_number u"
      unfolding next_token_def using u sp by auto
    then show "\<exists>tok u'. next_token u = Inr (tok, u') \<and> tk_kind tok = Number (c # t) \<and> lx_rest u' = rest"
      using lex_number_reads [OF assms, of u neg] u s by simp
  qed
qed

end
