(* ===== verification/Parser_Facts.thy ===== *)
theory Parser_Facts
  imports Parser
begin

text \<open>
  What every successful parse has in common: it leaves fewer tokens than it found (so the fuel of
  the loops is enough) and its value is well formed. Both are one predicate on results, \<open>fine\<close>,
  with a rule per way of sequencing parsers.
\<close>

section \<open>Well-formed values\<close>

text \<open>
  \<open>fits k t\<close>: the term has at most \<open>k\<close> nested forms, and all its predicate heads are names. The
  recursion follows the depth, as in the parser.
\<close>

definition pred_fits :: "(trm \<Rightarrow> bool) \<Rightarrow> predicate \<Rightarrow> bool" where
  "pred_fits f p \<longleftrightarrow>
     (case pr_head p of HeadName _ \<Rightarrow> True | HeadId _ \<Rightarrow> False)
     \<and> list_all f (pr_args p) \<and> list_all (\<lambda>(_, t). f t) (pr_named p)"

definition fits_with :: "(trm \<Rightarrow> bool) option \<Rightarrow> trm \<Rightarrow> bool" where
  "fits_with sub t =
     (case t of
        TCompound p \<Rightarrow> (case sub of None \<Rightarrow> False | Some f \<Rightarrow> pred_fits f p)
      | TList ts \<Rightarrow> (case sub of None \<Rightarrow> False | Some f \<Rightarrow> list_all f ts)
      | _ \<Rightarrow> True)"

fun fits :: "nat \<Rightarrow> trm \<Rightarrow> bool" where
  "fits 0 t = fits_with None t"
| "fits (Suc k) t = fits_with (Some (fits k)) t"

definition perm_single :: "u32 \<Rightarrow> bool" where
  "perm_single p \<longleftrightarrow> p = PUBLIC \<or> p = INTERNAL \<or> p = CONFIDENTIAL \<or> p = RESTRICTED"

definition parsed_ok :: "node \<Rightarrow> bool" where
  "parsed_ok n \<longleftrightarrow>
     in_unit (nd_conf n) \<and> in_unit (nd_auth n) \<and> perm_single (nd_perm n)
     \<and> nd_status n = Active \<and> pred_fits (fits (MAX_PARSE_DEPTH - 2)) (nd_pred n)"

section \<open>Sequencing\<close>

definition fine :: "('a \<Rightarrow> bool) \<Rightarrow> nat \<Rightarrow> parse_error + 'a \<times> token list \<Rightarrow> bool" where
  "fine Q n r =
     (case r of Inl e \<Rightarrow> pe_message e \<noteq> Diverges | Inr (x, ts) \<Rightarrow> Q x \<and> length ts < n)"

lemma fine_Inr [simp]: "fine Q n (Inr (x, ts)) \<longleftrightarrow> Q x \<and> length ts < n"
  by (simp add: fine_def)

lemma perror_message [simp]: "pe_message (perror m ts) = m"
  by (simp add: perror_def split: list.splits)

lemma fine_Inl [simp]: "fine Q n (Inl (perror m ts)) \<longleftrightarrow> m \<noteq> Diverges"
  by (simp add: fine_def)

lemma fine_bindr:
  assumes "fine P m p" "\<And>x ts. P x \<Longrightarrow> length ts < m \<Longrightarrow> fine Q n (f x ts)"
  shows "fine Q n (bindr p (case_prod f))"
  using assms by (cases p) (auto simp: fine_def)

lemma fine_ok_or:
  assumes "m \<noteq> Diverges" "\<And>v. x = Some v \<Longrightarrow> fine Q n (f v)"
  shows "fine Q n (bindr (ok_or (perror m ts) x) f)"
  using assms by (cases x) simp_all

lemma bump_less: "peek_kind ts \<noteq> Eof \<Longrightarrow> length (bump ts) < length ts"
  by (auto simp: peek_kind_def bump_def split: list.splits)

lemma bump_le: "length (bump ts) \<le> length ts"
  by (auto simp: bump_def split: list.splits)

lemma fine_expect:
  assumes "k \<noteq> Eof" "\<And>ts'. length ts' < length ts \<Longrightarrow> fine Q n (f ts')"
  shows "fine Q n (bindr (expect k ts) f)"
  using assms bump_less [of ts] by (auto simp: expect_def)

lemma fine_expect_symbol:
  assumes "\<And>ts'. length ts' < length ts \<Longrightarrow> fine Q n (f ts')"
  shows "fine Q n (bindr (expect_symbol s ts) f)"
  using assms bump_less [of ts] by (auto simp: expect_symbol_def)

lemma fine_weaken: "fine P m r \<Longrightarrow> (\<And>x. P x \<Longrightarrow> Q x) \<Longrightarrow> m \<le> n \<Longrightarrow> fine Q n r"
  by (auto simp: fine_def split: sum.splits)

lemma fine_if: "fine Q n a \<Longrightarrow> fine Q n b \<Longrightarrow> fine Q n (if c then a else b)"
  by simp

section \<open>Leaves\<close>

lemma fine_leaves:
  "fine (\<lambda>_. True) (length ts) (parse_f32 ts)"
  "fine (\<lambda>_. True) (length ts) (parse_u32 ts)"
  "fine (\<lambda>_. True) (length ts) (parse_smol_str ts)"
  "fine (\<lambda>_. True) (length ts) (parse_doc_id ts)"
  "fine (\<lambda>_. True) (length ts) (parse_note ts)"
  "fine (\<lambda>_. True) (length ts) (parse_datetime_tok C ts)"
  "fine perm_single (length ts) (parse_permission_tag ts)"
  using bump_less [of ts]
  by (simp_all add: parse_f32_def parse_u32_def parse_smol_str_def parse_doc_id_def parse_note_def
      parse_datetime_tok_def parse_permission_tag_def perm_single_def fine_ok_or
      split: token_kind.splits)

lemma fine_id_list_loop: "length ts < n \<Longrightarrow> fine (\<lambda>_. True) (Suc (length ts)) (id_list_loop n ids ts)"
proof (induction n ids ts rule: id_list_loop.induct)
  case (2 n ids ts)
  have "length (bump ts) < n" if "peek_kind ts = Symbol s" for s
    using bump_less [of ts] 2(2) that by simp
  then show ?case
    using 2(1) bump_le [of ts]
    by (auto split: token_kind.splits intro: fine_weaken)
qed simp

lemma fine_id_list: "fine (\<lambda>_. True) (length ts) (parse_id_list ts)"
proof (cases "peek_kind ts = LBracket")
  case True
  then have less: "length (bump ts) < length ts" by (simp add: bump_less)
  show ?thesis
    unfolding parse_id_list_def if_P [OF True]
    by (rule fine_bindr [OF fine_id_list_loop])
      (use less in \<open>auto simp del: id_list_loop.simps intro!: fine_expect\<close>)
next
  case False
  then show ?thesis using bump_less [of ts]
    by (simp add: parse_id_list_def split: token_kind.splits)
qed

section \<open>Validity and provenance\<close>

lemma fine_until: "fine (\<lambda>_. True) (Suc (length ts)) (parse_until C ts)"
  by (auto simp: parse_until_def intro!: fine_bindr [OF fine_leaves(6)])

lemma fine_validity: "fine (\<lambda>_. True) (length ts) (parse_validity C ts)"
  using bump_less [of ts]
  by (auto simp: parse_validity_def
      intro!: fine_expect_symbol fine_bindr [OF fine_leaves(6)] fine_bindr [OF fine_until] fine_expect)

lemma fine_span: "fine (\<lambda>_. True) (length ts) (parse_span ts)"
  using bump_less [of ts]
  by (auto simp: parse_span_def intro!: fine_bindr [OF fine_leaves(2)] fine_expect)

lemma fine_model_ref: "fine (\<lambda>_. True) (length ts) (parse_model_ref ts)"
  using bump_less [of ts]
  by (auto simp: parse_model_ref_def
      intro!: fine_expect_symbol fine_bindr [OF fine_leaves(3)] fine_expect)

lemma fine_derived: "fine (\<lambda>_. True) (length ts) (parse_derived ts)"
  using bump_less [of ts]
  by (auto simp: parse_derived_def parse_rule_id_def
      intro!: fine_bindr [OF fine_leaves(3)] split: token_kind.splits)

lemma fine_provenance_kind: "fine (\<lambda>_. True) (length ts) (parse_provenance_kind s ts)"
  unfolding parse_provenance_kind_def parse_principal_def
  by (intro fine_if fine_derived fine_bindr [OF fine_leaves(4)] fine_bindr [OF fine_span]
      fine_bindr [OF fine_model_ref] fine_bindr [OF fine_leaves(3)]) simp_all

lemma fine_provenance: "fine (\<lambda>_. True) (length ts) (parse_provenance ts)"
  unfolding parse_provenance_def
proof (rule fine_expect)
  fix us :: "token list"
  assume "length us < length ts"
  then show "fine (\<lambda>_. True) (length ts)
      (case peek_kind us of
         Symbol kind \<Rightarrow> bindr (parse_provenance_kind kind (bump us))
           (\<lambda>(p, ts). bindr (expect RParen ts) (\<lambda>ts. Inr (p, ts)))
       | _ \<Rightarrow> Inl (perror ExpectedProvenanceKind (bump us)))"
    using bump_le [of us]
    by (auto split: token_kind.split intro!: fine_bindr [OF fine_provenance_kind] fine_expect)
qed simp

section \<open>Terms\<close>

lemma fine_args_loop:
  assumes pt: "\<And>ts. fine f (length ts) (pt ts)"
  shows "length ts < n \<Longrightarrow> list_all f args \<Longrightarrow> list_all (\<lambda>(_, t). f t) named \<Longrightarrow>
    fine (\<lambda>(as, ns). list_all f as \<and> list_all (\<lambda>(_, t). f t) ns) (Suc (length ts))
      (args_loop pt n args named b ts)"
proof (induction n arbitrary: args named b ts)
  case (Suc n)
  let ?Q = "\<lambda>(as, ns). list_all f as \<and> list_all (\<lambda>(_, t). f t) ns"
  have key: "fine ?Q (Suc (length ts))
      (bindr (pt (bump ts)) (\<lambda>(v, ts). args_loop pt n args (named @ [(key, v)]) True ts))" for key
  proof (rule fine_bindr [OF pt])
    fix v and us :: "token list"
    assume "f v" "length us < length (bump ts)"
    then show "fine ?Q (Suc (length ts))
        (args_loop pt n args (named @ [(key, v)]) True us)"
      using Suc bump_le [of ts]
      by (auto intro!: fine_weaken [OF Suc.IH])
  qed
  have pos: "fine ?Q (Suc (length ts))
      (bindr (pt ts) (\<lambda>(a, ts). args_loop pt n (args @ [a]) named b ts))"
  proof (rule fine_bindr [OF pt])
    fix v and us :: "token list"
    assume "f v" "length us < length ts"
    then show "fine ?Q (Suc (length ts))
        (args_loop pt n (args @ [v]) named b us)"
      using Suc by (auto intro!: fine_weaken [OF Suc.IH])
  qed
  show ?case using Suc.prems key pos by (cases b) (simp_all split: token_kind.split)
qed simp

lemma fine_items_loop:
  assumes pt: "\<And>ts. fine f (length ts) (pt ts)"
  shows "length ts < n \<Longrightarrow> list_all f items \<Longrightarrow>
    fine (list_all f) (Suc (length ts)) (items_loop pt n items ts)"
proof (induction n arbitrary: items ts)
  case (Suc n)
  have "fine (list_all f) (Suc (length ts)) (bindr (pt ts) (\<lambda>(t, ts). items_loop pt n (items @ [t]) ts))"
  proof (rule fine_bindr [OF pt])
    fix v and us :: "token list"
    assume "f v" "length us < length ts"
    then show "fine (list_all f) (Suc (length ts)) (items_loop pt n (items @ [v]) us)"
      using Suc by (auto intro!: fine_weaken [OF Suc.IH])
  qed
  then show ?case using Suc.prems by simp
qed simp

lemma fine_body:
  assumes pt: "\<And>ts. fine f (length ts) (pt ts)"
  shows "fine (pred_fits f) (length ts) (parse_predicate_body_inner pt ts)"
proof (cases "peek_kind ts")
  case (Symbol s)
  then have less: "length (bump ts) < length ts" by (simp add: bump_less)
  show ?thesis
    using Symbol less
    by (auto simp: parse_predicate_body_inner_def pred_fits_def simp del: args_loop.simps
        intro!: fine_bindr [OF fine_args_loop [OF pt]])
qed (simp_all add: parse_predicate_body_inner_def)

lemma duration_message: "parse_duration checks s = Inl m \<Longrightarrow> m = BadDuration s \<or> m = Panicked"
  by (auto simp: parse_duration_def duration_secs_def Let_def ok_or_def split: option.splits if_splits)

lemma fine_term_with:
  assumes "\<And>pt. sub = Some pt \<Longrightarrow> \<exists>f. g = Some f \<and> (\<forall>ts. fine f (length ts) (pt ts))"
  shows "fine (fits_with g) (length ts) (parse_term_with C sub ts)"
proof (cases "peek_kind ts")
  case LParen
  then have less: "length (bump ts) < length ts" by (simp add: bump_less)
  show ?thesis
  proof (cases sub)
    case None
    then show ?thesis using LParen by (simp add: parse_term_with_def)
  next
    case (Some pt)
    then obtain f where f: "g = Some f" "\<And>ts. fine f (length ts) (pt ts)" using assms by blast
    show ?thesis
      using LParen Some less
      by (auto simp: parse_term_with_def fits_with_def f(1)
          intro!: fine_bindr [OF fine_body [OF f(2)]] fine_expect)
  qed
next
  case LBracket
  then have less: "length (bump ts) < length ts" by (simp add: bump_less)
  show ?thesis
  proof (cases sub)
    case None
    then show ?thesis using LBracket by (simp add: parse_term_with_def)
  next
    case (Some pt)
    then obtain f where f: "g = Some f" "\<And>ts. fine f (length ts) (pt ts)" using assms by blast
    show ?thesis
      using LBracket Some less
      by (auto simp: parse_term_with_def fits_with_def f(1) simp del: items_loop.simps
          intro!: fine_bindr [OF fine_items_loop [OF f(2)]] fine_expect)
  qed
next
  case (Number s)
  then show ?thesis using bump_less [of ts]
    by (auto simp: parse_term_with_def fits_with_def split: sum.split)
next
  case (DurationTok s)
  then show ?thesis using bump_less [of ts] duration_message [of _ s]
    by (auto simp: parse_term_with_def fits_with_def split: sum.split)
qed (use bump_less [of ts] in \<open>auto simp: parse_term_with_def fits_with_def intro!: fine_ok_or\<close>)

lemma fine_term: "fine (fits k) (length ts) (parse_term C k ts)"
proof (induction k arbitrary: ts)
  case 0
  have "fine (fits_with None) (length ts) (parse_term_with C None ts)"
    by (rule fine_term_with) simp
  then show ?case by (simp add: fine_def split: sum.splits)
next
  case (Suc k)
  have "fine (fits_with (Some (fits k))) (length ts) (parse_term_with C (Some (parse_term C k)) ts)"
    by (rule fine_term_with) (use Suc in auto)
  then show ?case by (simp add: fine_def split: sum.splits)
qed

lemma fine_predicate_form:
  "fine (pred_fits (fits (k - 1))) (length ts) (parse_predicate_form C k ts)"
  by (auto simp: parse_predicate_form_def with_depth_def split: nat.split
      intro!: fine_expect fine_bindr [OF fine_body [OF fine_term]])

section \<open>Nodes\<close>

definition fields_ok :: "nat \<Rightarrow> fields \<Rightarrow> bool" where
  "fields_ok k f \<longleftrightarrow>
     in_unit (fd_conf f) \<and> in_unit (fd_auth f) \<and> perm_single (fd_perm f)
     \<and> (case fd_pred f of None \<Rightarrow> True | Some p \<Rightarrow> pred_fits (fits (k - 1)) p)"

lemma fine_refused:
  assumes "in_unit v \<Longrightarrow> fine Q n (h v)"
  shows "fine Q n (bindr (refused (confidence_new v) us) h)"
    and "fine Q n (bindr (refused (authority_new v) us) h)"
  using assms by (auto simp: refused_def confidence_new_def authority_new_def)

lemma fine_field:
  assumes "fields_ok k f"
  shows "fine (fields_ok k) (length ts) (parse_field C k key f ts)"
  unfolding parse_field_def
  by (intro fine_if fine_refused fine_bindr [OF fine_predicate_form] fine_bindr [OF fine_validity]
      fine_bindr [OF fine_provenance] fine_bindr [OF fine_leaves(1)] fine_bindr [OF fine_leaves(5)]
      fine_bindr [OF fine_leaves(7)] fine_bindr [OF fine_id_list])
    (use assms in \<open>simp_all add: fields_ok_def\<close>)

lemma fine_fields_loop:
  "length ts < n \<Longrightarrow> fields_ok k f \<Longrightarrow> fine (fields_ok k) (Suc (length ts)) (fields_loop C k n f ts)"
proof (induction n arbitrary: f ts)
  case (Suc n)
  have "fine (fields_ok k) (Suc (length ts))
      (bindr (parse_field C k key f (bump ts)) (\<lambda>(f, ts). fields_loop C k n f ts))" for key
  proof (rule fine_bindr [OF fine_field [OF Suc.prems(2)]])
    fix g and us :: "token list"
    assume "fields_ok k g" "length us < length (bump ts)"
    then show "fine (fields_ok k) (Suc (length ts)) (fields_loop C k n g us)"
      using Suc bump_le [of ts] by (auto intro!: fine_weaken [OF Suc.IH])
  qed
  then show ?case using Suc.prems by (simp split: token_kind.split)
qed simp

lemma default_fields_ok: "fields_ok k default_fields"
proof -
  have "in_unit default_confidence" "in_unit default_authority" by code_simp+
  then show ?thesis by (simp add: fields_ok_def default_fields_def perm_single_def)
qed

lemma fine_node: "fine parsed_ok (length ts) (parse_node C MAX_PARSE_DEPTH ts)"
proof -
  obtain k where k: "MAX_PARSE_DEPTH = Suc (Suc k)" "MAX_PARSE_DEPTH - 2 = k"
    by (simp add: MAX_PARSE_DEPTH_def)
  have fin: "fine parsed_ok (length ts) (Inr (node_of_fields i f p, us))"
    if "fields_ok (Suc k) f" "fd_pred f = Some p" "length us < length ts" for i f p us
    using that by (simp add: parsed_ok_def node_of_fields_def fields_ok_def k)
  show ?thesis
    unfolding parse_node_def with_depth_def k(1)
  proof (simp, intro fine_expect fine_expect_symbol, simp)
    fix us vs :: "token list"
    assume "length us < length ts" "length vs < length us"
    moreover have "fine (fields_ok (Suc k)) (Suc (length (bump vs)))
        (fields_loop C (Suc k) (Suc (length vs)) default_fields (bump vs))"
      by (rule fine_fields_loop) (use bump_le [of vs] in \<open>simp_all add: default_fields_ok\<close>)
    ultimately show "fine parsed_ok (length ts)
        (case peek_kind vs of
          Symbol i \<Rightarrow>
            bindr (fields_loop C (Suc k) (Suc (length vs)) default_fields (bump vs)) (\<lambda>(f, ts).
            bindr (expect RParen ts) (\<lambda>ts.
            bindr (ok_or (perror MissingPredField ts) (fd_pred f)) (\<lambda>p.
            Inr (node_of_fields i f p, ts))))
        | _ \<Rightarrow> Inl (perror ExpectedNodeId (bump vs)))"
      using bump_le [of vs]
      by (auto simp del: fields_loop.simps fine_Inr split: token_kind.split
          intro!: fine_expect fine_ok_or fin elim!: fine_bindr)
  qed
qed

section \<open>Whole inputs\<close>

lemma skip_loop_length: "length (skip_loop close d ts) \<le> length ts"
  by (induction close d ts rule: skip_loop.induct) auto

lemma skip_sexp_less: "peek_kind ts \<noteq> Eof \<Longrightarrow> length (skip_sexp ts) < length ts"
  using bump_less [of ts] skip_loop_length [of _ _ "bump ts"]
  by (auto simp: skip_sexp_def intro: le_less_trans)

lemma fine_parse_loop:
  "length ts < n \<Longrightarrow> list_all parsed_ok ns \<Longrightarrow>
    fine (list_all parsed_ok) (Suc (length ts)) (parse_loop C n ns ts)"
proof (induction n arbitrary: ns ts)
  case (Suc n)
  have node: "fine (list_all parsed_ok) (Suc (length ts))
      (bindr (parse_node C MAX_PARSE_DEPTH ts) (\<lambda>(d, ts). parse_loop C n (ns @ [d]) ts))"
  proof (rule fine_bindr [OF fine_node])
    fix d and us :: "token list"
    assume "parsed_ok d" "length us < length ts"
    then show "fine (list_all parsed_ok) (Suc (length ts)) (parse_loop C n (ns @ [d]) us)"
      using Suc by (auto intro!: fine_weaken [OF Suc.IH])
  qed
  have other: "fine (list_all parsed_ok) (Suc (length ts)) (parse_loop C n ns us)"
    if "length us < length ts" for us
    using that Suc by (auto intro!: fine_weaken [OF Suc.IH])
  show ?case
    using Suc.prems node other [OF bump_less] other [OF skip_sexp_less]
    by (auto simp: is_at_end_def)
qed simp

lemma fine_tokens_of: "tokens_of src = Inl e \<Longrightarrow> pe_message e \<noteq> Diverges"
  by (auto simp: tokens_of_def lex_failed_def split: sum.splits if_splits)

lemma parse_build_cases:
  "(\<exists>ns. parse_build C src = Inr ns \<and> list_all parsed_ok ns)
   \<or> (\<exists>e. parse_build C src = Inl e \<and> pe_message e \<noteq> Diverges)"
proof (cases "tokens_of src")
  case (Inl e)
  then show ?thesis using fine_tokens_of [of src e] by (simp add: parse_build_def)
next
  case (Inr ts)
  have "fine (list_all parsed_ok) (Suc (length ts)) (parse_loop C (Suc (length ts)) [] ts)"
    by (rule fine_parse_loop) simp_all
  then show ?thesis
    using Inr by (cases "parse_loop C (Suc (length ts)) [] ts")
      (auto simp: parse_build_def fine_def simp del: parse_loop.simps)
qed

lemma parse_cases:
  "(\<exists>ns. parse C src = Inr ns \<and> list_all parsed_ok ns)
   \<or> (\<exists>e. parse C src = Inl e \<and> pe_message e \<noteq> Diverges)"
  unfolding parse_def by (rule parse_build_cases)

lemma parse_predicate_message:
  assumes "parse_predicate C src = Inl e"
  shows "pe_message e \<noteq> Diverges"
proof (cases "tokens_of src")
  case (Inl e')
  then show ?thesis using assms fine_tokens_of [of src e'] by (simp add: parse_predicate_def)
next
  case (Inr ts)
  have body: "fine (pred_fits (fits (k - 1))) (length us) (parse_predicate_body (release C) k us)" for k us
    by (auto simp: parse_predicate_body_def with_depth_def split: nat.split intro: fine_body [OF fine_term])
  have "fine (\<lambda>_. True) (length ts)
      (bindr (expect LParen ts) (\<lambda>ts.
       bindr (parse_predicate_body (release C) MAX_PARSE_DEPTH ts) (\<lambda>(p, ts).
       bindr (expect RParen ts) (\<lambda>ts. Inr (p, ts)))))"
    by (intro fine_expect fine_bindr [OF body]) simp_all
  then show ?thesis
    using assms Inr by (auto simp: parse_predicate_def fine_def bindr_eq_Inl split: sum.splits) 
qed

end
