(* ===== verification/Tokens.thy ===== *)
theory Tokens
  imports Lexing Parser_Facts
begin

text \<open>
  Canonical text reads back as the node it was printed from. Every part of a node has a token list
  (\<open>toks_*\<close>); the lexer turns the canonical text into it (\<open>emits\<close>) and the parser turns it back
  into the value (\<open>reads\<close>). What the values must satisfy is stated by \<open>node_ok\<close>.
\<close>

section \<open>Reading tokens\<close>

definition reads :: "'a parser \<Rightarrow> token_kind list \<Rightarrow> 'a \<Rightarrow> bool" where
  "reads p ks v \<longleftrightarrow> (\<forall>us vs. map tk_kind us = ks \<longrightarrow> p (us @ vs) = Inr (v, vs))"

lemma readsI: "(\<And>us vs. map tk_kind us = ks \<Longrightarrow> p (us @ vs) = Inr (v, vs)) \<Longrightarrow> reads p ks v"
  by (simp add: reads_def)

lemma readsD: "reads p ks v \<Longrightarrow> map tk_kind us = ks \<Longrightarrow> p (us @ vs) = Inr (v, vs)"
  by (simp add: reads_def)

lemma peek_kind_Cons [simp]: "peek_kind (t # r) = tk_kind t"
  by (simp add: peek_kind_def)

lemma bump_Cons [simp]: "tk_kind t \<noteq> Eof \<Longrightarrow> bump (t # r) = r"
  by (simp add: bump_def)

lemma expect_Cons [simp]: "tk_kind t = k \<Longrightarrow> k \<noteq> Eof \<Longrightarrow> expect k (t # r) = Inr r"
  by (simp add: expect_def)

lemma expect_symbol_Cons [simp]: "tk_kind t = Symbol s \<Longrightarrow> expect_symbol s (t # r) = Inr r"
  by (simp add: expect_symbol_def)

text \<open>Splitting a token list along its kinds.\<close>

lemma map_append_split:
  assumes "map tk_kind us = ks @ ls"
  obtains us1 us2 where "us = us1 @ us2" "map tk_kind us1 = ks" "map tk_kind us2 = ls"
  using assms by (auto simp: map_eq_append_conv)

section \<open>Texts that read back\<close>

definition lit_ok :: "chrono \<Rightarrow> literal \<Rightarrow> bool" where
  "lit_ok C l =
     (case l of
        LDec m sc \<Rightarrow> sint m \<noteq> - (2 ^ 127)
      | LStr s \<Rightarrow> utf8_valid s
      | LDate d \<Rightarrow> paren_ok (fmt_date C d) \<and> parse_date C (fmt_date C d) = Some d
      | LDur d \<Rightarrow> 0 \<le> d \<and> d < 2 ^ 64
      | LBool b \<Rightarrow> True
      | LUri u \<Rightarrow> uri_ok u)"

definition pred_ok :: "(trm \<Rightarrow> bool) \<Rightarrow> predicate \<Rightarrow> bool" where
  "pred_ok f p \<longleftrightarrow>
     (case pr_head p of HeadName s \<Rightarrow> sym_ok s | HeadId _ \<Rightarrow> False)
     \<and> list_all f (pr_args p) \<and> list_all (\<lambda>(k, t). name_ok ident_byte k \<and> f t) (pr_named p)"

definition term_ok_with :: "chrono \<Rightarrow> (trm \<Rightarrow> bool) option \<Rightarrow> trm \<Rightarrow> bool" where
  "term_ok_with C sub t =
     (case t of
        TVar s \<Rightarrow> name_ok ident_byte s
      | TEnt s \<Rightarrow> name_ok entity_byte s
      | TLit l \<Rightarrow> lit_ok C l
      | TCompound p \<Rightarrow> (case sub of None \<Rightarrow> False | Some f \<Rightarrow> pred_ok f p)
      | TList ts \<Rightarrow> (case sub of None \<Rightarrow> False | Some f \<Rightarrow> list_all f ts))"

fun term_ok :: "chrono \<Rightarrow> nat \<Rightarrow> trm \<Rightarrow> bool" where
  "term_ok C 0 t = term_ok_with C None t"
| "term_ok C (Suc k) t = term_ok_with C (Some (term_ok C k)) t"

definition datetime_ok :: "chrono \<Rightarrow> datetime \<Rightarrow> bool" where
  "datetime_ok C t \<longleftrightarrow> raw_ok (fmt_rfc3339 C t) \<and> parse_datetime C (fmt_rfc3339 C t) = Some t"

definition validity_ok :: "chrono \<Rightarrow> validity \<Rightarrow> bool" where
  "validity_ok C v =
     (case v of
        Forever \<Rightarrow> True
      | Window a b \<Rightarrow> datetime_ok C a \<and> (case b of None \<Rightarrow> True | Some u \<Rightarrow> datetime_ok C u))"

definition prov_ok :: "provenance \<Rightarrow> bool" where
  "prov_ok p =
     (case p of
        Verbatim d sp \<Rightarrow> raw_ok d
      | Summary d sp \<Rightarrow> raw_ok d
      | Extracted d sp m \<Rightarrow> raw_ok d \<and> raw_ok (m_name m) \<and> raw_ok (m_version m)
      | Derived f r \<Rightarrow> sym_ok f \<and> raw_ok r
      | Asserted b \<Rightarrow> raw_ok b)"

definition unit_ok :: "f32 \<Rightarrow> bool" where
  \<comment> \<open>a binary32 value in \<open>[0, 1]\<close>\<close>
  "unit_ok v \<longleftrightarrow> f32_wf v \<and> in_unit v"

text \<open>
  What a node must satisfy to survive printing and parsing. Beyond the invariants of its Rust
  types (texts are UTF-8, weights are binary32 values) this says that identifiers, names and
  raw texts need no quoting and that \<open>C\<close> reads back the dates it printed.
\<close>

definition node_ok :: "chrono \<Rightarrow> node \<Rightarrow> bool" where
  "node_ok C n \<longleftrightarrow>
     sym_ok (nd_id n) \<and> pred_ok (term_ok C (MAX_PARSE_DEPTH - 2)) (nd_pred n)
     \<and> validity_ok C (nd_validity n) \<and> prov_ok (nd_prov n)
     \<and> unit_ok (nd_conf n) \<and> unit_ok (nd_auth n) \<and> perm_single (nd_perm n)
     \<and> list_all sym_ok (nd_deps n)
     \<and> (case nd_note n of None \<Rightarrow> True | Some s \<Rightarrow> utf8_valid s)"

lemma node_ok_release [simp]: "node_ok (release C) = node_ok C"
proof -
  have lit: "lit_ok (release C) = lit_ok C" by (intro ext) (auto simp: lit_ok_def split: literal.split)
  have "term_ok (release C) k t = term_ok C k t" for k t
    by (induction k arbitrary: t)
      (auto simp: term_ok_with_def lit pred_ok_def list_all_iff split: trm.split predicate_head.split)
  then have "term_ok (release C) = term_ok C" by (intro ext)
  moreover have "validity_ok (release C) = validity_ok C"
    by (intro ext) (auto simp: validity_ok_def datetime_ok_def split: validity.split option.split)
  ultimately show ?thesis by (intro ext) (simp add: node_ok_def)
qed

section \<open>Token lists\<close>

definition toks_lit :: "chrono \<Rightarrow> literal \<Rightarrow> token_kind list" where
  "toks_lit C l =
     (case l of
        LDec m sc \<Rightarrow> [Number (dec_canonical m sc)]
      | LStr s \<Rightarrow> [StrTok s]
      | LDate d \<Rightarrow> [DateTok (fmt_date C d)]
      | LDur d \<Rightarrow> [DurationTok (int_dec d @ ''ns'')]
      | LBool b \<Rightarrow> [BoolTok b]
      | LUri u \<Rightarrow> [UriTok u])"

definition toks_head :: "predicate_head \<Rightarrow> token_kind list" where
  "toks_head h = [Symbol (head_text h)]"

fun toks_term :: "chrono \<Rightarrow> trm \<Rightarrow> token_kind list"
  and toks_pred :: "chrono \<Rightarrow> predicate \<Rightarrow> token_kind list" where
  "toks_term C (TVar s) = [VarTok s]"
| "toks_term C (TEnt e) = [EntityTok e]"
| "toks_term C (TLit l) = toks_lit C l"
| "toks_term C (TCompound p) = toks_pred C p"
| "toks_term C (TList items) = [LBracket] @ concat (map (toks_term C) items) @ [RBracket]"
| "toks_pred C (Predicate h as ns) =
     [LParen] @ toks_head h @ concat (map (toks_term C) as)
     @ concat (map (\<lambda>(k, v). Keyword k # toks_term C v) ns) @ [RParen]"

definition toks_validity :: "chrono \<Rightarrow> validity \<Rightarrow> token_kind list" where
  "toks_validity C v =
     (case v of
        Forever \<Rightarrow> [Symbol ''forever'']
      | Window a b \<Rightarrow>
          [LParen, Symbol ''window'', StrTok (fmt_rfc3339 C a)]
          @ (case b of None \<Rightarrow> [] | Some u \<Rightarrow> [StrTok (fmt_rfc3339 C u)]) @ [RParen])"

definition toks_span :: "span \<Rightarrow> token_kind list" where
  "toks_span sp =
     [LBracket, Number (int_dec (uint (sp_start sp))), Number (int_dec (uint (sp_end sp))), RBracket]"

definition toks_prov :: "provenance \<Rightarrow> token_kind list" where
  "toks_prov p =
     (case p of
        Verbatim d sp \<Rightarrow> [LParen, Symbol ''verbatim'', StrTok d] @ toks_span sp @ [RParen]
      | Summary d sp \<Rightarrow> [LParen, Symbol ''summary'', StrTok d] @ toks_span sp @ [RParen]
      | Extracted d sp m \<Rightarrow>
          [LParen, Symbol ''extracted'', StrTok d] @ toks_span sp
          @ [LParen, Symbol ''model'', StrTok (m_name m), StrTok (m_version m), RParen, RParen]
      | Derived f r \<Rightarrow> [LParen, Symbol ''derived'', Symbol f, StrTok r, RParen]
      | Asserted b \<Rightarrow> [LParen, Symbol ''asserted'', StrTok b, RParen])"

definition toks_deps :: "node_id list \<Rightarrow> token_kind list" where
  "toks_deps ds =
     (if ds = [] then [] else [Keyword ''deps'', LBracket] @ map Symbol ds @ [RBracket])"

definition toks_note :: "string option \<Rightarrow> token_kind list" where
  "toks_note s = (case s of None \<Rightarrow> [] | Some s \<Rightarrow> [Keyword ''note'', StrTok s])"

definition toks_node :: "chrono \<Rightarrow> node \<Rightarrow> token_kind list" where
  "toks_node C n =
     [LParen, Symbol ''node'', Symbol (nd_id n)]
     @ [Keyword ''pred''] @ toks_pred C (nd_pred n)
     @ [Keyword ''valid''] @ toks_validity C (nd_validity n)
     @ [Keyword ''src''] @ toks_prov (nd_prov n)
     @ [Keyword ''conf'', Number (format_f32_with_decimal (nd_conf n))]
     @ [Keyword ''auth'', Number (format_f32_with_decimal (nd_auth n))]
     @ [Keyword ''perm'', Symbol (perm_text (nd_perm n))]
     @ toks_deps (nd_deps n) @ toks_note (nd_note n) @ [RParen]"

end
