(* ===== verification/Printing.thy ===== *)
theory Printing
  imports Tokens
begin

text \<open>
  The lexer on canonical text: every printed part of a node lexes to its token list.
\<close>

lemma emits_cong: "emits a ks rest \<Longrightarrow> a = b \<Longrightarrow> ks = ls \<Longrightarrow> emits b ls rest"
  by simp

lemma emits_spaced:
  "emits a ks rest \<Longrightarrow> emits ('' '' @ a) ks rest"
  using emits_append [OF emits_space, of a ks rest] by simp

section \<open>Words of the language\<close>

lemma words_ok [simp]:
  "sym_ok ''node''" "sym_ok ''forever''" "sym_ok ''window''" "sym_ok ''verbatim''"
  "sym_ok ''summary''" "sym_ok ''extracted''" "sym_ok ''model''" "sym_ok ''derived''"
  "sym_ok ''asserted''" "sym_ok ''public''" "sym_ok ''internal''" "sym_ok ''confidential''"
  "sym_ok ''restricted''"
  by code_simp+

lemma keys_ok [simp]:
  "name_ok ident_byte ''pred''" "name_ok ident_byte ''valid''" "name_ok ident_byte ''src''"
  "name_ok ident_byte ''conf''" "name_ok ident_byte ''auth''" "name_ok ident_byte ''perm''"
  "name_ok ident_byte ''deps''" "name_ok ident_byte ''note''"
  by code_simp+

section \<open>Sequences\<close>

lemma delim_concat: "(\<And>x. x \<in> set xs \<Longrightarrow> \<exists>t. f x = CHR '' '' # t) \<Longrightarrow> delim rest \<Longrightarrow>
    delim (concat (map f xs) @ rest)"
  by (cases xs) force+

lemma emits_concat:
  assumes "\<And>x rest. x \<in> set xs \<Longrightarrow> delim rest \<Longrightarrow> emits (f x) (g x) rest"
    and sp: "\<And>x. x \<in> set xs \<Longrightarrow> \<exists>t. f x = CHR '' '' # t" and "delim rest"
  shows "emits (concat (map f xs)) (concat (map g xs)) rest"
  using assms(1,2)
proof (induction xs)
  case (Cons x xs)
  have "delim (concat (map f xs) @ rest)"
    by (rule delim_concat) (use Cons.prems(2) assms(3) in auto)
  then have "emits (f x) (g x) (concat (map f xs) @ rest)" using Cons.prems(1) by simp
  moreover have "emits (concat (map f xs)) (concat (map g xs)) rest"
    using Cons by simp
  ultimately show ?case using emits_append by fastforce
qed (simp add: emits_Nil)

lemma emits_join_sp:
  assumes "\<And>x rest. x \<in> set xs \<Longrightarrow> delim rest \<Longrightarrow> emits (f x) (g x) rest" "delim rest"
  shows "emits (join_sp (map f xs)) (concat (map g xs)) rest"
  using assms(1)
proof (induction xs rule: induct_list012)
  case 1
  show ?case by (simp add: emits_Nil)
next
  case (2 x)
  then show ?case using assms(2) by simp
next
  case (3 x y zs)
  have a: "emits (join_sp (map f (y # zs))) (concat (map g (y # zs))) rest"
    using "3.IH"(2) "3.prems" by simp
  have b: "emits (f x) (g x) (('' '' @ join_sp (map f (y # zs))) @ rest)"
    using "3.prems" by simp
  show ?case
    using emits_append [OF b emits_spaced [OF a]] by simp
qed

section \<open>Literals, terms and predicates\<close>

lemma int_dec_num: "int_dec n = num_text False (int_dec n) []"
  by (simp add: num_text_def)

lemma emits_int_dec: "delim rest \<Longrightarrow> emits (int_dec n) [Number (int_dec n)] rest"
  using emits_number [of "int_dec n" "[]" rest False] by (simp add: int_dec_num [symmetric])

lemma dec_canonical_num:
  obtains i f where "dec_canonical m sc = num_text (sint m < 0) i f" "list_all is_digit i"
    "list_all is_digit f" "i \<noteq> []"
proof (cases "unat sc = 0")
  case True
  then have "dec_canonical m sc = num_text (sint m < 0) (int_dec \<bar>sint m\<bar>) []"
    by (simp add: dec_canonical_def num_text_def)
  then show ?thesis using that by simp
next
  case False
  then have p: "0 < unat sc" by simp
  obtain i f where "dec_render \<bar>sint m\<bar> (unat sc) = i @ CHR ''.'' # f" "list_all is_digit i"
    "list_all is_digit f" "i \<noteq> []" "length f = unat sc"
    using dec_render_split [OF _ p, of "\<bar>sint m\<bar>"] by (metis abs_ge_zero)
  moreover from this p have "f \<noteq> []" by auto
  ultimately show ?thesis
    using that [of i f] by (simp add: dec_canonical_def num_text_def)
qed

lemma emits_dec: "delim rest \<Longrightarrow> emits (dec_canonical m sc) [Number (dec_canonical m sc)] rest"
  by (rule dec_canonical_num [of m sc]) (simp add: emits_number)

lemma paren_ok_append [simp]: "paren_ok (s @ t) \<longleftrightarrow> paren_ok s \<and> paren_ok t"
  by (simp add: paren_ok_def)

lemma paren_ok_int_dec [simp]: "paren_ok (int_dec n)"
proof -
  have "\<not> is_high c \<and> c \<noteq> CHR '')''" if "is_digit c" for c
    using that digit_not_high [OF that] by (auto simp: is_digit_def)
  then show ?thesis using int_dec_digits [of n] by (auto simp: paren_ok_def list_all_iff)
qed

lemma emits_literal:
  assumes "lit_ok C l" "delim rest"
  shows "emits (canonical_literal C l) (toks_lit C l) rest"
proof (cases l)
  case (LDec m sc)
  then show ?thesis using assms(2) by (simp add: canonical_literal_def toks_lit_def emits_dec)
next
  case (LDur d)
  have "paren_ok ''ns''" by (simp add: paren_ok_def is_high_def)
  then have "emits (''#dur('' @ (int_dec d @ ''ns'') @ '')'') [DurationTok (int_dec d @ ''ns'')] rest"
    by (intro emits_duration) simp
  then show ?thesis using LDur by (simp add: canonical_literal_def toks_lit_def)
qed (use assms in \<open>auto simp: canonical_literal_def toks_lit_def lit_ok_def
    intro: emits_quoted emits_uri [simplified] emits_date [simplified] emits_bool\<close>)

lemma emits_predicate:
  assumes "pred_ok f p" "\<And>t rest. f t \<Longrightarrow> delim rest \<Longrightarrow> emits (canonical_term C t) (toks_term C t) rest"
  shows "emits (canonical_predicate_inner C p) (toks_pred C p) rest"
proof (cases p)
  case (Predicate h as ns)
  let ?as = "concat (map (\<lambda>a. '' '' @ canonical_term C a) as)"
  let ?ns = "concat (map (\<lambda>(k, v). '' :'' @ k @ '' '' @ canonical_term C v) ns)"
  have h: "sym_ok (head_text h)" and as: "\<And>a. a \<in> set as \<Longrightarrow> f a"
    and ns: "\<And>k v. (k, v) \<in> set ns \<Longrightarrow> name_ok ident_byte k \<and> f v"
    using assms(1) by (auto simp: pred_ok_def Predicate head_text_def list_all_iff split: predicate_head.splits)
  have "emits ?ns (concat (map (\<lambda>(k, v). Keyword k # toks_term C v) ns)) ('')'' @ rest)"
  proof (rule emits_concat)
    fix x rest
    assume "x \<in> set ns" and d: "delim rest"
    obtain k v where x: "x = (k, v)" by (cases x)
    with \<open>x \<in> set ns\<close> ns have kv: "name_ok ident_byte k" "f v" by blast+
    have "emits ('' '' @ (CHR '':'' # k) @ '' '' @ canonical_term C v) ([] @ [Keyword k] @ [] @ toks_term C v) rest"
      by (intro emits_append emits_space emits_keyword assms(2) kv d) simp_all
    then show "emits (case x of (k, v) \<Rightarrow> '' :'' @ k @ '' '' @ canonical_term C v)
        (case x of (k, v) \<Rightarrow> Keyword k # toks_term C v) rest"
      by (simp add: x)
  qed auto
  moreover have "emits ?as (concat (map (toks_term C) as)) (?ns @ '')'' @ rest)"
  proof (rule emits_concat)
    show "delim (?ns @ '')'' @ rest)" by (rule delim_concat) auto
  qed (auto intro: emits_spaced [simplified] assms(2) as)
  moreover have "emits (head_text h) (toks_head h) (?as @ ?ns @ '')'' @ rest)"
    unfolding toks_head_def
    by (intro emits_symbol h delim_concat) auto
  ultimately have "emits (''('' @ head_text h @ ?as @ ?ns @ '')'')
      ([LParen] @ toks_head h @ concat (map (toks_term C) as)
       @ concat (map (\<lambda>(k, v). Keyword k # toks_term C v) ns) @ [RParen]) rest"
    by (intro emits_append emits_punct) simp_all
  then show ?thesis by (simp add: Predicate)
qed

lemma emits_list:
  assumes "list_all f ts" "\<And>t rest. f t \<Longrightarrow> delim rest \<Longrightarrow> emits (canonical_term C t) (toks_term C t) rest"
  shows "emits (canonical_term C (TList ts)) (toks_term C (TList ts)) rest"
proof -
  have "emits (join_sp (map (canonical_term C) ts)) (concat (map (toks_term C) ts)) ('']'' @ rest)"
    by (rule emits_join_sp) (use assms in \<open>auto simp: list_all_iff\<close>)
  then show ?thesis
    unfolding canonical_term.simps toks_term.simps by (intro emits_append emits_punct)
qed

lemma emits_term_with:
  assumes "term_ok_with C sub t" "delim rest"
    and "\<And>f t rest. sub = Some f \<Longrightarrow> f t \<Longrightarrow> delim rest \<Longrightarrow> emits (canonical_term C t) (toks_term C t) rest"
  shows "emits (canonical_term C t) (toks_term C t) rest"
proof (cases t)
  case (TCompound p)
  with assms(1) obtain f where "sub = Some f" "pred_ok f p"
    by (auto simp: term_ok_with_def split: option.splits)
  with assms(3) TCompound show ?thesis by (simp add: emits_predicate)
next
  case (TList ts)
  with assms(1) obtain f where "sub = Some f" "list_all f ts"
    by (auto simp: term_ok_with_def split: option.splits)
  with assms(3) TList show ?thesis by (metis emits_list)
qed (use assms(1,2) in \<open>simp_all add: term_ok_with_def emits_var emits_entity emits_literal\<close>)

lemma emits_term: "term_ok C k t \<Longrightarrow> delim rest \<Longrightarrow> emits (canonical_term C t) (toks_term C t) rest"
proof (induction k arbitrary: t rest)
  case 0
  then show ?case using emits_term_with [of C None t rest] by simp
next
  case (Suc k)
  then show ?case using emits_term_with [of C "Some (term_ok C k)" t rest] by simp
qed

section \<open>Validity, provenance and weights\<close>

lemma emits_validity:
  assumes "validity_ok C v" "delim rest"
  shows "emits (canonical_validity C v) (toks_validity C v) rest"
proof (cases v)
  case Forever
  then show ?thesis using assms(2) by (simp add: canonical_validity_def toks_validity_def emits_symbol)
next
  case (Window a b)
  let ?b = "case b of None \<Rightarrow> [] | Some u \<Rightarrow> '' '' @ raw_quoted (fmt_rfc3339 C u)"
  have a: "raw_ok (fmt_rfc3339 C a)"
    using assms(1) Window by (simp add: validity_ok_def datetime_ok_def)
  have "emits ?b (case b of None \<Rightarrow> [] | Some u \<Rightarrow> [StrTok (fmt_rfc3339 C u)]) ('')'' @ rest)"
    using assms(1) Window
    by (auto simp: validity_ok_def datetime_ok_def emits_Nil split: option.splits
        intro!: emits_spaced [simplified] emits_raw_quoted)
  then have "emits (''('' @ ''window'' @ '' '' @ raw_quoted (fmt_rfc3339 C a) @ ?b @ '')'')
      ([LParen] @ [Symbol ''window''] @ [] @ [StrTok (fmt_rfc3339 C a)]
       @ (case b of None \<Rightarrow> [] | Some u \<Rightarrow> [StrTok (fmt_rfc3339 C u)]) @ [RParen]) rest"
    by (intro emits_append emits_punct emits_space emits_symbol emits_raw_quoted a) simp_all
  then show ?thesis by (simp add: Window canonical_validity_def toks_validity_def)
qed

lemma emits_span: "emits (span_text sp) (toks_span sp) rest"
proof -
  have "emits (''['' @ int_dec (uint (sp_start sp)) @ '' '' @ int_dec (uint (sp_end sp)) @ '']'')
      ([LBracket] @ [Number (int_dec (uint (sp_start sp)))] @ [] @ [Number (int_dec (uint (sp_end sp)))]
       @ [RBracket]) rest"
    by (intro emits_append emits_punct emits_space emits_int_dec) simp_all
  then show ?thesis by (simp add: span_text_def toks_span_def)
qed

lemma emits_doc_span:
  assumes "sym_ok kind" "raw_ok d" "emits tail ks rest"
  shows "emits (''('' @ kind @ '' '' @ raw_quoted d @ '' '' @ span_text sp @ tail)
    ([LParen] @ [Symbol kind] @ [] @ [StrTok d] @ [] @ toks_span sp @ ks) rest"
  by (intro emits_append emits_punct emits_space emits_symbol emits_raw_quoted emits_span assms) simp

lemma emits_provenance:
  assumes "prov_ok p"
  shows "emits (canonical_provenance p) (toks_prov p) rest"
proof (cases p)
  case (Verbatim d sp)
  then show ?thesis
    using emits_doc_span [of "''verbatim''" d "'')''" "[RParen]" rest sp] assms
    by (simp add: canonical_provenance_def toks_prov_def prov_ok_def emits_punct)
next
  case (Summary d sp)
  then show ?thesis
    using emits_doc_span [of "''summary''" d "'')''" "[RParen]" rest sp] assms
    by (simp add: canonical_provenance_def toks_prov_def prov_ok_def emits_punct)
next
  case (Extracted d sp m)
  have ok: "raw_ok d" "raw_ok (m_name m)" "raw_ok (m_version m)"
    using assms Extracted by (simp_all add: prov_ok_def)
  have "emits ('' '' @ ''('' @ ''model'' @ '' '' @ raw_quoted (m_name m) @ '' '' @ raw_quoted (m_version m) @ '')'' @ '')'')
     ([] @ [LParen] @ [Symbol ''model''] @ [] @ [StrTok (m_name m)] @ [] @ [StrTok (m_version m)]
      @ [RParen] @ [RParen]) rest"
    by (intro emits_append emits_punct emits_space emits_symbol emits_raw_quoted ok) simp_all
  from emits_doc_span [OF _ ok(1) this, of "''extracted''" sp] show ?thesis
    by (simp add: Extracted canonical_provenance_def toks_prov_def)
next
  case (Derived f r)
  have ok: "sym_ok f" "raw_ok r" using assms Derived by (simp_all add: prov_ok_def)
  have "emits (''('' @ ''derived'' @ '' '' @ f @ '' '' @ raw_quoted r @ '')'')
     ([LParen] @ [Symbol ''derived''] @ [] @ [Symbol f] @ [] @ [StrTok r] @ [RParen]) rest"
    by (intro emits_append emits_punct emits_space emits_symbol emits_raw_quoted ok) simp_all
  then show ?thesis by (simp add: Derived canonical_provenance_def toks_prov_def)
next
  case (Asserted b)
  have ok: "raw_ok b" using assms Asserted by (simp add: prov_ok_def)
  have "emits (''('' @ ''asserted'' @ '' '' @ raw_quoted b @ '')'')
     ([LParen] @ [Symbol ''asserted''] @ [] @ [StrTok b] @ [RParen]) rest"
    by (intro emits_append emits_punct emits_space emits_symbol emits_raw_quoted ok) simp_all
  then show ?thesis by (simp add: Asserted canonical_provenance_def toks_prov_def)
qed

lemma digits_no_point: "list_all is_digit s \<Longrightarrow> CHR ''.'' \<notin> set s"
  using digit_no_dot by blast

lemma unit_text:
  assumes "unit_ok v"
  obtains neg i f where "format_f32_with_decimal v = num_text neg i f" "list_all is_digit i"
    "list_all is_digit f" "i \<noteq> []" "f32_parse (format_f32_with_decimal v) = Some v"
proof -
  obtain s k where v: "v = F32_Fin s k" "f32_repr k"
    using assms by (cases v) (auto simp: unit_ok_def in_unit_def f32_le_def f32_zero_def f32_one_def
        split: if_splits)
  note reads = f32_display_reads [OF v(2), of s]
  from v(2) show ?thesis
  proof (cases rule: f32_digits_shape)
    case whole
    let ?d = "f32_digits k"
    have shown: "format_f32_with_decimal v = num_text s ?d ''0''"
      using digits_no_point [OF whole(1)] by (simp add: v(1) format_f32_with_decimal_def num_text_def)
    obtain c r where d: "?d = c # r" "is_digit c" using whole by (cases ?d) auto
    have "f32_parse (num_text s ?d ''0'') = f32_parse (f32_display v)"
      using f32_mant_point_zero [OF whole] d
      by (auto simp: v(1) num_text_def f32_parse_minus f32_parse_unsigned)
    then show ?thesis using that [of s ?d "''0''"] shown whole reads v(1) by (simp add: is_digit_def)
  next
    case (point i f)
    have "format_f32_with_decimal v = num_text s i f" "format_f32_with_decimal v = f32_display v"
      using point by (simp_all add: v(1) format_f32_with_decimal_def num_text_def)
    then show ?thesis using that [of s i f] point reads v(1) by simp
  qed
qed

lemma emits_unit:
  "unit_ok v \<Longrightarrow> delim rest \<Longrightarrow>
    emits (format_f32_with_decimal v) [Number (format_f32_with_decimal v)] rest"
  by (rule unit_text [of v]) (simp_all add: emits_number)

section \<open>Nodes\<close>

lemma sym_ok_perm: "perm_single p \<Longrightarrow> sym_ok (perm_text p)"
  by (auto simp: perm_single_def perm_text_def PUBLIC_def INTERNAL_def CONFIDENTIAL_def RESTRICTED_def)

definition deps_text :: "node_id list \<Rightarrow> string" where
  "deps_text ds = (if ds = [] then [] else '' :deps ['' @ join_sp ds @ '']'')"

definition note_text :: "string option \<Rightarrow> string" where
  "note_text s = (case s of None \<Rightarrow> [] | Some s \<Rightarrow> '' :note '' @ quoted s)"

lemma emits_deps:
  assumes "list_all sym_ok ds"
  shows "emits (deps_text ds) (toks_deps ds) rest"
proof (cases "ds = []")
  case False
  have "emits (join_sp (map id ds)) (concat (map (\<lambda>d. [Symbol d]) ds)) ('']'' @ rest)"
    by (rule emits_join_sp) (use assms in \<open>auto simp: list_all_iff emits_symbol\<close>)
  then have "emits (join_sp ds) (map Symbol ds) ('']'' @ rest)" by (simp add: concat_map_singleton)
  then have "emits ('' '' @ (CHR '':'' # ''deps'') @ '' '' @ ''['' @ join_sp ds @ '']'')
      ([] @ [Keyword ''deps''] @ [] @ [LBracket] @ map Symbol ds @ [RBracket]) rest"
    by (intro emits_append emits_space emits_keyword emits_punct) simp_all
  with False show ?thesis by (simp add: deps_text_def toks_deps_def)
qed (simp add: deps_text_def toks_deps_def emits_Nil)

lemma emits_note:
  assumes "case s of None \<Rightarrow> True | Some s \<Rightarrow> utf8_valid s"
  shows "emits (note_text s) (toks_note s) rest"
proof (cases s)
  case (Some t)
  then have "emits ('' '' @ (CHR '':'' # ''note'') @ '' '' @ quoted t)
      ([] @ [Keyword ''note''] @ [] @ [StrTok t]) rest"
    using assms by (intro emits_append emits_space emits_keyword emits_quoted) simp_all
  with Some show ?thesis by (simp add: note_text_def toks_note_def)
qed (simp add: note_text_def toks_note_def emits_Nil)

lemma delim_deps_note: "delim (deps_text ds @ note_text s @ '')'' @ rest)"
  by (simp add: deps_text_def note_text_def split: option.splits)

lemma emits_node:
  assumes "node_ok C n"
  shows "emits (canonical_node C n) (toks_node C n) rest"
proof -
  note ok = assms [unfolded node_ok_def]
  have "emits (''('' @ ''node'' @ '' '' @ nd_id n
      @ '' '' @ (CHR '':'' # ''pred'') @ '' '' @ canonical_predicate_inner C (nd_pred n)
      @ '' '' @ (CHR '':'' # ''valid'') @ '' '' @ canonical_validity C (nd_validity n)
      @ '' '' @ (CHR '':'' # ''src'') @ '' '' @ canonical_provenance (nd_prov n)
      @ '' '' @ (CHR '':'' # ''conf'') @ '' '' @ format_f32_with_decimal (nd_conf n)
      @ '' '' @ (CHR '':'' # ''auth'') @ '' '' @ format_f32_with_decimal (nd_auth n)
      @ '' '' @ (CHR '':'' # ''perm'') @ '' '' @ perm_text (nd_perm n)
      @ deps_text (nd_deps n) @ note_text (nd_note n) @ '')'')
     ([LParen] @ [Symbol ''node''] @ [] @ [Symbol (nd_id n)]
      @ [] @ [Keyword ''pred''] @ [] @ toks_pred C (nd_pred n)
      @ [] @ [Keyword ''valid''] @ [] @ toks_validity C (nd_validity n)
      @ [] @ [Keyword ''src''] @ [] @ toks_prov (nd_prov n)
      @ [] @ [Keyword ''conf''] @ [] @ [Number (format_f32_with_decimal (nd_conf n))]
      @ [] @ [Keyword ''auth''] @ [] @ [Number (format_f32_with_decimal (nd_auth n))]
      @ [] @ [Keyword ''perm''] @ [] @ [Symbol (perm_text (nd_perm n))]
      @ toks_deps (nd_deps n) @ toks_note (nd_note n) @ [RParen]) rest"
    by (intro emits_append emits_punct emits_space emits_symbol emits_keyword emits_deps emits_note
        emits_unit emits_provenance emits_validity sym_ok_perm emits_predicate [where f = "term_ok C (MAX_PARSE_DEPTH - 2)"] emits_term [where k = "MAX_PARSE_DEPTH - 2"]
        keys_ok words_ok)
      (use ok delim_deps_note in simp_all)
  then show ?thesis
    by (simp add: canonical_node_def toks_node_def deps_text_def note_text_def)
qed

text \<open>From an empty lexer: the token kinds of a whole text.\<close>

lemma emits_tokenize:
  assumes "emits txt ks []" "length txt < 1000000"
  obtains ts e where "tokens_of txt = Inr (ts @ [e])" "map tk_kind ts = ks" "tk_kind e = Eof"
proof -
  have len: "length ks \<le> length txt" using assms(1) by (simp add: emits_def)
  have "lx_rest (lexer_new txt) = txt @ []" by (simp add: lexer_new_def)
  with assms(1) obtain s' where s': "lx_rest s' = []" "lexes (lexer_new txt) ks s'"
    unfolding emits_def by blast
  moreover have "0 + int (length ks) \<le> MAX_TOKENS"
    using len assms(2) by (simp add: MAX_TOKENS_def)
  ultimately obtain ts where ts: "map tk_kind ts = ks"
    "tokenize_loop 0 (lexer_new txt) = (case tokenize_loop (0 + int (length ks)) s' of
       Inl e \<Rightarrow> Inl e | Inr us \<Rightarrow> Inr (ts @ us))"
    unfolding lexes_def by blast
  have "skip_ws s' = s'" using s'(1) by (subst skip_ws.simps) (simp add: peek_def)
  then have "skip_ws_and_comments s' = s'"
    using s'(1) by (subst skip_ws_and_comments.simps) simp
  then have "tokenize_loop m s' = Inr [make_token Eof s']" for m
    using s'(1) by (subst tokenize_loop.simps) simp
  then have tk: "tokenize txt = Inr (ts @ [make_token Eof s'])" by (simp add: tokenize_def ts(2))
  have "length ts = length ks" using ts(1) by auto
  then have "\<not> MAX_TOKENS < int (length (ts @ [make_token Eof s']))"
    using len assms(2) by (simp add: MAX_TOKENS_def)
  then have "tokens_of txt = Inr (ts @ [make_token Eof s'])" by (simp add: tokens_of_def tk)
  then show ?thesis using that ts(1) by (simp add: make_token_def)
qed

end
