(* ===== verification/Reading.thy ===== *)
theory Reading
  imports Printing
begin

text \<open>
  The parser on token lists: every part of a node is read back from its token list.
\<close>

lemma map_kind_Cons [simp]:
  "map tk_kind us = k # ks \<longleftrightarrow> (\<exists>u r. us = u # r \<and> tk_kind u = k \<and> map tk_kind r = ks)"
  "k # ks = map tk_kind us \<longleftrightarrow> (\<exists>u r. us = u # r \<and> tk_kind u = k \<and> map tk_kind r = ks)"
  by (auto simp: map_eq_Cons_conv)

lemma map_kind_append:
  "map tk_kind us = ks @ ls \<longleftrightarrow>
     (\<exists>a b. us = a @ b \<and> map tk_kind a = ks \<and> map tk_kind b = ls)"
  by (metis map_append_split map_append)

section \<open>Leaves\<close>

lemma parse_uint_int_dec: "0 \<le> n \<Longrightarrow> n < b \<Longrightarrow> parse_uint b (int_dec n) = Some n"
proof -
  assume n: "0 \<le> n" "n < b"
  obtain c r where c: "int_dec n = c # r" "is_digit c"
    using int_dec_digits [of n] int_dec_nonempty [of n] by (cases "int_dec n") auto
  then have "c \<noteq> CHR ''+''" using digit_no_sign by blast
  then have "(case int_dec n of c # r \<Rightarrow> if c = CHR ''+'' then r else int_dec n | [] \<Rightarrow> int_dec n) = int_dec n"
    using c(1) by simp
  then show ?thesis using n by (simp add: parse_uint_def Let_def)
qed

lemma parse_duration_ns: "0 \<le> d \<Longrightarrow> d < 2 ^ 64 \<Longrightarrow> parse_duration checks (int_dec d @ ''ns'') = Inr d"
proof -
  assume d: "0 \<le> d" "d < 2 ^ 64"
  obtain c r where c: "int_dec d = c # r" "is_digit c"
    using int_dec_digits [of d] int_dec_nonempty [of d] by (cases "int_dec d") auto
  have "trim (int_dec d @ ''ns'') = int_dec d @ ''ns''"
    by (rule trim_plain) (use c digit_plain in \<open>auto simp: plain_byte_def\<close>)
  moreover have "strip_suffix ''ns'' (int_dec d @ ''ns'') = Some (int_dec d)"
    by (simp add: strip_suffix_def)
  ultimately show ?thesis
    using d parse_uint_int_dec [of d "2 ^ 64"] by (simp add: parse_duration_def Let_def)
qed

lemma reads_u32: "reads parse_u32 [Number (int_dec (uint w))] w"
proof -
  have "parse_uint (2 ^ 32) (int_dec (uint w)) = Some (uint w)"
    by (rule parse_uint_int_dec) (use uint_lt2p [of w] in simp_all)
  then show ?thesis by (auto simp: reads_def parse_u32_def)
qed

lemma reads_span: "reads parse_span (toks_span sp) sp"
proof (rule readsI)
  fix us vs :: "token list"
  assume "map tk_kind us = toks_span sp"
  then obtain a b c d where us: "us = [a, b, c, d]" "tk_kind a = LBracket"
    "map tk_kind [b] = [Number (int_dec (uint (sp_start sp)))]"
    "map tk_kind [c] = [Number (int_dec (uint (sp_end sp)))]" "tk_kind d = RBracket"
    by (auto simp: toks_span_def)
  show "parse_span (us @ vs) = Inr (sp, vs)"
    using readsD [OF reads_u32 us(3), of "c # d # vs"] readsD [OF reads_u32 us(4), of "d # vs"] us
    by (simp add: parse_span_def)
qed

lemma parse_smol_str_Cons [simp]:
  "tk_kind t = StrTok s \<Longrightarrow> parse_smol_str (t # r) = Inr (s, r)"
  "tk_kind t = StrTok s \<Longrightarrow> parse_doc_id (t # r) = Inr (s, r)"
  by (simp_all add: parse_smol_str_def parse_doc_id_def)

lemma reads_provenance: "reads parse_provenance (toks_prov p) p"
proof (rule readsI)
  fix us vs :: "token list"
  assume us: "map tk_kind us = toks_prov p"
  have sp: "parse_span (xs @ ys) = Inr (sp, ys)" if "map tk_kind xs = toks_span sp" for sp xs ys
    by (rule readsD [OF reads_span that])
  show "parse_provenance (us @ vs) = Inr (p, vs)"
    using us
    by (cases p)
      (auto simp: toks_prov_def map_kind_append parse_provenance_def parse_provenance_kind_def sp
        parse_model_ref_def parse_derived_def parse_rule_id_def parse_principal_def)
qed

lemma reads_validity: "validity_ok C v \<Longrightarrow> reads (parse_validity C) (toks_validity C v) v"
proof (rule readsI)
  fix us vs :: "token list"
  assume us: "map tk_kind us = toks_validity C v" and ok: "validity_ok C v"
  have dt: "parse_datetime_tok C (t # r) = Inr (d, r)"
    if "tk_kind t = StrTok (fmt_rfc3339 C d)" "datetime_ok C d" for t r d
    using that by (simp add: parse_datetime_tok_def datetime_ok_def)
  show "parse_validity C (us @ vs) = Inr (v, vs)"
    using us ok
    by (cases v)
      (auto simp: toks_validity_def map_kind_append parse_validity_def parse_until_def validity_ok_def dt
        simp del: bindr_eq_Inr split: option.splits)
qed

section \<open>Terms\<close>

lemma reads_literal: "lit_ok C l \<Longrightarrow> reads (parse_term_with C sub) (toks_lit C l) (TLit l)"
  by (cases l)
    (auto simp: reads_def toks_lit_def lit_ok_def parse_term_with_def dec_roundtrip_aux parse_duration_ns)

text \<open>What a term's first token can be: the loops recognise it as the start of a term.\<close>

definition term_first :: "token_kind \<Rightarrow> bool" where
  "term_first k = (case k of RParen \<Rightarrow> False | RBracket \<Rightarrow> False | Eof \<Rightarrow> False | Keyword _ \<Rightarrow> False | _ \<Rightarrow> True)"

lemma toks_term_first: "\<exists>k r. toks_term C t = k # r \<and> term_first k"
proof (cases t)
  case (TLit l)
  then show ?thesis by (cases l) (simp_all add: toks_lit_def term_first_def)
next
  case (TCompound p)
  then show ?thesis by (cases p) (simp add: term_first_def)
qed (simp_all add: term_first_def)

lemma toks_term_tokens:
  assumes "map tk_kind us = toks_term C t"
  obtains u r where "us = u # r" "term_first (tk_kind u)"
  using toks_term_first [of C t] assms by auto

lemma items_loop_reads:
  assumes "\<And>t. t \<in> set ts \<Longrightarrow> reads pt (toks_term C t) t"
    and "map tk_kind us = concat (map (toks_term C) ts)" "length us < n"
    and "peek_kind vs = RBracket"
  shows "items_loop pt n items (us @ vs) = Inr (items @ ts, vs)"
  using assms
proof (induction ts arbitrary: us n items)
  case Nil
  then show ?case by (cases n) simp_all
next
  case (Cons t ts)
  from Cons.prems(2) obtain a b where ab: "us = a @ b" "map tk_kind a = toks_term C t"
    "map tk_kind b = concat (map (toks_term C) ts)" by (auto simp: map_kind_append)
  obtain u r where a: "a = u # r" "term_first (tk_kind u)" using toks_term_tokens [OF ab(2)] .
  obtain m where n: "n = Suc m" using Cons.prems(3) by (cases n) simp_all
  have "pt (a @ b @ vs) = Inr (t, b @ vs)"
    using Cons.prems(1) [of t] ab(2) by (intro readsD) simp_all
  moreover have "items_loop pt m (items @ [t]) (b @ vs) = Inr ((items @ [t]) @ ts, vs)"
    by (rule Cons.IH) (use Cons.prems ab n a in auto)
  ultimately show ?case
    using a by (auto simp: n ab(1) term_first_def split: token_kind.splits)
qed

lemma args_loop_named_reads:
  assumes "\<And>k t. (k, t) \<in> set ns \<Longrightarrow> reads pt (toks_term C t) t"
    and "map tk_kind us = concat (map (\<lambda>(k, t). Keyword k # toks_term C t) ns)" "length us < n"
    and "peek_kind vs = RParen"
  shows "args_loop pt n args named b (us @ vs) = Inr ((args, named @ ns), vs)"
  using assms
proof (induction ns arbitrary: us n named b)
  case Nil
  then show ?case by (cases n) simp_all
next
  case (Cons p ns)
  obtain k t where p: "p = (k, t)" by (cases p)
  from Cons.prems(2) obtain u a c where us: "us = u # a @ c" "tk_kind u = Keyword k"
    "map tk_kind a = toks_term C t"
    "map tk_kind c = concat (map (\<lambda>(k, t). Keyword k # toks_term C t) ns)"
    by (auto simp: p map_kind_append)
  obtain m where n: "n = Suc m" using Cons.prems(3) by (cases n) simp_all
  have "pt (a @ c @ vs) = Inr (t, c @ vs)"
    using Cons.prems(1) [of k t] us(3) by (intro readsD) (simp_all add: p)
  moreover have "args_loop pt m args (named @ [(k, t)]) True (c @ vs) = Inr ((args, (named @ [(k, t)]) @ ns), vs)"
    by (rule Cons.IH) (use Cons.prems us n in auto)
  ultimately show ?case using us by (simp add: n p)
qed

lemma args_loop_reads:
  assumes "\<And>t. t \<in> set as \<Longrightarrow> reads pt (toks_term C t) t"
    and "\<And>k t. (k, t) \<in> set ns \<Longrightarrow> reads pt (toks_term C t) t"
    and "map tk_kind us = concat (map (toks_term C) as)
        @ concat (map (\<lambda>(k, t). Keyword k # toks_term C t) ns)" "length us < n"
    and "peek_kind vs = RParen"
  shows "args_loop pt n args [] False (us @ vs) = Inr ((args @ as, ns), vs)"
  using assms
proof (induction as arbitrary: us n args)
  case Nil
  then show ?case using args_loop_named_reads [of ns pt C us n vs args "[]" False] by simp
next
  case (Cons t as)
  from Cons.prems(3) obtain a c where us: "us = a @ c" "map tk_kind a = toks_term C t"
    "map tk_kind c = concat (map (toks_term C) as) @ concat (map (\<lambda>(k, t). Keyword k # toks_term C t) ns)"
    by (auto simp: map_kind_append)
  obtain u r where a: "a = u # r" "term_first (tk_kind u)" using toks_term_tokens [OF us(2)] .
  obtain m where n: "n = Suc m" using Cons.prems(4) by (cases n) simp_all
  have "pt (a @ c @ vs) = Inr (t, c @ vs)"
    using Cons.prems(1) [of t] us(2) by (intro readsD) simp_all
  moreover have "args_loop pt m (args @ [t]) [] False (c @ vs) = Inr (((args @ [t]) @ as, ns), vs)"
    by (rule Cons.IH) (use Cons.prems us n a in auto)
  ultimately show ?case
    using a by (auto simp: n us(1) term_first_def split: token_kind.splits)
qed

lemma reads_body_parens:
  assumes "pred_ok f p" "\<And>t. f t \<Longrightarrow> reads pt (toks_term C t) t"
    and us: "map tk_kind us = toks_pred C p"
  obtains u r where "us = u # r" "tk_kind u = LParen"
    "bindr (parse_predicate_body_inner pt (r @ vs)) (\<lambda>(p, ts).
       bindr (expect RParen ts) (\<lambda>ts. g p ts)) = g p vs"
proof (cases p)
  case (Predicate h as ns)
  from assms(1) obtain s where h: "h = HeadName s"
    by (auto simp: pred_ok_def Predicate split: predicate_head.splits)
  have as: "\<And>a. a \<in> set as \<Longrightarrow> f a" and ns: "\<And>k v. (k, v) \<in> set ns \<Longrightarrow> f v"
    using assms(1) by (auto simp: pred_ok_def Predicate list_all_iff)
  from us obtain u hd a b e where u: "us = u # hd # (a @ b) @ [e]" "tk_kind u = LParen"
    "tk_kind hd = Symbol s" "map tk_kind a = concat (map (toks_term C) as)"
    "map tk_kind b = concat (map (\<lambda>(k, v). Keyword k # toks_term C v) ns)" "tk_kind e = RParen"
    by (auto simp: Predicate h toks_head_def head_text_def map_kind_append)
  have "args_loop pt (Suc (length (hd # (a @ b) @ [e] @ vs))) [] [] False ((a @ b) @ [e] @ vs)
      = Inr (([] @ as, ns), [e] @ vs)"
    by (rule args_loop_reads) (use assms(2) as ns u in auto)
  then have "parse_predicate_body_inner pt ((hd # (a @ b) @ [e]) @ vs) = Inr (Predicate (HeadName s) as ns, e # vs)"
    using u(3) by (simp add: parse_predicate_body_inner_def del: args_loop.simps)
  then show ?thesis using that [of u "hd # (a @ b) @ [e]"] u by (simp add: Predicate h)
qed

lemma reads_term_with:
  assumes "term_ok_with C g t"
    and sub: "\<And>f. g = Some f \<Longrightarrow> \<exists>pt. sub = Some pt \<and> (\<forall>t. f t \<longrightarrow> reads pt (toks_term C t) t)"
  shows "reads (parse_term_with C sub) (toks_term C t) t"
proof (cases t)
  case (TLit l)
  then show ?thesis using assms(1) by (simp add: term_ok_with_def reads_literal)
next
  case (TCompound p)
  with assms(1) obtain f where f: "g = Some f" "pred_ok f p"
    by (auto simp: term_ok_with_def split: option.splits)
  with sub obtain pt where pt: "sub = Some pt" "\<And>t. f t \<Longrightarrow> reads pt (toks_term C t) t" by blast
  show ?thesis
  proof (rule readsI)
    fix us vs :: "token list"
    assume "map tk_kind us = toks_term C t"
    then have us: "map tk_kind us = toks_pred C p" by (simp add: TCompound)
    obtain u r where r: "us = u # r" "tk_kind u = LParen"
      "bindr (parse_predicate_body_inner pt (r @ vs)) (\<lambda>(p, ts).
         bindr (expect RParen ts) (\<lambda>ts. Inr (TCompound p, ts))) = Inr (TCompound p, vs)"
      using reads_body_parens [OF f(2) pt(2) us, where g = "\<lambda>p ts. Inr (TCompound p, ts)"] .
    then show "parse_term_with C sub (us @ vs) = Inr (t, vs)"
      by (simp add: parse_term_with_def pt(1) TCompound)
  qed
next
  case (TList ts)
  with assms(1) obtain f where f: "g = Some f" "list_all f ts"
    by (auto simp: term_ok_with_def split: option.splits)
  with sub obtain pt where pt: "sub = Some pt" "\<And>t. f t \<Longrightarrow> reads pt (toks_term C t) t" by blast
  show ?thesis
  proof (rule readsI)
    fix us vs :: "token list"
    assume "map tk_kind us = toks_term C t"
    then obtain u a e where u: "us = u # a @ [e]" "tk_kind u = LBracket"
      "map tk_kind a = concat (map (toks_term C) ts)" "tk_kind e = RBracket"
      by (auto simp: TList map_kind_append)
    have "items_loop pt (Suc (length (us @ vs))) [] (a @ [e] @ vs) = Inr ([] @ ts, [e] @ vs)"
      by (rule items_loop_reads [of ts pt C]) (use f(2) pt(2) u in \<open>auto simp: list_all_iff\<close>)
    then show "parse_term_with C sub (us @ vs) = Inr (t, vs)"
      using u by (simp add: parse_term_with_def pt(1) TList del: items_loop.simps)
  qed
qed (auto simp: reads_def parse_term_with_def)

lemma reads_term: "term_ok C k t \<Longrightarrow> reads (parse_term C k) (toks_term C t) t"
proof (induction k arbitrary: t)
  case 0
  then have "reads (parse_term_with C None) (toks_term C t) t"
    by (intro reads_term_with [where g = None]) simp_all
  then show ?case by (simp add: reads_def)
next
  case (Suc k)
  then have "reads (parse_term_with C (Some (parse_term C k))) (toks_term C t) t"
    by (intro reads_term_with [where g = "Some (term_ok C k)"]) simp_all
  then show ?case by (simp add: reads_def)
qed

lemma reads_predicate_form:
  assumes "pred_ok (term_ok C k) p"
  shows "reads (parse_predicate_form C (Suc k)) (toks_pred C p) p"
proof (rule readsI)
  fix us vs :: "token list"
  assume us: "map tk_kind us = toks_pred C p"
  obtain u r where "us = u # r" "tk_kind u = LParen"
    "bindr (parse_predicate_body_inner (parse_term C k) (r @ vs)) (\<lambda>(p, ts).
       bindr (expect RParen ts) (\<lambda>ts. Inr (p, ts))) = Inr (p, vs)"
    using reads_body_parens [OF assms reads_term us, where g = "\<lambda>p ts. Inr (p, ts)"] .
  then show "parse_predicate_form C (Suc k) (us @ vs) = Inr (p, vs)"
    by (simp add: parse_predicate_form_def with_depth_def)
qed

section \<open>Nodes\<close>

lemma reads_unit: "unit_ok v \<Longrightarrow> reads parse_f32 [Number (format_f32_with_decimal v)] v"
  by (rule unit_text [of v]) (auto simp: reads_def parse_f32_def)

lemma reads_perm: "perm_single p \<Longrightarrow> reads parse_permission_tag [Symbol (perm_text p)] p"
  by (auto simp: reads_def parse_permission_tag_def perm_single_def perm_text_def
      PUBLIC_def INTERNAL_def CONFIDENTIAL_def RESTRICTED_def)

lemma id_list_loop_reads:
  "map tk_kind us = map Symbol ds \<Longrightarrow> length us < n \<Longrightarrow> peek_kind vs = RBracket \<Longrightarrow>
    id_list_loop n ids (us @ vs) = Inr (ids @ ds, vs)"
proof (induction ds arbitrary: us n ids)
  case Nil
  then show ?case by (cases n) simp_all
next
  case (Cons d ds)
  then show ?case by (cases n) auto
qed

lemma reads_deps: "reads parse_id_list ([LBracket] @ map Symbol ds @ [RBracket]) ds"
proof (rule readsI)
  fix us vs :: "token list"
  assume "map tk_kind us = [LBracket] @ map Symbol ds @ [RBracket]"
  then obtain u a e where u: "us = u # a @ [e]" "tk_kind u = LBracket" "map tk_kind a = map Symbol ds"
    "tk_kind e = RBracket"
    by (auto simp: map_kind_append)
  have "id_list_loop (Suc (length (us @ vs))) [] (a @ [e] @ vs) = Inr ([] @ ds, [e] @ vs)"
    by (rule id_list_loop_reads) (use u in simp_all)
  then show "parse_id_list (us @ vs) = Inr (ds, vs)"
    using u by (simp add: parse_id_list_def del: id_list_loop.simps)
qed

text \<open>One round of the field loop.\<close>

lemma fields_loop_field:
  assumes "reads (parse_field C k key f) ks f'" "map tk_kind us = Keyword key # ks"
  shows "fields_loop C k (Suc n) f (us @ vs) = fields_loop C k n f' vs"
proof -
  from assms(2) obtain u r where u: "us = u # r" "tk_kind u = Keyword key" "map tk_kind r = ks" by auto
  then show ?thesis using readsD [OF assms(1) u(3), of vs] by simp
qed

lemma reads_field:
  "pred_ok (term_ok C k) p \<Longrightarrow>
    reads (parse_field C (Suc k) ''pred'' f) (toks_pred C p) (f\<lparr>fd_pred := Some p\<rparr>)"
  "validity_ok C v \<Longrightarrow> reads (parse_field C (Suc k) ''valid'' f) (toks_validity C v) (f\<lparr>fd_validity := v\<rparr>)"
  "reads (parse_field C (Suc k) ''src'' f) (toks_prov r) (f\<lparr>fd_prov := r\<rparr>)"
  "unit_ok w \<Longrightarrow>
    reads (parse_field C (Suc k) ''conf'' f) [Number (format_f32_with_decimal w)] (f\<lparr>fd_conf := w\<rparr>)"
  "unit_ok w \<Longrightarrow>
    reads (parse_field C (Suc k) ''auth'' f) [Number (format_f32_with_decimal w)] (f\<lparr>fd_auth := w\<rparr>)"
  "perm_single m \<Longrightarrow> reads (parse_field C (Suc k) ''perm'' f) [Symbol (perm_text m)] (f\<lparr>fd_perm := m\<rparr>)"
  "reads (parse_field C (Suc k) ''deps'' f) ([LBracket] @ map Symbol ds @ [RBracket]) (f\<lparr>fd_deps := ds\<rparr>)"
  "reads (parse_field C (Suc k) ''note'' f) [StrTok s] (f\<lparr>fd_note := Some s\<rparr>)"
  using reads_predicate_form [of C k p] reads_validity [of C v] reads_provenance [of r] reads_unit [of w]
    reads_perm [of m] reads_deps [of ds]
  by (auto simp: reads_def parse_field_def refused_def confidence_new_def authority_new_def unit_ok_def
      parse_note_def)

end
