(* ===== verification/RoundTrip.thy ===== *)
theory RoundTrip
  imports Reading
begin

text \<open>
  The round trip of whole nodes and of lists of nodes: printing, then parsing, gives the nodes
  back, with the status reset to \<open>Active\<close> (which the canonical form does not show).
\<close>

definition as_parsed :: "node \<Rightarrow> node" where
  "as_parsed n = n\<lparr>nd_status := Active\<rparr>"

lemma fields_loop_step:
  assumes "reads (parse_field C k key f) ks f'" "map tk_kind us = Keyword key # ks" "0 < n"
  shows "fields_loop C k n f (us @ vs) = fields_loop C k (n - 1) f' vs"
  using fields_loop_field [OF assms(1,2), of "n - 1" vs] assms(3) by simp

lemma fields_loop_deps:
  assumes "map tk_kind us = toks_deps ds" "1 < n"
  obtains m where "fields_loop C (Suc k) n f (us @ vs) = fields_loop C (Suc k) m (f\<lparr>fd_deps := (if ds = [] then fd_deps f else ds)\<rparr>) vs"
    "n \<le> Suc m"
proof (cases "ds = []")
  case True
  then show ?thesis using that [of n] assms(1) by (simp add: toks_deps_def)
next
  case False
  then have "map tk_kind us = Keyword ''deps'' # ([LBracket] @ map Symbol ds @ [RBracket])"
    using assms(1) by (simp add: toks_deps_def)
  from fields_loop_step [OF reads_field(7) this, of n C k f vs] show ?thesis
    using that [of "n - 1"] False assms(2) by simp
qed

lemma fields_loop_note:
  assumes "map tk_kind us = toks_note s" "1 < n"
  obtains m where "fields_loop C (Suc k) n f (us @ vs) = fields_loop C (Suc k) m (f\<lparr>fd_note := (if s = None then fd_note f else s)\<rparr>) vs"
    "n \<le> Suc m"
proof (cases s)
  case None
  then show ?thesis using that [of n] assms(1) by (simp add: toks_note_def)
next
  case (Some t)
  then have "map tk_kind us = Keyword ''note'' # [StrTok t]"
    using assms(1) by (simp add: toks_note_def)
  from fields_loop_step [OF reads_field(8) this, of n C k f vs] show ?thesis
    using that [of "n - 1"] Some assms(2) by simp
qed

text \<open>The body of a node: all its fields, up to the closing bracket.\<close>

definition toks_fields :: "chrono \<Rightarrow> node \<Rightarrow> token_kind list" where
  "toks_fields C n =
     (Keyword ''pred'' # toks_pred C (nd_pred n)) @ (Keyword ''valid'' # toks_validity C (nd_validity n))
     @ (Keyword ''src'' # toks_prov (nd_prov n))
     @ [Keyword ''conf'', Number (format_f32_with_decimal (nd_conf n))]
     @ [Keyword ''auth'', Number (format_f32_with_decimal (nd_auth n))]
     @ [Keyword ''perm'', Symbol (perm_text (nd_perm n))]
     @ toks_deps (nd_deps n) @ toks_note (nd_note n)"

lemma fields_loop_reads:
  assumes ok: "node_ok C n" and k: "MAX_PARSE_DEPTH - 2 = k"
    and us: "map tk_kind us = toks_fields C n" and fuel: "8 < fuel" and vs: "peek_kind vs = RParen"
  shows "\<exists>f. fields_loop C (Suc k) fuel default_fields (us @ vs) = Inr (f, vs)
    \<and> fd_pred f = Some (nd_pred n) \<and> node_of_fields (nd_id n) f (nd_pred n) = as_parsed n"
proof -
  note nok = ok [unfolded node_ok_def k]
  obtain a b c d e g h i where p: "us = a @ b @ c @ d @ e @ g @ h @ i"
    "map tk_kind a = Keyword ''pred'' # toks_pred C (nd_pred n)"
    "map tk_kind b = Keyword ''valid'' # toks_validity C (nd_validity n)"
    "map tk_kind c = Keyword ''src'' # toks_prov (nd_prov n)"
    "map tk_kind d = Keyword ''conf'' # [Number (format_f32_with_decimal (nd_conf n))]"
    "map tk_kind e = Keyword ''auth'' # [Number (format_f32_with_decimal (nd_auth n))]"
    "map tk_kind g = Keyword ''perm'' # [Symbol (perm_text (nd_perm n))]"
    "map tk_kind h = toks_deps (nd_deps n)" "map tk_kind i = toks_note (nd_note n)"
    using us [unfolded toks_fields_def map_kind_append]
    by - (elim exE conjE, rule that [rotated], assumption+, simp only: append_assoc)
  define f6 where "f6 = default_fields\<lparr>fd_pred := Some (nd_pred n), fd_validity := nd_validity n,
    fd_prov := nd_prov n, fd_conf := nd_conf n, fd_auth := nd_auth n, fd_perm := nd_perm n\<rparr>"
  have "fields_loop C (Suc k) fuel default_fields (us @ vs) = fields_loop C (Suc k) (fuel - 6) f6 (h @ i @ vs)"
    unfolding p(1) append_assoc f6_def
    using fuel nok
    by (simp only: fields_loop_step [OF reads_field(1) p(2)] fields_loop_step [OF reads_field(2) p(3)]
        fields_loop_step [OF reads_field(3) p(4)] fields_loop_step [OF reads_field(4) p(5)]
        fields_loop_step [OF reads_field(5) p(6)] fields_loop_step [OF reads_field(6) p(7)]
        zero_less_diff) (simp add: numeral_eq_Suc)
  moreover have "1 < fuel - 6" using fuel by simp
  from fields_loop_deps [OF p(8) this, of C k f6 "i @ vs"]
  obtain m1 where m1: "fields_loop C (Suc k) (fuel - 6) f6 (h @ i @ vs)
      = fields_loop C (Suc k) m1 (f6\<lparr>fd_deps := (if nd_deps n = [] then fd_deps f6 else nd_deps n)\<rparr>) (i @ vs)"
      "fuel - 6 \<le> Suc m1" .
  let ?f7 = "f6\<lparr>fd_deps := (if nd_deps n = [] then fd_deps f6 else nd_deps n)\<rparr>"
  have "1 < m1" using m1(2) fuel by simp
  from fields_loop_note [OF p(9) this, of C k ?f7 vs]
  obtain m2 where m2: "fields_loop C (Suc k) m1 ?f7 (i @ vs)
      = fields_loop C (Suc k) m2 (?f7\<lparr>fd_note := (if nd_note n = None then fd_note ?f7 else nd_note n)\<rparr>) vs"
      "m1 \<le> Suc m2" .
  moreover obtain m3 where "m2 = Suc m3" using m2(2) \<open>1 < m1\<close> by (cases m2) simp_all
  ultimately show ?thesis
    using m1 vs by (auto simp: f6_def default_fields_def node_of_fields_def as_parsed_def)
qed

lemma reads_node:
  assumes ok: "node_ok C n"
  shows "reads (parse_node C MAX_PARSE_DEPTH) (toks_node C n) (as_parsed n)"
proof (rule readsI)
  fix us vs :: "token list"
  define k where "k = MAX_PARSE_DEPTH - 2"
  have k: "MAX_PARSE_DEPTH = Suc (Suc k)" by (simp add: k_def MAX_PARSE_DEPTH_def)
  assume "map tk_kind us = toks_node C n"
  then have "map tk_kind us = LParen # Symbol ''node'' # Symbol (nd_id n) # toks_fields C n @ [RParen]"
    by (simp add: toks_node_def toks_fields_def)
  then obtain u1 u2 u3 a e where u: "us = u1 # u2 # u3 # a @ [e]" "tk_kind u1 = LParen"
    "tk_kind u2 = Symbol ''node''" "tk_kind u3 = Symbol (nd_id n)" "map tk_kind a = toks_fields C n"
    "tk_kind e = RParen"
    by (auto simp: map_kind_append simp del: map_kind_Cons(2))
  have "8 \<le> length (toks_fields C n)" by (simp add: toks_fields_def)
  then have "8 < Suc (length (u3 # a @ [e] @ vs))" using arg_cong [OF u(5), of length] by simp
  moreover have "MAX_PARSE_DEPTH - 2 = k" by (simp add: k_def)
  moreover have "peek_kind ([e] @ vs) = RParen" using u(6) by simp
  ultimately obtain f where f: "fields_loop C (Suc k) (Suc (length (u3 # a @ [e] @ vs))) default_fields
      (a @ [e] @ vs) = Inr (f, [e] @ vs)" "fd_pred f = Some (nd_pred n)"
      "node_of_fields (nd_id n) f (nd_pred n) = as_parsed n"
    using fields_loop_reads [OF ok _ u(5)] by blast
  then show "parse_node C MAX_PARSE_DEPTH (us @ vs) = Inr (as_parsed n, vs)"
    using u by (simp add: parse_node_def with_depth_def k del: fields_loop.simps)
qed

section \<open>Lists of nodes\<close>

lemma emits_canonical_all:
  "list_all (node_ok C) ns \<Longrightarrow> emits (canonical_all C ns) (concat (map (toks_node C) ns)) rest"
proof (induction ns)
  case Nil
  then show ?case by (simp add: canonical_all_def emits_Nil)
next
  case (Cons n ns)
  then have "emits (canonical_node C n @ [CHR 0x0A] @ canonical_all C ns)
      (toks_node C n @ [] @ concat (map (toks_node C) ns)) rest"
    by (intro emits_append emits_newline emits_node) simp_all
  then show ?case by (simp add: canonical_all_def)
qed

lemma parse_loop_reads:
  "list_all (node_ok C) ns \<Longrightarrow> map tk_kind us = concat (map (toks_node C) ns) \<Longrightarrow>
    length us < n \<Longrightarrow> tk_kind e = Eof \<Longrightarrow>
    parse_loop C n ms (us @ [e]) = Inr (ms @ map as_parsed ns, [e])"
proof (induction ns arbitrary: us n ms)
  case Nil
  then show ?case by (cases n) (simp_all add: is_at_end_def)
next
  case (Cons d ns)
  from Cons.prems(2) obtain a b where ab: "us = a @ b" "map tk_kind a = toks_node C d"
    "map tk_kind b = concat (map (toks_node C) ns)" by (auto simp: map_kind_append)
  have "map tk_kind a = LParen # Symbol ''node'' # tl (tl (toks_node C d))"
    unfolding ab(2) by (simp add: toks_node_def)
  then obtain a1 a2 r where a: "a = a1 # a2 # r" "tk_kind a1 = LParen" "tk_kind a2 = Symbol ''node''"
    by (simp only: map_kind_Cons(1)) blast
  obtain m where n: "n = Suc m" using Cons.prems(3) by (cases n) simp_all
  have "parse_node C MAX_PARSE_DEPTH (a @ b @ [e]) = Inr (as_parsed d, b @ [e])"
    by (rule readsD [OF reads_node ab(2)]) (use Cons.prems(1) in simp)
  moreover have "parse_loop C m (ms @ [as_parsed d]) (b @ [e]) = Inr ((ms @ [as_parsed d]) @ map as_parsed ns, [e])"
    by (rule Cons.IH) (use Cons.prems ab a n in auto)
  ultimately show ?case
    using a by (simp add: n ab(1) is_at_end_def peek_kind_at_def)
qed

lemma parse_build_emitted:
  assumes "emits src (concat (map (toks_node C) ns)) []" "list_all (node_ok C) ns" "length src < 1000000"
  shows "parse_build C src = Inr (map as_parsed ns)"
proof -
  obtain ts e where ts: "tokens_of src = Inr (ts @ [e])"
    "map tk_kind ts = concat (map (toks_node C) ns)" "tk_kind e = Eof"
    using emits_tokenize [OF assms(1,3)] .
  have "parse_loop C (Suc (length (ts @ [e]))) [] (ts @ [e]) = Inr ([] @ map as_parsed ns, [e])"
    by (rule parse_loop_reads [OF assms(2) ts(2) _ ts(3)]) simp
  then show ?thesis by (simp add: parse_build_def ts(1) del: parse_loop.simps)
qed

lemma parse_build_canonical_all:
  "list_all (node_ok C) ns \<Longrightarrow> length (canonical_all C ns) < 1000000 \<Longrightarrow>
    parse_build C (canonical_all C ns) = Inr (map as_parsed ns)"
  by (rule parse_build_emitted [OF emits_canonical_all])

lemma parse_canonical_all:
  "list_all (node_ok C) ns \<Longrightarrow> length (canonical_all C ns) < 1000000 \<Longrightarrow>
    parse C (canonical_all C ns) = Inr (map as_parsed ns)"
  using parse_build_canonical_all [of "release C" ns] by (simp add: parse_def)

lemma parse_build_canonical:
  "node_ok C n \<Longrightarrow> length (canonical C n) < 1000000 \<Longrightarrow> parse_build C (canonical C n) = Inr [as_parsed n]"
  using parse_build_emitted [of "canonical C n" C "[n]"] emits_node [of C n "[]"]
  by (simp add: canonical_def)

lemma parse_canonical_aux:
  "node_ok C n \<Longrightarrow> length (canonical C n) < 1000000 \<Longrightarrow> parse C (canonical C n) = Inr [as_parsed n]"
  using parse_build_canonical [of "release C" n] by (simp add: parse_def)

lemma node_eq_as_parsed:
  assumes "node_ok C n"
  shows "node_eq n (as_parsed n)"
proof -
  have "f32_eq v v" if "unit_ok v" for v
    using that by (cases v) (auto simp: unit_ok_def in_unit_def f32_le_def f32_eq_def f32_zero_def)
  then show ?thesis using assms by (simp add: node_eq_def as_parsed_def node_ok_def)
qed

end
