(* ===== verification/Calibration.thy ===== *)
theory Calibration
  imports Types
begin

text \<open>
  Confidence policy, \<open>factum-core/src/calibration.rs\<close>: the defaults per provenance, the decay of
  derived confidence, and the band an agent's own confidence must stay in.
\<close>

definition DEFAULT_RULE_RELIABILITY :: f32 where "DEFAULT_RULE_RELIABILITY = f32_lit 95 2"

definition default_confidence_for_provenance :: "provenance \<Rightarrow> f32" where
  "default_confidence_for_provenance p =
     (case p of
        Verbatim _ _ \<Rightarrow> f32_lit 95 2
      | Extracted _ _ _ \<Rightarrow> f32_lit 80 2
      | Summary _ _ \<Rightarrow> f32_lit 75 2
      | Asserted _ \<Rightarrow> f32_lit 60 2
      | Derived _ _ \<Rightarrow> f32_lit 80 2)"

definition derived_confidence :: "f32 list \<Rightarrow> f32 \<Rightarrow> f32" where
  "derived_confidence cs r =
     (if cs = [] then f32_zero
      else f32_mul (foldl f32_min (F32_Inf False) cs) r)"

definition derived_confidence_default :: "f32 list \<Rightarrow> f32" where
  "derived_confidence_default cs = derived_confidence cs DEFAULT_RULE_RELIABILITY"

definition confidence_band :: "provenance \<Rightarrow> f32 \<times> f32" where
  "confidence_band p =
     (case p of
        Verbatim _ _ \<Rightarrow> (f32_lit 90 2, f32_lit 98 2)
      | Extracted _ _ _ \<Rightarrow> (f32_lit 60 2, f32_lit 90 2)
      | Summary _ _ \<Rightarrow> (f32_lit 50 2, f32_lit 85 2)
      | Asserted _ \<Rightarrow> (f32_lit 30 2, f32_lit 80 2)
      | Derived _ _ \<Rightarrow> (f32_lit 0 1, f32_lit 10 1))"

definition provenance_name :: "provenance \<Rightarrow> string" where
  "provenance_name p =
     (case p of Verbatim _ _ \<Rightarrow> ''Verbatim'' | Extracted _ _ _ \<Rightarrow> ''Extracted''
      | Summary _ _ \<Rightarrow> ''Summary'' | Asserted _ \<Rightarrow> ''Asserted'' | Derived _ _ \<Rightarrow> ''Derived'')"

text \<open>The two messages of \<open>check_confidence_band\<close>, with the values they print.\<close>

datatype band_violation =
    AboveBand f32 string f32
  | BelowBand f32 string f32

definition check_confidence_band :: "provenance \<Rightarrow> f32 \<Rightarrow> band_violation + unit" where
  "check_confidence_band p c =
     (let (lower, upper) = confidence_band p in
      if f32_lt upper c then Inl (AboveBand c (provenance_name p) upper)
      else if f32_lt c lower then Inl (BelowBand c (provenance_name p) lower)
      else Inr ())"

section \<open>Comparisons of finite values\<close>

lemma f32_cmp_fin [simp]:
  "f32_le (F32_Fin s k) (F32_Fin t l) \<longleftrightarrow> f32_sval (F32_Fin s k) \<le> f32_sval (F32_Fin t l)"
  "f32_lt (F32_Fin s k) (F32_Fin t l) \<longleftrightarrow> f32_sval (F32_Fin s k) < f32_sval (F32_Fin t l)"
  "f32_eq (F32_Fin s k) (F32_Fin t l) \<longleftrightarrow> f32_sval (F32_Fin s k) = f32_sval (F32_Fin t l)"
  by (auto simp: f32_le_def f32_lt_def f32_eq_def sgn_if split: if_splits)

lemma f32_sval_Fin: "f32_sval (F32_Fin s k) = (if s then - k else k)"
  by simp

text \<open>Values of \<open>[0, 1]\<close>: a magnitude of at most \<open>2^149\<close>, negative zero included.\<close>

definition one_mag :: int where "one_mag = 2 ^ 149"

lemma one_mag_pos: "0 < one_mag"
  by (simp add: one_mag_def)

lemma f32_one_mag: "f32_one = F32_Fin False one_mag"
  by (simp only: f32_one_def one_mag_def)

lemma f32_mul_mag: "f32_mul (F32_Fin s k) (F32_Fin t l) = f32_round (s \<noteq> t) (k * l) one_mag"
  by (simp only: f32_mul.simps one_mag_def)

lemma in_unit_Fin:
  "in_unit (F32_Fin s k) \<longleftrightarrow> (if s then k \<le> 0 \<and> - k \<le> one_mag else 0 \<le> k \<and> k \<le> one_mag)"
  by (simp only: in_unit_def f32_zero_def f32_one_mag f32_cmp_fin f32_sval.simps) auto

lemma in_unit_other: "\<not> in_unit F32_NaN" "\<not> in_unit (F32_Inf s)"
  by (cases s; simp add: in_unit_def f32_le_def f32_zero_def f32_one_mag)+

lemma in_unit_iff:
  "f32_wf v \<and> in_unit v \<longleftrightarrow>
     (\<exists>s k. v = F32_Fin s k \<and> f32_repr k \<and> k \<le> one_mag \<and> (s \<longrightarrow> k = 0))"
proof (cases v)
  case (F32_Fin s k)
  show ?thesis
  proof (cases "f32_repr k")
    case True
    then have "0 \<le> k" by (simp add: f32_repr_def)
    then show ?thesis using True one_mag_pos F32_Fin by (cases s) (auto simp: in_unit_Fin ex_bool_eq)
  qed (simp add: F32_Fin)
qed (simp_all add: in_unit_other)

lemma in_unit_refl: "f32_wf v \<and> in_unit v \<Longrightarrow> f32_le v v"
  by (cases v) (auto simp: in_unit_def f32_le_def f32_zero_def)

lemma f32_le_inf: "f32_le (F32_Inf b) (F32_Fin t l) \<longleftrightarrow> b" "f32_le (F32_Fin t l) (F32_Inf b) \<longleftrightarrow> \<not> b"
  "f32_le (F32_Inf a) (F32_Inf b) \<longleftrightarrow> a \<or> \<not> b" "\<not> f32_le F32_NaN x" "\<not> f32_le x F32_NaN"
  by (cases a; cases b; simp add: f32_le_def)
    (cases x; simp add: f32_le_def)+

lemma f32_le_trans: "f32_le x y \<Longrightarrow> f32_le y z \<Longrightarrow> f32_le x z"
  by (cases x; cases y; cases z) (auto simp only: f32_le_inf f32_cmp_fin intro: order_trans)

section \<open>Rounding does not pass a representable bound\<close>

lemma rnd_ne_le: "0 < d \<Longrightarrow> n \<le> k * d \<Longrightarrow> rnd_ne n d \<le> k"
proof -
  assume d: "0 < d" and n: "n \<le> k * d"
  have q: "n div d \<le> k" using zdiv_mono1 [OF n d] d by simp
  show ?thesis
  proof (cases "n div d = k")
    case True
    then have "n mod d = 0"
      using n d by (metis add_le_same_cancel1 antisym_conv div_mult_mod_eq pos_mod_sign)
    then show ?thesis using True d by (simp add: rnd_ne_def)
  next
    case False
    with q have "n div d + 1 \<le> k" by simp
    then show ?thesis by (auto simp: rnd_ne_def Let_def)
  qed
qed

lemma f32_mag_le:
  assumes "f32_repr k" "0 \<le> n" "0 < d" "n \<le> k * d"
  shows "f32_mag n d \<le> k"
proof (cases "bitlen (n div d) \<le> 24")
  case True
  then show ?thesis using rnd_ne_le assms by (simp add: f32_mag_def Let_def)
next
  case False
  let ?b = "bitlen (n div d)" and ?g = "2 ^ (bitlen (n div d) - 24) :: int"
  have q: "n div d \<le> k" using zdiv_mono1 [OF assms(4,3)] assms(3) by simp
  have "0 \<le> n div d" using assms(2,3) by (simp add: pos_imp_zdiv_nonneg_iff)
  have "?b \<le> bitlen k"
  proof -
    have "k < 2 ^ bitlen k" using assms(1) bitlen_less by (simp add: f32_repr_def)
    with q have "n div d < 2 ^ bitlen k" by simp
    then show ?thesis using \<open>0 \<le> n div d\<close> by (simp add: bitlen_le_iff)
  qed
  with False have "2 ^ (bitlen k - 24) dvd k" using assms(1) by (simp add: f32_repr_def)
  moreover have "?g dvd 2 ^ (bitlen k - 24)" using \<open>?b \<le> bitlen k\<close> by (simp add: le_imp_power_dvd)
  ultimately obtain m where m: "k = ?g * m" by (meson dvd_trans dvdE)
  have "n \<le> m * (d * ?g)" using assms(4) m by (simp add: ac_simps)
  then have "rnd_ne n (d * ?g) \<le> m" using assms(3) by (intro rnd_ne_le) simp_all
  then have "rnd_ne n (d * ?g) * ?g \<le> k" using m by (simp add: mult.commute)
  then show ?thesis using False by (simp add: f32_mag_def Let_def)
qed

lemma rnd_ne_nonneg: "0 \<le> n \<Longrightarrow> 0 < d \<Longrightarrow> 0 \<le> rnd_ne n d"
  using pos_imp_zdiv_nonneg_iff [of d n] by (auto simp: rnd_ne_def Let_def)

lemma f32_mag_nonneg: "0 \<le> n \<Longrightarrow> 0 < d \<Longrightarrow> 0 \<le> f32_mag n d"
  by (simp add: f32_mag_def Let_def rnd_ne_nonneg)

text \<open>A product of two values of \<open>[0, 1]\<close> is a value of \<open>[0, 1]\<close>, at most the first.\<close>

lemma f32_mul_unit:
  assumes "f32_repr k" "k \<le> one_mag" "f32_repr l" "l \<le> one_mag"
  obtains m where "f32_mul (F32_Fin s k) (F32_Fin t l) = F32_Fin (s \<noteq> t) m" "f32_repr m" "m \<le> k" "m \<le> l"
proof -
  have k: "0 \<le> k" "0 \<le> l" using assms by (simp_all add: f32_repr_def)
  let ?m = "f32_mag (k * l) one_mag"
  have le: "?m \<le> k" "?m \<le> l"
    using k assms(2,4) mult_left_mono [of l one_mag k] mult_left_mono [of k one_mag l]
    by (auto intro!: f32_mag_le assms(1,3) one_mag_pos simp: mult.commute)
  have nn: "0 \<le> ?m" using k by (simp add: f32_mag_nonneg one_mag_pos)
  have "k < 2 ^ 277" using assms(1) by (simp add: f32_repr_def)
  with le have lt: "\<not> 2 ^ 277 \<le> ?m" by linarith
  then have eq: "f32_round (s \<noteq> t) (k * l) one_mag = F32_Fin (s \<noteq> t) ?m"
    by (simp only: f32_round_def Let_def if_False)
  then have "f32_wf (F32_Fin (s \<noteq> t) ?m)"
    using f32_round_wf [of "k * l" one_mag "s \<noteq> t"] k one_mag_pos by simp
  then have "f32_repr ?m" by simp
  then show ?thesis using that [of ?m] eq le by (simp only: f32_mul_mag)
qed

section \<open>The minimum of confidences\<close>

lemma fold_min_unit:
  assumes "\<And>c. c \<in> set cs \<Longrightarrow> f32_wf c \<and> in_unit c" "f32_wf a \<and> in_unit a"
  shows "f32_wf (foldl f32_min a cs) \<and> in_unit (foldl f32_min a cs)
    \<and> (\<forall>c \<in> set (a # cs). f32_le (foldl f32_min a cs) c)"
  using assms
proof (induction cs arbitrary: a)
  case Nil
  then show ?case by (simp add: in_unit_refl)
next
  case (Cons c cs)
  have c: "f32_wf c \<and> in_unit c" using Cons.prems by simp
  then have m: "f32_wf (f32_min a c) \<and> in_unit (f32_min a c)" using Cons.prems by (auto simp: f32_min_def)
  have le: "f32_le (f32_min a c) a" "f32_le (f32_min a c) c"
    using c Cons.prems(2) in_unit_refl by (auto simp only: f32_min_def in_unit_iff f32_cmp_fin split: if_split)
  let ?r = "foldl f32_min (f32_min a c) cs"
  have IH: "f32_wf ?r \<and> in_unit ?r \<and> (\<forall>x \<in> set (f32_min a c # cs). f32_le ?r x)"
    by (rule Cons.IH) (use Cons.prems m in auto)
  then have "f32_le ?r a" "f32_le ?r c"
    using f32_le_trans [of ?r "f32_min a c"] le m by auto
  then show ?case using IH by simp
qed

lemma derived_confidence_bound:
  assumes "\<And>c. c \<in> set cs \<Longrightarrow> f32_wf c \<and> in_unit c" "f32_wf r \<and> in_unit r" "cs \<noteq> []"
  shows "in_unit (derived_confidence cs r) \<and> (\<forall>c \<in> set cs. f32_le (derived_confidence cs r) c)"
proof -
  obtain c0 ds where cs: "cs = c0 # ds" using assms(3) by (cases cs) auto
  have c0: "f32_wf c0 \<and> in_unit c0" using assms(1) cs by simp
  have start: "f32_min (F32_Inf False) c0 = c0"
    using c0 by (auto simp: in_unit_iff f32_min_def f32_lt_def)
  let ?m = "foldl f32_min c0 ds"
  have m: "f32_wf ?m \<and> in_unit ?m" "\<forall>c \<in> set cs. f32_le ?m c"
    using fold_min_unit [of ds c0] assms(1) c0 by (simp_all add: cs)
  obtain s k where k: "?m = F32_Fin s k" "f32_repr k" "k \<le> one_mag" "s \<longrightarrow> k = 0"
    using m(1) by (auto simp only: in_unit_iff)
  obtain t l where l: "r = F32_Fin t l" "f32_repr l" "l \<le> one_mag" "t \<longrightarrow> l = 0"
    using assms(2) by (auto simp only: in_unit_iff)
  obtain z where z: "f32_mul (F32_Fin s k) (F32_Fin t l) = F32_Fin (s \<noteq> t) z" "f32_repr z" "z \<le> k" "z \<le> l"
    using f32_mul_unit [OF k(2,3) l(2,3)] .
  have dc: "derived_confidence cs r = F32_Fin (s \<noteq> t) z"
    using start z(1) by (simp add: derived_confidence_def cs k(1) l(1) del: f32_mul.simps)
  have pos: "0 \<le> z" using z(2) by (simp add: f32_repr_def)
  have zero: "(s \<noteq> t) \<longrightarrow> z = 0" using k(4) l(4) z(3,4) pos by auto
  have "f32_wf (derived_confidence cs r) \<and> in_unit (derived_confidence cs r)"
    unfolding in_unit_iff using dc z(2,3) k(3) zero by auto
  moreover have "f32_le (derived_confidence cs r) ?m"
    using dc k zero z(3) pos by (auto simp: k(1))
  then have "f32_le (derived_confidence cs r) c" if "c \<in> set cs" for c
    using that m f32_le_trans by blast
  ultimately show ?thesis by blast
qed

end
