(* ===== verification/Morphemes.thy ===== *)
theory Morphemes
  imports Types
begin

text \<open>
  The morpheme registry, \<open>factum-core/src/morphemes.rs\<close>: definitions stored by index, with a map
  from names to indices. Each method holds its locks for its whole body, so a method is one step
  from one registry to the next.
\<close>

datatype morpheme_kind =
    MkEntity | MkRelation | MkQuantifier | MkModal | MkTemporal | MkStatus | MkAction
  | MkAttribute | MkClassification

datatype proposal_status = StDraft | StReview | StAdopted

record morpheme_def =
  md_id :: u32
  md_name :: string
  md_kind :: morpheme_kind
  md_signature :: string
  md_doc :: string
  md_status :: proposal_status

definition is_adopted :: "morpheme_def \<Rightarrow> bool" where
  "is_adopted d \<longleftrightarrow> md_status d = StAdopted"

record registry =
  rg_by_name :: "(string \<times> u32) list" \<comment> \<open>\<open>AHashMap\<close>, by key\<close>
  rg_by_id :: "morpheme_def list"

definition registry_new :: registry where
  "registry_new = \<lparr>rg_by_name = [], rg_by_id = []\<rparr>"

definition register :: "morpheme_def \<Rightarrow> registry \<Rightarrow> u32 \<times> registry" where
  "register d r =
     (case map_of (rg_by_name r) (md_name d) of
        Some i \<Rightarrow> (i, r)
      | None \<Rightarrow>
          let i = word_of_nat (length (rg_by_id r)) in
          (i, r\<lparr>rg_by_id := rg_by_id r @ [d\<lparr>md_id := i\<rparr>],
                rg_by_name := (md_name d, i) # rg_by_name r\<rparr>))"

definition register_name :: "string \<Rightarrow> morpheme_kind \<Rightarrow> registry \<Rightarrow> u32 \<times> registry" where
  "register_name nm k =
     register \<lparr>md_id = 0, md_name = nm, md_kind = k, md_signature = [], md_doc = [], md_status = StDraft\<rparr>"

definition lookup_id :: "registry \<Rightarrow> u32 \<Rightarrow> morpheme_def option" where
  "lookup_id r i =
     (if unat i < length (rg_by_id r) then Some (rg_by_id r ! unat i) else None)"

definition resolve :: "registry \<Rightarrow> string \<Rightarrow> u32 option" where
  "resolve r nm = map_of (rg_by_name r) nm"

definition morpheme_lookup :: "registry \<Rightarrow> string \<Rightarrow> morpheme_def option" where
  "morpheme_lookup r nm =
     (case map_of (rg_by_name r) nm of None \<Rightarrow> None | Some i \<Rightarrow> lookup_id r i)"

definition registry_len :: "registry \<Rightarrow> nat" where
  "registry_len r = length (rg_by_id r)"

definition registry_is_empty :: "registry \<Rightarrow> bool" where
  "registry_is_empty r \<longleftrightarrow> registry_len r = 0"

definition registry_all :: "registry \<Rightarrow> morpheme_def list" where
  "registry_all r = rg_by_id r"

section \<open>The seed vocabulary\<close>

definition seed :: "morpheme_kind \<Rightarrow> string \<Rightarrow> string \<Rightarrow> string \<Rightarrow> morpheme_def" where
  "seed k nm sig doc =
     \<lparr>md_id = 0, md_name = nm, md_kind = k, md_signature = sig, md_doc = doc, md_status = StAdopted\<rparr>"

definition seeds_entity_types :: "morpheme_def list" where
  "seeds_entity_types =
     [seed MkEntity ''organization'' ''-> EntityType''
        ''An organization entity'',
      seed MkEntity ''person'' ''-> EntityType''
        ''A person entity'',
      seed MkEntity ''product'' ''-> EntityType''
        ''A product entity'',
      seed MkEntity ''location'' ''-> EntityType''
        ''A geographic location'',
      seed MkEntity ''event'' ''-> EntityType''
        ''An event entity'',
      seed MkEntity ''document'' ''-> EntityType''
        ''A document or file'',
      seed MkEntity ''project'' ''-> EntityType''
        ''A software project'',
      seed MkEntity ''repository'' ''-> EntityType''
        ''A code repository'',
      seed MkEntity ''commit'' ''-> EntityType''
        ''A version control commit'',
      seed MkEntity ''branch'' ''-> EntityType''
        ''A version control branch'',
      seed MkEntity ''release'' ''-> EntityType''
        ''A software release version'',
      seed MkEntity ''module'' ''-> EntityType''
        ''A software module or crate'',
      seed MkEntity ''function'' ''-> EntityType''
        ''A function or method'',
      seed MkEntity ''file'' ''-> EntityType''
        ''A file in a repository'',
      seed MkEntity ''issue'' ''-> EntityType''
        ''A bug report or feature request'',
      seed MkEntity ''pr'' ''-> EntityType''
        ''A pull request'',
      seed MkEntity ''milestone'' ''-> EntityType''
        ''A project milestone'',
      seed MkEntity ''team'' ''-> EntityType''
        ''A team or working group'',
      seed MkEntity ''role'' ''-> EntityType''
        ''A user role for permissions'',
      seed MkEntity ''tool'' ''-> EntityType''
        ''A software tool or CLI'',
      seed MkEntity ''service'' ''-> EntityType''
        ''A running service or process'',
      seed MkEntity ''database'' ''-> EntityType''
        ''A database instance'',
      seed MkEntity ''config'' ''-> EntityType''
        ''A configuration setting'',
      seed MkEntity ''license'' ''-> EntityType''
        ''A software license'',
      seed MkEntity ''standard'' ''-> EntityType''
        ''A technical standard or spec'',
      seed MkEntity ''protocol'' ''-> EntityType''
        ''A communication protocol'',
      seed MkEntity ''api'' ''-> EntityType''
        ''An API endpoint or interface'',
      seed MkEntity ''dataset'' ''-> EntityType''
        ''A collection of data'',
      seed MkEntity ''model-ent'' ''-> EntityType''
        ''An AI model'',
      seed MkEntity ''agent'' ''-> EntityType''
        ''An AI agent instance'']"

definition seeds_rel_organizational :: "morpheme_def list" where
  "seeds_rel_organizational =
     [seed MkRelation ''instance-of'' ''entity:Entity, type:EntityType -> Assertion''
        ''Entity is an instance of a type'',
      seed MkRelation ''subsidiary-of'' ''child:Organization, parent:Organization, since:Date -> Assertion''
        ''Subsidiary relationship'',
      seed MkRelation ''shareholder-major'' ''org:Organization, holder:Person|Org, since:Date, stake:Ratio -> Assertion''
        ''Major shareholder relationship'',
      seed MkRelation ''acquired-by'' ''target:Organization, acquirer:Organization, date:Date, amount:Dec? -> Assertion''
        ''Acquisition relationship'',
      seed MkRelation ''merged-into'' ''source:Organization, target:Organization, date:Date -> Assertion''
        ''Merger relationship'',
      seed MkRelation ''partner-of'' ''orgA:Organization, orgB:Organization, since:Date -> Assertion''
        ''Partnership relationship'',
      seed MkRelation ''competitor-of'' ''orgA:Organization, orgB:Organization -> Assertion''
        ''Competition relationship'',
      seed MkRelation ''division-of'' ''unit:Organization, parent:Organization -> Assertion''
        ''Division relationship'',
      seed MkRelation ''member-of'' ''person:Person, org:Organization, since:Date -> Assertion''
        ''Membership relationship'',
      seed MkRelation ''employee-of'' ''person:Person, org:Organization, since:Date, until:Date? -> Assertion''
        ''Employment relationship'',
      seed MkRelation ''reports-to'' ''person:Person, manager:Person, since:Date -> Assertion''
        ''Reporting hierarchy'',
      seed MkRelation ''team-member-of'' ''person:Person, team:Team, since:Date -> Assertion''
        ''Team membership'',
      seed MkRelation ''founded-by'' ''org:Organization, person:Person, date:Date -> Assertion''
        ''Founder relationship'',
      seed MkRelation ''board-member-of'' ''person:Person, org:Organization, since:Date -> Assertion''
        ''Board membership'',
      seed MkRelation ''investor-in'' ''investor:Entity, target:Organization, amount:Dec, date:Date -> Assertion''
        ''Investment relationship'']"

definition seeds_rel_people :: "morpheme_def list" where
  "seeds_rel_people =
     [seed MkRelation ''ceo-of'' ''person:Person, org:Organization, since:Date, until:Date? -> Assertion''
        ''CEO relationship'',
      seed MkRelation ''cto-of'' ''person:Person, org:Organization, since:Date, until:Date? -> Assertion''
        ''CTO relationship'',
      seed MkRelation ''cfo-of'' ''person:Person, org:Organization, since:Date, until:Date? -> Assertion''
        ''CFO relationship'',
      seed MkRelation ''author-of'' ''person:Person, work:Document, date:Date -> Assertion''
        ''Authorship relationship'',
      seed MkRelation ''reviewer-of'' ''person:Person, work:Entity, date:Date -> Assertion''
        ''Review relationship'',
      seed MkRelation ''contributor-to'' ''person:Person, project:Project, since:Date -> Assertion''
        ''Contributor relationship'',
      seed MkRelation ''maintainer-of'' ''person:Person, project:Project, since:Date -> Assertion''
        ''Maintainer relationship'',
      seed MkRelation ''citizen-of'' ''person:Person, country:Location -> Assertion''
        ''Citizenship'',
      seed MkRelation ''resides-in'' ''person:Person, location:Location, since:Date -> Assertion''
        ''Residence'',
      seed MkRelation ''educated-at'' ''person:Person, org:Organization, degree:String? -> Assertion''
        ''Education'']"

definition seeds_rel_spatial_location :: "morpheme_def list" where
  "seeds_rel_spatial_location =
     [seed MkRelation ''located-in'' ''entity:Entity, location:Location -> Assertion''
        ''Entity is located in a location'',
      seed MkRelation ''headquartered-in'' ''org:Organization, location:Location, since:Date -> Assertion''
        ''Headquarters location'',
      seed MkRelation ''operates-in'' ''org:Organization, location:Location, since:Date -> Assertion''
        ''Operational presence'',
      seed MkRelation ''country-of'' ''location:Location, country:Location -> Assertion''
        ''Country containing a location'',
      seed MkRelation ''region-of'' ''location:Location, region:Location -> Assertion''
        ''Region containing a location'',
      seed MkRelation ''bordered-by'' ''location:Location, neighbor:Location -> Assertion''
        ''Bordering locations'',
      seed MkRelation ''capital-of'' ''city:Location, country:Location -> Assertion''
        ''Capital city'',
      seed MkRelation ''address-at'' ''entity:Entity, street:String, city:Location -> Assertion''
        ''Street address'']"

definition seeds_rel_financial :: "morpheme_def list" where
  "seeds_rel_financial =
     [seed MkRelation ''revenue'' ''org:Organization, period:Date, amount:Dec -> Assertion''
        ''Revenue for a period'',
      seed MkRelation ''profit'' ''org:Organization, period:Date, amount:Dec -> Assertion''
        ''Profit for a period'',
      seed MkRelation ''loss'' ''org:Organization, period:Date, amount:Dec -> Assertion''
        ''Loss for a period'',
      seed MkRelation ''asset-value'' ''org:Organization, date:Date, amount:Dec -> Assertion''
        ''Total asset value'',
      seed MkRelation ''liability'' ''org:Organization, date:Date, amount:Dec -> Assertion''
        ''Liability amount'',
      seed MkRelation ''market-cap'' ''org:Organization, date:Date, amount:Dec -> Assertion''
        ''Market capitalization'',
      seed MkRelation ''valuation'' ''org:Organization, date:Date, amount:Dec, stage:String -> Assertion''
        ''Valuation at funding stage'',
      seed MkRelation ''funding-round'' ''org:Organization, date:Date, amount:Dec, stage:String -> Assertion''
        ''Funding round'',
      seed MkRelation ''debt'' ''org:Organization, date:Date, amount:Dec -> Assertion''
        ''Debt amount'',
      seed MkRelation ''employee-count'' ''org:Organization, date:Date, count:Int -> Assertion''
        ''Employee count'',
      seed MkRelation ''budget'' ''org:Organization, period:Date, amount:Dec -> Assertion''
        ''Budget for a period'',
      seed MkRelation ''cost'' ''project:Project, date:Date, amount:Dec -> Assertion''
        ''Project cost'']"

definition seeds_rel_product_project :: "morpheme_def list" where
  "seeds_rel_product_project =
     [seed MkRelation ''developed-by'' ''product:Product, org:Organization -> Assertion''
        ''Product developer'',
      seed MkRelation ''owned-by'' ''entity:Entity, owner:Entity -> Assertion''
        ''Ownership'',
      seed MkRelation ''uses-tool'' ''project:Project, tool:Tool, since:Date -> Assertion''
        ''Tool dependency'',
      seed MkRelation ''depends-on'' ''module:Module, dep:Module, version:String -> Assertion''
        ''Module dependency'',
      seed MkRelation ''built-with'' ''project:Project, tool:Tool -> Assertion''
        ''Build tool'',
      seed MkRelation ''deployed-on'' ''service:Service, platform:String, date:Date -> Assertion''
        ''Deployment platform'',
      seed MkRelation ''hosts'' ''service:Service, module:Module -> Assertion''
        ''Hosting relationship'',
      seed MkRelation ''imports'' ''module:Module, dep:Module -> Assertion''
        ''Import dependency'',
      seed MkRelation ''extends'' ''module:Module, base:Module -> Assertion''
        ''Extension relationship'',
      seed MkRelation ''replaces'' ''newItem:Entity, oldItem:Entity, date:Date -> Assertion''
        ''Replacement relationship'',
      seed MkRelation ''compatible-with'' ''module:Module, other:Module, version:String -> Assertion''
        ''Compatibility'',
      seed MkRelation ''deprecated-by'' ''oldItem:Entity, newItem:Entity, date:Date -> Assertion''
        ''Deprecation replacement'']"

definition seeds_rel_version_control :: "morpheme_def list" where
  "seeds_rel_version_control =
     [seed MkRelation ''committed-to'' ''commit:Commit, branch:Branch, date:Date -> Assertion''
        ''Commit target branch'',
      seed MkRelation ''authored-by'' ''commit:Commit, person:Person, date:Date -> Assertion''
        ''Commit author'',
      seed MkRelation ''merged-into-branch'' ''pr:PR, branch:Branch, date:Date -> Assertion''
        ''PR merge target'',
      seed MkRelation ''released-in'' ''commit:Commit, release:Release -> Assertion''
        ''Commit included in release'',
      seed MkRelation ''tagged-as'' ''commit:Commit, tag:String, date:Date -> Assertion''
        ''Commit tag'',
      seed MkRelation ''fixes-issue'' ''pr:PR, issue:Issue -> Assertion''
        ''PR fixes issue'',
      seed MkRelation ''references-issue'' ''commit:Commit, issue:Issue -> Assertion''
        ''Commit references issue'',
      seed MkRelation ''blocks-issue'' ''issue:Issue, blocked:Issue -> Assertion''
        ''Issue blocking'',
      seed MkRelation ''duplicates-issue'' ''issue:Issue, original:Issue -> Assertion''
        ''Issue duplication'',
      seed MkRelation ''assigned-to'' ''issue:Issue, person:Person, date:Date -> Assertion''
        ''Issue assignment'']"

definition seeds_rel_document_knowledge :: "morpheme_def list" where
  "seeds_rel_document_knowledge =
     [seed MkRelation ''documented-in'' ''entity:Entity, doc:Document -> Assertion''
        ''Documentation location'',
      seed MkRelation ''described-by'' ''entity:Entity, doc:Document -> Assertion''
        ''Description source'',
      seed MkRelation ''specified-by'' ''entity:Entity, standard:Standard -> Assertion''
        ''Specification'',
      seed MkRelation ''cites'' ''doc:Document, ref:Document -> Assertion''
        ''Citation'',
      seed MkRelation ''supersedes'' ''newDoc:Document, oldDoc:Document, date:Date -> Assertion''
        ''Document supersession'',
      seed MkRelation ''translates'' ''doc:Document, source:Document, lang:String -> Assertion''
        ''Translation'',
      seed MkRelation ''extracted-from'' ''fact:Entity, source:Document, span:String -> Assertion''
        ''Knowledge extraction source'',
      seed MkRelation ''summarizes'' ''doc:Document, source:Document -> Assertion''
        ''Summary relationship'',
      seed MkRelation ''published-in'' ''doc:Document, venue:String, date:Date -> Assertion''
        ''Publication venue'',
      seed MkRelation ''licensed-under'' ''project:Project, license:License -> Assertion''
        ''License'']"

definition seeds_rel_temporal_founding :: "morpheme_def list" where
  "seeds_rel_temporal_founding =
     [seed MkRelation ''founded-on'' ''org:Organization, date:Date -> Assertion''
        ''Organization founding date'',
      seed MkRelation ''dissolved-on'' ''org:Organization, date:Date -> Assertion''
        ''Organization dissolution date'',
      seed MkRelation ''started-on'' ''project:Project, date:Date -> Assertion''
        ''Project start date'',
      seed MkRelation ''completed-on'' ''project:Project, date:Date -> Assertion''
        ''Project completion date'',
      seed MkRelation ''released-on'' ''product:Product, version:String, date:Date -> Assertion''
        ''Release date'']"

definition seeds_rel_agent_memory :: "morpheme_def list" where
  "seeds_rel_agent_memory =
     [seed MkRelation ''learned-from'' ''fact:Entity, source:Entity, date:Date -> Assertion''
        ''Knowledge acquisition source'',
      seed MkRelation ''believes'' ''agent:Agent, fact:Entity, since:Date -> Assertion''
        ''Agent belief'',
      seed MkRelation ''knows-about'' ''agent:Agent, entity:Entity, since:Date -> Assertion''
        ''Agent knowledge'',
      seed MkRelation ''prefers'' ''agent:Agent, entity:Entity, since:Date -> Assertion''
        ''Agent preference'',
      seed MkRelation ''dislikes'' ''agent:Agent, entity:Entity, since:Date -> Assertion''
        ''Agent dislike'',
      seed MkRelation ''recalls'' ''agent:Agent, event:Event, date:Date -> Assertion''
        ''Agent memory recall'',
      seed MkRelation ''forgot'' ''agent:Agent, fact:Entity, date:Date -> Assertion''
        ''Agent memory loss'',
      seed MkRelation ''uncertain-about'' ''agent:Agent, fact:Entity, since:Date -> Assertion''
        ''Agent uncertainty'']"

definition seeds_rel_permission_access :: "morpheme_def list" where
  "seeds_rel_permission_access =
     [seed MkRelation ''has-role'' ''person:Person, role:Role, since:Date -> Assertion''
        ''Role assignment'',
      seed MkRelation ''has-permission'' ''person:Person, action:String, resource:Entity -> Assertion''
        ''Permission grant'',
      seed MkRelation ''denied-permission'' ''person:Person, action:String, resource:Entity -> Assertion''
        ''Permission denial'',
      seed MkRelation ''owner-of'' ''person:Person, entity:Entity, since:Date -> Assertion''
        ''Entity ownership'',
      seed MkRelation ''shared-with'' ''entity:Entity, person:Person, since:Date -> Assertion''
        ''Shared access'']"

definition seeds_rel_cause_effect :: "morpheme_def list" where
  "seeds_rel_cause_effect =
     [seed MkRelation ''caused-by'' ''event:Event, cause:Entity -> Assertion''
        ''Causal relationship'',
      seed MkRelation ''affects'' ''event:Event, entity:Entity -> Assertion''
        ''Impact relationship'',
      seed MkRelation ''fixes'' ''pr:PR, issue:Issue -> Assertion''
        ''Fix relationship'',
      seed MkRelation ''triggers'' ''event:Event, consequence:Event -> Assertion''
        ''Trigger relationship'',
      seed MkRelation ''prevents'' ''action:String, event:Event -> Assertion''
        ''Prevention relationship'']"

definition seeds_quantifiers :: "morpheme_def list" where
  "seeds_quantifiers =
     [seed MkQuantifier ''all'' ''pred:Predicate -> Assertion''
        ''Universal quantifier'',
      seed MkQuantifier ''some'' ''pred:Predicate -> Assertion''
        ''Existential quantifier'',
      seed MkQuantifier ''most'' ''pred:Predicate, threshold:Ratio -> Assertion''
        ''Majority quantifier'',
      seed MkQuantifier ''none'' ''pred:Predicate -> Assertion''
        ''Negative universal'',
      seed MkQuantifier ''at-least'' ''pred:Predicate, count:Int -> Assertion''
        ''Minimum count quantifier'',
      seed MkQuantifier ''at-most'' ''pred:Predicate, count:Int -> Assertion''
        ''Maximum count quantifier'']"

definition seeds_modals :: "morpheme_def list" where
  "seeds_modals =
     [seed MkModal ''must'' ''pred:Predicate -> Assertion''
        ''Necessity modal'',
      seed MkModal ''may'' ''pred:Predicate -> Assertion''
        ''Possibility modal'',
      seed MkModal ''should'' ''pred:Predicate -> Assertion''
        ''Recommendation modal'',
      seed MkModal ''must-not'' ''pred:Predicate -> Assertion''
        ''Prohibition'',
      seed MkModal ''might'' ''pred:Predicate -> Assertion''
        ''Weak possibility'',
      seed MkModal ''intends-to'' ''agent:Agent, action:String -> Assertion''
        ''Intention'']"

definition seeds_temporal :: "morpheme_def list" where
  "seeds_temporal =
     [seed MkTemporal ''since'' ''pred:Predicate, from:Date -> Assertion''
        ''Valid since a date'',
      seed MkTemporal ''until'' ''pred:Predicate, until:Date -> Assertion''
        ''Valid until a date'',
      seed MkTemporal ''during'' ''pred:Predicate, interval:Date, end:Date -> Assertion''
        ''Valid during an interval'',
      seed MkTemporal ''before'' ''pred:Predicate, until:Date -> Assertion''
        ''Valid before a date'',
      seed MkTemporal ''after'' ''pred:Predicate, from:Date -> Assertion''
        ''Valid after a date'',
      seed MkTemporal ''occurred-on'' ''event:Event, date:Date -> Assertion''
        ''Event occurrence date'',
      seed MkTemporal ''scheduled-for'' ''event:Event, date:Date -> Assertion''
        ''Scheduled date'',
      seed MkTemporal ''last-seen'' ''entity:Entity, date:Date -> Assertion''
        ''Last observation date'']"

definition seeds_status :: "morpheme_def list" where
  "seeds_status =
     [seed MkStatus ''active'' ''entity:Entity, since:Date -> Assertion''
        ''Entity is active'',
      seed MkStatus ''inactive'' ''entity:Entity, since:Date -> Assertion''
        ''Entity is inactive'',
      seed MkStatus ''deprecated'' ''entity:Entity, since:Date -> Assertion''
        ''Entity is deprecated'',
      seed MkStatus ''draft'' ''entity:Entity, since:Date -> Assertion''
        ''Entity is in draft state'',
      seed MkStatus ''review'' ''entity:Entity, since:Date -> Assertion''
        ''Entity is under review'',
      seed MkStatus ''adopted'' ''entity:Entity, since:Date -> Assertion''
        ''Entity is adopted/stable'',
      seed MkStatus ''experimental'' ''entity:Entity, since:Date -> Assertion''
        ''Entity is experimental'',
      seed MkStatus ''stable'' ''entity:Entity, since:Date -> Assertion''
        ''Entity is stable'',
      seed MkStatus ''beta'' ''entity:Entity, since:Date -> Assertion''
        ''Entity is in beta'',
      seed MkStatus ''alpha'' ''entity:Entity, since:Date -> Assertion''
        ''Entity is in alpha'',
      seed MkStatus ''released-status'' ''entity:Entity, since:Date -> Assertion''
        ''Entity is released'',
      seed MkStatus ''unreleased'' ''entity:Entity, since:Date -> Assertion''
        ''Entity is not yet released'',
      seed MkStatus ''archived'' ''entity:Entity, since:Date -> Assertion''
        ''Entity is archived'',
      seed MkStatus ''deleted-status'' ''entity:Entity, since:Date -> Assertion''
        ''Entity is deleted'',
      seed MkStatus ''blocked'' ''entity:Entity, since:Date -> Assertion''
        ''Entity is blocked'',
      seed MkStatus ''approved'' ''entity:Entity, since:Date -> Assertion''
        ''Entity is approved'',
      seed MkStatus ''rejected'' ''entity:Entity, since:Date -> Assertion''
        ''Entity is rejected'',
      seed MkStatus ''pending'' ''entity:Entity, since:Date -> Assertion''
        ''Entity is pending'',
      seed MkStatus ''resolved'' ''entity:Entity, since:Date -> Assertion''
        ''Entity is resolved'',
      seed MkStatus ''wip'' ''entity:Entity, since:Date -> Assertion''
        ''Work in progress'']"

definition seeds_actions :: "morpheme_def list" where
  "seeds_actions =
     [seed MkAction ''created'' ''entity:Entity, by:Person, date:Date -> Assertion''
        ''Entity was created'',
      seed MkAction ''modified'' ''entity:Entity, by:Person, date:Date -> Assertion''
        ''Entity was modified'',
      seed MkAction ''deleted-action'' ''entity:Entity, by:Person, date:Date -> Assertion''
        ''Entity was deleted'',
      seed MkAction ''published'' ''entity:Entity, by:Person, date:Date -> Assertion''
        ''Entity was published'',
      seed MkAction ''deployed'' ''service:Service, by:Person, date:Date, env:String -> Assertion''
        ''Service was deployed'',
      seed MkAction ''reviewed'' ''entity:Entity, by:Person, date:Date -> Assertion''
        ''Entity was reviewed'',
      seed MkAction ''approved-action'' ''entity:Entity, by:Person, date:Date -> Assertion''
        ''Entity was approved'',
      seed MkAction ''rejected-action'' ''entity:Entity, by:Person, date:Date -> Assertion''
        ''Entity was rejected'',
      seed MkAction ''merged'' ''pr:PR, by:Person, date:Date -> Assertion''
        ''PR was merged'',
      seed MkAction ''closed'' ''issue:Issue, by:Person, date:Date -> Assertion''
        ''Issue was closed'',
      seed MkAction ''opened'' ''issue:Issue, by:Person, date:Date -> Assertion''
        ''Issue was opened'',
      seed MkAction ''assigned'' ''issue:Issue, to:Person, by:Person, date:Date -> Assertion''
        ''Issue was assigned'',
      seed MkAction ''labeled'' ''issue:Issue, label:String, by:Person, date:Date -> Assertion''
        ''Issue was labeled'',
      seed MkAction ''released-action'' ''product:Product, version:String, by:Person, date:Date -> Assertion''
        ''Release was published'',
      seed MkAction ''registered'' ''entity:Entity, by:Person, date:Date, registry:String -> Assertion''
        ''Entity was registered'',
      seed MkAction ''installed'' ''tool:Tool, by:Person, date:Date -> Assertion''
        ''Tool was installed'',
      seed MkAction ''executed'' ''tool:Tool, by:Person, date:Date, result:String -> Assertion''
        ''Tool was executed'',
      seed MkAction ''tested'' ''module:Module, by:Person, date:Date, result:String -> Assertion''
        ''Module was tested'',
      seed MkAction ''documented-action'' ''entity:Entity, by:Person, date:Date -> Assertion''
        ''Entity was documented'',
      seed MkAction ''announced'' ''entity:Entity, by:Person, date:Date, channel:String -> Assertion''
        ''Entity was announced'']"

definition seeds_attributes :: "morpheme_def list" where
  "seeds_attributes =
     [seed MkAttribute ''name'' ''entity:Entity, value:String -> Assertion''
        ''Entity name'',
      seed MkAttribute ''version'' ''entity:Entity, value:String -> Assertion''
        ''Entity version'',
      seed MkAttribute ''url'' ''entity:Entity, value:String -> Assertion''
        ''Entity URL'',
      seed MkAttribute ''description'' ''entity:Entity, value:String -> Assertion''
        ''Entity description'',
      seed MkAttribute ''language'' ''entity:Entity, value:String -> Assertion''
        ''Programming language'',
      seed MkAttribute ''license-attr'' ''entity:Entity, value:String -> Assertion''
        ''License type'',
      seed MkAttribute ''platform'' ''entity:Entity, value:String -> Assertion''
        ''Target platform'',
      seed MkAttribute ''category'' ''entity:Entity, value:String -> Assertion''
        ''Category tag'',
      seed MkAttribute ''priority'' ''entity:Entity, value:String -> Assertion''
        ''Priority level'',
      seed MkAttribute ''severity'' ''issue:Issue, value:String -> Assertion''
        ''Issue severity'',
      seed MkAttribute ''size'' ''entity:Entity, value:Dec, unit:String -> Assertion''
        ''Entity size'',
      seed MkAttribute ''count-attr'' ''entity:Entity, value:Int -> Assertion''
        ''Numeric count'',
      seed MkAttribute ''color'' ''entity:Entity, value:String -> Assertion''
        ''Color value'',
      seed MkAttribute ''format'' ''entity:Entity, value:String -> Assertion''
        ''Data format'',
      seed MkAttribute ''encoding'' ''entity:Entity, value:String -> Assertion''
        ''Text encoding'',
      seed MkAttribute ''checksum'' ''entity:Entity, value:String -> Assertion''
        ''Checksum hash'',
      seed MkAttribute ''path'' ''entity:Entity, value:String -> Assertion''
        ''File path'',
      seed MkAttribute ''port'' ''service:Service, value:Int -> Assertion''
        ''Network port'',
      seed MkAttribute ''env-var'' ''config:Config, key:String, value:String -> Assertion''
        ''Environment variable'',
      seed MkAttribute ''tag'' ''entity:Entity, value:String -> Assertion''
        ''Generic tag'']"

definition seeds_classification :: "morpheme_def list" where
  "seeds_classification =
     [seed MkClassification ''bug'' ''issue:Issue, since:Date -> Assertion''
        ''Issue is a bug'',
      seed MkClassification ''feature'' ''issue:Issue, since:Date -> Assertion''
        ''Issue is a feature request'',
      seed MkClassification ''enhancement'' ''issue:Issue, since:Date -> Assertion''
        ''Issue is an enhancement'',
      seed MkClassification ''security'' ''issue:Issue, since:Date -> Assertion''
        ''Security issue'',
      seed MkClassification ''performance'' ''issue:Issue, since:Date -> Assertion''
        ''Performance issue'',
      seed MkClassification ''docs-cls'' ''issue:Issue, since:Date -> Assertion''
        ''Documentation issue'',
      seed MkClassification ''refactor'' ''issue:Issue, since:Date -> Assertion''
        ''Refactoring task'',
      seed MkClassification ''test-cls'' ''issue:Issue, since:Date -> Assertion''
        ''Testing task'',
      seed MkClassification ''ci-cls'' ''issue:Issue, since:Date -> Assertion''
        ''CI/CD issue'',
      seed MkClassification ''build-cls'' ''issue:Issue, since:Date -> Assertion''
        ''Build system issue'',
      seed MkClassification ''dependency-cls'' ''issue:Issue, since:Date -> Assertion''
        ''Dependency issue'',
      seed MkClassification ''breaking-change'' ''issue:Issue, since:Date -> Assertion''
        ''Breaking change'',
      seed MkClassification ''good-first-issue'' ''issue:Issue, since:Date -> Assertion''
        ''Good first issue'',
      seed MkClassification ''help-wanted'' ''issue:Issue, since:Date -> Assertion''
        ''Help wanted'',
      seed MkClassification ''wontfix'' ''issue:Issue, since:Date -> Assertion''
        ''Won't fix'',
      seed MkClassification ''duplicate-cls'' ''issue:Issue, since:Date -> Assertion''
        ''Duplicate issue'',
      seed MkClassification ''invalid-cls'' ''issue:Issue, since:Date -> Assertion''
        ''Invalid issue'',
      seed MkClassification ''question-cls'' ''issue:Issue, since:Date -> Assertion''
        ''Question issue'',
      seed MkClassification ''discussion-cls'' ''issue:Issue, since:Date -> Assertion''
        ''Discussion issue'',
      seed MkClassification ''design-cls'' ''issue:Issue, since:Date -> Assertion''
        ''Design issue'']"

definition seed_morphemes :: "morpheme_def list" where
  "seed_morphemes =
     seeds_entity_types @
     seeds_rel_organizational @
     seeds_rel_people @
     seeds_rel_spatial_location @
     seeds_rel_financial @
     seeds_rel_product_project @
     seeds_rel_version_control @
     seeds_rel_document_knowledge @
     seeds_rel_temporal_founding @
     seeds_rel_agent_memory @
     seeds_rel_permission_access @
     seeds_rel_cause_effect @
     seeds_quantifiers @
     seeds_modals @
     seeds_temporal @
     seeds_status @
     seeds_actions @
     seeds_attributes @
     seeds_classification"

fun register_all :: "morpheme_def list \<Rightarrow> registry \<Rightarrow> registry" where
  "register_all [] r = r"
| "register_all (d # ds) r = register_all ds (snd (register d r))"

definition with_seeds :: registry where
  "with_seeds = register_all seed_morphemes registry_new"

section \<open>The registry invariant\<close>

text \<open>
  Names and indices are inverse to each other: the definition at an index carries that index and
  its name leads back to it, and every name leads to a definition of that name.
\<close>

definition reg_ok :: "registry \<Rightarrow> bool" where
  "reg_ok r \<longleftrightarrow>
     length (rg_by_id r) \<le> 2 ^ 32
     \<and> (\<forall>i < length (rg_by_id r).
          md_id (rg_by_id r ! i) = word_of_nat i
          \<and> map_of (rg_by_name r) (md_name (rg_by_id r ! i)) = Some (word_of_nat i))
     \<and> (\<forall>nm j. map_of (rg_by_name r) nm = Some j \<longrightarrow>
          unat j < length (rg_by_id r) \<and> md_name (rg_by_id r ! unat j) = nm)"

lemma reg_ok_new: "reg_ok registry_new"
  by (simp add: reg_ok_def registry_new_def)

lemma unat_index: "n < 2 ^ 32 \<Longrightarrow> unat (word_of_nat n :: u32) = n"
  by (simp add: unat_of_nat)

lemma reg_ok_register:
  assumes ok: "reg_ok r" and room: "length (rg_by_id r) < 2 ^ 32"
  shows "reg_ok (snd (register d r))"
proof (cases "map_of (rg_by_name r) (md_name d)")
  case (Some i)
  then show ?thesis using ok by (simp add: register_def)
next
  case None
  let ?n = "length (rg_by_id r)"
  let ?r = "r\<lparr>rg_by_id := rg_by_id r @ [d\<lparr>md_id := word_of_nat ?n\<rparr>],
               rg_by_name := (md_name d, word_of_nat ?n) # rg_by_name r\<rparr>"
  have r: "snd (register d r) = ?r" using None by (simp add: register_def Let_def)
  have other: "md_name (rg_by_id r ! i) \<noteq> md_name d" if "i < ?n" for i
    using ok that None unfolding reg_ok_def by (metis option.distinct(1))
  have "md_id (rg_by_id ?r ! i) = word_of_nat i
      \<and> map_of (rg_by_name ?r) (md_name (rg_by_id ?r ! i)) = Some (word_of_nat i)"
    if "i < length (rg_by_id ?r)" for i
    using ok other [of i] that unfolding reg_ok_def by (cases "i = ?n") (simp_all add: nth_append)
  moreover have "unat j < length (rg_by_id ?r) \<and> md_name (rg_by_id ?r ! unat j) = nm"
    if "map_of (rg_by_name ?r) nm = Some j" for nm j
  proof (cases "nm = md_name d")
    case True
    with that have "j = word_of_nat ?n" by simp
    then have "unat j = ?n" using unat_index [OF room] by simp
    then show ?thesis using True by (simp add: nth_append)
  next
    case False
    with that have "map_of (rg_by_name r) nm = Some j" by simp
    then have "unat j < ?n" "md_name (rg_by_id r ! unat j) = nm" using ok unfolding reg_ok_def by blast+
    then show ?thesis by (simp add: nth_append)
  qed
  ultimately show ?thesis unfolding r reg_ok_def using room by simp
qed

lemma register_length: "length (rg_by_id (snd (register d r))) \<le> Suc (length (rg_by_id r))"
  by (simp add: register_def Let_def split: option.split)

lemma reg_ok_register_all:
  "reg_ok r \<Longrightarrow> length (rg_by_id r) + length ds \<le> 2 ^ 32 \<Longrightarrow> reg_ok (register_all ds r)"
proof (induction ds arbitrary: r)
  case (Cons d ds)
  then have "reg_ok (snd (register d r))" by (intro reg_ok_register) simp_all
  moreover have "length (rg_by_id (snd (register d r))) + length ds \<le> 2 ^ 32"
    using register_length [of d r] Cons.prems(2) by simp
  ultimately show ?case using Cons.IH by simp
qed simp

lemma register_finds:
  assumes ok: "reg_ok r" and room: "length (rg_by_id r) < 2 ^ 32" and reg: "register d r = (i, r')"
  shows "resolve r' (md_name d) = Some i"
    and "\<exists>d'. morpheme_lookup r' (md_name d) = Some d' \<and> md_name d' = md_name d \<and> md_id d' = i"
    and "\<And>nm. nm \<noteq> md_name d \<Longrightarrow> morpheme_lookup r' nm = morpheme_lookup r nm"
proof -
  have ok': "reg_ok r'" using reg_ok_register [OF ok room, of d] reg by simp
  show res: "resolve r' (md_name d) = Some i"
    using reg by (auto simp: register_def resolve_def Let_def split: option.splits)
  then have "unat i < length (rg_by_id r')" "md_name (rg_by_id r' ! unat i) = md_name d"
    using ok' unfolding reg_ok_def resolve_def by blast+
  moreover from this have "md_id (rg_by_id r' ! unat i) = i"
    using ok' unfolding reg_ok_def by auto
  ultimately show "\<exists>d'. morpheme_lookup r' (md_name d) = Some d' \<and> md_name d' = md_name d \<and> md_id d' = i"
    using res by (simp add: morpheme_lookup_def lookup_id_def resolve_def)
  show "morpheme_lookup r' nm = morpheme_lookup r nm" if "nm \<noteq> md_name d" for nm
  proof (cases "map_of (rg_by_name r) (md_name d)")
    case None
    have "unat j < length (rg_by_id r)" if "map_of (rg_by_name r) nm = Some j" for j
      using ok that unfolding reg_ok_def by blast
    then show ?thesis
      using reg None that
      by (auto simp: register_def Let_def morpheme_lookup_def lookup_id_def nth_append split: option.split)
  qed (use reg in \<open>simp add: register_def\<close>)
qed

end
