(* ===== verification/Verifier.thy ===== *)
theory Verifier
  imports Morphemes
begin

text \<open>
  The verifiers of \<open>factum-rt/src/verifier.rs\<close>. A \<open>dyn Verifier\<close> is a pair of functions; the
  registry runs those that apply, in order, and stops at the first failure.
\<close>

datatype fail_reason =
    UnknownMorpheme
  | ArityTooFew nat nat nat \<comment> \<open>required, optional, provided\<close>
  | ArityTooMany nat nat \<comment> \<open>total, provided\<close>
  | EntityWithArguments
  | DecimalScale u8
  | DecimalDigits nat
  | CustomFailure string

datatype verdict = Pass | Fail fail_reason | Inconclusive

record verifier =
  can_verify :: "node \<Rightarrow> bool"
  verify_node :: "node \<Rightarrow> verdict"

fun registry_verify :: "verifier list \<Rightarrow> bool \<Rightarrow> node \<Rightarrow> verdict" where
  \<comment> \<open>the loop of \<open>VerifierRegistry::verify\<close>, with \<open>any_ran\<close>\<close>
  "registry_verify [] any_ran n = (if any_ran then Pass else Inconclusive)"
| "registry_verify (v # vs) any_ran n =
     (if can_verify v n then
        (case verify_node v n of
           Fail r \<Rightarrow> Fail r
         | Pass \<Rightarrow> registry_verify vs True n
         | Inconclusive \<Rightarrow> registry_verify vs True n)
      else registry_verify vs any_ran n)"

definition add_verifier :: "verifier \<Rightarrow> verifier list \<Rightarrow> verifier list" where
  "add_verifier v vs = vs @ [v]"

definition verify_all :: "verifier list \<Rightarrow> node \<Rightarrow> verdict" where
  "verify_all vs n = registry_verify vs False n"

section \<open>Signatures\<close>

fun before_arrow :: "string \<Rightarrow> string option" where
  \<comment> \<open>the text before the first \<open>->\<close>, \<open>None\<close> without one\<close>
  "before_arrow [] = None"
| "before_arrow (c # s) =
     (if c = CHR ''-'' \<and> s \<noteq> [] \<and> hd s = CHR ''>'' then Some []
      else map_option (\<lambda>t. c # t) (before_arrow s))"

fun split_commas :: "string \<Rightarrow> string list" where
  "split_commas [] = [[]]"
| "split_commas (c # s) =
     (if c = CHR '','' then [] # split_commas s
      else case split_commas s of [] \<Rightarrow> [[c]] | p # ps \<Rightarrow> (c # p) # ps)"

definition signature_params :: "string \<Rightarrow> string list" where
  "signature_params sig = filter (\<lambda>s. s \<noteq> []) (map trim (split_commas sig))"

definition is_optional :: "string \<Rightarrow> bool" where
  "is_optional p \<longleftrightarrow> p \<noteq> [] \<and> last p = CHR ''?''"

definition check_arity :: "string \<Rightarrow> nat \<Rightarrow> fail_reason option" where
  "check_arity sig provided =
     (case before_arrow sig of
        None \<Rightarrow> None
      | Some params_part \<Rightarrow>
          let params = signature_params params_part;
              total = length params;
              required = length (filter (\<lambda>p. \<not> is_optional p) params)
          in if params = [] then None
             else if provided < required then Some (ArityTooFew required (total - required) provided)
             else if total < provided then Some (ArityTooMany total provided)
             else None)"

section \<open>The built-in verifiers\<close>

definition head_def :: "registry \<Rightarrow> predicate_head \<Rightarrow> morpheme_def option" where
  "head_def reg h = (case h of HeadName nm \<Rightarrow> morpheme_lookup reg nm | HeadId i \<Rightarrow> lookup_id reg i)"

definition schema_can_verify :: "registry \<Rightarrow> node \<Rightarrow> bool" where
  "schema_can_verify reg n \<longleftrightarrow> head_def reg (pr_head (nd_pred n)) \<noteq> None"

definition schema_verify :: "registry \<Rightarrow> node \<Rightarrow> verdict" where
  "schema_verify reg n =
     (case head_def reg (pr_head (nd_pred n)) of
        None \<Rightarrow> Fail UnknownMorpheme
      | Some d \<Rightarrow>
          (case check_arity (md_signature d)
                  (length (pr_args (nd_pred n)) + length (pr_named (nd_pred n))) of
             Some r \<Rightarrow> Fail r
           | None \<Rightarrow>
               if md_kind d = MkEntity \<and> pr_args (nd_pred n) \<noteq> [] then Fail EntityWithArguments
               else Pass))"

definition schema_verifier :: "registry \<Rightarrow> verifier" where
  "schema_verifier reg = \<lparr>can_verify = schema_can_verify reg, verify_node = schema_verify reg\<rparr>"

definition is_dec :: "trm \<Rightarrow> bool" where
  "is_dec t = (case t of TLit (LDec _ _) \<Rightarrow> True | _ \<Rightarrow> False)"

definition decimal_can_verify :: "node \<Rightarrow> bool" where
  "decimal_can_verify n \<longleftrightarrow> list_ex is_dec (pr_args (nd_pred n))"

fun decimal_loop :: "trm list \<Rightarrow> verdict" where
  "decimal_loop [] = Pass"
| "decimal_loop (a # as) =
     (case a of
        TLit (LDec m sc) \<Rightarrow>
          if 38 < sc then Fail (DecimalScale sc)
          else let digits = length (int_dec \<bar>sint m\<bar>) in
            if 38 < digits then Fail (DecimalDigits digits) else decimal_loop as
      | _ \<Rightarrow> decimal_loop as)"

definition decimal_verify :: "node \<Rightarrow> verdict" where
  "decimal_verify n = decimal_loop (pr_args (nd_pred n))"

definition decimal_range_verifier :: verifier where
  "decimal_range_verifier = \<lparr>can_verify = decimal_can_verify, verify_node = decimal_verify\<rparr>"

definition with_builtins :: "registry \<Rightarrow> verifier list" where
  "with_builtins reg = [schema_verifier reg, decimal_range_verifier]"

section \<open>What verification means\<close>

lemma registry_verify_Fail:
  "(\<exists>r. registry_verify vs b n = Fail r) \<longleftrightarrow>
     (\<exists>v \<in> set vs. can_verify v n \<and> (\<exists>r. verify_node v n = Fail r))"
  by (induction vs arbitrary: b) (auto split: verdict.splits)

lemma registry_verify_Pass:
  "registry_verify vs b n = Pass \<longleftrightarrow>
     (b \<or> (\<exists>v \<in> set vs. can_verify v n))
     \<and> (\<forall>v \<in> set vs. can_verify v n \<longrightarrow> (\<forall>r. verify_node v n \<noteq> Fail r))"
  by (induction vs arbitrary: b) (auto split: verdict.splits)

text \<open>A decimal the checks accept has at most 38 digits on either side of the point.\<close>

definition dec_in_range :: "trm \<Rightarrow> bool" where
  "dec_in_range t =
     (case t of TLit (LDec m sc) \<Rightarrow> sc \<le> 38 \<and> length (int_dec \<bar>sint m\<bar>) \<le> 38 | _ \<Rightarrow> True)"

lemma decimal_loop_Cons: "decimal_loop (a # as) = Pass \<longleftrightarrow> dec_in_range a \<and> decimal_loop as = Pass"
  by (auto simp: dec_in_range_def Let_def not_less split: trm.splits literal.splits)

lemma decimal_loop_Pass: "decimal_loop as = Pass \<longleftrightarrow> list_all dec_in_range as"
  by (induction as) (simp_all add: decimal_loop_Cons del: decimal_loop.simps(2))

lemma decimal_loop_not_inconclusive: "decimal_loop as \<noteq> Inconclusive"
  by (induction as) (auto simp: Let_def split: trm.splits literal.splits)

lemma int_dec_length: "0 \<le> n \<Longrightarrow> 0 < k \<Longrightarrow> length (int_dec n) \<le> k \<longleftrightarrow> n < 10 ^ k"
proof (induction n arbitrary: k rule: int_dec.induct)
  case (1 n)
  show ?case
  proof (cases "n < 10")
    case True
    have "(10::int) \<le> 10 ^ k" using 1(3) power_increasing [of 1 k "10::int"] by simp
    with True have "n < 10 ^ k" by linarith
    moreover have "length (int_dec n) = 1" using True by (subst int_dec.simps) simp
    ultimately show ?thesis using 1(3) by simp
  next
    case False
    have len: "length (int_dec n) = Suc (length (int_dec (n div 10)))"
      using False by (subst int_dec.simps) simp
    have ne: "0 < length (int_dec (n div 10))" by simp
    show ?thesis
    proof (cases "k = 1")
      case True
      then show ?thesis using len ne False by simp
    next
      case k: False
      then obtain j where j: "k = Suc j" "0 < j" using 1(3) by (cases k) auto
      have "n div 10 < X \<longleftrightarrow> n < 10 * X" for X :: int by presburger
      then have "n div 10 < 10 ^ j \<longleftrightarrow> n < 10 ^ k" by (simp add: j(1))
      then show ?thesis using 1(1) [OF False _ j(2)] 1(2) j(1) len by simp
    qed
  qed
qed

end
