(* ===== verification/Permission.thy ===== *)
theory Permission
  imports Types
begin

text \<open>
  Permission contexts, \<open>factum-rt/src/permission.rs\<close>: a principal with a role mask, which is tested
  against the tag of a node.
\<close>

record perm_ctx =
  pc_principal :: string
  pc_role_mask :: u32

definition ctx_public :: perm_ctx where
  "ctx_public = \<lparr>pc_principal = ''anonymous'', pc_role_mask = PUBLIC\<rparr>"

definition ctx_internal :: "string \<Rightarrow> perm_ctx" where
  "ctx_internal p = \<lparr>pc_principal = p, pc_role_mask = PUBLIC OR INTERNAL\<rparr>"

definition ctx_confidential :: "string \<Rightarrow> perm_ctx" where
  "ctx_confidential p = \<lparr>pc_principal = p, pc_role_mask = PUBLIC OR INTERNAL OR CONFIDENTIAL\<rparr>"

definition ctx_admin :: "string \<Rightarrow> perm_ctx" where
  "ctx_admin p = \<lparr>pc_principal = p, pc_role_mask = 0xFFFFFFFF\<rparr>"

definition ctx_grants :: "perm_ctx \<Rightarrow> u32 \<Rightarrow> bool" where
  "ctx_grants c tag \<longleftrightarrow> tag_grants tag (pc_role_mask c)"

definition with_role :: "u32 \<Rightarrow> perm_ctx \<Rightarrow> perm_ctx" where
  "with_role r c = c\<lparr>pc_role_mask := pc_role_mask c OR r\<rparr>"

section \<open>Masks\<close>

lemma grants_mono:
  assumes "m AND m' = m" "tag_grants t m"
  shows "tag_grants t m'"
  unfolding tag_grants_def
proof
  assume "t AND m' = 0"
  then have "(t AND m') AND m = 0" by simp
  then have "t AND (m AND m') = 0" by (simp only: ac_simps)
  with assms show False by (simp add: tag_grants_def)
qed

lemma grants_with_role: "ctx_grants c t \<Longrightarrow> ctx_grants (with_role r c) t"
  unfolding ctx_grants_def
proof (rule grants_mono)
  show "pc_role_mask c AND pc_role_mask (with_role r c) = pc_role_mask c"
    by (rule bit_eqI) (auto simp: with_role_def bit_simps)
qed simp

lemma grants_union: "tag_grants (tag_union a b) m \<longleftrightarrow> tag_grants a m \<or> tag_grants b m"
  by (auto simp: tag_grants_def tag_union_def bit_eq_iff bit_simps)

end
