(* ===== verification/Samples.thy ===== *)
theory Samples
  imports Parser
begin

text \<open>A date library for the witnesses, where the development has one as a parameter.\<close>

definition sample_chrono :: chrono where
  \<comment> \<open>a date library for the witnesses: numbers of days and of nanoseconds in decimal\<close>
  "sample_chrono =
     \<lparr>parse_date = parse_uint (10 ^ 6), fmt_date = int_dec,
      parse_datetime = parse_uint (10 ^ 20), fmt_rfc3339 = int_dec, overflow_checks = True, hash_rank = size\<rparr>"

end
