(* ===== verification/Core_Properties.thy ===== *)
theory Core_Properties
  imports RoundTrip Calibration Verifier Permission Samples
begin

text \<open>
  Properties of the language and of the small parts around the store: the printer and the parser,
  decimals, confidence, the registry, permissions and the built-in verifiers.
\<close>

section \<open>Samples\<close>

definition sample_node :: node where
  "sample_node =
     \<lparr>nd_id = ''n-1'',
      nd_pred = Predicate (HeadName ''owns'')
        [TEnt ''ACME'', TLit (LDec (-23050) 2), TList [TVar ''x'', TLit (LStr [CHR 0x22, CHR ''q'', CHR 0x0A])]]
        [(''as-of'', TLit (LDate 19723)),
         (''how'', TCompound (Predicate (HeadName ''via'') [TLit (LBool True), TLit (LDur 60000000000)] []))],
      nd_validity = Window 1 (Some 2),
      nd_prov = Extracted ''doc'' \<lparr>sp_start = 0, sp_end = 4294967295\<rparr> \<lparr>m_name = ''m'', m_version = ''v1''\<rparr>,
      nd_conf = f32_lit 85 2, nd_auth = f32_one, nd_perm = CONFIDENTIAL,
      nd_deps = [''a'', ''b''], nd_status = Retracted, nd_note = Some [CHR 0xC3, CHR 0xA9]\<rparr>"

lemma sample_node_ok: "node_ok sample_chrono sample_node"
  by code_simp

lemma sample_node_length: "int (length (canonical sample_chrono sample_node)) < MAX_TOKENS"
  by code_simp

lemma sample_length: "length (canonical sample_chrono sample_node) < 10000"
  by code_simp

section \<open>The printer and the parser\<close>

text \<open>A list of nodes printed by \<open>canonical_all\<close> parses back to exactly those nodes in that
  order, each with its status reset; no node is lost, merged or reordered.\<close>

lemma canonical_all_roundtrip:
  assumes "list_all (node_ok C) ns" "int (length (canonical_all C ns)) < MAX_TOKENS"
  shows "parse C (canonical_all C ns) = Inr (map (\<lambda>n. n\<lparr>nd_status := Active\<rparr>) ns)"
proof -
  have "parse C (canonical_all C ns) = Inr (map as_parsed ns)"
    using assms by (intro parse_canonical_all) (simp_all add: MAX_TOKENS_def)
  then show ?thesis by (simp add: as_parsed_def [abs_def])
qed

lemma canonical_all_roundtrip_witness:
  "parse sample_chrono (canonical_all sample_chrono [sample_node, sample_node]) =
     Inr (map (\<lambda>n. n\<lparr>nd_status := Active\<rparr>) [sample_node, sample_node])"
proof (rule canonical_all_roundtrip)
  have "length (canonical_node sample_chrono sample_node) < 10000" using sample_length by (simp add: canonical_def)
  then show "int (length (canonical_all sample_chrono [sample_node, sample_node])) < MAX_TOKENS"
    by (simp add: canonical_all_def MAX_TOKENS_def)
qed (simp add: sample_node_ok)

text \<open>The self-check \<open>verify_roundtrip\<close> accepts every well-formed node, whatever its status:
  the equality it uses ignores the status and compares confidences as floats.\<close>

lemma verify_roundtrip_accepts:
  assumes "node_ok C n" "int (length (canonical C n)) < MAX_TOKENS"
  shows "verify_roundtrip C n = Inr ()"
  using parse_canonical_aux [OF assms(1)] assms node_eq_as_parsed [OF assms(1)]
  by (simp add: verify_roundtrip_def MAX_TOKENS_def)

lemma verify_roundtrip_accepts_witness: "verify_roundtrip sample_chrono sample_node = Inr ()"
  by (rule verify_roundtrip_accepts [OF sample_node_ok sample_node_length])

text \<open>C19. Parsing always ends with a value: on every byte string the parser returns nodes or an
  error. The nodes it returns have confidence and authority in the unit interval, one permission
  level, the status \<open>Active\<close> and no term nested deeper than the limit.\<close>

theorem parse_total:
  "(\<exists>ns. parse C src = Inr ns \<and> list_all parsed_ok ns)
   \<or> (\<exists>e. parse C src = Inl e \<and> pe_message e \<noteq> Diverges)"
  by (rule parse_cases)

lemma make_token_kind [simp]: "tk_kind (make_token k s) = k"
  by (simp add: make_token_def)

lemma token_not_eof:
  "lex_string s = Inr (t, s') \<Longrightarrow> tk_kind t \<noteq> Eof" "lex_var s = Inr (t, s') \<Longrightarrow> tk_kind t \<noteq> Eof"
  "lex_keyword s = Inr (t, s') \<Longrightarrow> tk_kind t \<noteq> Eof" "lex_uri s = Inr (t, s') \<Longrightarrow> tk_kind t \<noteq> Eof"
  "lex_entity s = Inr (t, s') \<Longrightarrow> tk_kind t \<noteq> Eof" "lex_symbol s = Inr (t, s') \<Longrightarrow> tk_kind t \<noteq> Eof"
  "lex_number s = Inr (t, s') \<Longrightarrow> tk_kind t \<noteq> Eof" "lex_hash_prefixed s = Inr (t, s') \<Longrightarrow> tk_kind t \<noteq> Eof"
  by (auto simp: lex_string_def lex_var_def lex_keyword_def lex_uri_def lex_entity_def lex_symbol_def
      lex_number_def lex_hash_prefixed_def bindr_eq_Inr Let_def split: if_splits prod.splits)

lemma next_token_not_eof:
  assumes "next_token s = Inr (t, s')"
  shows "tk_kind t \<noteq> Eof"
proof (cases "lx_rest s")
  case Nil
  then show ?thesis using assms by (simp add: next_token_def)
next
  case (Cons c r)
  then show ?thesis using assms token_not_eof [of s t s'] by (auto simp: next_token_def split: if_splits)
qed

lemma tokenize_loop_shape:
  "tokenize_loop n s = Inr ts \<Longrightarrow> \<exists>us e. ts = us @ [e] \<and> tk_kind e = Eof \<and> Eof \<notin> tk_kind ` set us
     \<and> length us \<le> length (lx_rest s) \<and> (us = [] \<or> n + int (length us) \<le> MAX_TOKENS)"
proof (induction n s arbitrary: ts rule: tokenize_loop.induct)
  case (1 n s0)
  let ?s = "skip_ws_and_comments s0"
  show ?case
  proof (cases "lx_rest ?s = []")
    case True
    then have "ts = [] @ [make_token Eof ?s]" using "1.prems" by (simp add: tokenize_loop.simps [of n s0])
    then show ?thesis by (metis empty_iff empty_set image_empty list.size(3) make_token_kind zero_le)
  next
    case False
    with "1.prems" obtain t s' us where t: "\<not> MAX_TOKENS \<le> n" "next_token ?s = Inr (t, s')"
      "tokenize_loop (n + 1) s' = Inr us" "ts = t # us"
      by (auto simp: tokenize_loop.simps [of n s0] Let_def split: if_splits sum.splits prod.splits)
    from "1.IH" [OF refl False t(1,2) refl t(3)] obtain vs e where
      vs: "us = vs @ [e]" "tk_kind e = Eof" "Eof \<notin> tk_kind ` set vs" "length vs \<le> length (lx_rest s')"
      "vs = [] \<or> n + 1 + int (length vs) \<le> MAX_TOKENS" by blast
    have "length (lx_rest s') < length (lx_rest s0)"
      using next_token_length [OF t(2) False] skip_ws_and_comments_length [of s0] by linarith
    then show ?thesis
      using vs t(1,4) next_token_not_eof [OF t(2)] by (intro exI [of _ "t # vs"] exI [of _ e]) auto
  qed
qed

text \<open>The tokens of a source: the end marker comes last and only there, every other token
  consumed at least one byte, and there are at most a million of them.\<close>

lemma tokenize_shape:
  assumes "tokenize src = Inr ts"
  shows "tk_kind (last ts) = Eof \<and> Eof \<notin> tk_kind ` set (butlast ts)
    \<and> length ts \<le> Suc (length src) \<and> int (length ts) \<le> MAX_TOKENS + 1"
proof -
  have "lx_rest (lexer_new src) = src" by (simp add: lexer_new_def)
  then show ?thesis
    using tokenize_loop_shape [OF assms [unfolded tokenize_def]] by (auto simp: MAX_TOKENS_def)
qed

lemma tokenize_shape_witness:
  "\<exists>ts. tokenize ''(a)'' = Inr ts \<and> tk_kind (last ts) = Eof \<and> Eof \<notin> tk_kind ` set (butlast ts)
    \<and> length ts \<le> Suc (length ''(a)'') \<and> int (length ts) \<le> MAX_TOKENS + 1"
proof -
  have "case tokenize ''(a)'' of Inl _ \<Rightarrow> False | Inr _ \<Rightarrow> True" by code_simp
  then obtain ts where ts: "tokenize ''(a)'' = Inr ts" by (cases "tokenize ''(a)''") auto
  show ?thesis using ts tokenize_shape [OF ts] by blast
qed

section \<open>Decimals\<close>

text \<open>C30. Every decimal but the least mantissa of 128 bits is read back from its canonical text,
  with the same mantissa and scale; the text of the least mantissa is refused.\<close>

theorem decimal_roundtrip:
  "dec_from_str (dec_canonical m sc) =
    (if sint m = - (2 ^ 127) then Inl (InvalidDecimal (dec_canonical m sc)) else Inr (LDec m sc))"
  by (rule dec_from_canonical)

text \<open>The scale of a decimal text is the number of its fractional digits \<open>as u8\<close>: 256 fractional
  digits are read as none, so a text for a tiny fraction gives the integer one.\<close>

lemma decimal_scale_wraps:
  "dec_from_str (''0.'' @ replicate 255 CHR ''0'' @ ''1'') = Inr (LDec 1 0)"
  by code_simp

section \<open>Confidence\<close>

text \<open>C31. A derived confidence stays in the unit interval and is never above any confidence it is
  derived from, nor does it round up past them.\<close>

theorem derived_confidence_bounds:
  assumes "list_all (\<lambda>c. f32_wf c \<and> in_unit c) cs" "f32_wf r \<and> in_unit r" "cs \<noteq> []"
  shows "in_unit (derived_confidence cs r) \<and> list_all (f32_le (derived_confidence cs r)) cs"
  using derived_confidence_bound [of cs r] assms by (auto simp: list_all_iff)

theorem derived_confidence_bounds_witness:
  "in_unit (derived_confidence [f32_lit 80 2, f32_lit 60 2] DEFAULT_RULE_RELIABILITY)
   \<and> list_all (f32_le (derived_confidence [f32_lit 80 2, f32_lit 60 2] DEFAULT_RULE_RELIABILITY)) [f32_lit 80 2, f32_lit 60 2]"
proof (rule derived_confidence_bounds)
  show "list_all (\<lambda>c. f32_wf c \<and> in_unit c) [f32_lit 80 2, f32_lit 60 2]" by code_simp
  show "f32_wf DEFAULT_RULE_RELIABILITY \<and> in_unit DEFAULT_RULE_RELIABILITY" by code_simp
qed simp

text \<open>The default confidence of every kind of provenance but \<open>Derived\<close> passes the band check
  of that kind; the default of \<open>Derived\<close> does too.\<close>

lemma defaults_in_band:
  "check_confidence_band p (default_confidence_for_provenance p) = Inr ()"
proof -
  have "\<not> f32_lt (f32_lit 98 2) (f32_lit 95 2)" "\<not> f32_lt (f32_lit 95 2) (f32_lit 90 2)"
    "\<not> f32_lt (f32_lit 90 2) (f32_lit 80 2)" "\<not> f32_lt (f32_lit 80 2) (f32_lit 60 2)"
    "\<not> f32_lt (f32_lit 85 2) (f32_lit 75 2)" "\<not> f32_lt (f32_lit 75 2) (f32_lit 50 2)"
    "\<not> f32_lt (f32_lit 80 2) (f32_lit 60 2)" "\<not> f32_lt (f32_lit 60 2) (f32_lit 30 2)"
    "\<not> f32_lt (f32_lit 10 1) (f32_lit 80 2)" "\<not> f32_lt (f32_lit 80 2) (f32_lit 0 1)"
    by code_simp+
  then show ?thesis
    by (cases p) (simp_all add: check_confidence_band_def confidence_band_def default_confidence_for_provenance_def)
qed

section \<open>Morphemes and verification\<close>

text \<open>Registering a morpheme in a registry whose two maps agree: the maps agree afterwards; the
  name resolves to the id returned and to an entry of that name and id; every other name looks up what
  it did before; and a name registered twice keeps its first id and entry.\<close>

lemma register_branches:
  assumes "reg_ok r" "length (rg_by_id r) < 2 ^ 32"
  shows "case register d r of (i, r') \<Rightarrow>
    reg_ok r' \<and> resolve r' (md_name d) = Some i
    \<and> (\<exists>d'. morpheme_lookup r' (md_name d) = Some d' \<and> md_name d' = md_name d \<and> md_id d' = i)
    \<and> {nm. morpheme_lookup r' nm \<noteq> morpheme_lookup r nm} \<subseteq> {md_name d}
    \<and> (case resolve r (md_name d) of None \<Rightarrow> i = word_of_nat (length (rg_by_id r)) | Some j \<Rightarrow> i = j \<and> r' = r)"
proof (cases "register d r")
  case (Pair i r')
  have "case resolve r (md_name d) of None \<Rightarrow> i = word_of_nat (length (rg_by_id r)) | Some j \<Rightarrow> i = j \<and> r' = r"
    using Pair by (auto simp: register_def resolve_def Let_def split: option.splits)
  then show ?thesis
    using Pair register_finds [OF assms Pair] reg_ok_register [OF assms, of d] by auto
qed

lemmas seed_groups = seed_morphemes_def seeds_entity_types_def seeds_rel_organizational_def seeds_rel_people_def
  seeds_rel_spatial_location_def seeds_rel_financial_def seeds_rel_product_project_def seeds_rel_version_control_def
  seeds_rel_document_knowledge_def seeds_rel_temporal_founding_def seeds_rel_agent_memory_def
  seeds_rel_permission_access_def seeds_rel_cause_effect_def seeds_quantifiers_def seeds_modals_def seeds_temporal_def
  seeds_status_def seeds_actions_def seeds_attributes_def seeds_classification_def

lemma seed_count: "length seed_morphemes = 230"
  by (simp add: seed_groups)

lemma register_all_length: "length (rg_by_id (register_all ds r)) \<le> length (rg_by_id r) + length ds"
proof (induction ds arbitrary: r)
  case (Cons d ds)
  then show ?case using register_length [of d r] le_trans [OF Cons [of "snd (register d r)"]] by simp
qed simp

lemma seeds_ok: "reg_ok with_seeds" "length (rg_by_id with_seeds) < 2 ^ 32"
proof -
  show "reg_ok with_seeds"
    unfolding with_seeds_def by (rule reg_ok_register_all [OF reg_ok_new]) (simp add: seed_count registry_new_def)
  have "length (rg_by_id with_seeds) \<le> 230"
    using register_all_length [of seed_morphemes registry_new] by (simp add: with_seeds_def seed_count registry_new_def)
  then show "length (rg_by_id with_seeds) < 2 ^ 32" by simp
qed

lemma register_branches_witness:
  "case register (seed MkRelation ''owns'' [] []) with_seeds of (i, r') \<Rightarrow>
    reg_ok r' \<and> resolve r' ''owns'' = Some i
    \<and> (\<exists>d'. morpheme_lookup r' ''owns'' = Some d' \<and> md_name d' = ''owns'' \<and> md_id d' = i)
    \<and> {nm. morpheme_lookup r' nm \<noteq> morpheme_lookup with_seeds nm} \<subseteq> {''owns''}
    \<and> (case resolve with_seeds ''owns'' of None \<Rightarrow> i = word_of_nat (length (rg_by_id with_seeds)) | Some j \<Rightarrow> i = j \<and> r' = with_seeds)"
  using register_branches [OF seeds_ok, of "seed MkRelation ''owns'' [] []"]
  by (simp add: seed_def)

text \<open>A node passes the built-in verifiers, or is left undecided by them, exactly when its head is
  unknown to the registry or fits its morpheme's signature, and its decimals have at most 38 digits on
  either side of the point; otherwise it is refused with a reason.\<close>

definition fits_schema :: "registry \<Rightarrow> node \<Rightarrow> bool" where
  "fits_schema reg n =
     (case head_def reg (pr_head (nd_pred n)) of
        None \<Rightarrow> True
      | Some d \<Rightarrow>
          check_arity (md_signature d) (length (pr_args (nd_pred n)) + length (pr_named (nd_pred n))) = None
          \<and> \<not> (md_kind d = MkEntity \<and> pr_args (nd_pred n) \<noteq> []))"

lemma builtins_decide:
  "case verify_all (with_builtins reg) n of
     Fail r \<Rightarrow> \<not> (fits_schema reg n \<and> list_all dec_in_range (pr_args (nd_pred n)))
   | _ \<Rightarrow> fits_schema reg n \<and> list_all dec_in_range (pr_args (nd_pred n))"
proof -
  have schema: "(\<exists>r. schema_verify reg n = Fail r) \<longleftrightarrow> \<not> fits_schema reg n" if "schema_can_verify reg n"
    using that by (auto simp: schema_verify_def schema_can_verify_def fits_schema_def split: option.split)
  have unknown: "fits_schema reg n" if "\<not> schema_can_verify reg n"
    using that by (simp add: schema_can_verify_def fits_schema_def)
  have decimal: "(\<exists>r. decimal_verify n = Fail r) \<longleftrightarrow> \<not> list_all dec_in_range (pr_args (nd_pred n))"
    using decimal_loop_Pass [of "pr_args (nd_pred n)"] decimal_loop_not_inconclusive [of "pr_args (nd_pred n)"]
    by (cases "decimal_loop (pr_args (nd_pred n))") (auto simp: decimal_verify_def)
  have none: "list_all dec_in_range (pr_args (nd_pred n))" if "\<not> decimal_can_verify n"
    using that by (auto simp: decimal_can_verify_def list_ex_iff list_all_iff is_dec_def dec_in_range_def
        split: trm.splits literal.splits)
  have "(\<exists>r. verify_all (with_builtins reg) n = Fail r)
    \<longleftrightarrow> \<not> (fits_schema reg n \<and> list_all dec_in_range (pr_args (nd_pred n)))"
    unfolding verify_all_def registry_verify_Fail
    using schema unknown decimal none by (auto simp: with_builtins_def schema_verifier_def decimal_range_verifier_def)
  then show ?thesis by (cases "verify_all (with_builtins reg) n") auto
qed

section \<open>Permissions\<close>

text \<open>Access by role masks is monotone: a role added to a context takes no access away and gives
  exactly the tags that share a bit with it; a tag that joins two is open to whoever may see either;
  and each level of context sees the tags of its level and those below, and no other.\<close>

lemma permission_levels:
  "(ctx_grants (with_role r c) t \<longleftrightarrow> ctx_grants c t \<or> tag_grants t r)
   \<and> (tag_grants (tag_union a b) m \<longleftrightarrow> tag_grants a m \<or> tag_grants b m)
   \<and> map (ctx_grants ctx_public) [PUBLIC, INTERNAL, CONFIDENTIAL, RESTRICTED] = [True, False, False, False]
   \<and> map (ctx_grants (ctx_internal p)) [PUBLIC, INTERNAL, CONFIDENTIAL, RESTRICTED] = [True, True, False, False]
   \<and> map (ctx_grants (ctx_confidential p)) [PUBLIC, INTERNAL, CONFIDENTIAL, RESTRICTED] = [True, True, True, False]
   \<and> (ctx_grants (ctx_admin p) t \<longleftrightarrow> t \<noteq> 0)"
proof (intro conjI)
  show "ctx_grants (with_role r c) t \<longleftrightarrow> ctx_grants c t \<or> tag_grants t r"
    by (auto simp: ctx_grants_def tag_grants_def with_role_def bit_eq_iff bit_simps)
  have "(0xFFFFFFFF :: u32) = - 1" by simp
  then have "t AND 0xFFFFFFFF = t" by (simp only: and.right_neutral)
  then show "ctx_grants (ctx_admin p) t \<longleftrightarrow> t \<noteq> 0" by (simp add: ctx_grants_def tag_grants_def ctx_admin_def)
qed (simp_all only: grants_union, code_simp+)

end
