(* ===== verification/Multimap.thy ===== *)
theory Multimap
  imports Prelude
begin

text \<open>
  The interface of the store's indices: a map from keys to the list of ids pushed under each key.
  The reverse dependencies (a hash map), the validity index (a sorted map) and the column families of
  the in-memory backend are three providers; the store relies only on the two laws of the locale and
  on their consequence that an index built from the nodes is exact.
\<close>

definition exact :: "('m \<Rightarrow> 'k \<Rightarrow> 'v list) \<Rightarrow> ('n \<Rightarrow> 'k \<Rightarrow> bool) \<Rightarrow> ('v \<Rightarrow> 'n option) \<Rightarrow> 'm \<Rightarrow> bool" where
  \<comment> \<open>an id is listed under a key just when the node of that id belongs under it\<close>
  "exact get belongs nodes m \<longleftrightarrow>
     (\<forall>k i. i \<in> set (get m k) \<longleftrightarrow> (\<exists>n. nodes i = Some n \<and> belongs n k))"

lemma exactI:
  "(\<And>k i. i \<in> set (get m k) \<longleftrightarrow> (\<exists>n. nodes i = Some n \<and> belongs n k)) \<Longrightarrow> exact get belongs nodes m"
  by (simp add: exact_def)

lemma exactD:
  "exact get belongs nodes m \<Longrightarrow> i \<in> set (get m k) \<longleftrightarrow> (\<exists>n. nodes i = Some n \<and> belongs n k)"
  by (simp add: exact_def)

lemma exact_update_same:
  assumes "exact get belongs nodes m" "nodes i = Some n" "\<And>k. belongs n' k = belongs n k"
  shows "exact get belongs (nodes(i \<mapsto> n')) m"
  using assms by (auto simp: exact_def)

locale multimap =
  fixes ok :: "'m \<Rightarrow> bool" and get :: "'m \<Rightarrow> 'k \<Rightarrow> 'v list" and push :: "'k \<Rightarrow> 'v \<Rightarrow> 'm \<Rightarrow> 'm"
  assumes ok_push: "ok m \<Longrightarrow> ok (push k v m)"
    and get_push: "ok m \<Longrightarrow> get (push k v m) k' = get m k' @ (if k' = k then [v] else [])"
begin

lemma push_all_ok: "ok m \<Longrightarrow> ok (fold (\<lambda>k. push k v) ks m)"
  by (induction ks arbitrary: m) (simp_all add: ok_push)

lemma push_all_get:
  "ok m \<Longrightarrow> set (get (fold (\<lambda>k. push k v) ks m) k) = set (get m k) \<union> {x. x = v \<and> k \<in> set ks}"
  by (induction ks arbitrary: m) (auto simp: ok_push get_push)

lemma push_all_exact:
  assumes "ok m" "exact get belongs nodes m" "nodes i = None" "\<And>k. belongs n k \<longleftrightarrow> k \<in> set ks"
  shows "exact get belongs (nodes(i \<mapsto> n)) (fold (\<lambda>k. push k i) ks m)"
  using assms by (intro exactI) (auto simp: push_all_get exact_def)

text \<open>Building the index from a list of nodes with distinct ids.\<close>

lemma build_exact:
  assumes "ok m" "exact get belongs nodes m" "distinct (map ident ns)"
    "\<And>n. n \<in> set ns \<Longrightarrow> nodes (ident n) = None" "\<And>n k. belongs n k \<longleftrightarrow> k \<in> set (keys n)"
  shows "ok (fold (\<lambda>n. fold (\<lambda>k. push k (ident n)) (keys n)) ns m)
    \<and> exact get belongs (nodes ++ map_of (map (\<lambda>n. (ident n, n)) ns))
        (fold (\<lambda>n. fold (\<lambda>k. push k (ident n)) (keys n)) ns m)"
  using assms
proof (induction ns arbitrary: m nodes)
  case (Cons n ns)
  let ?m = "fold (\<lambda>k. push k (ident n)) (keys n) m" and ?nodes = "nodes(ident n \<mapsto> n)"
  have e: "exact get belongs ?nodes ?m"
    by (rule push_all_exact [OF Cons.prems(1,2) _ Cons.prems(5)]) (simp add: Cons.prems(4))
  have eq: "?nodes ++ map_of (map (\<lambda>n. (ident n, n)) ns) = nodes ++ map_of (map (\<lambda>n. (ident n, n)) (n # ns))"
  proof
    fix i
    have "ident n \<notin> fst ` set (map (\<lambda>n. (ident n, n)) ns)" using Cons.prems(3) by (auto simp: image_iff)
    then have "map_of (map (\<lambda>n. (ident n, n)) ns) (ident n) = None" by (simp only: map_of_eq_None_iff not_False_eq_True)
    then show "(?nodes ++ map_of (map (\<lambda>n. (ident n, n)) ns)) i
      = (nodes ++ map_of (map (\<lambda>n. (ident n, n)) (n # ns))) i"
      by (auto simp: map_add_def split: option.split)
  qed
  have fresh: "?nodes (ident x) = None" if "x \<in> set ns" for x
    using that Cons.prems(3,4) by (auto simp: image_iff)
  show ?case
    using Cons.IH [OF push_all_ok [OF Cons.prems(1)] e _ fresh Cons.prems(5)] Cons.prems(3)
    unfolding eq by (simp del: map_of.simps)
qed simp

end

end
