(* ===== verification/Storage.thy ===== *)
theory Storage
  imports Types Multimap "HOL-Library.AList" "HOL-Library.Sublist"
begin

text \<open>
  The storage backend, \<open>factum-rt/src/storage.rs\<close>: nodes by id and index entries by column family
  and key. The in-memory backend keeps hash maps; here they are association lists, updated in place
  and extended at the end, so scans and \<open>iter_nodes\<close> follow the order of insertion, which is one of the
  orders a hash map can have. \<open>Orders\<close> has the others.
\<close>

type_synonym cf = string

definition CF_NODES :: cf where "CF_NODES = ''nodes''"
definition BY_ENTITY :: cf where "BY_ENTITY = ''by_entity''"
definition BY_PRED :: cf where "BY_PRED = ''by_pred''"
definition BY_SRC :: cf where "BY_SRC = ''by_src''"
definition BY_PERM :: cf where "BY_PERM = ''by_perm''"

datatype storage_error = IoError string | SerializationError string | CfNotFound string

datatype write_op =
    PutNode node
  | DeleteNode node_id
  | PutIndex cf string node_id
  | DeleteIndex cf string node_id

section \<open>Index keys\<close>

definition encode_index_key :: "string \<Rightarrow> node_id \<Rightarrow> string" where
  "encode_index_key p i = p @ [CHR 0x00] @ i"

definition encode_index_prefix :: "string \<Rightarrow> string" where
  "encode_index_prefix p = p @ [CHR 0x00]"

definition decode_node_id_from_index :: "string \<Rightarrow> node_id option" where
  \<comment> \<open>the bytes after the last zero byte, when they are UTF-8\<close>
  "decode_node_id_from_index key =
     (if CHR 0x00 \<notin> set key then None
      else let i = rev (takeWhile (\<lambda>c. c \<noteq> CHR 0x00) (rev key)) in
        if utf8_valid i then Some i else None)"

section \<open>The in-memory backend\<close>

record mem =
  mb_nodes :: "(node_id \<times> node) list"
  mb_indices :: "(cf \<times> (string \<times> node_id list) list) list"

type_synonym 'a mem_result = "(storage_error + 'a) \<times> mem"

definition mem_new :: mem where
  "mem_new = \<lparr>mb_nodes = [], mb_indices = [(BY_ENTITY, []), (BY_PRED, []), (BY_SRC, []), (BY_PERM, [])]\<rparr>"

definition get_index_map :: "cf \<Rightarrow> cf option" where
  "get_index_map c =
     (if c = BY_ENTITY \<or> c = BY_PRED \<or> c = BY_SRC \<or> c = BY_PERM then Some c else None)"

definition get_node :: "mem \<Rightarrow> node_id \<Rightarrow> storage_error + node option" where
  "get_node m i = Inr (map_of (mb_nodes m) i)"

definition put_node :: "node \<Rightarrow> mem \<Rightarrow> unit mem_result" where
  "put_node n m = (Inr (), m\<lparr>mb_nodes := AList.update (nd_id n) n (mb_nodes m)\<rparr>)"

definition delete_node :: "node_id \<Rightarrow> mem \<Rightarrow> unit mem_result" where
  "delete_node i m = (Inr (), m\<lparr>mb_nodes := AList.delete i (mb_nodes m)\<rparr>)"

definition scan_index :: "mem \<Rightarrow> cf \<Rightarrow> string \<Rightarrow> storage_error + node_id list" where
  "scan_index m c p =
     (case map_of (mb_indices m) c of
        None \<Rightarrow> Inl (CfNotFound c)
      | Some al \<Rightarrow>
          Inr (concat (map snd (filter (\<lambda>(key, _). prefix (encode_index_prefix p) key) al))))"

definition entries_at :: "'k \<Rightarrow> ('k \<times> 'v list) list \<Rightarrow> 'v list" where
  \<comment> \<open>\<open>entry(k).or_default()\<close>\<close>
  "entries_at k al = (case map_of al k of None \<Rightarrow> [] | Some vs \<Rightarrow> vs)"

definition push_at :: "'k \<Rightarrow> 'v \<Rightarrow> ('k \<times> 'v list) list \<Rightarrow> ('k \<times> 'v list) list" where
  \<comment> \<open>\<open>entry(k).or_default().push(v)\<close>\<close>
  "push_at k v al = AList.update k (entries_at k al @ [v]) al"

definition put_index :: "cf \<Rightarrow> string \<Rightarrow> node_id \<Rightarrow> mem \<Rightarrow> unit mem_result" where
  "put_index c key i m =
     (case get_index_map c of
        None \<Rightarrow> (Inl (CfNotFound c), m)
      | Some c \<Rightarrow>
          (Inr (), m\<lparr>mb_indices :=
             AList.update c (push_at key i (entries_at c (mb_indices m))) (mb_indices m)\<rparr>))"

definition delete_index :: "cf \<Rightarrow> string \<Rightarrow> node_id \<Rightarrow> mem \<Rightarrow> unit mem_result" where
  "delete_index c key i m =
     (case get_index_map c of
        None \<Rightarrow> (Inl (CfNotFound c), m)
      | Some c \<Rightarrow>
          (case map_of (mb_indices m) c of
             None \<Rightarrow> (Inr (), m)
           | Some al \<Rightarrow>
               (case map_of al key of
                  None \<Rightarrow> (Inr (), m)
                | Some ids \<Rightarrow>
                    let ids' = filter (\<lambda>j. j \<noteq> i) ids;
                        al' = (if ids' = [] then AList.delete key al else AList.update key ids' al)
                    in (Inr (), m\<lparr>mb_indices := AList.update c al' (mb_indices m)\<rparr>))))"

definition apply_op :: "write_op \<Rightarrow> mem \<Rightarrow> unit mem_result" where
  "apply_op op m =
     (case op of
        PutNode n \<Rightarrow> put_node n m
      | DeleteNode i \<Rightarrow> delete_node i m
      | PutIndex c key i \<Rightarrow> put_index c key i m
      | DeleteIndex c key i \<Rightarrow> delete_index c key i m)"

fun batch_write :: "write_op list \<Rightarrow> mem \<Rightarrow> unit mem_result" where
  "batch_write [] m = (Inr (), m)"
| "batch_write (op # ops) m =
     (case apply_op op m of
        (Inl e, m') \<Rightarrow> (Inl e, m')
      | (Inr _, m') \<Rightarrow> batch_write ops m')"

definition mem_len :: "mem \<Rightarrow> storage_error + nat" where
  "mem_len m = Inr (length (mb_nodes m))"

definition mem_is_empty :: "mem \<Rightarrow> storage_error + bool" where
  "mem_is_empty m = bindr (mem_len m) (\<lambda>n. Inr (n = 0))"

definition iter_nodes :: "mem \<Rightarrow> storage_error + node list" where
  "iter_nodes m = Inr (map snd (mb_nodes m))"

section \<open>Entries of an association list\<close>

lemma entries_at_Nil [simp]: "entries_at k [] = []"
  by (simp add: entries_at_def)

lemma entries_at_update [simp]:
  "entries_at k (AList.update k' vs al) = (if k = k' then vs else entries_at k al)"
  by (simp add: entries_at_def update_conv)

lemma entries_at_push [simp]:
  "entries_at k (push_at k' v al) = entries_at k al @ (if k = k' then [v] else [])"
  by (simp add: push_at_def)

lemma distinct_push [simp]: "distinct (map fst al) \<Longrightarrow> distinct (map fst (push_at k v al))"
  by (simp add: push_at_def distinct_update)

lemma entries_at_absent: "k \<notin> fst ` set al \<Longrightarrow> entries_at k al = []"
  using map_of_eq_None_iff [of al k] by (simp add: entries_at_def)

interpretation hash_index: multimap
  "\<lambda>al :: ('k \<times> 'v list) list. distinct (map fst al)" "\<lambda>al k. entries_at k al" push_at
  by unfold_locales simp_all

lemma in_entries: "distinct (map fst al) \<Longrightarrow> (k, vs) \<in> set al \<Longrightarrow> entries_at k al = vs"
  by (simp add: entries_at_def)

lemma entries_in: "v \<in> set (entries_at k al) \<Longrightarrow> (k, entries_at k al) \<in> set al"
  by (auto simp: entries_at_def split: option.splits dest: map_of_SomeD)

lemma push_at_in_place:
  "k \<in> fst ` set al \<Longrightarrow> distinct (map fst al) \<Longrightarrow>
    push_at k v al = map (\<lambda>(k', vs). (k', if k' = k then vs @ [v] else vs)) al"
proof -
  have "AList.update k (vs0 @ [v]) al = map (\<lambda>(k', vs). (k', if k' = k then vs @ [v] else vs)) al"
    if "map_of al k = Some vs0" "distinct (map fst al)" for vs0
    using that
  proof (induction al)
    case (Cons p al)
    show ?case
    proof (cases "fst p = k")
      case True
      then have "map (\<lambda>(k', vs). (k', if k' = k then vs @ [v] else vs)) al = al"
        using Cons.prems(2) by (intro map_idI) (auto simp: image_iff)
      then show ?thesis using True Cons.prems(1) by (cases p) simp
    next
      case False
      then show ?thesis using Cons by (cases p) auto
    qed
  qed simp
  moreover assume "k \<in> fst ` set al" "distinct (map fst al)"
  ultimately show ?thesis
    by (auto simp: push_at_def entries_at_def dest!: weak_map_of_SomeI split: option.splits)
qed

lemma push_at_new: "k \<notin> fst ` set al \<Longrightarrow> push_at k v al = al @ [(k, [v])]"
proof -
  assume k: "k \<notin> fst ` set al"
  then have "AList.update k vs al = al @ [(k, vs)]" for vs :: "'b list"
    by (induction al) auto
  moreover have "entries_at k al = []" using k map_of_eq_None_iff [of al k] by (simp add: entries_at_def)
  ultimately show ?thesis by (simp add: push_at_def)
qed

section \<open>What is stored\<close>

definition idx :: "mem \<Rightarrow> cf \<Rightarrow> string \<Rightarrow> node_id list" where
  "idx m c key = entries_at key (entries_at c (mb_indices m))"

definition is_cf :: "cf \<Rightarrow> bool" where
  "is_cf c \<longleftrightarrow> c = BY_ENTITY \<or> c = BY_PRED \<or> c = BY_SRC \<or> c = BY_PERM"

text \<open>The four column families exist, and keys are unique.\<close>

definition mem_ok :: "mem \<Rightarrow> bool" where
  "mem_ok m \<longleftrightarrow>
     distinct (map fst (mb_nodes m))
     \<and> (\<forall>(i, n) \<in> set (mb_nodes m). nd_id n = i)
     \<and> (\<forall>c. is_cf c \<longrightarrow> map_of (mb_indices m) c \<noteq> None)
     \<and> (\<forall>c. distinct (map fst (entries_at c (mb_indices m))))"

lemma mem_ok_new: "mem_ok mem_new"
  by (auto simp: mem_ok_def mem_new_def is_cf_def entries_at_def)

lemma get_index_map_cf: "get_index_map c = (if is_cf c then Some c else None)"
  by (simp add: get_index_map_def is_cf_def)

lemma put_index_idx [simp]:
  "is_cf c \<Longrightarrow> idx (snd (put_index c key i m)) c' key' =
     idx m c' key' @ (if c = c' \<and> key = key' then [i] else [])"
  by (auto simp: put_index_def get_index_map_cf idx_def)

lemma put_index_nodes [simp]: "mb_nodes (snd (put_index c key i m)) = mb_nodes m"
  by (simp add: put_index_def split: option.split)

lemma put_node_nodes [simp]: "map_of (mb_nodes (snd (put_node n m))) = (map_of (mb_nodes m))(nd_id n \<mapsto> n)"
  by (simp add: put_node_def update_conv')

lemma put_node_idx [simp]: "idx (snd (put_node n m)) c key = idx m c key"
  by (simp add: put_node_def idx_def)

lemma mem_ok_put_index: "mem_ok m \<Longrightarrow> mem_ok (snd (put_index c key i m))"
  by (auto simp: mem_ok_def put_index_def get_index_map_cf update_conv split: option.splits)

lemma mem_ok_put_node: "mem_ok m \<Longrightarrow> mem_ok (snd (put_node n m))"
proof -
  have "set (AList.update k v al) \<subseteq> insert (k, v) (set al)" for k :: node_id and v :: node and al
    by (induction al) auto
  then show "mem_ok m \<Longrightarrow> mem_ok (snd (put_node n m))"
    unfolding mem_ok_def put_node_def by (fastforce simp: distinct_update)
qed

lemma put_fst [simp]: "fst (put_node n m) = Inr ()" "is_cf c \<Longrightarrow> fst (put_index c key i m) = Inr ()"
  by (simp_all add: put_node_def put_index_def get_index_map_cf)

lemma scan_index_ok:
  assumes "mem_ok m" "is_cf c"
  obtains ids where "scan_index m c p = Inr ids"
    "\<And>i. i \<in> set ids \<longleftrightarrow> (\<exists>key. prefix (encode_index_prefix p) key \<and> i \<in> set (idx m c key))"
proof -
  obtain al where al: "map_of (mb_indices m) c = Some al" using assms by (auto simp: mem_ok_def)
  then have e: "entries_at c (mb_indices m) = al" by (simp add: entries_at_def)
  have d: "distinct (map fst al)" using assms(1) e unfolding mem_ok_def by metis
  let ?ids = "concat (map snd (filter (\<lambda>(key, _). prefix (encode_index_prefix p) key) al))"
  have "i \<in> set ?ids \<longleftrightarrow> (\<exists>key. prefix (encode_index_prefix p) key \<and> i \<in> set (idx m c key))" for i
    using in_entries [OF d] entries_in [of i _ al] by (fastforce simp: idx_def e)
  with that al show ?thesis by (simp add: scan_index_def)
qed

text \<open>Pushing an entry does not disturb the others, not even their order.\<close>

lemma scan_push_others:
  assumes "distinct (map fst al)" and that: "\<And>k vs ws. P (k, vs) = P (k, ws)"
  shows "filter (\<lambda>j. j \<noteq> i) (concat (map snd (filter P (push_at key i al))))
    = filter (\<lambda>j. j \<noteq> i) (concat (map snd (filter P al)))"
proof (cases "key \<in> fst ` set al")
  case True
  have "filter (\<lambda>j. j \<noteq> i) (concat (map snd (filter P (map (\<lambda>(k', vs). (k', if k' = key then vs @ [i] else vs)) al))))
    = filter (\<lambda>j. j \<noteq> i) (concat (map snd (filter P al)))"
    using that by (induction al) (auto split: if_splits)
  then show ?thesis by (simp add: push_at_in_place [OF True assms(1)])
next
  case False
  then show ?thesis by (simp add: push_at_new)
qed

definition scan_others :: "node_id \<Rightarrow> mem \<Rightarrow> cf \<Rightarrow> string \<Rightarrow> node_id list" where
  "scan_others i m c p = (case scan_index m c p of Inl _ \<Rightarrow> [] | Inr ids \<Rightarrow> filter (\<lambda>j. j \<noteq> i) ids)"

lemma put_index_others:
  assumes "mem_ok m" "is_cf c"
  shows "scan_others i (snd (put_index c key i m)) c' p = scan_others i m c' p"
proof (cases "c' = c")
  case True
  obtain al where al: "map_of (mb_indices m) c = Some al" using assms by (auto simp: mem_ok_def)
  then have e: "entries_at c (mb_indices m) = al" by (simp add: entries_at_def)
  have d: "distinct (map fst al)" using assms(1) e unfolding mem_ok_def by metis
  show ?thesis
    using scan_push_others [OF d, of "\<lambda>(key, _). prefix (encode_index_prefix p) key" i key] True assms(2) al e
    by (simp add: scan_others_def scan_index_def put_index_def get_index_map_cf update_conv)
next
  case False
  then show ?thesis using assms(2)
    by (simp add: scan_others_def scan_index_def put_index_def get_index_map_cf update_conv)
qed

lemma put_node_scan [simp]: "scan_index (snd (put_node n m)) c p = scan_index m c p"
  by (simp add: put_node_def scan_index_def)

section \<open>Index keys separate names\<close>

definition nul_free :: "string \<Rightarrow> bool" where
  "nul_free s \<longleftrightarrow> CHR 0x00 \<notin> set s"

lemma prefix_key_iff:
  assumes "nul_free p" "nul_free nm"
  shows "prefix (encode_index_prefix p) (encode_index_key nm i) \<longleftrightarrow> p = nm"
proof
  assume "prefix (encode_index_prefix p) (encode_index_key nm i)"
  then obtain r where r: "nm @ CHR 0x00 # i = p @ CHR 0x00 # r"
    by (auto simp: encode_index_prefix_def encode_index_key_def prefix_def)
  have tw: "takeWhile (\<lambda>c. c \<noteq> CHR 0x00) (x @ CHR 0x00 # y) = x" if "nul_free x" for x y
    using that by (subst takeWhile_append2) (auto simp: nul_free_def)
  show "p = nm" using arg_cong [OF r, of "takeWhile (\<lambda>c. c \<noteq> CHR 0x00)"] tw assms by metis
qed (simp add: encode_index_prefix_def encode_index_key_def)

lemma decode_encode_key:
  assumes "nul_free i" "utf8_valid i"
  shows "decode_node_id_from_index (encode_index_key p i) = Some i"
proof -
  have "takeWhile (\<lambda>c. c \<noteq> CHR 0x00) (rev i @ CHR 0x00 # rev p) = rev i"
    using assms(1) by (subst takeWhile_append2) (auto simp: nul_free_def)
  then show ?thesis using assms(2) by (simp add: decode_node_id_from_index_def encode_index_key_def Let_def)
qed

end
