(* ===== verification/Subscription.thy ===== *)
theory Subscription
  imports Types
begin

text \<open>
  Subscriptions, \<open>factum-rt/src/subscription.rs\<close>: each holds a buffer of events that \<open>poll\<close> drains.
  The manager and the holder of a subscription share it through an \<open>Arc\<close>; here the buffer lives in
  the manager's list, where the holder reaches it by the subscription's id.
\<close>

datatype event = Inserted node | RetractedEvent node_id "node_id list"

record subscription =
  sb_pattern :: string
  sb_window :: "(datetime \<times> datetime option) option"
  sb_events :: "event list"
  sb_id :: u64

record manager =
  sm_subs :: "subscription list"
  sm_next_id :: u64

definition subscription_new :: "u64 \<Rightarrow> string \<Rightarrow> subscription" where
  "subscription_new i p = \<lparr>sb_pattern = p, sb_window = None, sb_events = [], sb_id = i\<rparr>"

definition poll :: "subscription \<Rightarrow> event list \<times> subscription" where
  "poll s = (sb_events s, s\<lparr>sb_events := []\<rparr>)"

definition has_events :: "subscription \<Rightarrow> bool" where
  "has_events s \<longleftrightarrow> sb_events s \<noteq> []"

definition push_event :: "event \<Rightarrow> subscription \<Rightarrow> subscription" where
  "push_event e s = s\<lparr>sb_events := sb_events s @ [e]\<rparr>"

definition sub_matches :: "subscription \<Rightarrow> node \<Rightarrow> bool" where
  "sub_matches s n =
     (case pr_head (nd_pred n) of
        HeadId _ \<Rightarrow> False
      | HeadName nm \<Rightarrow>
          (sb_pattern s = nm \<or> sb_pattern s = ''*'')
          \<and> (case sb_window s of None \<Rightarrow> True | Some (from, _) \<Rightarrow> is_valid_at (nd_validity n) from))"

definition manager_new :: manager where
  "manager_new = \<lparr>sm_subs = [], sm_next_id = 0\<rparr>"

definition subscribe :: "string \<Rightarrow> manager \<Rightarrow> u64 \<times> manager" where
  "subscribe p m =
     (sm_next_id m,
      m\<lparr>sm_subs := sm_subs m @ [subscription_new (sm_next_id m) p], sm_next_id := sm_next_id m + 1\<rparr>)"

definition notify_insert :: "node \<Rightarrow> manager \<Rightarrow> manager" where
  "notify_insert n m =
     m\<lparr>sm_subs := map (\<lambda>s. if sub_matches s n then push_event (Inserted n) s else s) (sm_subs m)\<rparr>"

definition notify_retract :: "node_id \<Rightarrow> node_id list \<Rightarrow> manager \<Rightarrow> manager" where
  "notify_retract i cascade m =
     m\<lparr>sm_subs := map (push_event (RetractedEvent i cascade)) (sm_subs m)\<rparr>"

definition unsubscribe :: "u64 \<Rightarrow> manager \<Rightarrow> manager" where
  "unsubscribe i m = m\<lparr>sm_subs := filter (\<lambda>s. sb_id s \<noteq> i) (sm_subs m)\<rparr>"

definition sub_count :: "manager \<Rightarrow> nat" where
  "sub_count m = length (sm_subs m)"

definition poll_id :: "u64 \<Rightarrow> manager \<Rightarrow> event list \<times> manager" where
  \<comment> \<open>\<open>poll\<close> by the holder of subscription \<open>i\<close>\<close>
  "poll_id i m =
     (case find (\<lambda>s. sb_id s = i) (sm_subs m) of
        None \<Rightarrow> ([], m)
      | Some s \<Rightarrow>
          (fst (poll s), m\<lparr>sm_subs := map (\<lambda>t. if sb_id t = i then snd (poll t) else t) (sm_subs m)\<rparr>))"

section \<open>Identifiers and delivery\<close>

text \<open>Below \<open>2^64\<close> subscriptions the ids are fresh and distinct.\<close>

definition manager_ok :: "manager \<Rightarrow> bool" where
  "manager_ok m \<longleftrightarrow>
     distinct (map sb_id (sm_subs m)) \<and> (\<forall>s \<in> set (sm_subs m). sb_id s < sm_next_id m)"

lemma manager_ok_new: "manager_ok manager_new"
  by (simp add: manager_ok_def manager_new_def)

lemma manager_ok_subscribe:
  assumes "manager_ok m" "sm_next_id m \<noteq> - 1"
  shows "manager_ok (snd (subscribe p m))"
proof -
  note lt = word_less_succ [OF assms(2)]
  have "sb_id s < sm_next_id m + 1" if "sb_id s < sm_next_id m" for s
    using that lt by (rule less_trans)
  then show ?thesis
    using assms lt by (auto simp: manager_ok_def subscribe_def subscription_new_def)
qed

lemma ids_map [simp]:
  "(\<And>s. sb_id (f s) = sb_id s) \<Longrightarrow> map sb_id (map f xs) = map sb_id xs"
  by simp

lemma push_event_id [simp]: "sb_id (push_event e s) = sb_id s" "sb_events (push_event e s) = sb_events s @ [e]"
  by (simp_all add: push_event_def)

lemma manager_ok_steps:
  assumes "manager_ok m"
  shows "manager_ok (notify_insert n m)" "manager_ok (notify_retract i cs m)" "manager_ok (unsubscribe k m)"
  using assms
  by (auto simp: manager_ok_def notify_insert_def notify_retract_def unsubscribe_def comp_def
      distinct_map inj_on_def split: if_splits)

end
