(* ===== verification/Store.thy ===== *)
theory Store
  imports Storage Permission Subscription Verifier
begin

text \<open>
  The store, \<open>factum-rt/src/store.rs\<close>, over the in-memory backend: nodes and their secondary
  indices, the reverse dependencies and the validity index, the write-ahead log, subscriptions and
  verifiers. A method is a function from the store to its result and the store afterwards. Where the
  source returns early with \<open>?\<close>, the state changes made before are kept, as they are there.
  Retraction is in \<open>Cascade\<close>.
\<close>

datatype store_error =
    NotFound string
  | AlreadyExists string
  | PermissionDenied
  | InvalidNode fail_reason
  | StorageFailed storage_error

datatype wal_entry = WalInsert node | WalRetract node_id | WalCheckpoint

type_synonym ts_key = "int \<times> int"

record store =
  st_mem :: mem
  st_deps_rev :: "(node_id \<times> node_id list) list"
  st_by_validity :: "(ts_key \<times> node_id list) list"
  st_registry :: registry
  st_wal :: "wal_entry list"
  st_subs :: manager
  st_verifiers :: "verifier list option"

type_synonym 'a store_result = "(store_error + 'a) \<times> store"

section \<open>The validity index\<close>

definition I64_MIN :: int where "I64_MIN = - (2 ^ 63)"
definition I64_MAX :: int where "I64_MAX = 2 ^ 63 - 1"

definition validity_key :: "validity \<Rightarrow> ts_key" where
  "validity_key v =
     (case v of
        Forever \<Rightarrow> (I64_MIN, I64_MAX)
      | Window from until \<Rightarrow>
          (timestamp from, case until of None \<Rightarrow> I64_MAX | Some u \<Rightarrow> timestamp u))"

definition key_less :: "ts_key \<Rightarrow> ts_key \<Rightarrow> bool" where
  "key_less a b \<longleftrightarrow> fst a < fst b \<or> fst a = fst b \<and> snd a < snd b"

fun bt_push :: "ts_key \<Rightarrow> node_id \<Rightarrow> (ts_key \<times> node_id list) list \<Rightarrow> (ts_key \<times> node_id list) list" where
  \<comment> \<open>\<open>entry(k).or_default().push(v)\<close> on a \<open>BTreeMap\<close>, a list sorted by key\<close>
  "bt_push k v [] = [(k, [v])]"
| "bt_push k v ((k', vs) # bt) =
     (if k = k' then (k', vs @ [v]) # bt
      else if key_less k k' then (k, [v]) # (k', vs) # bt
      else (k', vs) # bt_push k v bt)"

definition bt_range_to :: "ts_key \<Rightarrow> (ts_key \<times> node_id list) list \<Rightarrow> (ts_key \<times> node_id list) list" where
  \<comment> \<open>\<open>range(..=k)\<close>\<close>
  "bt_range_to k bt = takeWhile (\<lambda>(k', _). \<not> key_less k k') bt"

section \<open>Index entries of a node\<close>

definition pred_key :: "registry \<Rightarrow> predicate_head \<Rightarrow> string" where
  "pred_key reg h =
     (case h of
        HeadName nm \<Rightarrow> nm
      | HeadId i \<Rightarrow> (case lookup_id reg i of Some d \<Rightarrow> md_name d | None \<Rightarrow> ''M'' @ int_dec (uint i)))"

definition src_key :: "provenance \<Rightarrow> string" where
  "src_key p =
     (case p of
        Verbatim d _ \<Rightarrow> d
      | Summary d _ \<Rightarrow> d
      | Extracted d _ _ \<Rightarrow> d
      | Derived from _ \<Rightarrow> from
      | Asserted b \<Rightarrow> b)"

definition byte_of :: "u32 \<Rightarrow> char" where
  "byte_of w = char_of (unat w)"

definition be_bytes :: "u32 \<Rightarrow> string" where
  \<comment> \<open>\<open>to_be_bytes\<close>\<close>
  "be_bytes w = [byte_of (drop_bit 24 w), byte_of (drop_bit 16 w), byte_of (drop_bit 8 w), byte_of w]"

fun collect_entity_index_ops :: "node_id \<Rightarrow> trm \<Rightarrow> write_op list"
  and collect_entity_args :: "node_id \<Rightarrow> predicate \<Rightarrow> write_op list" where
  "collect_entity_index_ops i (TEnt e) = [PutIndex BY_ENTITY (encode_index_key e i) i]"
| "collect_entity_index_ops i (TCompound p) = collect_entity_args i p"
| "collect_entity_index_ops i (TList ts) = concat (map (collect_entity_index_ops i) ts)"
| "collect_entity_index_ops i (TVar _) = []"
| "collect_entity_index_ops i (TLit _) = []"
| "collect_entity_args i (Predicate h as ns) = concat (map (collect_entity_index_ops i) as)"

definition build_insert_ops :: "registry \<Rightarrow> node \<Rightarrow> write_op list" where
  "build_insert_ops reg n =
     [PutNode n]
     @ concat (map (collect_entity_index_ops (nd_id n)) (pr_args (nd_pred n)))
     @ concat (map (\<lambda>(_, v). collect_entity_index_ops (nd_id n) v) (pr_named (nd_pred n)))
     @ [PutIndex BY_PRED (encode_index_key (pred_key reg (pr_head (nd_pred n))) (nd_id n)) (nd_id n)]
     @ [PutIndex BY_SRC (encode_index_key (src_key (nd_prov n)) (nd_id n)) (nd_id n)]
     @ [PutIndex BY_PERM (encode_index_key (be_bytes (nd_perm n)) (nd_id n)) (nd_id n)]"

section \<open>Construction\<close>

fun push_deps :: "node_id \<Rightarrow> node_id list \<Rightarrow> (node_id \<times> node_id list) list \<Rightarrow> (node_id \<times> node_id list) list" where
  "push_deps i [] dr = dr"
| "push_deps i (d # ds) dr = push_deps i ds (push_at d i dr)"

fun rebuild_deps_rev :: "node list \<Rightarrow> (node_id \<times> node_id list) list \<Rightarrow> (node_id \<times> node_id list) list" where
  "rebuild_deps_rev [] dr = dr"
| "rebuild_deps_rev (n # ns) dr = rebuild_deps_rev ns (push_deps (nd_id n) (nd_deps n) dr)"

fun rebuild_by_validity :: "node list \<Rightarrow> (ts_key \<times> node_id list) list \<Rightarrow> (ts_key \<times> node_id list) list" where
  "rebuild_by_validity [] bt = bt"
| "rebuild_by_validity (n # ns) bt =
     rebuild_by_validity ns (bt_push (validity_key (nd_validity n)) (nd_id n) bt)"

definition rebuild_indices :: "store \<Rightarrow> store" where
  "rebuild_indices s =
     (case iter_nodes (st_mem s) of
        Inl _ \<Rightarrow> s
      | Inr ns \<Rightarrow>
          s\<lparr>st_deps_rev := rebuild_deps_rev ns [], st_by_validity := rebuild_by_validity ns []\<rparr>)"

definition with_backend :: "mem \<Rightarrow> registry \<Rightarrow> store" where
  "with_backend m reg =
     rebuild_indices
       \<lparr>st_mem = m, st_deps_rev = [], st_by_validity = [], st_registry = reg, st_wal = [],
        st_subs = manager_new, st_verifiers = None\<rparr>"

definition store_new :: "registry \<Rightarrow> store" where
  "store_new reg = with_backend mem_new reg"

definition store_with_seeds :: store where
  "store_with_seeds = store_new with_seeds"

definition enable_verifiers :: "store \<Rightarrow> store" where
  "enable_verifiers s = s\<lparr>st_verifiers := Some (with_builtins (st_registry s))\<rparr>"

definition set_verifiers :: "verifier list \<Rightarrow> store \<Rightarrow> store" where
  "set_verifiers vs s = s\<lparr>st_verifiers := Some vs\<rparr>"

definition disable_verifiers :: "store \<Rightarrow> store" where
  "disable_verifiers s = s\<lparr>st_verifiers := None\<rparr>"

section \<open>Insertion\<close>

definition update_deps_rev :: "node \<Rightarrow> store \<Rightarrow> store" where
  "update_deps_rev n s = s\<lparr>st_deps_rev := push_deps (nd_id n) (nd_deps n) (st_deps_rev s)\<rparr>"

definition update_by_validity :: "node \<Rightarrow> store \<Rightarrow> store" where
  "update_by_validity n s =
     s\<lparr>st_by_validity := bt_push (validity_key (nd_validity n)) (nd_id n) (st_by_validity s)\<rparr>"

definition verify_opt :: "verifier list option \<Rightarrow> node \<Rightarrow> fail_reason option" where
  \<comment> \<open>the reason of \<open>Verdict::Fail\<close>, when verifiers are enabled and one fails\<close>
  "verify_opt vo n =
     (case vo of
        None \<Rightarrow> None
      | Some vs \<Rightarrow> (case verify_all vs n of Fail r \<Rightarrow> Some r | _ \<Rightarrow> None))"

definition push_wal :: "wal_entry \<Rightarrow> store \<Rightarrow> store" where
  "push_wal e s = s\<lparr>st_wal := st_wal s @ [e]\<rparr>"

definition insert_node :: "node \<Rightarrow> store \<Rightarrow> unit store_result" where
  "insert_node n s =
     (case verify_opt (st_verifiers s) n of
        Some r \<Rightarrow> (Inl (InvalidNode r), s)
      | None \<Rightarrow>
          (case get_node (st_mem s) (nd_id n) of
             Inl e \<Rightarrow> (Inl (StorageFailed e), s)
           | Inr (Some _) \<Rightarrow> (Inl (AlreadyExists (nd_id n)), s)
           | Inr None \<Rightarrow>
               let ops = build_insert_ops (st_registry s) n; s1 = push_wal (WalInsert n) s in
               (case batch_write ops (st_mem s1) of
                  (Inl e, m) \<Rightarrow> (Inl (StorageFailed e), s1\<lparr>st_mem := m\<rparr>)
                | (Inr _, m) \<Rightarrow>
                    let s2 = update_by_validity n (update_deps_rev n (s1\<lparr>st_mem := m\<rparr>)) in
                    (Inr (), s2\<lparr>st_subs := notify_insert n (st_subs s2)\<rparr>))))"

fun check_duplicates :: "mem \<Rightarrow> node_id list \<Rightarrow> node list \<Rightarrow> store_error option" where
  \<comment> \<open>the loop with \<open>seen\<close>\<close>
  "check_duplicates m seen [] = None"
| "check_duplicates m seen (n # ns) =
     (case get_node m (nd_id n) of
        Inl e \<Rightarrow> Some (StorageFailed e)
      | Inr found \<Rightarrow>
          if found \<noteq> None \<or> nd_id n \<in> set seen then Some (AlreadyExists (nd_id n))
          else check_duplicates m (nd_id n # seen) ns)"

fun first_failure :: "verifier list option \<Rightarrow> node list \<Rightarrow> fail_reason option" where
  "first_failure vo [] = None"
| "first_failure vo (n # ns) =
     (case verify_opt vo n of Some r \<Rightarrow> Some r | None \<Rightarrow> first_failure vo ns)"

fun insert_batch_loop :: "node list \<Rightarrow> store \<Rightarrow> store" where
  \<comment> \<open>update the in-memory indices, the log and the subscribers for each node\<close>
  "insert_batch_loop [] s = s"
| "insert_batch_loop (n # ns) s =
     (let s1 = push_wal (WalInsert n) (update_by_validity n (update_deps_rev n s)) in
      insert_batch_loop ns (s1\<lparr>st_subs := notify_insert n (st_subs s1)\<rparr>))"

definition insert_batch :: "node list \<Rightarrow> store \<Rightarrow> unit store_result" where
  "insert_batch ns s =
     (case first_failure (st_verifiers s) ns of
        Some r \<Rightarrow> (Inl (InvalidNode r), s)
      | None \<Rightarrow>
          (case check_duplicates (st_mem s) [] ns of
             Some e \<Rightarrow> (Inl e, s)
           | None \<Rightarrow>
               (case batch_write (concat (map (build_insert_ops (st_registry s)) ns)) (st_mem s) of
                  (Inl e, m) \<Rightarrow> (Inl (StorageFailed e), s\<lparr>st_mem := m\<rparr>)
                | (Inr _, m) \<Rightarrow> (Inr (), push_wal WalCheckpoint (insert_batch_loop ns (s\<lparr>st_mem := m\<rparr>))))))"

section \<open>Reading\<close>

definition store_get :: "store \<Rightarrow> node_id \<Rightarrow> node option" where
  "store_get s i = (case get_node (st_mem s) i of Inl _ \<Rightarrow> None | Inr r \<Rightarrow> r)"

definition check_permission :: "node \<Rightarrow> perm_ctx \<Rightarrow> bool" where
  "check_permission n ctx \<longleftrightarrow> tag_grants (nd_perm n) (pc_role_mask ctx)"

definition get_with_perm :: "store \<Rightarrow> node_id \<Rightarrow> perm_ctx \<Rightarrow> store_error + node" where
  "get_with_perm s i ctx =
     (case store_get s i of
        None \<Rightarrow> Inl (NotFound i)
      | Some n \<Rightarrow> if check_permission n ctx then Inr n else Inl PermissionDenied)"

definition store_all :: "store \<Rightarrow> node list" where
  "store_all s = (case iter_nodes (st_mem s) of Inl _ \<Rightarrow> [] | Inr ns \<Rightarrow> ns)"

definition all_active :: "store \<Rightarrow> node list" where
  "all_active s = filter (\<lambda>n. nd_status n = Active) (store_all s)"

definition resolve_nodes :: "store \<Rightarrow> node_id list \<Rightarrow> node list" where
  "resolve_nodes s ids = filter (\<lambda>n. nd_status n = Active) (List.map_filter (store_get s) ids)"

definition scan_or_empty :: "store \<Rightarrow> cf \<Rightarrow> string \<Rightarrow> node_id list" where
  \<comment> \<open>\<open>scan_index(..).unwrap_or_default()\<close>\<close>
  "scan_or_empty s c p = (case scan_index (st_mem s) c p of Inl _ \<Rightarrow> [] | Inr ids \<Rightarrow> ids)"

definition lookup_by_entity :: "store \<Rightarrow> entity_id \<Rightarrow> node list" where
  "lookup_by_entity s e = resolve_nodes s (scan_or_empty s BY_ENTITY e)"

definition lookup_by_pred :: "store \<Rightarrow> string \<Rightarrow> node list" where
  "lookup_by_pred s h = resolve_nodes s (scan_or_empty s BY_PRED h)"

definition lookup_by_doc :: "store \<Rightarrow> string \<Rightarrow> node list" where
  "lookup_by_doc s d = resolve_nodes s (scan_or_empty s BY_SRC d)"

definition lookup_valid_at :: "store \<Rightarrow> datetime \<Rightarrow> node list" where
  "lookup_valid_at s t =
     (let ids = concat (map snd (bt_range_to (timestamp t, I64_MAX) (st_by_validity s))) in
      filter (\<lambda>n. nd_status n = Active \<and> is_valid_at (nd_validity n) t)
        (List.map_filter (store_get s) ids))"

definition lookup_valid_now :: "datetime \<Rightarrow> store \<Rightarrow> node list" where
  \<comment> \<open>the clock is the first argument\<close>
  "lookup_valid_now now s = lookup_valid_at s now"

definition store_len :: "store \<Rightarrow> nat" where
  "store_len s = (case mem_len (st_mem s) of Inl _ \<Rightarrow> 0 | Inr k \<Rightarrow> k)"

definition store_is_empty :: "store \<Rightarrow> bool" where
  "store_is_empty s \<longleftrightarrow> store_len s = 0"

definition wal_entries :: "store \<Rightarrow> wal_entry list" where
  "wal_entries s = st_wal s"

end
