(* ===== verification/Store_Facts.thy ===== *)
theory Store_Facts
  imports Store
begin

text \<open>
  The invariant of the store: every index says exactly what the stored nodes say. It holds for a
  new or reopened store and is kept by every operation; the lookups are then exact.
\<close>

section \<open>The index entries of a node\<close>

definition index_ops :: "registry \<Rightarrow> node \<Rightarrow> write_op list" where
  "index_ops reg n = tl (build_insert_ops reg n)"

lemma build_insert_ops_split: "build_insert_ops reg n = PutNode n # index_ops reg n"
  by (simp add: index_ops_def build_insert_ops_def)

definition index_op :: "node_id \<Rightarrow> write_op \<Rightarrow> bool" where
  \<comment> \<open>an entry of node \<open>i\<close> in one of the four column families\<close>
  "index_op i op = (case op of PutIndex c key j \<Rightarrow> is_cf c \<and> j = i | _ \<Rightarrow> False)"

lemma is_cf_consts [simp]: "is_cf BY_ENTITY" "is_cf BY_PRED" "is_cf BY_SRC" "is_cf BY_PERM"
  by (simp_all add: is_cf_def)

lemma collect_index_ops:
  "list_all (index_op i) (collect_entity_index_ops i t)"
  "list_all (index_op i) (collect_entity_args i p)"
  by (induction t and p rule: collect_entity_index_ops_collect_entity_args.induct)
    (auto simp: index_op_def list_all_iff)

lemma index_ops_ok: "list_all (index_op (nd_id n)) (index_ops reg n)"
  using collect_index_ops [of "nd_id n"]
  by (auto simp: index_ops_def build_insert_ops_def list_all_iff index_op_def)

definition has_key :: "registry \<Rightarrow> node \<Rightarrow> cf \<Rightarrow> string \<Rightarrow> bool" where
  "has_key reg n c key \<longleftrightarrow> PutIndex c key (nd_id n) \<in> set (index_ops reg n)"

lemma has_key_status [simp]: "has_key reg (n\<lparr>nd_status := x\<rparr>) c key = has_key reg n c key"
  by (simp add: has_key_def index_ops_def build_insert_ops_def)

text \<open>The entities a term mentions where the index looks: not inside the named arguments of a
  nested predicate.\<close>

fun mentions :: "entity_id \<Rightarrow> trm \<Rightarrow> bool" and mentions_args :: "entity_id \<Rightarrow> predicate \<Rightarrow> bool" where
  "mentions e (TEnt e') = (e = e')"
| "mentions e (TCompound p) = mentions_args e p"
| "mentions e (TList ts) = list_ex (mentions e) ts"
| "mentions e (TVar _) = False"
| "mentions e (TLit _) = False"
| "mentions_args e (Predicate h as ns) = list_ex (mentions e) as"

definition node_mentions :: "entity_id \<Rightarrow> node \<Rightarrow> bool" where
  "node_mentions e n \<longleftrightarrow>
     list_ex (mentions e) (pr_args (nd_pred n)) \<or> list_ex (\<lambda>(_, t). mentions e t) (pr_named (nd_pred n))"

lemma encode_key_inj: "encode_index_key a i = encode_index_key b i \<longleftrightarrow> a = b"
  by (simp add: encode_index_key_def)

lemma collect_mentions:
  "PutIndex c (encode_index_key e i) i \<in> set (collect_entity_index_ops i t) \<longleftrightarrow> c = BY_ENTITY \<and> mentions e t"
  "PutIndex c (encode_index_key e i) i \<in> set (collect_entity_args i p) \<longleftrightarrow> c = BY_ENTITY \<and> mentions_args e p"
  by (induction t and p rule: collect_entity_index_ops_collect_entity_args.induct)
    (auto simp: encode_key_inj list_ex_iff)

lemma collect_keys:
  "PutIndex c key j \<in> set (collect_entity_index_ops i t) \<Longrightarrow> \<exists>e. key = encode_index_key e i"
  "PutIndex c key j \<in> set (collect_entity_args i p) \<Longrightarrow> \<exists>e. key = encode_index_key e i"
  by (induction t and p rule: collect_entity_index_ops_collect_entity_args.induct) auto

lemma cf_distinct [simp]:
  "BY_ENTITY \<noteq> BY_PRED" "BY_ENTITY \<noteq> BY_SRC" "BY_ENTITY \<noteq> BY_PERM" "BY_PRED \<noteq> BY_SRC"
  "BY_PRED \<noteq> BY_PERM" "BY_SRC \<noteq> BY_PERM"
  "BY_PRED \<noteq> BY_ENTITY" "BY_SRC \<noteq> BY_ENTITY" "BY_PERM \<noteq> BY_ENTITY" "BY_SRC \<noteq> BY_PRED"
  "BY_PERM \<noteq> BY_PRED" "BY_PERM \<noteq> BY_SRC"
  by (simp_all add: BY_ENTITY_def BY_PRED_def BY_SRC_def BY_PERM_def)

text \<open>The name under which family \<open>c\<close> files a node.\<close>

definition filed_under :: "registry \<Rightarrow> cf \<Rightarrow> node \<Rightarrow> string \<Rightarrow> bool" where
  "filed_under reg c n nm \<longleftrightarrow>
     c = BY_ENTITY \<and> node_mentions nm n
     \<or> c = BY_PRED \<and> nm = pred_key reg (pr_head (nd_pred n))
     \<or> c = BY_SRC \<and> nm = src_key (nd_prov n)
     \<or> c = BY_PERM \<and> nm = be_bytes (nd_perm n)"

lemma collect_iff:
  "PutIndex c key i \<in> set (collect_entity_index_ops i t) \<longleftrightarrow>
     (\<exists>nm. key = encode_index_key nm i \<and> c = BY_ENTITY \<and> mentions nm t)"
  using collect_keys(1) [of c key i i t] collect_mentions(1) [of c _ i t] by blast

lemma has_key_iff:
  "has_key reg n c key \<longleftrightarrow> (\<exists>nm. key = encode_index_key nm (nd_id n) \<and> filed_under reg c n nm)"
proof -
  have "has_key reg n c key \<longleftrightarrow>
    (\<exists>t \<in> set (pr_args (nd_pred n)). PutIndex c key (nd_id n) \<in> set (collect_entity_index_ops (nd_id n) t))
    \<or> (\<exists>(k, t) \<in> set (pr_named (nd_pred n)). PutIndex c key (nd_id n) \<in> set (collect_entity_index_ops (nd_id n) t))
    \<or> c = BY_PRED \<and> key = encode_index_key (pred_key reg (pr_head (nd_pred n))) (nd_id n)
    \<or> c = BY_SRC \<and> key = encode_index_key (src_key (nd_prov n)) (nd_id n)
    \<or> c = BY_PERM \<and> key = encode_index_key (be_bytes (nd_perm n)) (nd_id n)"
    by (simp add: has_key_def index_ops_def build_insert_ops_def split_beta) blast
  also have "\<dots> \<longleftrightarrow> (\<exists>nm. key = encode_index_key nm (nd_id n) \<and> filed_under reg c n nm)"
    unfolding collect_iff filed_under_def node_mentions_def list_ex_iff split_beta by blast
  finally show ?thesis .
qed

section \<open>Writing the entries\<close>

lemma batch_write_index_aux:
  "mem_ok m \<and> list_all (index_op i) ops \<longrightarrow>
    fst (batch_write ops m) = Inr () \<and> mem_ok (snd (batch_write ops m))
    \<and> mb_nodes (snd (batch_write ops m)) = mb_nodes m
    \<and> (\<forall>j c key. j \<in> set (idx (snd (batch_write ops m)) c key) \<longleftrightarrow>
         j \<in> set (idx m c key) \<or> PutIndex c key j \<in> set ops)
    \<and> (\<forall>c p. scan_others i (snd (batch_write ops m)) c p = scan_others i m c p)"
proof (induction ops arbitrary: m)
  case (Cons op ops)
  show ?case
  proof (rule impI, elim conjE)
    assume prems: "mem_ok m" "list_all (index_op i) (op # ops)"
    then obtain c key where op: "op = PutIndex c key i" "is_cf c"
      by (auto simp: index_op_def split: write_op.splits)
    let ?m = "snd (put_index c key i m)"
    have "put_index c key i m = (Inr (), ?m)" using put_fst(2) [OF op(2), of key i m] by (metis prod.collapse)
    from arg_cong [OF this, of "\<lambda>r. case r of (Inl e, m') \<Rightarrow> (Inl e, m') | (Inr _, m') \<Rightarrow> batch_write ops m'"]
    have step: "batch_write (op # ops) m = batch_write ops ?m"
      by (simp add: op apply_op_def)
    have ok: "mem_ok ?m" using prems(1) by (rule mem_ok_put_index)
    note IH = mp [OF Cons.IH [of ?m], OF conjI [OF ok]]
    show "fst (batch_write (op # ops) m) = Inr () \<and> mem_ok (snd (batch_write (op # ops) m))
      \<and> mb_nodes (snd (batch_write (op # ops) m)) = mb_nodes m
      \<and> (\<forall>j c key. j \<in> set (idx (snd (batch_write (op # ops) m)) c key) \<longleftrightarrow>
           j \<in> set (idx m c key) \<or> PutIndex c key j \<in> set (op # ops))
      \<and> (\<forall>c p. scan_others i (snd (batch_write (op # ops) m)) c p = scan_others i m c p)"
      using IH prems(2) put_index_others [OF prems(1) op(2)] op unfolding step by auto
  qed
qed simp

lemma batch_write_index:
  assumes "mem_ok m" "list_all (index_op i) ops"
  shows "fst (batch_write ops m) = Inr ()" "mem_ok (snd (batch_write ops m))"
    "mb_nodes (snd (batch_write ops m)) = mb_nodes m"
    "j \<in> set (idx (snd (batch_write ops m)) c key) \<longleftrightarrow> j \<in> set (idx m c key) \<or> PutIndex c key j \<in> set ops"
    "scan_others i (snd (batch_write ops m)) c p = scan_others i m c p"
  using assms batch_write_index_aux [of m i ops] by blast+


section \<open>Reading and writing\<close>

abbreviation stored :: "store \<Rightarrow> node_id \<Rightarrow> node option" where
  "stored s \<equiv> map_of (mb_nodes (st_mem s))"

lemma store_get_eq: "store_get s i = stored s i"
  by (simp add: store_get_def get_node_def)

section \<open>The validity index is a sorted map\<close>

definition bt_ok :: "(ts_key \<times> node_id list) list \<Rightarrow> bool" where
  "bt_ok bt \<longleftrightarrow> sorted_wrt (\<lambda>a b. key_less (fst a) (fst b)) bt"

lemma key_less_irrefl [simp]: "\<not> key_less k k"
  by (simp add: key_less_def)

lemma key_less_trans: "key_less a b \<Longrightarrow> key_less b c \<Longrightarrow> key_less a c"
  by (auto simp: key_less_def)

lemma key_less_total: "a \<noteq> b \<Longrightarrow> \<not> key_less a b \<Longrightarrow> key_less b a"
  by (cases a; cases b) (auto simp: key_less_def)

lemma bt_push_keys: "fst ` set (bt_push k v bt) = insert k (fst ` set bt)"
  by (induction k v bt rule: bt_push.induct) auto

lemma bt_ok_push: "bt_ok bt \<Longrightarrow> bt_ok (bt_push k v bt)"
proof (induction k v bt rule: bt_push.induct)
  case (2 k v k' vs bt)
  have low: "key_less k' (fst p)" if "p \<in> set (bt_push k v bt)" "key_less k' k" for p
  proof -
    have "fst p \<in> insert k (fst ` set bt)" using that(1) bt_push_keys [of k v bt] by blast
    then show ?thesis using that(2) 2(2) by (auto simp: bt_ok_def)
  qed
  have tl: "bt_ok bt" and hd: "\<And>p. p \<in> set bt \<Longrightarrow> key_less k' (fst p)" using 2(2) by (auto simp: bt_ok_def)
  consider "k = k'" | "key_less k k'" "k \<noteq> k'" | "\<not> key_less k k'" "k \<noteq> k'" "key_less k' k"
    using key_less_total [of k k'] by blast
  then show ?case
  proof cases
    case 1
    then show ?thesis using 2(2) by (simp add: bt_ok_def)
  next
    case 2
    then show ?thesis using tl hd key_less_trans [of k k'] by (auto simp: bt_ok_def)
  next
    case 3
    then show ?thesis using 2(1) [OF _ _ tl] low by (simp add: bt_ok_def)
  qed
qed (simp add: bt_ok_def)

lemma bt_fresh: "bt_ok ((k', vs) # bt) \<Longrightarrow> \<not> key_less k' k \<Longrightarrow> entries_at k bt = []"
  by (rule entries_at_absent) (auto simp: bt_ok_def)

lemma bt_push_get: "bt_ok bt \<Longrightarrow> entries_at j (bt_push k v bt) = entries_at j bt @ (if j = k then [v] else [])"
proof (induction k v bt rule: bt_push.induct)
  case (2 k v k' vs bt)
  have tl: "bt_ok bt" using 2(2) by (simp add: bt_ok_def)
  have none: "entries_at k ((k', vs) # bt) = []" if "key_less k k'"
    using that 2(2) by (intro entries_at_absent) (auto simp: bt_ok_def dest: key_less_trans)
  show ?case
    using 2(1) [OF _ _ tl] none by (auto simp: entries_at_def)
qed (simp add: entries_at_def)

interpretation validity_index: multimap bt_ok "\<lambda>bt k. entries_at k bt" bt_push
  by unfold_locales (simp_all add: bt_ok_push bt_push_get)

lemma bt_range_filter: "bt_ok bt \<Longrightarrow> bt_range_to k bt = filter (\<lambda>(k', _). \<not> key_less k k') bt"
proof (induction bt)
  case (Cons p bt)
  have "\<not> (\<exists>q \<in> set bt. \<not> key_less k (fst q))" if "key_less k (fst p)"
    using that Cons.prems by (auto simp: bt_ok_def intro: key_less_trans)
  then show ?case
    using Cons by (auto simp: bt_range_to_def bt_ok_def split_beta filter_empty_conv)
qed (simp add: bt_range_to_def)

lemma bt_distinct: "bt_ok bt \<Longrightarrow> distinct (map fst bt)"
  unfolding bt_ok_def by (induction bt) auto

lemma bt_range_ids:
  assumes "bt_ok bt"
  shows "set (concat (map snd (bt_range_to k bt))) = {i. \<exists>k'. \<not> key_less k k' \<and> i \<in> set (entries_at k' bt)}"
  using in_entries [OF bt_distinct [OF assms]] entries_in [of _ _ bt]
  unfolding bt_range_filter [OF assms] by fastforce

section \<open>The invariant\<close>

definition filed :: "registry \<Rightarrow> node \<Rightarrow> cf \<times> string \<Rightarrow> bool" where
  "filed reg n ck \<longleftrightarrow> has_key reg n (fst ck) (snd ck)"

definition files :: "mem \<Rightarrow> cf \<times> string \<Rightarrow> node_id list" where
  "files m ck = idx m (fst ck) (snd ck)"

definition store_ok :: "store \<Rightarrow> bool" where
  "store_ok s \<longleftrightarrow>
     mem_ok (st_mem s)
     \<and> exact files (filed (st_registry s)) (stored s) (st_mem s)
     \<and> distinct (map fst (st_deps_rev s))
     \<and> exact (\<lambda>al k. entries_at k al) (\<lambda>n d. d \<in> set (nd_deps n)) (stored s) (st_deps_rev s)
     \<and> bt_ok (st_by_validity s)
     \<and> exact (\<lambda>bt k. entries_at k bt) (\<lambda>n k. k = validity_key (nd_validity n)) (stored s) (st_by_validity s)"

lemma store_okI:
  assumes "mem_ok (st_mem s)" "exact files (filed (st_registry s)) (stored s) (st_mem s)"
    "distinct (map fst (st_deps_rev s))"
    "exact (\<lambda>al k. entries_at k al) (\<lambda>n d. d \<in> set (nd_deps n)) (stored s) (st_deps_rev s)"
    "bt_ok (st_by_validity s)"
    "exact (\<lambda>bt k. entries_at k bt) (\<lambda>n k. k = validity_key (nd_validity n)) (stored s) (st_by_validity s)"
  shows "store_ok s"
  using assms by (simp add: store_ok_def)

lemma push_deps_fold: "push_deps i ds dr = fold (\<lambda>d. push_at d i) ds dr"
  by (induction ds arbitrary: dr) simp_all

lemma rebuild_deps_fold:
  "rebuild_deps_rev ns dr = fold (\<lambda>n. fold (\<lambda>d. push_at d (nd_id n)) (nd_deps n)) ns dr"
  by (induction ns arbitrary: dr) (simp_all add: push_deps_fold)

lemma rebuild_by_validity_fold:
  "rebuild_by_validity ns bt = fold (\<lambda>n. fold (\<lambda>k. bt_push k (nd_id n)) [validity_key (nd_validity n)]) ns bt"
  by (induction ns arbitrary: bt) simp_all

lemma nodes_map_of:
  assumes "mem_ok m"
  shows "map_of (map (\<lambda>n. (nd_id n, n)) (map snd (mb_nodes m))) = map_of (mb_nodes m)"
    "distinct (map nd_id (map snd (mb_nodes m)))"
proof -
  have "map (\<lambda>n. (nd_id n, n)) (map snd (mb_nodes m)) = mb_nodes m"
    using assms by (auto simp: mem_ok_def intro!: map_idI)
  moreover have "map nd_id (map snd (mb_nodes m)) = map fst (mb_nodes m)"
    using assms by (auto simp: mem_ok_def)
  moreover have "distinct (map fst (mb_nodes m))" using assms by (simp add: mem_ok_def)
  ultimately show "map_of (map (\<lambda>n. (nd_id n, n)) (map snd (mb_nodes m))) = map_of (mb_nodes m)"
    "distinct (map nd_id (map snd (mb_nodes m)))"
    by (simp_all only:)
qed

text \<open>Opening a store on a backend whose column families are exact rebuilds the other two.\<close>

lemma store_ok_with_backend:
  assumes "mem_ok m" "exact files (filed reg) (map_of (mb_nodes m)) m"
  shows "store_ok (with_backend m reg)"
proof -
  let ?ns = "map snd (mb_nodes m)"
  note nodes = nodes_map_of [OF assms(1)]
  have empty: "exact (\<lambda>al k. entries_at k al) b Map.empty []" for b :: "node \<Rightarrow> 'k \<Rightarrow> bool"
    by (simp add: exact_def)
  have "with_backend m reg =
    \<lparr>st_mem = m, st_deps_rev = rebuild_deps_rev ?ns [], st_by_validity = rebuild_by_validity ?ns [],
     st_registry = reg, st_wal = [], st_subs = manager_new, st_verifiers = None\<rparr>"
    by (simp add: with_backend_def rebuild_indices_def iter_nodes_def)
  moreover have "distinct (map fst (rebuild_deps_rev ?ns []))
    \<and> exact (\<lambda>al k. entries_at k al) (\<lambda>n d. d \<in> set (nd_deps n)) (map_of (mb_nodes m)) (rebuild_deps_rev ?ns [])"
    using hash_index.build_exact [OF _ empty nodes(2), of "\<lambda>n d. d \<in> set (nd_deps n)" nd_deps]
    unfolding rebuild_deps_fold nodes(1) by simp
  moreover have "bt_ok (rebuild_by_validity ?ns [])
    \<and> exact (\<lambda>bt k. entries_at k bt) (\<lambda>n k. k = validity_key (nd_validity n)) (map_of (mb_nodes m))
        (rebuild_by_validity ?ns [])"
    using validity_index.build_exact [OF _ empty nodes(2), of "\<lambda>n k. k = validity_key (nd_validity n)"
        "\<lambda>n. [validity_key (nd_validity n)]"]
    unfolding rebuild_by_validity_fold nodes(1) by (simp add: bt_ok_def)
  ultimately show ?thesis using assms by (simp add: store_ok_def)
qed


lemma store_ok_new: "store_ok (store_new reg)"
  unfolding store_new_def
  by (rule store_ok_with_backend [OF mem_ok_new])
    (auto simp: exact_def files_def idx_def mem_new_def entries_at_def)

section \<open>Insertion\<close>

text \<open>Writing the operations of one node, and of several.\<close>

definition write_node :: "registry \<Rightarrow> node \<Rightarrow> mem \<Rightarrow> mem" where
  "write_node reg n m = snd (batch_write (build_insert_ops reg n) m)"

lemma batch_write_append:
  "batch_write (xs @ ys) m =
     (case batch_write xs m of (Inl e, m') \<Rightarrow> (Inl e, m') | (Inr _, m') \<Rightarrow> batch_write ys m')"
  by (induction xs arbitrary: m) (simp_all split: prod.split sum.split)

lemma write_node_split: "batch_write (build_insert_ops reg n) m = batch_write (index_ops reg n) (snd (put_node n m))"
  by (simp add: build_insert_ops_split apply_op_def put_node_def)

lemma write_node:
  assumes "mem_ok m"
  shows "batch_write (build_insert_ops reg n) m = (Inr (), write_node reg n m)"
    "mem_ok (write_node reg n m)"
    "map_of (mb_nodes (write_node reg n m)) = (map_of (mb_nodes m))(nd_id n \<mapsto> n)"
    "j \<in> set (files (write_node reg n m) ck) \<longleftrightarrow> j \<in> set (files m ck) \<or> j = nd_id n \<and> filed reg n ck"
    "scan_others (nd_id n) (write_node reg n m) c p = scan_others (nd_id n) m c p"
proof -
  have ok: "mem_ok (snd (put_node n m))" using assms by (rule mem_ok_put_node)
  note w = batch_write_index [OF ok index_ops_ok [of n reg]]
  show "batch_write (build_insert_ops reg n) m = (Inr (), write_node reg n m)"
    using w(1) by (metis write_node_split write_node_def prod.collapse)
  show "mem_ok (write_node reg n m)" "map_of (mb_nodes (write_node reg n m)) = (map_of (mb_nodes m))(nd_id n \<mapsto> n)"
    using w(2,3) by (simp_all add: write_node_def write_node_split)
  have id: "j = nd_id n" if "PutIndex c key j \<in> set (index_ops reg n)" for c key
    using that index_ops_ok [of n reg] by (auto simp: list_all_iff index_op_def)
  show "j \<in> set (files (write_node reg n m) ck) \<longleftrightarrow> j \<in> set (files m ck) \<or> j = nd_id n \<and> filed reg n ck"
    using w(4) [of j "fst ck" "snd ck"] id [of "fst ck" "snd ck"]
    by (auto simp: files_def filed_def has_key_def write_node_def write_node_split)
  show "scan_others (nd_id n) (write_node reg n m) c p = scan_others (nd_id n) m c p"
    using w(5) [of c p] by (simp add: write_node_def write_node_split) (simp add: scan_others_def)
qed

lemma write_node_exact:
  assumes "mem_ok m" "exact files (filed reg) (map_of (mb_nodes m)) m" "map_of (mb_nodes m) (nd_id n) = None"
  shows "exact files (filed reg) (map_of (mb_nodes (write_node reg n m))) (write_node reg n m)"
  using assms(2,3) by (intro exactI) (auto simp: write_node [OF assms(1)] exact_def)

definition write_nodes :: "registry \<Rightarrow> node list \<Rightarrow> mem \<Rightarrow> mem" where
  "write_nodes reg ns m = fold (write_node reg) ns m"

lemma write_nodes:
  "mem_ok m \<Longrightarrow>
    batch_write (concat (map (build_insert_ops reg) ns)) m = (Inr (), write_nodes reg ns m)"
  by (induction ns arbitrary: m)
    (simp_all add: write_nodes_def batch_write_append write_node(1,2))

text \<open>What a successful insertion leaves, for one node at a time.\<close>

definition inserted :: "node \<Rightarrow> store \<Rightarrow> store" where
  "inserted n s =
     s\<lparr>st_mem := write_node (st_registry s) n (st_mem s),
       st_deps_rev := push_deps (nd_id n) (nd_deps n) (st_deps_rev s),
       st_by_validity := bt_push (validity_key (nd_validity n)) (nd_id n) (st_by_validity s),
       st_wal := st_wal s @ [WalInsert n],
       st_subs := notify_insert n (st_subs s)\<rparr>"

lemma inserted_simps [simp]:
  "st_mem (inserted n s) = write_node (st_registry s) n (st_mem s)"
  "st_registry (inserted n s) = st_registry s"
  "st_wal (inserted n s) = st_wal s @ [WalInsert n]"
  "st_subs (inserted n s) = notify_insert n (st_subs s)"
  "st_verifiers (inserted n s) = st_verifiers s"
  by (simp_all add: inserted_def)

lemma store_ok_inserted:
  assumes "store_ok s" "stored s (nd_id n) = None"
  shows "store_ok (inserted n s)" "stored (inserted n s) = (stored s)(nd_id n \<mapsto> n)"
proof -
  note ok = assms(1) [unfolded store_ok_def]
  have mem: "mem_ok (st_mem s)" using ok by blast
  show upd: "stored (inserted n s) = (stored s)(nd_id n \<mapsto> n)" by (simp add: write_node(3) [OF mem])
  show "store_ok (inserted n s)"
  proof (rule store_okI)
    have "distinct (map fst (st_deps_rev s))" using ok by blast
    from hash_index.push_all_ok [OF this]
    show "distinct (map fst (st_deps_rev (inserted n s)))" by (simp add: inserted_def push_deps_fold)
    show "bt_ok (st_by_validity (inserted n s))"
      using ok by (simp add: inserted_def bt_ok_push)
    show "mem_ok (st_mem (inserted n s))" using write_node(2) [OF mem] by simp
    show "exact files (filed (st_registry (inserted n s))) (stored (inserted n s)) (st_mem (inserted n s))"
      using write_node_exact [OF mem] ok assms(2) by simp
    show "exact (\<lambda>al k. entries_at k al) (\<lambda>n d. d \<in> set (nd_deps n)) (stored (inserted n s)) (st_deps_rev (inserted n s))"
      unfolding upd
      using hash_index.push_all_exact [of "st_deps_rev s" "\<lambda>n d. d \<in> set (nd_deps n)" "stored s" "nd_id n" n "nd_deps n"]
        ok assms(2) by (simp add: inserted_def push_deps_fold)
    show "exact (\<lambda>bt k. entries_at k bt) (\<lambda>n k. k = validity_key (nd_validity n)) (stored (inserted n s))
        (st_by_validity (inserted n s))"
      unfolding upd
      using validity_index.push_all_exact [of "st_by_validity s" "\<lambda>n k. k = validity_key (nd_validity n)"
          "stored s" "nd_id n" n "[validity_key (nd_validity n)]"] ok assms(2)
      by (simp add: inserted_def)
  qed
qed

lemma insert_node_ok:
  assumes "store_ok s"
  shows "insert_node n s =
    (case verify_opt (st_verifiers s) n of
       Some r \<Rightarrow> (Inl (InvalidNode r), s)
     | None \<Rightarrow>
         if stored s (nd_id n) \<noteq> None then (Inl (AlreadyExists (nd_id n)), s)
         else (Inr (), inserted n s))"
proof -
  have mem: "mem_ok (st_mem s)" using assms by (simp add: store_ok_def)
  show ?thesis
    using write_node(1) [OF mem, of "st_registry s" n]
    by (auto simp: insert_node_def get_node_def push_wal_def update_by_validity_def update_deps_rev_def
        inserted_def Let_def split: option.split)
qed

lemma store_ok_insert: "store_ok s \<Longrightarrow> store_ok (snd (insert_node n s))"
  by (auto simp: insert_node_ok store_ok_inserted split: option.splits)

section \<open>Batches\<close>

lemma check_duplicates_None:
  "check_duplicates m seen ns = None \<longleftrightarrow>
     distinct (map nd_id ns) \<and> (\<forall>n \<in> set ns. map_of (mb_nodes m) (nd_id n) = None \<and> nd_id n \<notin> set seen)"
proof (induction m seen ns rule: check_duplicates.induct)
  case (2 m seen n ns)
  have "(\<forall>x \<in> set ns. nd_id x \<notin> set (nd_id n # seen)) \<longleftrightarrow>
    nd_id n \<notin> set (map nd_id ns) \<and> (\<forall>x \<in> set ns. nd_id x \<notin> set seen)"
    unfolding set_map image_iff by auto
  then show ?case using 2 by (simp add: get_node_def) blast
qed simp

lemma check_duplicates_Some:
  "check_duplicates m seen ns = Some e \<Longrightarrow> \<exists>n \<in> set ns. e = AlreadyExists (nd_id n)"
  by (induction m seen ns rule: check_duplicates.induct) (auto simp: get_node_def split: if_splits)

lemma insert_batch_loop_eq:
  "insert_batch_loop ns (s\<lparr>st_mem := write_nodes (st_registry s) ns (st_mem s)\<rparr>) = fold inserted ns s"
proof (induction ns arbitrary: s)
  case (Cons n ns)
  have "insert_batch_loop (n # ns) (s\<lparr>st_mem := write_nodes (st_registry s) (n # ns) (st_mem s)\<rparr>)
    = insert_batch_loop ns ((inserted n s)\<lparr>st_mem := write_nodes (st_registry (inserted n s)) ns (st_mem (inserted n s))\<rparr>)"
    by (cases s) (simp add: inserted_def write_nodes_def Let_def push_wal_def update_by_validity_def update_deps_rev_def)
  also have "\<dots> = fold inserted ns (inserted n s)" by (rule Cons.IH)
  finally show ?case by simp
qed (simp add: write_nodes_def)

lemma insert_batch_ok:
  assumes "store_ok s"
  shows "insert_batch ns s =
    (case first_failure (st_verifiers s) ns of
       Some r \<Rightarrow> (Inl (InvalidNode r), s)
     | None \<Rightarrow>
         (case check_duplicates (st_mem s) [] ns of
            Some e \<Rightarrow> (Inl e, s)
          | None \<Rightarrow> (Inr (), push_wal WalCheckpoint (fold inserted ns s))))"
  using assms write_nodes [of "st_mem s" "st_registry s" ns] insert_batch_loop_eq [of ns s]
  by (simp add: insert_batch_def store_ok_def split: option.split)

lemma fold_inserted:
  assumes "store_ok s" "distinct (map nd_id ns)" "\<And>n. n \<in> set ns \<Longrightarrow> stored s (nd_id n) = None"
  shows "store_ok (fold inserted ns s)
    \<and> stored (fold inserted ns s) = (stored s)(map nd_id ns [\<mapsto>] ns)
    \<and> st_wal (fold inserted ns s) = st_wal s @ map WalInsert ns
    \<and> st_subs (fold inserted ns s) = fold notify_insert ns (st_subs s)
    \<and> st_registry (fold inserted ns s) = st_registry s"
  using assms
proof (induction ns arbitrary: s)
  case (Cons n ns)
  have "stored s (nd_id n) = None" using Cons.prems(3) by simp
  note ins = store_ok_inserted [OF Cons.prems(1) this]
  have "distinct (map nd_id ns)" using Cons.prems(2) by simp
  note IH = Cons.IH [OF ins(1) this]
  have "stored (inserted n s) (nd_id x) = None" if "x \<in> set ns" for x
  proof -
    have "nd_id x \<noteq> nd_id n" using imageI [OF that, of nd_id] Cons.prems(2) by auto
    then show ?thesis unfolding ins(2) using that Cons.prems(3) by simp
  qed
  from IH [OF this] show ?case using ins(2) by (simp del: fun_upd_apply)
qed simp

lemma store_ok_push_wal [simp]: "store_ok (push_wal e s) = store_ok s"
  by (simp add: store_ok_def push_wal_def)

lemma store_ok_insert_batch: "store_ok s \<Longrightarrow> store_ok (snd (insert_batch ns s))"
  using fold_inserted [of s ns]
  by (auto simp: insert_batch_ok check_duplicates_None split: option.splits)

section \<open>Changing the status of a stored node\<close>

definition set_status :: "node_id \<Rightarrow> node \<Rightarrow> node_status \<Rightarrow> store \<Rightarrow> store" where
  "set_status i n x s = s\<lparr>st_mem := snd (put_node (n\<lparr>nd_status := x\<rparr>) (st_mem s))\<rparr>"

lemma stored_id: "store_ok s \<Longrightarrow> stored s i = Some n \<Longrightarrow> nd_id n = i"
  by (auto simp: store_ok_def mem_ok_def dest: map_of_SomeD)

lemma store_ok_set_status:
  assumes "store_ok s" "stored s i = Some n"
  shows "store_ok (set_status i n x s)" "stored (set_status i n x s) = (stored s)(i \<mapsto> n\<lparr>nd_status := x\<rparr>)"
proof -
  have id: "nd_id n = i" using stored_id [OF assms] .
  note ok = assms(1) [unfolded store_ok_def]
  show upd: "stored (set_status i n x s) = (stored s)(i \<mapsto> n\<lparr>nd_status := x\<rparr>)"
    by (simp add: set_status_def id)
  have files: "files (st_mem (set_status i n x s)) = files (st_mem s)"
    by (intro ext) (simp add: set_status_def files_def)
  show "store_ok (set_status i n x s)"
  proof (rule store_okI)
    show "mem_ok (st_mem (set_status i n x s))" using ok mem_ok_put_node by (simp add: set_status_def)
    have "exact files (filed (st_registry s)) ((stored s)(i \<mapsto> n\<lparr>nd_status := x\<rparr>)) (st_mem s)"
      using ok by (intro exact_update_same [where nodes = "stored s", OF _ assms(2)]) (simp_all add: filed_def)
    then show "exact files (filed (st_registry (set_status i n x s))) (stored (set_status i n x s)) (st_mem (set_status i n x s))"
      unfolding upd exact_def files by (simp add: set_status_def)
    show "exact (\<lambda>al k. entries_at k al) (\<lambda>n d. d \<in> set (nd_deps n)) (stored (set_status i n x s))
        (st_deps_rev (set_status i n x s))"
      unfolding upd using ok by (intro exact_update_same [where nodes = "stored s", OF _ assms(2)]) (simp_all add: set_status_def)
    show "exact (\<lambda>bt k. entries_at k bt) (\<lambda>n k. k = validity_key (nd_validity n)) (stored (set_status i n x s))
        (st_by_validity (set_status i n x s))"
      unfolding upd using ok by (intro exact_update_same [where nodes = "stored s", OF _ assms(2)]) (simp_all add: set_status_def)
  qed (use ok in \<open>simp_all add: set_status_def\<close>)
qed

section \<open>The lookups are exact\<close>

definition name_sep :: "registry \<Rightarrow> cf \<Rightarrow> node \<Rightarrow> bool" where
  \<comment> \<open>no name the node is filed under has a zero byte, the separator of the index keys\<close>
  "name_sep reg c n \<longleftrightarrow> (\<forall>nm. filed_under reg c n nm \<longrightarrow> nul_free nm)"

definition names_ok :: "store \<Rightarrow> bool" where
  \<comment> \<open>no stored node is filed under a name with a zero byte; the permission family, whose names are
    the bytes of a tag, is never looked up\<close>
  "names_ok s \<longleftrightarrow>
     (\<forall>i n. stored s i = Some n \<longrightarrow> list_all (\<lambda>c. name_sep (st_registry s) c n) [BY_ENTITY, BY_PRED, BY_SRC])"

lemma scan_exact:
  assumes "store_ok s" "is_cf c" "nul_free p"
    "\<And>i n. stored s i = Some n \<Longrightarrow> name_sep (st_registry s) c n"
  shows "i \<in> set (scan_or_empty s c p) \<longleftrightarrow> (\<exists>n. stored s i = Some n \<and> filed_under (st_registry s) c n p)"
proof -
  have mem: "mem_ok (st_mem s)" using assms(1) by (simp add: store_ok_def)
  obtain ids where ids: "scan_index (st_mem s) c p = Inr ids"
    "\<And>i. i \<in> set ids \<longleftrightarrow> (\<exists>key. prefix (encode_index_prefix p) key \<and> i \<in> set (idx (st_mem s) c key))"
    using scan_index_ok [OF mem assms(2)] by metis
  have ix: "i \<in> set (idx (st_mem s) c key) \<longleftrightarrow> (\<exists>n. stored s i = Some n \<and> has_key (st_registry s) n c key)" for key
    using assms(1) exactD [of files "filed (st_registry s)" "stored s" "st_mem s" i "(c, key)"]
    by (simp add: store_ok_def files_def filed_def)
  have "i \<in> set ids \<longleftrightarrow>
    (\<exists>n nm. stored s i = Some n \<and> filed_under (st_registry s) c n nm \<and> prefix (encode_index_prefix p) (encode_index_key nm (nd_id n)))"
    unfolding ids(2) ix has_key_iff by blast
  also have "\<dots> \<longleftrightarrow> (\<exists>n. stored s i = Some n \<and> filed_under (st_registry s) c n p)"
    using prefix_key_iff [OF assms(3)] assms(4) unfolding name_sep_def by blast
  finally show ?thesis by (simp add: scan_or_empty_def ids(1))
qed

lemma resolve_in: "n \<in> set (resolve_nodes s ids) \<longleftrightarrow> nd_status n = Active \<and> (\<exists>i \<in> set ids. stored s i = Some n)"
  by (force simp: resolve_nodes_def List.map_filter_def store_get_eq)

lemma resolve_exact:
  assumes "store_ok s" "is_cf c" "nul_free p"
    "\<And>i n. stored s i = Some n \<Longrightarrow> name_sep (st_registry s) c n"
  shows "n \<in> set (resolve_nodes s (scan_or_empty s c p)) \<longleftrightarrow>
    stored s (nd_id n) = Some n \<and> nd_status n = Active \<and> filed_under (st_registry s) c n p"
  using scan_exact [OF assms] stored_id [OF assms(1)] unfolding resolve_in by fastforce

definition time_ok :: "datetime \<Rightarrow> bool" where
  \<comment> \<open>the seconds fit an \<open>i64\<close>, as those of every \<open>DateTime<Utc>\<close> do\<close>
  "time_ok t \<longleftrightarrow> I64_MIN \<le> timestamp t \<and> timestamp t \<le> I64_MAX"

definition validity_ok :: "validity \<Rightarrow> bool" where
  "validity_ok v \<longleftrightarrow> (case v of Forever \<Rightarrow> True
     | Window from until \<Rightarrow> time_ok from \<and> (case until of None \<Rightarrow> True | Some u \<Rightarrow> time_ok u))"

lemma valid_in_range:
  "is_valid_at v t \<Longrightarrow> time_ok t \<Longrightarrow> validity_ok v \<Longrightarrow> \<not> key_less (timestamp t, I64_MAX) (validity_key v)"
proof (cases v)
  case (Window lo hi)
  assume a: "is_valid_at v t" "time_ok t" "validity_ok v"
  then have "timestamp lo \<le> timestamp t" by (simp add: Window timestamp_def zdiv_mono1)
  then show ?thesis using a by (auto simp: Window validity_key_def key_less_def validity_ok_def time_ok_def split: option.splits)
qed (auto simp: validity_key_def key_less_def time_ok_def)

lemma lookup_valid_exact:
  assumes "store_ok s" "time_ok t" "\<And>i n. stored s i = Some n \<Longrightarrow> validity_ok (nd_validity n)"
  shows "n \<in> set (lookup_valid_at s t) \<longleftrightarrow>
    stored s (nd_id n) = Some n \<and> nd_status n = Active \<and> is_valid_at (nd_validity n) t"
proof -
  note ok = assms(1) [unfolded store_ok_def]
  let ?ids = "concat (map snd (bt_range_to (timestamp t, I64_MAX) (st_by_validity s)))"
  have "i \<in> set ?ids \<longleftrightarrow> (\<exists>n. stored s i = Some n \<and> \<not> key_less (timestamp t, I64_MAX) (validity_key (nd_validity n)))" for i
  proof -
    have "bt_ok (st_by_validity s)"
      and "i \<in> set (entries_at k (st_by_validity s)) \<longleftrightarrow> (\<exists>n. stored s i = Some n \<and> k = validity_key (nd_validity n))" for k
      using ok exactD [of "\<lambda>bt k. entries_at k bt" "\<lambda>n k. k = validity_key (nd_validity n)" "stored s" "st_by_validity s" i k]
      by simp_all
    then show ?thesis using bt_range_ids by (simp del: split_paired_Ex) blast
  qed
  moreover have "n \<in> set (lookup_valid_at s t) \<longleftrightarrow>
    nd_status n = Active \<and> is_valid_at (nd_validity n) t \<and> (\<exists>i \<in> set ?ids. stored s i = Some n)"
    by (force simp: lookup_valid_at_def List.map_filter_def store_get_eq Let_def)
  ultimately show ?thesis
    using valid_in_range [OF _ assms(2) assms(3)] stored_id [OF assms(1)] by blast
qed

end
