(* ===== verification/Matching.thy ===== *)
theory Matching
  imports Types
begin

text \<open>
  Pattern matching, \<open>match_pattern\<close> and \<open>match_term\<close> of \<open>factum-rt/src/query.rs\<close>, and its meaning: a
  pattern matches a predicate when one assignment of the pattern's variables makes them equal. A
  nested predicate is matched with fresh bindings, which are then dropped, so its variables are
  independent of the outer ones. \<open>match_term\<close> extends the bindings it is given; where it returns
  \<open>false\<close> every caller gives up, so the bindings reached are not returned.
\<close>

type_synonym bindings = "(string \<times> trm) list"

function match_pattern :: "predicate \<Rightarrow> predicate \<Rightarrow> bindings option"
  and match_terms :: "trm list \<Rightarrow> trm list \<Rightarrow> bindings \<Rightarrow> bindings option"
  and match_named :: "(string \<times> trm) list \<Rightarrow> (string \<times> trm) list \<Rightarrow> bindings \<Rightarrow> bindings option"
  and match_term :: "trm \<Rightarrow> trm \<Rightarrow> bindings \<Rightarrow> bindings option" where
  "match_pattern (Predicate ph pas pns) (Predicate ch cas cns) =
     (case (ph, ch) of
        (HeadName p, HeadName c) \<Rightarrow>
          if p \<noteq> c then None
          else if length pas \<noteq> length cas then None
          else
            (case match_terms pas cas [] of
               None \<Rightarrow> None
             | Some bs \<Rightarrow> match_named pns cns bs)
      | _ \<Rightarrow> None)"
| "match_terms [] cs bs = Some bs"
| "match_terms (p # ps) [] bs = Some bs"
| "match_terms (p # ps) (c # cs) bs =
     (case match_term p c bs of
        None \<Rightarrow> None
      | Some bs' \<Rightarrow> match_terms ps cs bs')"
| "match_named [] cns bs = Some bs"
| "match_named ((k, v) # pns) cns bs =
     (case map_of cns k of
        None \<Rightarrow> None
      | Some cv \<Rightarrow>
          (case match_term v cv bs of
             None \<Rightarrow> None
           | Some bs' \<Rightarrow> match_named pns cns bs'))"
| "match_term (TVar x) c bs =
     (case map_of bs x of
        Some t \<Rightarrow> if t = c then Some bs else None
      | None \<Rightarrow> Some (bs @ [(x, c)]))"
| "match_term (TEnt e) c bs = (if c = TEnt e then Some bs else None)"
| "match_term (TLit l) c bs = (if c = TLit l then Some bs else None)"
| "match_term (TCompound p) c bs =
     (case c of
        TCompound q \<Rightarrow> (case match_pattern p q of None \<Rightarrow> None | Some _ \<Rightarrow> Some bs)
      | _ \<Rightarrow> None)"
| "match_term (TList ps) c bs =
     (case c of
        TList cs \<Rightarrow> if length ps \<noteq> length cs then None else match_terms ps cs bs
      | _ \<Rightarrow> None)"
  by pat_completeness auto
termination
proof (relation "measure (\<lambda>x. case x of
      Inl (Inl (q, _)) \<Rightarrow> 2 * size q
    | Inl (Inr (ps, _)) \<Rightarrow> 2 * size_list size ps
    | Inr (Inl (pns, _)) \<Rightarrow> 2 * size_list (size_prod (\<lambda>_. 0) size) pns
    | Inr (Inr (p, _)) \<Rightarrow> 2 * size p + 1)", goal_cases)
qed auto

section \<open>What a match means\<close>

type_synonym assignment = "string \<Rightarrow> trm option"

inductive sat :: "assignment \<Rightarrow> trm \<Rightarrow> trm \<Rightarrow> bool"
  and psat :: "assignment \<Rightarrow> predicate \<Rightarrow> predicate \<Rightarrow> bool" where
  sat_var: "\<sigma> x = Some c \<Longrightarrow> sat \<sigma> (TVar x) c"
| sat_ent: "sat \<sigma> (TEnt e) (TEnt e)"
| sat_lit: "sat \<sigma> (TLit l) (TLit l)"
| sat_compound: "psat \<tau> p q \<Longrightarrow> sat \<sigma> (TCompound p) (TCompound q)"
| sat_list: "list_all2 (sat \<sigma>) ps cs \<Longrightarrow> sat \<sigma> (TList ps) (TList cs)"
| psat: "list_all2 (sat \<sigma>) pas cas \<Longrightarrow> list_all (\<lambda>(k, v). \<exists>c. map_of cns k = Some c \<and> sat \<sigma> v c) pns \<Longrightarrow>
    psat \<sigma> (Predicate (HeadName h) pas pns) (Predicate (HeadName h) cas cns)"

inductive_simps sat_simps [simp]:
  "sat \<sigma> (TVar x) c"
  "sat \<sigma> (TEnt e) c"
  "sat \<sigma> (TLit l) c"
  "sat \<sigma> (TCompound p) c"
  "sat \<sigma> (TList ps) c"

inductive_simps psat_iff: "psat \<sigma> (Predicate ph pas pns) (Predicate ch cas cns)"

lemma sat_mono:
  "sat \<sigma> p c \<Longrightarrow> \<sigma> \<subseteq>\<^sub>m \<tau> \<Longrightarrow> sat \<tau> p c"
  "psat \<sigma> q d \<Longrightarrow> \<sigma> \<subseteq>\<^sub>m \<tau> \<Longrightarrow> psat \<tau> q d"
proof (induction arbitrary: \<tau> and \<tau> rule: sat_psat.inducts)
  case (sat_var \<sigma> x c)
  then show ?case by (auto simp: map_le_def dom_def)
next
  case (sat_compound \<tau>' p q \<sigma>)
  then show ?case by (metis map_le_refl sat_simps(4))
next
  case (sat_list \<sigma> ps cs)
  then show ?case by (auto elim!: list_all2_mono)
next
  case (psat \<sigma> pas cas cns pns h)
  then show ?case by (auto simp: psat_iff list_all_iff elim!: list_all2_mono)
qed auto

lemma map_le_snoc: "map_of bs x = None \<Longrightarrow> map_of bs \<subseteq>\<^sub>m map_of (bs @ [(x, c)])"
  by (auto simp: map_le_def map_add_def split: option.split)

text \<open>A successful match yields an assignment that extends the given one and makes the sides equal.\<close>

lemma match_sound:
  "match_pattern q d = Some bs' \<Longrightarrow> psat (map_of bs') q d"
  "match_terms ps cs bs = Some bs' \<Longrightarrow> length ps = length cs \<Longrightarrow>
     map_of bs \<subseteq>\<^sub>m map_of bs' \<and> list_all2 (sat (map_of bs')) ps cs"
  "match_named pns cns bs = Some bs' \<Longrightarrow>
     map_of bs \<subseteq>\<^sub>m map_of bs' \<and> list_all (\<lambda>(k, v). \<exists>c. map_of cns k = Some c \<and> sat (map_of bs') v c) pns"
  "match_term p c bs = Some bs' \<Longrightarrow> map_of bs \<subseteq>\<^sub>m map_of bs' \<and> sat (map_of bs') p c"
proof (induction q d and ps cs bs and pns cns bs and p c bs arbitrary: bs' and bs' and bs' and bs'
    rule: match_pattern_match_terms_match_named_match_term.induct)
  case (1 ph pas pns ch cas cns)
  then obtain h b where h: "ph = HeadName h" "ch = HeadName h" "length pas = length cas"
    and b: "match_terms pas cas [] = Some b" "match_named pns cns b = Some bs'"
    by (auto split: predicate_head.splits if_splits option.splits)
  have as: "list_all2 (sat (map_of b)) pas cas" using 1(1) [OF refl h(1,2) _ _ b(1) h(3)] h(3) by simp
  have ns: "map_of b \<subseteq>\<^sub>m map_of bs'"
    "list_all (\<lambda>(k, v). \<exists>c. map_of cns k = Some c \<and> sat (map_of bs') v c) pns"
    using 1(2) [OF refl h(1,2) _ _ b] h(3) by simp_all
  have "list_all2 (sat (map_of bs')) pas cas" using as by (rule list_all2_mono) (rule sat_mono(1) [OF _ ns(1)])
  then show ?case using ns(2) by (simp add: psat_iff h)
next
  case (4 p ps c cs bs)
  then obtain b where b: "match_term p c bs = Some b" "match_terms ps cs b = Some bs'"
    by (auto split: option.splits)
  show ?case using 4(1) [OF b(1)] 4(2) [OF b] 4(4) sat_mono(1) map_le_trans by fastforce
next
  case (6 k v pns cns bs)
  then obtain cv b where b: "map_of cns k = Some cv" "match_term v cv bs = Some b" "match_named pns cns b = Some bs'"
    by (auto split: option.splits)
  show ?case using 6(1) [OF b(1,2)] 6(2) [OF b] b(1) sat_mono(1) map_le_trans by fastforce
next
  case (7 x c bs)
  then show ?case
    using map_le_snoc [of bs x c] by (cases "map_of bs x") (auto simp: map_add_dom_app_simps domIff split: if_splits)
next
  case (10 p c bs)
  then show ?case by (auto split: trm.splits option.splits)
next
  case (11 ps c bs)
  then show ?case by (auto split: trm.splits if_splits)
qed (auto split: if_splits)

text \<open>And the assignment is the least one: the match fails only when there is none.\<close>

lemma match_complete:
  "psat \<sigma> q d \<Longrightarrow> \<exists>bs'. match_pattern q d = Some bs' \<and> map_of bs' \<subseteq>\<^sub>m \<sigma>"
  "list_all2 (sat \<sigma>) ps cs \<Longrightarrow> map_of bs \<subseteq>\<^sub>m \<sigma> \<Longrightarrow>
     \<exists>bs'. match_terms ps cs bs = Some bs' \<and> map_of bs' \<subseteq>\<^sub>m \<sigma>"
  "list_all (\<lambda>(k, v). \<exists>c. map_of cns k = Some c \<and> sat \<sigma> v c) pns \<Longrightarrow> map_of bs \<subseteq>\<^sub>m \<sigma> \<Longrightarrow>
     \<exists>bs'. match_named pns cns bs = Some bs' \<and> map_of bs' \<subseteq>\<^sub>m \<sigma>"
  "sat \<sigma> p c \<Longrightarrow> map_of bs \<subseteq>\<^sub>m \<sigma> \<Longrightarrow> \<exists>bs'. match_term p c bs = Some bs' \<and> map_of bs' \<subseteq>\<^sub>m \<sigma>"
proof (induction q d and ps cs bs and pns cns bs and p c bs arbitrary: \<sigma> and \<sigma> and \<sigma> and \<sigma>
    rule: match_pattern_match_terms_match_named_match_term.induct)
  case (1 ph pas pns ch cas cns)
  then obtain h where h: "ph = HeadName h" "ch = HeadName h"
    and as: "list_all2 (sat \<sigma>) pas cas" and ns: "list_all (\<lambda>(k, v). \<exists>c. map_of cns k = Some c \<and> sat \<sigma> v c) pns"
    by (auto simp: psat_iff)
  have len: "length pas = length cas" using as by (rule list_all2_lengthD)
  obtain b where b: "match_terms pas cas [] = Some b" "map_of b \<subseteq>\<^sub>m \<sigma>"
    using 1(1) [OF refl h _ _ as] len by auto
  show ?case using 1(2) [OF refl h _ _ b(1) ns b(2)] len by (simp add: h b)
next
  case (4 p ps c cs bs)
  then have pc: "sat \<sigma> p c" "list_all2 (sat \<sigma>) ps cs" by simp_all
  obtain b where b: "match_term p c bs = Some b" "map_of b \<subseteq>\<^sub>m \<sigma>" using 4(1) [OF pc(1) 4(4)] by blast
  then show ?case using 4(2) [OF b(1) pc(2) b(2)] by simp
next
  case (6 k v pns cns bs)
  then obtain cv where cv: "map_of cns k = Some cv" "sat \<sigma> v cv" by auto
  obtain b where b: "match_term v cv bs = Some b" "map_of b \<subseteq>\<^sub>m \<sigma>" using 6(1) [OF cv 6(4)] by auto
  then show ?case using 6(2) [OF cv(1) b(1) _ b(2)] 6(3) cv by auto
next
  case (7 x c bs)
  then show ?case
    by (cases "map_of bs x") (auto simp: map_le_def map_add_def dom_def split: option.splits)
next
  case (10 p c bs)
  then obtain \<tau> r where r: "c = TCompound r" "psat \<tau> p r" by auto
  then obtain b where "match_pattern p r = Some b" using 10(1) by blast
  then show ?case using r 10(3) by simp
next
  case (11 ps c bs)
  then show ?case by (auto dest: list_all2_lengthD)
qed auto

lemma match_iff: "match_pattern q d \<noteq> None \<longleftrightarrow> (\<exists>\<sigma>. psat \<sigma> q d)"
  using match_sound(1) match_complete(1) by fastforce

end
