(* ===== verification/Arbitration.thy ===== *)
theory Arbitration
  imports Matching Storage Serialize "HOL-Library.List_Lexorder" "HOL-Library.Char_ord"
begin

text \<open>
  Conflict arbitration, \<open>factum-rt/src/arbitration.rs\<close>. A comparison is the sign of a difference,
  \<open>-1\<close>, \<open>0\<close> or \<open>1\<close>. A hash map is built as an association list and visited in the order that the
  hashes of its keys give (\<open>visit\<close>), a parameter: every order of its keys is that of some \<open>hash_rank\<close>.
  \<open>None\<close> is the panic of \<open>winners[0]\<close> on an empty list.
\<close>

record query_result =
  qr_node :: node
  qr_bindings :: bindings

datatype conflict_policy =
    LatestWins
  | HighestAuthority
  | Unanimous
  | WeightedVote "(string \<times> f32) list"
  | Custom

datatype arbitration_result = Resolved node | UnanimousResult "node list" | Ambiguous "node list"

section \<open>Keys\<close>

definition join_with :: "string \<Rightarrow> string list \<Rightarrow> string" where
  \<comment> \<open>\<open>[String]::join\<close>\<close>
  "join_with sep xs = (case xs of [] \<Rightarrow> [] | x # r \<Rightarrow> x @ concat (map (\<lambda>y. sep @ y) r))"

definition term_key :: "chrono \<Rightarrow> trm \<Rightarrow> string" where
  "term_key C t =
     (case t of
        TVar s \<Rightarrow> ''var:'' @ s
      | TEnt e \<Rightarrow> ''ent:'' @ e
      | TLit l \<Rightarrow> ''lit:'' @ to_canonical_string C l
      | TCompound _ \<Rightarrow> ''compound''
      | TList _ \<Rightarrow> ''list'')"

definition binding_key :: "chrono \<Rightarrow> bindings \<Rightarrow> string" where
  "binding_key C bs = join_with '','' (sort (map (\<lambda>(nm, t). nm @ ''='' @ term_key C t) bs))"

definition predicate_signature :: "chrono \<Rightarrow> predicate \<Rightarrow> string" where
  "predicate_signature C p = canonical_predicate C p"

definition principal_str :: "provenance \<Rightarrow> string" where
  "principal_str p =
     (case p of
        Asserted b \<Rightarrow> b
      | Extracted _ _ m \<Rightarrow> m_name m
      | Verbatim _ _ \<Rightarrow> ''document''
      | Summary _ _ \<Rightarrow> ''document''
      | Derived _ _ \<Rightarrow> ''derived'')"

definition validity_recency_cmp :: "validity \<Rightarrow> validity \<Rightarrow> int" where
  "validity_recency_cmp a b =
     (case (a, b) of
        (Forever, Forever) \<Rightarrow> 0
      | (Forever, Window _ _) \<Rightarrow> -1
      | (Window _ _, Forever) \<Rightarrow> 1
      | (Window fa _, Window fb _) \<Rightarrow> sgn (fa - fb))"

section \<open>Groups\<close>

fun group_by :: "('a \<Rightarrow> string) \<Rightarrow> 'a list \<Rightarrow> (string \<times> 'a list) list \<Rightarrow> (string \<times> 'a list) list" where
  \<comment> \<open>\<open>for m in matches { groups.entry(key).or_default().push(m) }\<close>\<close>
  "group_by key [] gs = gs"
| "group_by key (m # ms) gs = group_by key ms (push_at (key m) m gs)"

definition visit :: "chrono \<Rightarrow> (string \<times> 'a) list \<Rightarrow> (string \<times> 'a) list" where
  \<comment> \<open>the entries of a hash map in the order of iteration\<close>
  "visit C xs = sort_key (\<lambda>x. hash_rank C (fst x)) xs"

lemma visit_simps [simp]: "visit C [] = []" "visit C [x] = [x]" "set (visit C xs) = set xs"
  by (simp_all add: visit_def)

definition group_by_bindings :: "chrono \<Rightarrow> query_result list \<Rightarrow> (string \<times> query_result list) list" where
  "group_by_bindings C ms = visit C (group_by (\<lambda>m. binding_key C (qr_bindings m)) ms [])"

definition is_var :: "trm \<Rightarrow> bool" where
  "is_var t = (case t of TVar _ \<Rightarrow> True | _ \<Rightarrow> False)"

definition pattern_key :: "chrono \<Rightarrow> predicate \<Rightarrow> string" where
  \<comment> \<open>\<open>group_key\<close>: the head and the ground positions of the pattern\<close>
  "pattern_key C p =
     join_with ''|''
       ((case pr_head p of HeadName nm \<Rightarrow> nm | HeadId _ \<Rightarrow> ''<morpheme-id>'')
        # map (\<lambda>a. if is_var a then ''?'' else term_key C a) (pr_args p)
        @ sort (map (\<lambda>(k, v). if is_var v then k @ ''=?'' else k @ ''='' @ term_key C v) (pr_named p)))"

definition group_by_pattern ::
  "chrono \<Rightarrow> query_result list \<Rightarrow> predicate option \<Rightarrow> (string \<times> query_result list) list" where
  "group_by_pattern C ms pat =
     (case pat of
        None \<Rightarrow> group_by_bindings C ms
      | Some p \<Rightarrow> visit C (group_by (\<lambda>_. pattern_key C p) ms []))"

definition sub_group_by_predicate :: "chrono \<Rightarrow> query_result list \<Rightarrow> query_result list list" where
  "sub_group_by_predicate C g =
     map snd (visit C (group_by (\<lambda>r. predicate_signature C (nd_pred (qr_node r))) g []))"

section \<open>Policies\<close>

fun max_by_from :: "('a \<Rightarrow> 'a \<Rightarrow> int) \<Rightarrow> 'a \<Rightarrow> 'a list \<Rightarrow> 'a" where
  "max_by_from cmp x [] = x"
| "max_by_from cmp x (y # ys) = max_by_from cmp (if 0 < cmp x y then x else y) ys"

definition max_by :: "('a \<Rightarrow> 'a \<Rightarrow> int) \<Rightarrow> 'a list \<Rightarrow> 'a option" where
  \<comment> \<open>\<open>Iterator::max_by\<close>: the last of the greatest\<close>
  "max_by cmp xs = (case xs of [] \<Rightarrow> None | x # r \<Rightarrow> Some (max_by_from cmp x r))"

definition f32_ord :: "f32 \<Rightarrow> f32 \<Rightarrow> int" where
  \<comment> \<open>\<open>partial_cmp(..).unwrap_or(Equal)\<close>\<close>
  "f32_ord a b = (case f32_cmp a b of None \<Rightarrow> 0 | Some v \<Rightarrow> v)"

definition latest_cmp :: "query_result \<Rightarrow> query_result \<Rightarrow> int" where
  "latest_cmp a b =
     (let v = f32_ord (nd_auth (qr_node a)) (nd_auth (qr_node b)) in
      if v \<noteq> 0 then v else validity_recency_cmp (nd_validity (qr_node a)) (nd_validity (qr_node b)))"

definition auth_close :: "f32 \<Rightarrow> query_result \<Rightarrow> bool" where
  \<comment> \<open>\<open>(r.node.authority.0 - a).abs() < 0.001\<close>\<close>
  "auth_close a r \<longleftrightarrow> f32_lt (f32_abs (f32_sub (nd_auth (qr_node r)) a)) (f32_lit 1 3)"

type_synonym outcome = "query_result list \<times> bool"

definition latest_sub :: "query_result list \<Rightarrow> outcome" where
  "latest_sub sub =
     (if length sub = 1 then (sub, False)
      else
        (case max_by latest_cmp sub of
           None \<Rightarrow> ([], False)
         | Some w \<Rightarrow>
             let tied = filter (\<lambda>r. auth_close (nd_auth (qr_node w)) r
                   \<and> validity_recency_cmp (nd_validity (qr_node r)) (nd_validity (qr_node w)) = 0) sub
             in ([w], 1 < length tied)))"

definition highest_sub :: "query_result list \<Rightarrow> outcome option" where
  "highest_sub sub =
     (if length sub = 1 then Some (sub, False)
      else
        let max_auth = foldl f32_max f32_zero (map (\<lambda>r. nd_auth (qr_node r)) sub);
            winners = filter (auth_close max_auth) sub
        in (case winners of
              [] \<Rightarrow> None
            | w # ws \<Rightarrow> Some ([w], ws \<noteq> [])))"

definition unanimous :: "query_result list \<Rightarrow> outcome" where
  "unanimous g =
     (case g of
        [] \<Rightarrow> ([], False)
      | r # rs \<Rightarrow>
          if list_all (\<lambda>x. nd_pred (qr_node x) = nd_pred (qr_node r)) g then ([r], False) else ([], True))"

definition weight_of :: "(string \<times> f32) list \<Rightarrow> query_result \<Rightarrow> f32" where
  "weight_of ws r = (case map_of ws (principal_str (nd_prov (qr_node r))) of None \<Rightarrow> f32_lit 5 1 | Some w \<Rightarrow> w)"

fun tally :: "chrono \<Rightarrow> (string \<times> f32) list \<Rightarrow> query_result list \<Rightarrow> f32 \<times> (string \<times> f32 \<times> query_result) list
    \<Rightarrow> f32 \<times> (string \<times> f32 \<times> query_result) list" where
  \<comment> \<open>total weight, and per signature the weight and the first result\<close>
  "tally C ws [] (tot, pg) = (tot, pg)"
| "tally C ws (r # rs) (tot, pg) =
     (let sig = predicate_signature C (nd_pred (qr_node r)); w = weight_of ws r;
          e = (case map_of pg sig of None \<Rightarrow> (w, r) | Some (tw, r0) \<Rightarrow> (f32_add tw w, r0))
      in tally C ws rs (f32_add tot w, AList.update sig e pg))"

definition weighted_vote :: "chrono \<Rightarrow> (string \<times> f32) list \<Rightarrow> query_result list \<Rightarrow> outcome" where
  "weighted_vote C ws g =
     (case tally C ws g (f32_zero, []) of (tot, pg) \<Rightarrow>
        (case max_by (\<lambda>a b. f32_ord (fst (snd a)) (fst (snd b))) (visit C pg) of
           None \<Rightarrow> ([], True)
         | Some (_, w, r) \<Rightarrow> if f32_lt (f32_mul tot (f32_lit 5 1)) w then ([r], False) else ([], True)))"

fun collect :: "('a \<Rightarrow> outcome option) \<Rightarrow> 'a list \<Rightarrow> outcome option" where
  \<comment> \<open>the results of each group pushed in turn; the flag is set when one group sets it\<close>
  "collect f [] = Some ([], False)"
| "collect f (x # xs) =
     (case f x of
        None \<Rightarrow> None
      | Some (rs, a) \<Rightarrow>
          (case collect f xs of
             None \<Rightarrow> None
           | Some (rs', a') \<Rightarrow> Some (rs @ rs', a \<or> a')))"

definition arbitrate_group :: "chrono \<Rightarrow> conflict_policy \<Rightarrow> query_result list \<Rightarrow> outcome option" where
  "arbitrate_group C policy g =
     (if length g = 1 then Some (g, False)
      else
        (case policy of
           LatestWins \<Rightarrow> collect (\<lambda>sub. Some (latest_sub sub)) (sub_group_by_predicate C g)
         | HighestAuthority \<Rightarrow> collect highest_sub (sub_group_by_predicate C g)
         | Unanimous \<Rightarrow> Some (unanimous g)
         | WeightedVote ws \<Rightarrow> Some (weighted_vote C ws g)
         | Custom \<Rightarrow> Some ([], True)))"

definition arbitrate ::
  "chrono \<Rightarrow> query_result list \<Rightarrow> conflict_policy \<Rightarrow> predicate option \<Rightarrow> outcome option" where
  "arbitrate C ms policy pat =
     (if ms = [] then Some ([], False)
      else collect (\<lambda>(_, g). arbitrate_group C policy g) (group_by_pattern C ms pat))"

section \<open>Groups partition the matches\<close>

lemma group_by_fold: "group_by key ms gs = fold (\<lambda>m. push_at (key m) m) ms gs"
  by (induction key ms gs rule: group_by.induct) simp_all

lemma group_entries:
  "entries_at k (group_by key ms gs) = entries_at k gs @ filter (\<lambda>m. key m = k) ms"
  by (induction key ms gs rule: group_by.induct) auto

lemma group_keys:
  "distinct (map fst gs) \<Longrightarrow> distinct (map fst (group_by key ms gs))"
  by (induction key ms gs rule: group_by.induct) simp_all

lemma group_dom: "fst ` set (group_by key ms gs) = fst ` set gs \<union> key ` set ms"
  by (induction key ms gs rule: group_by.induct) (auto simp: push_at_def dom_update)

lemma group_member:
  "(k, g) \<in> set (group_by key ms []) \<longleftrightarrow> k \<in> key ` set ms \<and> g = filter (\<lambda>m. key m = k) ms"
proof -
  have d: "distinct (map fst (group_by key ms []))" by (simp add: group_keys)
  have e: "entries_at k (group_by key ms []) = filter (\<lambda>m. key m = k) ms" by (simp add: group_entries)
  show ?thesis
  proof
    assume m: "(k, g) \<in> set (group_by key ms [])"
    then have "k \<in> fst ` set (group_by key ms [])" by force
    then show "k \<in> key ` set ms \<and> g = filter (\<lambda>m. key m = k) ms"
      using in_entries [OF d m] e group_dom [of key ms "[]"] by simp
  next
    assume g: "k \<in> key ` set ms \<and> g = filter (\<lambda>m. key m = k) ms"
    then obtain m where "m \<in> set (entries_at k (group_by key ms []))" by (auto simp: e)
    from entries_in [OF this] show "(k, g) \<in> set (group_by key ms [])" using e g by simp
  qed
qed

lemma group_const_aux: "group_by (\<lambda>_. k) ms [(k, g)] = [(k, g @ ms)]"
  by (induction ms arbitrary: g) (simp_all add: push_at_def entries_at_def)

lemma group_const: "ms \<noteq> [] \<Longrightarrow> group_by (\<lambda>_. k) ms [] = [(k, ms)]"
  by (cases ms) (simp_all add: push_at_def entries_at_def group_const_aux)

lemma sub_group_member:
  "g \<in> set (sub_group_by_predicate C ms) \<longleftrightarrow>
     (\<exists>r \<in> set ms. g = filter (\<lambda>m. predicate_signature C (nd_pred (qr_node m))
        = predicate_signature C (nd_pred (qr_node r))) ms)"
  using group_member [of _ g "\<lambda>r. predicate_signature C (nd_pred (qr_node r))" ms]
  by (force simp: sub_group_by_predicate_def image_iff)

text \<open>With a pattern there is one group, so arbitration is that group's.\<close>

lemma arbitrate_pattern:
  "ms \<noteq> [] \<Longrightarrow> arbitrate C ms policy (Some p) = arbitrate_group C policy ms"
  by (simp add: arbitrate_def group_by_pattern_def group_const split: option.split prod.split)

lemma collect_None: "collect f xs = None \<longleftrightarrow> (\<exists>x \<in> set xs. f x = None)"
  by (induction xs) (auto split: option.splits)

lemma collect_Some:
  assumes "collect f xs = Some (rs, a)"
  shows "r \<in> set rs \<longleftrightarrow> (\<exists>x \<in> set xs. \<exists>ys b. f x = Some (ys, b) \<and> r \<in> set ys)"
    "a \<longleftrightarrow> (\<exists>x \<in> set xs. \<exists>ys. f x = Some (ys, True))"
proof -
  have "(\<forall>r. r \<in> set rs \<longleftrightarrow> (\<exists>x \<in> set xs. \<exists>ys b. f x = Some (ys, b) \<and> r \<in> set ys))
    \<and> (a \<longleftrightarrow> (\<exists>x \<in> set xs. \<exists>ys. f x = Some (ys, True)))"
    using assms
  proof (induction xs arbitrary: rs a)
    case (Cons x xs)
    then obtain ys b rs' a' where "f x = Some (ys, b)" "collect f xs = Some (rs', a')" "rs = ys @ rs'" "a \<longleftrightarrow> b \<or> a'"
      by (simp split: option.splits prod.splits)
    then show ?case using Cons.IH [of rs' a'] by auto
  qed simp
  then show "r \<in> set rs \<longleftrightarrow> (\<exists>x \<in> set xs. \<exists>ys b. f x = Some (ys, b) \<and> r \<in> set ys)"
    "a \<longleftrightarrow> (\<exists>x \<in> set xs. \<exists>ys. f x = Some (ys, True))" by simp_all
qed


lemma max_by_from_in: "max_by_from cmp x ys \<in> insert x (set ys)"
  by (induction cmp x ys rule: max_by_from.induct) (auto split: if_splits)

lemma max_by_in: "max_by cmp xs = Some w \<Longrightarrow> w \<in> set xs"
proof (cases xs)
  case (Cons x ys)
  moreover assume "max_by cmp xs = Some w"
  ultimately show ?thesis using max_by_from_in [of cmp x ys] by (auto simp: max_by_def)
qed (simp add: max_by_def)

lemma max_by_Some: "xs \<noteq> [] \<Longrightarrow> \<exists>w. max_by cmp xs = Some w"
  by (cases xs) (simp_all add: max_by_def)

text \<open>On a total preorder the result is not below any element.\<close>

definition preorder_on_list :: "('a \<Rightarrow> 'a \<Rightarrow> int) \<Rightarrow> 'a set \<Rightarrow> bool" where
  "preorder_on_list cmp A \<longleftrightarrow>
     (\<forall>x \<in> A. \<forall>y \<in> A. cmp y x = - cmp x y)
     \<and> (\<forall>x \<in> A. \<forall>y \<in> A. \<forall>z \<in> A. cmp x y \<le> 0 \<longrightarrow> cmp y z \<le> 0 \<longrightarrow> cmp x z \<le> 0)"

lemma preorder_on_list_subset: "preorder_on_list cmp B \<Longrightarrow> A \<subseteq> B \<Longrightarrow> preorder_on_list cmp A"
  unfolding preorder_on_list_def by (meson subsetD)

lemma preorder_trans:
  "preorder_on_list cmp A \<Longrightarrow> x \<in> A \<Longrightarrow> y \<in> A \<Longrightarrow> z \<in> A \<Longrightarrow> cmp x y \<le> 0 \<Longrightarrow> cmp y z \<le> 0 \<Longrightarrow> cmp x z \<le> 0"
  unfolding preorder_on_list_def by blast

lemma max_by_from_max:
  "preorder_on_list cmp (insert x (set ys)) \<Longrightarrow>
    \<forall>z \<in> insert x (set ys). cmp z (max_by_from cmp x ys) \<le> 0"
proof (induction cmp x ys rule: max_by_from.induct)
  case (1 cmp x)
  then have "cmp x x = - cmp x x" by (auto simp: preorder_on_list_def)
  then show ?case by simp
next
  case (2 cmp x y ys)
  let ?w = "if 0 < cmp x y then x else y"
  have sub: "preorder_on_list cmp (insert ?w (set ys))"
    using 2(2) by (rule preorder_on_list_subset) auto
  let ?m = "max_by_from cmp ?w ys"
  have IH: "\<forall>z \<in> insert ?w (set ys). cmp z ?m \<le> 0" using 2(1) [OF sub] .
  have m: "?m \<in> insert x (insert y (set ys))" using max_by_from_in [of cmp ?w ys] by (auto split: if_splits)
  have anti: "cmp y x = - cmp x y" "cmp x x = - cmp x x" "cmp y y = - cmp y y"
    using 2(2) unfolding preorder_on_list_def list.set by blast+
  have A: "insert x (set (y # ys)) = insert x (insert y (set ys))" by simp
  note trans = preorder_trans [OF 2(2) [unfolded A]]
  have w: "?w \<in> insert x (insert y (set ys))" "cmp ?w ?m \<le> 0" using IH by auto
  have "cmp x ?w \<le> 0 \<and> cmp y ?w \<le> 0"
    using anti by (cases "0 < cmp x y"; simp only: if_True if_False; linarith)
  then have "cmp x ?m \<le> 0" "cmp y ?m \<le> 0"
    using trans [OF _ w(1) m _ w(2)] by simp_all
  then show ?case using IH by auto
qed

lemma max_by_max:
  assumes "max_by cmp xs = Some w" "preorder_on_list cmp (set xs)" "x \<in> set xs"
  shows "cmp x w \<le> 0"
  using assms max_by_from_max [of cmp "hd xs" "tl xs"] by (cases xs) (auto simp: max_by_def)

end
