(* ===== verification/Arbitration_Facts.thy ===== *)
theory Arbitration_Facts
  imports Arbitration Calibration
begin

text \<open>
  What the arbitration policies guarantee: results come from the matches; the agreement-based
  policies answer with one result or refuse; the authority-based ones answer once for every distinct
  predicate, with a result no competitor beats.
\<close>

section \<open>Orders\<close>

lemma sgn_trans: "sgn (a - b) \<le> 0 \<Longrightarrow> sgn (b - c) \<le> 0 \<Longrightarrow> sgn (a - c) \<le> (0::int)"
  by (simp add: sgn_if split: if_splits)

lemma f32_ord_simps:
  "f32_ord (F32_Inf s) (F32_Inf t) = (if s = t then 0 else if s then -1 else 1)"
  "f32_ord (F32_Inf s) (F32_Fin t k) = (if s then -1 else 1)"
  "f32_ord (F32_Fin t k) (F32_Inf s) = (if s then 1 else -1)"
  "f32_ord (F32_Fin s k) (F32_Fin t l) = sgn (f32_sval (F32_Fin s k) - f32_sval (F32_Fin t l))"
  by (simp_all add: f32_ord_def)

lemma sgn_minus_swap: "sgn (b - a) = - sgn (a - b :: int)"
  by (simp add: sgn_if)

lemma f32_ord_anti: "f32_ord b a = - f32_ord a b"
  using sgn_minus_swap [of "f32_sval b" "f32_sval a"]
  by (cases a; cases b) (simp_all add: f32_ord_def del: f32_sval.simps)

lemma f32_ord_trans:
  "b \<noteq> F32_NaN \<Longrightarrow> f32_ord a b \<le> 0 \<Longrightarrow> f32_ord b c \<le> 0 \<Longrightarrow> a \<noteq> F32_NaN \<Longrightarrow> c \<noteq> F32_NaN \<Longrightarrow> f32_ord a c \<le> 0"
  by (cases a; cases b; cases c; simp add: f32_ord_simps del: f32_sval.simps split: if_splits; metis sgn_trans)

lemma recency_anti: "validity_recency_cmp b a = - validity_recency_cmp a b"
  by (cases a; cases b; simp add: validity_recency_cmp_def sgn_if)

lemma recency_trans:
  "validity_recency_cmp a b \<le> 0 \<Longrightarrow> validity_recency_cmp b c \<le> 0 \<Longrightarrow> validity_recency_cmp a c \<le> 0"
  by (cases a; cases b; cases c; simp add: validity_recency_cmp_def sgn_if split: if_splits)

abbreviation auth_of :: "query_result \<Rightarrow> f32" where
  "auth_of r \<equiv> nd_auth (qr_node r)"

lemma latest_anti: "latest_cmp b a = - latest_cmp a b"
  by (simp add: latest_cmp_def Let_def f32_ord_anti [of "auth_of b"] recency_anti [of "nd_validity (qr_node b)"])

lemma f32_ord_zero_trans:
  assumes "a \<noteq> F32_NaN" "b \<noteq> F32_NaN" "c \<noteq> F32_NaN" "f32_ord a b \<le> 0" "f32_ord b c \<le> 0" "f32_ord a c = 0"
  shows "f32_ord a b = 0 \<and> f32_ord b c = 0"
proof -
  have "f32_ord c a \<le> 0" using assms(6) f32_ord_anti [of c a] by simp
  then have "f32_ord c b \<le> 0" "f32_ord b a \<le> 0"
    using f32_ord_trans [of a c b] f32_ord_trans [of c b a] assms by blast+
  then show ?thesis using f32_ord_anti [of b c] f32_ord_anti [of a b] assms(4,5) by linarith
qed

lemma latest_trans:
  assumes "auth_of a \<noteq> F32_NaN" "auth_of b \<noteq> F32_NaN" "auth_of c \<noteq> F32_NaN"
    "latest_cmp a b \<le> 0" "latest_cmp b c \<le> 0"
  shows "latest_cmp a c \<le> 0"
proof -
  have ab: "f32_ord (auth_of a) (auth_of b) \<le> 0" and bc: "f32_ord (auth_of b) (auth_of c) \<le> 0"
    using assms(4,5) by (auto simp: latest_cmp_def Let_def split: if_splits)
  have ac: "f32_ord (auth_of a) (auth_of c) \<le> 0" using f32_ord_trans [OF assms(2) ab bc assms(1,3)] .
  show ?thesis
  proof (cases "f32_ord (auth_of a) (auth_of c) = 0")
    case True
    then have "f32_ord (auth_of a) (auth_of b) = 0" "f32_ord (auth_of b) (auth_of c) = 0"
      using f32_ord_zero_trans [OF assms(1-3) ab bc] by simp_all
    then show ?thesis
      using True assms(4,5) recency_trans by (simp add: latest_cmp_def)
  next
    case False
    then show ?thesis using ac by (simp add: latest_cmp_def)
  qed
qed

lemma latest_preorder:
  "(\<And>r. r \<in> A \<Longrightarrow> auth_of r \<noteq> F32_NaN) \<Longrightarrow> preorder_on_list latest_cmp A"
  unfolding preorder_on_list_def by (meson latest_anti latest_trans)

section \<open>Results are matches\<close>

lemma sub_group_subset: "g \<in> set (sub_group_by_predicate C ms) \<Longrightarrow> set g \<subseteq> set ms \<and> g \<noteq> []"
  unfolding sub_group_member by (auto simp: filter_empty_conv)

lemma latest_sub_in: "latest_sub sub = (rs, a) \<Longrightarrow> set rs \<subseteq> set sub"
  by (auto simp: latest_sub_def Let_def dest: max_by_in split: if_splits option.splits)

lemma highest_sub_in: "highest_sub sub = Some (rs, a) \<Longrightarrow> set rs \<subseteq> set sub"
  by (auto simp: highest_sub_def Let_def filter_eq_Cons_iff split: if_splits list.splits)

lemma unanimous_in: "unanimous g = (rs, a) \<Longrightarrow> set rs \<subseteq> set g"
  by (auto simp: unanimous_def split: if_splits list.splits)

text \<open>The tally, per signature.\<close>

abbreviation sig_of :: "chrono \<Rightarrow> query_result \<Rightarrow> string" where
  "sig_of C r \<equiv> predicate_signature C (nd_pred (qr_node r))"

definition sum_weights :: "(string \<times> f32) list \<Rightarrow> query_result list \<Rightarrow> f32" where
  \<comment> \<open>the weights added in the order of the results\<close>
  "sum_weights ws g = (case g of [] \<Rightarrow> f32_zero | r # rs \<Rightarrow> foldl f32_add (weight_of ws r) (map (weight_of ws) rs))"

lemma sum_weights_snoc:
  "g \<noteq> [] \<Longrightarrow> sum_weights ws (g @ [r]) = f32_add (sum_weights ws g) (weight_of ws r)"
  by (cases g) (simp_all add: sum_weights_def)

definition tally_entry :: "chrono \<Rightarrow> (string \<times> f32) list \<Rightarrow> query_result list \<Rightarrow> string \<Rightarrow> (f32 \<times> query_result) option" where
  "tally_entry C ws g sig =
     (case filter (\<lambda>r. sig_of C r = sig) g of [] \<Rightarrow> None | r # rs \<Rightarrow> Some (sum_weights ws (r # rs), r))"

lemma tally_spec_aux:
  "map_of pg = tally_entry C ws done_rs \<Longrightarrow> tot = foldl f32_add f32_zero (map (weight_of ws) done_rs) \<Longrightarrow>
    tally C ws g (tot, pg) = (tot', pg') \<Longrightarrow>
    tot' = foldl f32_add f32_zero (map (weight_of ws) (done_rs @ g)) \<and> map_of pg' = tally_entry C ws (done_rs @ g)"
proof (induction g arbitrary: tot pg done_rs)
  case (Cons r g)
  let ?sig = "sig_of C r" and ?w = "weight_of ws r"
  let ?e = "case map_of pg ?sig of None \<Rightarrow> (?w, r) | Some (tw, r0) \<Rightarrow> (f32_add tw ?w, r0)"
  have e: "tally_entry C ws (done_rs @ [r]) ?sig = Some ?e"
    using sum_weights_snoc [of "filter (\<lambda>x. sig_of C x = ?sig) done_rs" ws r]
    unfolding Cons.prems(1)
    by (cases "filter (\<lambda>x. sig_of C x = ?sig) done_rs") (auto simp: tally_entry_def sum_weights_def)
  have "map_of (AList.update ?sig ?e pg) = tally_entry C ws (done_rs @ [r])"
  proof
    fix s
    show "map_of (AList.update ?sig ?e pg) s = tally_entry C ws (done_rs @ [r]) s"
      using e by (cases "s = ?sig") (simp_all add: update_conv Cons.prems(1), simp add: tally_entry_def)
  qed
  from Cons.IH [OF this, of "f32_add tot ?w"] show ?case
    using Cons.prems(2,3) by (simp add: Let_def)
qed (simp add: tally_entry_def)

lemma tally_spec:
  "tally C ws g (f32_zero, []) = (tot, pg) \<Longrightarrow>
    tot = foldl f32_add f32_zero (map (weight_of ws) g) \<and> map_of pg = tally_entry C ws g"
proof -
  have "map_of [] = tally_entry C ws []" by (rule ext) (simp add: tally_entry_def)
  from tally_spec_aux [OF this, of f32_zero g tot pg]
  show "tally C ws g (f32_zero, []) = (tot, pg) \<Longrightarrow>
    tot = foldl f32_add f32_zero (map (weight_of ws) g) \<and> map_of pg = tally_entry C ws g" by simp
qed

lemma tally_distinct: "distinct (map fst pg) \<Longrightarrow> distinct (map fst (snd (tally C ws g (tot, pg))))"
  by (induction g arbitrary: tot pg) (simp_all add: Let_def distinct_update)

lemma weighted_vote_cases:
  assumes "weighted_vote C ws g = (rs, a)"
  shows "a \<and> rs = [] \<or>
    \<not> a \<and> (\<exists>r rest. rs = [r] \<and> filter (\<lambda>x. sig_of C x = sig_of C r) g = r # rest
       \<and> f32_lt (f32_mul (foldl f32_add f32_zero (map (weight_of ws) g)) (f32_lit 5 1)) (sum_weights ws (r # rest)))"
proof -
  obtain tot pg where t: "tally C ws g (f32_zero, []) = (tot, pg)" by (meson surj_pair)
  note spec = tally_spec [OF t]
  consider "a" "rs = []"
    | sig w r where "max_by (\<lambda>a b. f32_ord (fst (snd a)) (fst (snd b))) (visit C pg) = Some (sig, w, r)"
        "f32_lt (f32_mul tot (f32_lit 5 1)) w" "rs = [r]" "\<not> a"
    using assms by (auto simp: weighted_vote_def t split: option.splits if_splits prod.splits)
  then show ?thesis
  proof cases
    case 2
    have d: "distinct (map fst pg)" using tally_distinct [of "[]" C ws g f32_zero] t by simp
    have "map_of pg sig = Some (w, r)" using max_by_in [OF 2(1)] d by simp
    then have "tally_entry C ws g sig = Some (w, r)" using spec by simp
    then obtain rest where f: "filter (\<lambda>r. sig_of C r = sig) g = r # rest" "w = sum_weights ws (r # rest)"
      by (auto simp: tally_entry_def split: list.splits)
    then have "sig = sig_of C r" by (auto simp: filter_eq_Cons_iff)
    then show ?thesis using f 2 spec by auto
  qed simp
qed

definition supporters :: "chrono \<Rightarrow> query_result list \<Rightarrow> query_result \<Rightarrow> query_result list" where
  \<comment> \<open>the results with the predicate of \<open>r\<close>\<close>
  "supporters C g r = filter (\<lambda>x. sig_of C x = sig_of C r) g"

definition majority :: "chrono \<Rightarrow> (string \<times> f32) list \<Rightarrow> query_result list \<Rightarrow> query_result \<Rightarrow> bool" where
  \<comment> \<open>the weights of those who support the predicate of \<open>r\<close> exceed half of all the weights\<close>
  "majority C ws g r \<longleftrightarrow>
     f32_lt (f32_mul (foldl f32_add f32_zero (map (weight_of ws) g)) (f32_lit 5 1)) (sum_weights ws (supporters C g r))"

lemma f32_lt_ord_trans: "f32_lt x a \<Longrightarrow> f32_ord a b \<le> 0 \<Longrightarrow> b \<noteq> F32_NaN \<Longrightarrow> f32_lt x b"
  by (cases x; cases a; cases b; simp add: f32_lt_def f32_ord_simps del: f32_sval.simps split: if_splits;
      simp add: sgn_if del: f32_sval.simps split: if_splits)

lemma weighted_vote_decides:
  assumes v: "weighted_vote C ws g = (rs, a)" and r: "r \<in> set g" "majority C ws g r"
    and numbers: "\<And>x. x \<in> set g \<Longrightarrow> sum_weights ws (supporters C g x) \<noteq> F32_NaN"
  shows "\<not> a"
proof -
  obtain tot pg where t: "tally C ws g (f32_zero, []) = (tot, pg)" by (meson surj_pair)
  note spec = tally_spec [OF t]
  let ?cmp = "\<lambda>a b. f32_ord (fst (snd a)) (fst (snd b))"
  have entry: "\<exists>x \<in> set g. s = sig_of C x \<and> w = sum_weights ws (supporters C g x)" if "(s, w, x) \<in> set pg" for s w x
  proof -
    have "distinct (map fst pg)" using tally_distinct [of "[]" C ws g f32_zero] t by simp
    then have "map_of pg s = Some (w, x)" using that by (rule map_of_is_SomeI)
    then have "tally_entry C ws g s = Some (w, x)" using spec by simp
    then obtain rest where f: "filter (\<lambda>r. sig_of C r = s) g = x # rest" "w = sum_weights ws (x # rest)"
      by (auto simp: tally_entry_def split: list.splits)
    then show ?thesis by (intro bexI [of _ x]) (auto simp: filter_eq_Cons_iff supporters_def)
  qed
  then have nan: "fst (snd e) \<noteq> F32_NaN" if "e \<in> set pg" for e
    using entry [of "fst e" "fst (snd e)" "snd (snd e)"] that numbers by (metis prod.collapse)
  then have pre: "preorder_on_list ?cmp (set pg)"
    unfolding preorder_on_list_def using f32_ord_anti f32_ord_trans by blast
  obtain y ys where "supporters C g r = y # ys" using r(1) by (cases "supporters C g r") (auto simp: supporters_def filter_empty_conv)
  then have e: "(sig_of C r, sum_weights ws (supporters C g r), y) \<in> set pg"
    using spec by (intro map_of_SomeD) (simp add: tally_entry_def supporters_def)
  then have "visit C pg \<noteq> []" by (metis empty_iff empty_set visit_simps(3))
  then obtain w where w: "max_by ?cmp (visit C pg) = Some w" using max_by_Some by blast
  from max_by_max [OF w] pre e have "f32_ord (sum_weights ws (supporters C g r)) (fst (snd w)) \<le> 0" by fastforce
  then have "f32_lt (f32_mul tot (f32_lit 5 1)) (fst (snd w))"
    using r(2) nan max_by_in [OF w] spec f32_lt_ord_trans by (auto simp: majority_def)
  then show ?thesis using v w by (auto simp: weighted_vote_def t split: prod.splits)
qed

lemma weighted_vote_in: "weighted_vote C ws g = (rs, a) \<Longrightarrow> set rs \<subseteq> set g"
  using weighted_vote_cases [of C ws g rs a] by (auto simp: filter_eq_Cons_iff)

lemma collect_in:
  assumes "collect f (sub_group_by_predicate C g) = Some (rs, a)"
    "\<And>sub ys b. f sub = Some (ys, b) \<Longrightarrow> set ys \<subseteq> set sub"
  shows "set rs \<subseteq> set g"
proof
  fix r assume "r \<in> set rs"
  then obtain sub ys b where "sub \<in> set (sub_group_by_predicate C g)" "f sub = Some (ys, b)" "r \<in> set ys"
    using collect_Some(1) [OF assms(1)] by blast
  then show "r \<in> set g" using assms(2) sub_group_subset by blast
qed

lemma arbitrate_group_in: "arbitrate_group C policy g = Some (rs, a) \<Longrightarrow> set rs \<subseteq> set g"
proof (cases "length g = 1")
  case False
  assume a: "arbitrate_group C policy g = Some (rs, a)"
  show ?thesis
  proof (cases policy)
    case LatestWins
    then have "collect (\<lambda>sub. Some (latest_sub sub)) (sub_group_by_predicate C g) = Some (rs, a)"
      using a False by (simp add: arbitrate_group_def)
    then show ?thesis by (rule collect_in) (auto dest: subsetD [OF latest_sub_in])
  next
    case HighestAuthority
    then have "collect highest_sub (sub_group_by_predicate C g) = Some (rs, a)"
      using a False by (simp add: arbitrate_group_def)
    then show ?thesis by (rule collect_in) (rule highest_sub_in)
  next
    case Unanimous
    then show ?thesis using a False unanimous_in by (simp add: arbitrate_group_def)
  next
    case (WeightedVote ws)
    then show ?thesis using a False weighted_vote_in by (simp add: arbitrate_group_def)
  next
    case Custom
    then show ?thesis using a False by (simp add: arbitrate_group_def)
  qed
qed (simp add: arbitrate_group_def)

lemma arbitrate_in: "arbitrate C ms policy pat = Some (rs, a) \<Longrightarrow> set rs \<subseteq> set ms"
proof (cases "ms = []")
  case False
  assume arb: "arbitrate C ms policy pat = Some (rs, a)"
  have sub: "set g \<subseteq> set ms" if "(k, g) \<in> set (group_by_pattern C ms pat)" for k g
    using that by (cases pat) (auto simp: group_by_pattern_def group_by_bindings_def group_member)
  from arb False have c: "collect (\<lambda>(_, g). arbitrate_group C policy g) (group_by_pattern C ms pat) = Some (rs, a)"
    by (simp add: arbitrate_def)
  show ?thesis
  proof
    fix r assume "r \<in> set rs"
    then obtain k g ys b where "(k, g) \<in> set (group_by_pattern C ms pat)"
      "arbitrate_group C policy g = Some (ys, b)" "r \<in> set ys"
      using collect_Some(1) [OF c] by auto
    then show "r \<in> set ms" using arbitrate_group_in sub by blast
  qed
qed (simp add: arbitrate_def)


section \<open>Agreement-based policies answer once or refuse\<close>

definition agreement_policy :: "conflict_policy \<Rightarrow> bool" where
  "agreement_policy p = (case p of LatestWins \<Rightarrow> False | HighestAuthority \<Rightarrow> False | _ \<Rightarrow> True)"

lemma unanimous_shape: "unanimous g = (rs, a) \<Longrightarrow> g \<noteq> [] \<Longrightarrow> if a then rs = [] else length rs = 1"
  by (auto simp: unanimous_def split: if_splits list.splits)

lemma agreement_shape:
  assumes "agreement_policy policy" "ms \<noteq> []"
  obtains rs a where "arbitrate C ms policy (Some p) = Some (rs, a)" "if a then rs = [] else length rs = 1"
proof (cases "length ms = 1")
  case True
  then show ?thesis using that assms(2) by (simp add: arbitrate_pattern arbitrate_group_def)
next
  case False
  show ?thesis
  proof (cases policy)
    case Unanimous
    then show ?thesis
      using that False assms(2) unanimous_shape [of ms] by (cases "unanimous ms") (simp add: arbitrate_pattern arbitrate_group_def)
  next
    case (WeightedVote ws)
    then show ?thesis
      using that False assms(2) weighted_vote_cases [of C ws ms]
      by (cases "weighted_vote C ws ms") (fastforce simp: arbitrate_pattern arbitrate_group_def)
  next
    case Custom
    then show ?thesis using that False assms(2) by (simp add: arbitrate_pattern arbitrate_group_def)
  qed (use assms in \<open>simp_all add: agreement_policy_def\<close>)
qed

section \<open>Authority-based policies\<close>

lemma latest_sub_max:
  assumes "sub \<noteq> []" "\<And>r. r \<in> set sub \<Longrightarrow> auth_of r \<noteq> F32_NaN"
  obtains w a where "latest_sub sub = ([w], a)" "w \<in> set sub" "\<And>r. r \<in> set sub \<Longrightarrow> latest_cmp r w \<le> 0"
proof (cases "length sub = 1")
  case True
  then obtain w where w: "sub = [w]" by (auto simp: length_Suc_conv)
  have "latest_cmp w w \<le> 0" using latest_anti [of w w] by simp
  then show ?thesis using that [of w False] w by (simp add: latest_sub_def)
next
  case False
  obtain x ys where xs: "sub = x # ys" using assms(1) by (cases sub) auto
  obtain w where w: "max_by latest_cmp sub = Some w" using max_by_Some [OF assms(1)] by blast
  have "preorder_on_list latest_cmp (insert x (set ys))" using assms(2) xs by (intro latest_preorder) auto
  from max_by_from_max [OF this] have "\<And>r. r \<in> set sub \<Longrightarrow> latest_cmp r w \<le> 0"
    using w by (auto simp: max_by_def xs)
  then show ?thesis using that max_by_in [OF w] w False by (simp add: latest_sub_def Let_def)
qed

lemma sub_groups_cover: "r \<in> set ms \<Longrightarrow> filter (\<lambda>m. sig_of C m = sig_of C r) ms \<in> set (sub_group_by_predicate C ms)"
  unfolding sub_group_member by blast

lemma sub_group_same_sig:
  "g \<in> set (sub_group_by_predicate C ms) \<Longrightarrow> r \<in> set g \<Longrightarrow> g = filter (\<lambda>m. sig_of C m = sig_of C r) ms"
  unfolding sub_group_member by auto

text \<open>\<open>LatestWins\<close>: for every match there is a result with its predicate that it does not beat.\<close>

lemma latest_wins_group:
  assumes "\<And>r. r \<in> set ms \<Longrightarrow> auth_of r \<noteq> F32_NaN" "ms \<noteq> []"
  obtains rs a where "arbitrate_group C LatestWins ms = Some (rs, a)" "set rs \<subseteq> set ms"
    "\<And>m. m \<in> set ms \<Longrightarrow> \<exists>w \<in> set rs. sig_of C w = sig_of C m \<and> latest_cmp m w \<le> 0"
    "\<And>w m. w \<in> set rs \<Longrightarrow> m \<in> set ms \<Longrightarrow> sig_of C m = sig_of C w \<Longrightarrow> latest_cmp m w \<le> 0"
proof (cases "length ms = 1")
  case True
  then obtain w where "ms = [w]" by (auto simp: length_Suc_conv)
  moreover have "latest_cmp w w \<le> 0" using latest_anti [of w w] by simp
  ultimately show ?thesis using that [of ms False] by (simp add: arbitrate_group_def)
next
  case False
  let ?f = "\<lambda>sub. Some (latest_sub sub)" and ?gs = "sub_group_by_predicate C ms"
  obtain rs a where c: "collect ?f ?gs = Some (rs, a)"
    using collect_None [of ?f ?gs] by (cases "collect ?f ?gs") auto
  then have arb: "arbitrate_group C LatestWins ms = Some (rs, a)" using False by (simp add: arbitrate_group_def)
  have best: "\<exists>w a. latest_sub g = ([w], a) \<and> w \<in> set g \<and> (\<forall>r \<in> set g. latest_cmp r w \<le> 0)" if "g \<in> set ?gs" for g
  proof -
    have "set g \<subseteq> set ms" "g \<noteq> []" using sub_group_subset [OF that] by auto
    then show ?thesis using latest_sub_max [of g] assms(1) by (metis subset_iff)
  qed
  have covered: "\<exists>w \<in> set rs. sig_of C w = sig_of C m \<and> latest_cmp m w \<le> 0" if m: "m \<in> set ms" for m
  proof -
    let ?g = "filter (\<lambda>x. sig_of C x = sig_of C m) ms"
    obtain w b where w: "latest_sub ?g = ([w], b)" "w \<in> set ?g" "\<forall>r \<in> set ?g. latest_cmp r w \<le> 0"
      using best [OF sub_groups_cover [OF m]] by blast
    then have "w \<in> set rs" using collect_Some(1) [OF c, of w] sub_groups_cover [OF m] by fastforce
    then show ?thesis using w m by auto
  qed
  have beats: "latest_cmp m w \<le> 0" if r: "w \<in> set rs" "m \<in> set ms" "sig_of C m = sig_of C w" for w m
  proof -
    obtain g ys b where g: "g \<in> set ?gs" "latest_sub g = (ys, b)" "w \<in> set ys"
      using collect_Some(1) [OF c, of w] r(1) by auto
    then have w: "w \<in> set g" "\<forall>r \<in> set g. latest_cmp r w \<le> 0" using best [OF g(1)] by auto
    have "m \<in> set g" using sub_group_same_sig [OF g(1) w(1)] r(2,3) by simp
    then show ?thesis using w(2) by blast
  qed
  show ?thesis using that [OF arb arbitrate_group_in [OF arb] covered beats] .
qed

text \<open>\<open>HighestAuthority\<close>: with authorities in the unit interval it never panics.\<close>

lemma in_unit_nn: "in_unit v \<Longrightarrow> v \<noteq> F32_NaN"
  by (cases v) (simp_all add: in_unit_def f32_le_def f32_zero_def)

lemma f32_le_ord: "a \<noteq> F32_NaN \<Longrightarrow> b \<noteq> F32_NaN \<Longrightarrow> f32_le a b \<longleftrightarrow> f32_ord a b \<le> 0"
  by (cases a; cases b) (auto simp: f32_le_def f32_ord_def sgn_if)

lemma f32_lt_ord: "a \<noteq> F32_NaN \<Longrightarrow> b \<noteq> F32_NaN \<Longrightarrow> f32_lt a b \<longleftrightarrow> f32_ord a b < 0"
  by (cases a; cases b) (auto simp: f32_lt_def f32_ord_def sgn_if)

lemma f32_max_le: "a \<noteq> F32_NaN \<Longrightarrow> m \<noteq> F32_NaN \<Longrightarrow> f32_le m (f32_max m a) \<and> f32_le a (f32_max m a)"
  using f32_ord_anti [of m a] f32_ord_anti [of a a] f32_ord_anti [of m m]
  by (simp add: f32_max_def f32_le_ord f32_lt_ord)

lemma unit_max:
  assumes "\<And>a. a \<in> set as \<Longrightarrow> in_unit a" "in_unit m"
  shows "in_unit (foldl f32_max m as) \<and> foldl f32_max m as \<in> insert m (set as)
    \<and> f32_le m (foldl f32_max m as) \<and> (\<forall>a \<in> set as. f32_le a (foldl f32_max m as))"
  using assms
proof (induction as arbitrary: m)
  case Nil
  then show ?case using f32_ord_anti [of m m] in_unit_nn [of m] by (simp add: f32_le_ord)
next
  case (Cons a as)
  have nn: "a \<noteq> F32_NaN" "m \<noteq> F32_NaN" using Cons.prems in_unit_nn by auto
  have u: "in_unit (f32_max m a)" "f32_max m a = m \<or> f32_max m a = a"
    using Cons.prems by (auto simp: f32_max_def)
  have as: "\<And>a. a \<in> set as \<Longrightarrow> in_unit a" using Cons.prems(1) by simp
  note IH = Cons.IH [OF as u(1)]
  then have "f32_le m (foldl f32_max m (a # as))" "f32_le a (foldl f32_max m (a # as))"
    using f32_max_le [OF nn] f32_le_trans by auto
  then show ?case using IH u(2) by auto
qed

lemma small_positive: "f32_lt (F32_Fin False 0) (f32_lit 1 3)"
  by code_simp

lemma close_zero: "f32_sval a = f32_sval (auth_of r) \<Longrightarrow> in_unit a \<Longrightarrow> f32_wf a \<Longrightarrow>
    in_unit (auth_of r) \<Longrightarrow> f32_wf (auth_of r) \<Longrightarrow> auth_close a r"
proof -
  assume a: "f32_sval a = f32_sval (auth_of r)" "in_unit a" "f32_wf a" "in_unit (auth_of r)" "f32_wf (auth_of r)"
  obtain s k t l where k: "auth_of r = F32_Fin s k" "a = F32_Fin t l" using in_unit_iff a by metis
  have "f32_sub (auth_of r) a = F32_Fin (s \<and> \<not> t) 0"
    using a(1) by (cases s; cases t) (simp_all add: k f32_sub_def)
  then show ?thesis using small_positive by (simp add: auth_close_def)
qed

lemma highest_sub_winner:
  assumes "sub \<noteq> []" "\<And>r. r \<in> set sub \<Longrightarrow> in_unit (auth_of r) \<and> f32_wf (auth_of r)"
  obtains w a m where "highest_sub sub = Some ([w], a)" "w \<in> set sub" "m \<in> set sub \<or> m = w"
    "\<And>r. r \<in> set sub \<Longrightarrow> f32_le (auth_of r) (auth_of m)" "length sub \<noteq> 1 \<Longrightarrow> \<exists>x. f32_sval x = f32_sval (auth_of m) \<and> auth_close x w"
proof -
  let ?as = "map auth_of sub" let ?max = "foldl f32_max f32_zero ?as"
  have z: "in_unit f32_zero" "f32_wf f32_zero" by code_simp+
  have u: "in_unit a" if "a \<in> set ?as" for a using that assms(2) by auto
  note m = unit_max [of ?as f32_zero, OF u z(1)]
  obtain r0 where r0: "r0 \<in> set sub" using assms(1) by (cases sub) auto
  have "\<exists>r \<in> set sub. f32_sval ?max = f32_sval (auth_of r) \<and> f32_wf ?max \<and> (\<forall>x \<in> set sub. f32_le (auth_of x) (auth_of r))"
  proof (cases "?max \<in> set ?as")
    case True
    then show ?thesis using m assms(2) by auto
  next
    case False
    then have mz: "?max = f32_zero" using m by blast
    have zero: "\<exists>s. auth_of r = F32_Fin s 0" if rin: "r \<in> set sub" for r
    proof -
      obtain s k where "auth_of r = F32_Fin s k" "s \<longrightarrow> k = 0" "0 \<le> k"
        using assms(2) [OF rin] in_unit_iff unfolding f32_repr_def by blast
      moreover have "f32_le (auth_of r) f32_zero" using m rin unfolding mz by auto
      ultimately show ?thesis by (auto simp: f32_zero_def f32_le_def sgn_if split: if_splits)
    qed
    have "f32_le (auth_of x) (auth_of r0)" if "x \<in> set sub" for x
      using zero [OF that] zero [OF r0] by (auto simp: f32_le_def split: if_splits)
    then show ?thesis using r0 zero [OF r0] z(2) by (auto simp: mz) (auto simp: f32_zero_def intro!: bexI [of _ r0])
  qed
  then obtain m' where m': "m' \<in> set sub" "f32_sval ?max = f32_sval (auth_of m')" "f32_wf ?max"
    "\<And>x. x \<in> set sub \<Longrightarrow> f32_le (auth_of x) (auth_of m')" by blast
  show ?thesis
  proof (cases "length sub = 1")
    case True
    then show ?thesis using that [of m' False m'] m' by (auto simp: highest_sub_def length_Suc_conv)
  next
    case False
    have "auth_close ?max m'" using close_zero m' m assms(2) [OF m'(1)] by blast
    then have "filter (auth_close ?max) sub \<noteq> []" using m'(1) by (auto simp: filter_empty_conv)
    then obtain w ws where w: "filter (auth_close ?max) sub = w # ws" by (cases "filter (auth_close ?max) sub") auto
    then have "w \<in> set sub" "auth_close ?max w" by (auto simp: filter_eq_Cons_iff)
    moreover have "highest_sub sub = Some ([w], ws \<noteq> [])" using False w by (simp add: highest_sub_def Let_def)
    ultimately show ?thesis using that [of w _ m'] m' by auto
  qed
qed

lemma highest_group:
  assumes "\<And>r. r \<in> set ms \<Longrightarrow> in_unit (auth_of r) \<and> f32_wf (auth_of r)" "ms \<noteq> []"
  obtains rs a where "arbitrate_group C HighestAuthority ms = Some (rs, a)" "set rs \<subseteq> set ms"
    "\<And>m. m \<in> set ms \<Longrightarrow> \<exists>w \<in> set rs. sig_of C w = sig_of C m"
proof (cases "length ms = 1")
  case True
  then show ?thesis using that [of ms False] by (auto simp: arbitrate_group_def)
next
  case False
  let ?gs = "sub_group_by_predicate C ms"
  have best: "\<exists>w a. highest_sub g = Some ([w], a) \<and> w \<in> set g" if "g \<in> set ?gs" for g
  proof -
    have "set g \<subseteq> set ms" "g \<noteq> []" using sub_group_subset [OF that] by auto
    then show ?thesis using highest_sub_winner [of g] assms(1) by (metis subset_iff)
  qed
  then obtain rs a where c: "collect highest_sub ?gs = Some (rs, a)"
    using collect_None [of highest_sub ?gs] by (cases "collect highest_sub ?gs") fastforce+
  then have arb: "arbitrate_group C HighestAuthority ms = Some (rs, a)" using False by (simp add: arbitrate_group_def)
  have covered: "\<exists>w \<in> set rs. sig_of C w = sig_of C m" if m: "m \<in> set ms" for m
  proof -
    let ?g = "filter (\<lambda>x. sig_of C x = sig_of C m) ms"
    obtain w b where w: "highest_sub ?g = Some ([w], b)" "w \<in> set ?g"
      using best [OF sub_groups_cover [OF m]] by blast
    then have "w \<in> set rs" using collect_Some(1) [OF c, of w] sub_groups_cover [OF m] by fastforce
    then show ?thesis using w by auto
  qed
  show ?thesis using that [OF arb arbitrate_group_in [OF arb] covered] .
qed

end
