(* ===== verification/Query.thy ===== *)
theory Query
  imports Store_Facts Arbitration_Facts
begin

text \<open>
  The query engine, \<open>FactumStore::query\<close> and \<open>get_candidates\<close> of \<open>factum-rt/src/query.rs\<close>, and what
  it answers: exactly the stored nodes that are active, valid at the time of the query, visible to
  the caller, confident enough and matched by the pattern, before arbitration chooses among them.
  A node the caller may not see does not change the answer.
\<close>

record query =
  q_pattern :: predicate
  q_entity_filter :: "entity_id option"

definition query_new :: "predicate \<Rightarrow> query" where
  "query_new p = \<lparr>q_pattern = p, q_entity_filter = None\<rparr>"

definition with_entity_filter :: "entity_id \<Rightarrow> query \<Rightarrow> query" where
  "with_entity_filter e q = q\<lparr>q_entity_filter := Some e\<rparr>"

record query_options =
  qo_policy :: conflict_policy
  qo_now :: datetime
  qo_min_conf :: f32
  qo_perm :: perm_ctx

definition default_options :: "datetime \<Rightarrow> query_options" where
  \<comment> \<open>the argument is \<open>Utc::now()\<close>\<close>
  "default_options now =
     \<lparr>qo_policy = LatestWins, qo_now = now, qo_min_conf = f32_zero, qo_perm = ctx_public\<rparr>"

record result_set =
  rs_results :: "query_result list"
  rs_ambiguous :: bool

datatype query_error = QueryPermissionDenied | InvalidQuery string

definition head_str :: "registry \<Rightarrow> predicate_head \<Rightarrow> string" where
  "head_str reg h =
     (case h of
        HeadName nm \<Rightarrow> nm
      | HeadId i \<Rightarrow> (case lookup_id reg i of Some d \<Rightarrow> md_name d | None \<Rightarrow> ''M'' @ int_dec (uint i)))"

definition get_candidates :: "query \<Rightarrow> store \<Rightarrow> node list" where
  "get_candidates q s =
     (case q_entity_filter q of
        Some e \<Rightarrow> lookup_by_entity s e
      | None \<Rightarrow> lookup_by_pred s (head_str (st_registry s) (pr_head (q_pattern q))))"

definition admitted :: "query_options \<Rightarrow> node \<Rightarrow> bool" where
  \<comment> \<open>the permission, validity and confidence filters, in the order of the source\<close>
  "admitted opts n \<longleftrightarrow>
     check_permission n (qo_perm opts) \<and> is_active_valid_at n (qo_now opts)
     \<and> \<not> f32_lt (nd_conf n) (qo_min_conf opts)"

definition match_node :: "predicate \<Rightarrow> node \<Rightarrow> query_result option" where
  "match_node p n =
     (case match_pattern p (nd_pred n) of
        None \<Rightarrow> None
      | Some bs \<Rightarrow> Some \<lparr>qr_node = n, qr_bindings = bs\<rparr>)"

definition query_matches :: "query \<Rightarrow> query_options \<Rightarrow> store \<Rightarrow> query_result list" where
  "query_matches q opts s =
     List.map_filter (match_node (q_pattern q)) (filter (admitted opts) (get_candidates q s))"

definition query_run :: "chrono \<Rightarrow> query \<Rightarrow> query_options \<Rightarrow> store \<Rightarrow> (query_error + result_set) option" where
  \<comment> \<open>\<open>None\<close> when arbitration panics\<close>
  "query_run C q opts s =
     (case arbitrate C (query_matches q opts s) (qo_policy opts) (Some (q_pattern q)) of
        None \<Rightarrow> None
      | Some (rs, a) \<Rightarrow> Some (Inr \<lparr>rs_results = rs, rs_ambiguous = a\<rparr>))"

section \<open>What is answered\<close>

lemma match_node_iff:
  "match_node p n = Some r \<longleftrightarrow> qr_node r = n \<and> match_pattern p (nd_pred n) = Some (qr_bindings r)"
  by (cases r) (auto simp: match_node_def split: option.splits)

lemma query_matches_iff:
  "r \<in> set (query_matches q opts s) \<longleftrightarrow>
     qr_node r \<in> set (get_candidates q s) \<and> admitted opts (qr_node r)
     \<and> match_pattern (q_pattern q) (nd_pred (qr_node r)) = Some (qr_bindings r)"
  by (auto simp: query_matches_def in_map_filter match_node_iff)

lemma head_str_pred_key: "head_str = pred_key"
  by (intro ext) (simp add: head_str_def pred_key_def)

lemma query_run_in:
  "query_run C q opts s = Some (Inr rs) \<Longrightarrow> r \<in> set (rs_results rs) \<Longrightarrow> r \<in> set (query_matches q opts s)"
  using arbitrate_in by (fastforce simp: query_run_def split: option.splits prod.splits)

definition answers :: "query \<Rightarrow> query_options \<Rightarrow> node \<Rightarrow> bool" where
  \<comment> \<open>what a node must satisfy to be an answer, whatever the indices hold\<close>
  "answers q opts n \<longleftrightarrow>
     (case q_entity_filter q of None \<Rightarrow> True | Some e \<Rightarrow> node_mentions e n)
     \<and> (\<exists>\<sigma>. psat \<sigma> (q_pattern q) (nd_pred n))
     \<and> nd_status n = Active \<and> is_valid_at (nd_validity n) (qo_now opts)
     \<and> tag_grants (nd_perm n) (pc_role_mask (qo_perm opts))
     \<and> \<not> f32_lt (nd_conf n) (qo_min_conf opts)"

definition query_names_ok :: "query \<Rightarrow> bool" where
  "query_names_ok q \<longleftrightarrow>
     (case q_entity_filter q of Some e \<Rightarrow> nul_free e
      | None \<Rightarrow> (case pr_head (q_pattern q) of HeadName nm \<Rightarrow> nul_free nm | HeadId _ \<Rightarrow> False))"

lemma psat_head: "psat \<sigma> p q \<Longrightarrow> \<exists>nm. pr_head p = HeadName nm \<and> pr_head q = HeadName nm"
  by (cases p; cases q) (auto simp: psat_iff)

lemma candidates_iff:
  assumes "store_ok s" "names_ok s" "query_names_ok q"
  shows "n \<in> set (get_candidates q s) \<longleftrightarrow>
    stored s (nd_id n) = Some n \<and> nd_status n = Active
    \<and> (case q_entity_filter q of Some e \<Rightarrow> node_mentions e n
       | None \<Rightarrow> pred_key (st_registry s) (pr_head (q_pattern q)) = pred_key (st_registry s) (pr_head (nd_pred n)))"
proof (cases "q_entity_filter q")
  case None
  then obtain nm where nm: "pr_head (q_pattern q) = HeadName nm" "nul_free nm"
    using assms(3) by (auto simp: query_names_ok_def split: predicate_head.splits)
  have "\<And>i n. stored s i = Some n \<Longrightarrow> name_sep (st_registry s) BY_PRED n" using assms(2) by (simp add: names_ok_def)
  from resolve_exact [OF assms(1) _ nm(2) this] show ?thesis
    by (simp add: get_candidates_def None nm(1) head_str_pred_key lookup_by_pred_def pred_key_def filed_under_def)
next
  case (Some e)
  then have e: "nul_free e" using assms(3) by (simp add: query_names_ok_def)
  have "\<And>i n. stored s i = Some n \<Longrightarrow> name_sep (st_registry s) BY_ENTITY n" using assms(2) by (simp add: names_ok_def)
  from resolve_exact [OF assms(1) _ e this] show ?thesis
    by (simp add: get_candidates_def Some lookup_by_entity_def filed_under_def)
qed

lemma query_matches_exact:
  assumes "store_ok s" "names_ok s" "query_names_ok q"
  shows "n \<in> qr_node ` set (query_matches q opts s) \<longleftrightarrow> stored s (nd_id n) = Some n \<and> answers q opts n"
proof -
  have "n \<in> qr_node ` set (query_matches q opts s) \<longleftrightarrow>
    n \<in> set (get_candidates q s) \<and> admitted opts n \<and> (\<exists>\<sigma>. psat \<sigma> (q_pattern q) (nd_pred n))"
  proof -
    have "(\<exists>r. n = qr_node r \<and> match_pattern (q_pattern q) (nd_pred n) = Some (qr_bindings r))
      \<longleftrightarrow> match_pattern (q_pattern q) (nd_pred n) \<noteq> None"
      by (metis not_None_eq query_result.select_convs(1,2))
    then show ?thesis unfolding match_iff [symmetric] image_iff Bex_def query_matches_iff by auto
  qed
  moreover have "pred_key (st_registry s) (pr_head (q_pattern q)) = pred_key (st_registry s) (pr_head (nd_pred n))"
    if "psat \<sigma> (q_pattern q) (nd_pred n)" for \<sigma>
    using psat_head [OF that] by auto
  ultimately show ?thesis
    unfolding candidates_iff [OF assms] answers_def admitted_def check_permission_def is_active_valid_at_def
    by (auto split: option.splits)
qed

section \<open>What the caller cannot see\<close>

lemma map_filter_skip:
  "(\<And>x. x \<in> set xs \<Longrightarrow> \<not> P x \<Longrightarrow> f x = None) \<Longrightarrow> List.map_filter f (filter P xs) = List.map_filter f xs"
  by (induction xs) (auto simp: List.map_filter_def)

lemma map_filter_cong:
  "(\<And>x. x \<in> set xs \<Longrightarrow> f x = g x) \<Longrightarrow> List.map_filter f xs = List.map_filter g xs"
  by (induction xs) (auto simp: List.map_filter_def)

definition seen :: "(node \<Rightarrow> bool) \<Rightarrow> store \<Rightarrow> node_id \<Rightarrow> node option" where
  \<comment> \<open>the node of an id, when it is active and lets \<open>P\<close> pass\<close>
  "seen P s i = (case stored s i of None \<Rightarrow> None | Some n \<Rightarrow> if nd_status n = Active \<and> P n then Some n else None)"

lemma filter_resolve:
  "filter P (resolve_nodes s ids) = List.map_filter (seen P s) ids"
  by (induction ids) (auto simp: resolve_nodes_def List.map_filter_def seen_def store_get_eq split: option.split)

lemma unseen_insert:
  assumes "store_ok s" "stored s (nd_id n) = None" "\<not> P n" "is_cf c"
  shows "filter P (resolve_nodes (inserted n s) (scan_or_empty (inserted n s) c p))
    = filter P (resolve_nodes s (scan_or_empty s c p))"
proof -
  have mem: "mem_ok (st_mem s)" using assms(1) by (simp add: store_ok_def)
  let ?s = "inserted n s" and ?i = "nd_id n"
  have st: "stored ?s = (stored s)(?i \<mapsto> n)" using store_ok_inserted(2) [OF assms(1,2)] .
  have no: "seen P ?s ?i = None" "seen P s ?i = None" using assms(2,3) by (simp_all add: seen_def st del: inserted_simps)
  have scan: "filter (\<lambda>j. j \<noteq> ?i) (scan_or_empty t c p) = scan_others ?i (st_mem t) c p" for t
    by (simp add: scan_or_empty_def scan_others_def split: sum.split)
  have drop: "List.map_filter (seen P t) ids = List.map_filter (seen P t) (filter (\<lambda>j. j \<noteq> ?i) ids)"
    if "seen P t ?i = None" for t ids
    using that by (subst map_filter_skip) auto
  have "List.map_filter (seen P ?s) (filter (\<lambda>j. j \<noteq> ?i) (scan_or_empty ?s c p))
    = List.map_filter (seen P s) (filter (\<lambda>j. j \<noteq> ?i) (scan_or_empty s c p))"
  proof -
    have eq: "filter (\<lambda>j. j \<noteq> ?i) (scan_or_empty ?s c p) = filter (\<lambda>j. j \<noteq> ?i) (scan_or_empty s c p)"
      unfolding scan by (simp add: write_node(5) [OF mem])
    have "seen P ?s j = seen P s j" if "j \<noteq> ?i" for j
      using that by (simp add: seen_def st del: inserted_simps)
    then show ?thesis unfolding eq by (intro map_filter_cong) simp
  qed
  then show ?thesis
    using drop [OF no(1), of "scan_or_empty ?s c p"] drop [OF no(2), of "scan_or_empty s c p"]
    by (simp only: filter_resolve)
qed

end
