(* ===== verification/Orders.thy ===== *)
theory Orders
  imports Query "HOL-Library.Multiset"
begin

text \<open>
  The in-memory backend keeps hash maps, which are visited in an order the source does not fix and
  which an insertion may change altogether. The model visits them in the order of insertion; here
  \<open>reordered\<close> relates a store to itself with its maps visited in any other order, and the \<open>outcomes\<close> of a
  read are its results under all of them. What one caller cannot see is then stated of outcomes.
\<close>

section \<open>The orders of the hash maps\<close>

definition mem_reordered :: "mem \<Rightarrow> mem \<Rightarrow> bool" where
  \<comment> \<open>the same nodes, and in each column family the same keys with the same lists\<close>
  "mem_reordered m m' \<longleftrightarrow>
     mset (mb_nodes m') = mset (mb_nodes m)
     \<and> (\<forall>c. rel_option (\<lambda>al al'. mset al' = mset al) (map_of (mb_indices m) c) (map_of (mb_indices m') c))"

definition reordered :: "store \<Rightarrow> store \<Rightarrow> bool" where
  "reordered s t \<longleftrightarrow> (\<exists>m. mem_reordered (st_mem s) m \<and> t = s\<lparr>st_mem := m\<rparr>)"

definition outcomes :: "(store \<Rightarrow> 'a) \<Rightarrow> store \<Rightarrow> 'a set" where
  "outcomes f s = f ` {t. reordered s t}"

lemma mem_reordered_refl: "mem_reordered m m"
  by (simp add: mem_reordered_def option.rel_refl)

lemma map_of_mset:
  assumes "mset xs = mset ys" "distinct (map fst xs)"
  shows "distinct (map fst ys)" "map_of xs = map_of ys"
proof -
  have "mset (map fst xs) = mset (map fst ys)" using assms(1) by simp
  then show d: "distinct (map fst ys)" using assms(2) mset_eq_imp_distinct_iff by blast
  have "set xs = set ys" using assms(1) by (rule mset_eq_setD)
  then show "map_of xs = map_of ys" using assms(2) d by (intro map_of_inject_set [THEN iffD2])
qed

lemma mem_reordered_entries:
  assumes "mem_reordered m m'"
  shows "mset (entries_at c (mb_indices m')) = mset (entries_at c (mb_indices m))"
  using assms unfolding mem_reordered_def entries_at_def
  by (metis (mono_tags, lifting) option.case_eq_if option.rel_sel)

lemma mem_reordered_ok:
  assumes "mem_ok m" "mem_reordered m m'"
  shows "mem_ok m'" "map_of (mb_nodes m') = map_of (mb_nodes m)" "idx m' = idx m"
proof -
  note nodes = assms(2) [unfolded mem_reordered_def, THEN conjunct1]
  have d: "distinct (map fst (mb_nodes m))" "\<And>c. distinct (map fst (entries_at c (mb_indices m)))"
    using assms(1) by (simp_all add: mem_ok_def)
  note e = mem_reordered_entries [OF assms(2), symmetric]
  show "map_of (mb_nodes m') = map_of (mb_nodes m)" using map_of_mset(2) [OF nodes [symmetric] d(1)] by simp
  show "idx m' = idx m"
    by (intro ext) (simp add: idx_def entries_at_def [of _ "entries_at _ _"] map_of_mset(2) [OF e d(2)])
  have "map_of (mb_indices m') c \<noteq> None" if "is_cf c" for c
  proof -
    have "map_of (mb_indices m) c \<noteq> None" using assms(1) that by (simp add: mem_ok_def)
    moreover have "rel_option (\<lambda>al al'. mset al' = mset al) (map_of (mb_indices m) c) (map_of (mb_indices m') c)"
      using assms(2) by (simp add: mem_reordered_def)
    ultimately show ?thesis by (cases "map_of (mb_indices m') c") auto
  qed
  moreover have "set (mb_nodes m') = set (mb_nodes m)" using nodes by (rule mset_eq_setD)
  ultimately show "mem_ok m'"
    using assms(1) map_of_mset(1) [OF nodes [symmetric] d(1)] map_of_mset(1) [OF e d(2)] unfolding mem_ok_def by auto
qed

lemma reordered_ok:
  assumes "store_ok s" "reordered s t"
  shows "store_ok t" "stored t = stored s"
proof -
  obtain m where m: "mem_reordered (st_mem s) m" "t = s\<lparr>st_mem := m\<rparr>" using assms(2) by (auto simp: reordered_def)
  have "mem_ok (st_mem s)" using assms(1) by (simp add: store_ok_def)
  note ok = mem_reordered_ok [OF this m(1)]
  show "stored t = stored s" by (simp add: m(2) ok(2))
  have "files m = files (st_mem s)" by (intro ext) (simp add: files_def ok(3))
  then show "store_ok t" using assms(1) ok by (simp add: store_ok_def exact_def m(2))
qed

section \<open>Inserting\<close>

lemma push_at_mset:
  assumes "mset al' = mset al" "distinct (map fst al)"
  shows "mset (push_at k v al') = mset (push_at k v al)"
proof (cases "k \<in> fst ` set al")
  case True
  moreover have "k \<in> fst ` set al'" "distinct (map fst al')"
    using True mset_eq_setD [OF assms(1)] map_of_mset(1) [OF assms(1) [symmetric] assms(2)] by auto
  ultimately show ?thesis using assms by (simp add: push_at_in_place)
next
  case False
  then have "k \<notin> fst ` set al'" using mset_eq_setD [OF assms(1)] by simp
  then show ?thesis using False assms(1) by (simp add: push_at_new)
qed

lemma put_index_reordered:
  assumes "mem_ok m" "mem_reordered m m'" "is_cf c"
  shows "mem_reordered (snd (put_index c key i m)) (snd (put_index c key i m'))"
proof -
  have "distinct (map fst (entries_at c (mb_indices m)))" using assms(1) by (simp add: mem_ok_def)
  note push = push_at_mset [OF mem_reordered_entries [OF assms(2)] this]
  show ?thesis
    using assms(2,3) push by (simp add: mem_reordered_def put_index_def get_index_map_cf update_conv')
qed

lemma batch_reordered:
  "mem_ok m \<Longrightarrow> mem_reordered m m' \<Longrightarrow> list_all (index_op i) ops \<Longrightarrow>
    mem_reordered (snd (batch_write ops m)) (snd (batch_write ops m'))"
proof (induction ops arbitrary: m m')
  case (Cons op ops)
  then obtain c key where op: "op = PutIndex c key i" "is_cf c"
    by (auto simp: index_op_def split: write_op.splits)
  have step: "batch_write (op # ops) x = batch_write ops (snd (put_index c key i x))" for x
    using put_fst(2) [OF op(2), of key i x] by (cases "put_index c key i x") (simp add: op(1) apply_op_def)
  show ?case
    unfolding step using Cons put_index_reordered [OF Cons.prems(1,2) op(2)] mem_ok_put_index [OF Cons.prems(1)] by simp
qed simp

lemma write_node_reordered:
  assumes "mem_ok m" "mem_reordered m m'" "map_of (mb_nodes m) (nd_id n) = None"
  shows "mem_reordered (write_node reg n m) (write_node reg n m')"
proof -
  have new: "map_of (mb_nodes m') (nd_id n) = None" using mem_reordered_ok(2) [OF assms(1,2)] assms(3) by simp
  have "AList.update (nd_id n) n al = al @ [(nd_id n, n)]" if "map_of al (nd_id n) = None" for al
    using that by (induction al) (auto split: if_splits)
  then have "mem_reordered (snd (put_node n m)) (snd (put_node n m'))"
    using assms(2,3) new by (simp add: mem_reordered_def put_node_def)
  then show ?thesis
    using batch_reordered [OF mem_ok_put_node [OF assms(1)] _ index_ops_ok] by (simp add: write_node_def write_node_split)
qed

lemma inserted_reordered:
  assumes "store_ok s" "stored s (nd_id n) = None" "reordered s t"
  shows "reordered (inserted n s) (inserted n t)"
proof -
  obtain m where m: "mem_reordered (st_mem s) m" "t = s\<lparr>st_mem := m\<rparr>" using assms(3) by (auto simp: reordered_def)
  have "mem_ok (st_mem s)" using assms(1) by (simp add: store_ok_def)
  from write_node_reordered [OF this m(1) assms(2)] show ?thesis
    by (auto simp: reordered_def m(2) inserted_def intro!: exI [of _ "write_node (st_registry s) n m"])
qed

section \<open>Taking a node out\<close>

text \<open>\<open>unseen_in n t' t\<close>: whoever cannot see the node \<open>n\<close> reads the same from \<open>t'\<close>, which has it, and from \<open>t\<close>,
  which has not, in the same order.\<close>

definition unseen_in :: "node \<Rightarrow> store \<Rightarrow> store \<Rightarrow> bool" where
  "unseen_in n t' t \<longleftrightarrow>
     st_registry t' = st_registry t \<and> stored t (nd_id n) = None \<and> stored t' = (stored t)(nd_id n \<mapsto> n)
     \<and> (\<forall>P. \<not> P n \<longrightarrow> filter P (store_all t') = filter P (store_all t))
     \<and> (\<forall>P c p. \<not> P n \<longrightarrow> is_cf c \<longrightarrow>
          filter P (resolve_nodes t' (scan_or_empty t' c p)) = filter P (resolve_nodes t (scan_or_empty t c p)))"

lemma nodes_inserted:
  assumes "store_ok s" "stored s (nd_id n) = None"
  shows "mb_nodes (st_mem (inserted n s)) = mb_nodes (st_mem s) @ [(nd_id n, n)]"
proof -
  have mem: "mem_ok (st_mem s)" using assms(1) by (simp add: store_ok_def)
  have "mb_nodes (st_mem (inserted n s)) = AList.update (nd_id n) n (mb_nodes (st_mem s))"
    using batch_write_index(3) [OF mem_ok_put_node [OF mem] index_ops_ok]
    by (simp add: write_node_def write_node_split put_node_def)
  moreover have "AList.update k v al = al @ [(k, v)]" if "map_of al k = None" for k and v :: node and al
    using that by (induction al) (auto split: if_splits)
  ultimately show ?thesis using assms(2) by simp
qed

lemma inserted_unseen_in:
  assumes "store_ok s" "stored s (nd_id n) = None"
  shows "unseen_in n (inserted n s) s"
  unfolding unseen_in_def
  using assms unseen_insert [OF assms] nodes_inserted [OF assms] store_ok_inserted(2) [OF assms]
  by (simp add: store_all_def iter_nodes_def del: inserted_simps(1))

text \<open>The entries of a family after an insertion: each key has its old list and more of the new id.\<close>

definition grown :: "node_id \<Rightarrow> (string \<times> node_id list) list \<Rightarrow> (string \<times> node_id list) list \<Rightarrow> bool" where
  "grown i al al' \<longleftrightarrow>
     fst ` set al \<subseteq> fst ` set al' \<and> distinct (map fst al')
     \<and> (\<forall>k. filter (\<lambda>j. j \<noteq> i) (entries_at k al') = filter (\<lambda>j. j \<noteq> i) (entries_at k al))"

lemma push_at_grown:
  assumes "grown i al al'"
  shows "grown i al (push_at k i al')"
proof -
  have "fst ` set (push_at k i al') = insert k (fst ` set al')"
    unfolding push_at_def by (simp add: dom_update flip: dom_map_of_conv_image_fst) (simp add: update_conv')
  then show ?thesis using assms by (auto simp: grown_def)
qed

lemma batch_grown:
  "list_all (index_op i) ops \<Longrightarrow> grown i (entries_at c (mb_indices m)) (entries_at c (mb_indices m')) \<Longrightarrow>
    grown i (entries_at c (mb_indices m)) (entries_at c (mb_indices (snd (batch_write ops m'))))"
proof (induction ops arbitrary: m')
  case (Cons op ops)
  then obtain c' key where op: "op = PutIndex c' key i" "is_cf c'"
    by (auto simp: index_op_def split: write_op.splits)
  have step: "batch_write (op # ops) m' = batch_write ops (snd (put_index c' key i m'))"
    using put_fst(2) [OF op(2), of key i m'] by (cases "put_index c' key i m'") (simp add: op(1) apply_op_def)
  have "grown i (entries_at c (mb_indices m)) (entries_at c (mb_indices (snd (put_index c' key i m'))))"
    using Cons.prems(2) push_at_grown op(2) by (auto simp: put_index_def get_index_map_cf)
  then show ?case unfolding step using Cons by simp
qed simp

lemma inserted_grown:
  assumes "store_ok s"
  shows "grown (nd_id n) (entries_at c (mb_indices (st_mem s))) (entries_at c (mb_indices (st_mem (inserted n s))))"
proof -
  have "grown (nd_id n) al al" if "distinct (map fst al)" for al using that by (simp add: grown_def)
  then have "grown (nd_id n) (entries_at c (mb_indices (st_mem s)))
      (entries_at c (mb_indices (snd (put_node n (st_mem s)))))"
    using assms by (simp add: put_node_def store_ok_def mem_ok_def)
  from batch_grown [OF index_ops_ok this] show ?thesis by (simp add: write_node_def write_node_split)
qed

text \<open>A family in another order, cut back to the keys and lists it had before.\<close>

definition cut_back :: "('k \<times> 'v) list \<Rightarrow> ('k \<times> 'v) list \<Rightarrow> ('k \<times> 'v) list" where
  "cut_back al al' = List.map_filter (\<lambda>(k, _). map_option (Pair k) (map_of al k)) al'"

lemma cut_back_mset:
  assumes "distinct (map fst al)" "distinct (map fst al')" "fst ` set al \<subseteq> fst ` set al'"
  shows "mset (cut_back al al') = mset al"
proof -
  have keys: "set (cut_back al al') \<subseteq> set al" for al'
    by (auto simp: cut_back_def in_map_filter dest: map_of_SomeD)
  have keys': "fst ` set (cut_back al al') \<subseteq> fst ` set al'" for al'
    by (force simp: cut_back_def in_map_filter)
  have "distinct (map fst (cut_back al al'))"
    using assms(2)
  proof (induction al')
    case (Cons p al')
    have "fst p \<notin> fst ` set (cut_back al al')" using Cons.prems keys' [of al'] by auto
    then show ?case using Cons
      by (cases p; cases "map_of al (fst p)") (simp_all add: cut_back_def List.map_filter_simps)
  qed (simp add: cut_back_def List.map_filter_simps)
  moreover have "set al \<subseteq> set (cut_back al al')"
  proof
    fix x assume x: "x \<in> set al"
    then have "fst x \<in> fst ` set al'" using assms(3) by blast
    then obtain k v w where y: "(k, w) \<in> set al'" "x = (k, v)" by (metis imageE prod.collapse)
    then have "map_of al k = Some v" using x assms(1) by simp
    then show "x \<in> set (cut_back al al')"
      using y by (auto simp: cut_back_def in_map_filter intro!: bexI [of _ "(k, w)"])
  qed
  ultimately have "set (cut_back al al') = set al" "distinct (cut_back al al')" "distinct al"
    using keys assms(1) by (auto simp: distinct_map)
  then show ?thesis by (simp add: set_eq_iff_mset_eq_distinct)
qed

lemma cut_back_scan:
  assumes "\<And>k vs. (k, vs) \<in> set al' \<Longrightarrow> filter Q vs = filter Q (entries_at k al)"
    "\<And>k vs ws. pre (k, vs) = pre (k, ws)"
  shows "filter Q (concat (map snd (filter pre al'))) = filter Q (concat (map snd (filter pre (cut_back al al'))))"
  using assms(1)
proof (induction al')
  case (Cons p al')
  obtain k vs where p: "p = (k, vs)" by (cases p)
  have "filter Q vs = filter Q (entries_at k al)" using Cons.prems p by simp
  then show ?case
    using Cons assms(2) [of k vs "entries_at k al"]
    by (cases "map_of al k") (auto simp: p cut_back_def List.map_filter_simps entries_at_def)
qed (simp add: cut_back_def List.map_filter_simps)

definition take_out :: "node_id \<Rightarrow> store \<Rightarrow> store \<Rightarrow> store" where
  "take_out i s t' =
     s\<lparr>st_mem := \<lparr>mb_nodes = filter (\<lambda>(j, _). j \<noteq> i) (mb_nodes (st_mem t')),
        mb_indices = map (\<lambda>(c, al). (c, cut_back (entries_at c (mb_indices (st_mem s))) al)) (mb_indices (st_mem t'))\<rparr>\<rparr>"

lemma order_mem:
  assumes "reordered (inserted n s) t'"
  shows "mem_reordered (st_mem (inserted n s)) (st_mem t')" "t' = (inserted n s)\<lparr>st_mem := st_mem t'\<rparr>"
  using assms by (auto simp: reordered_def)

lemma order_family:
  fixes c s t'
  defines "al \<equiv> entries_at c (mb_indices (st_mem s))" and "al' \<equiv> entries_at c (mb_indices (st_mem t'))"
  assumes s: "store_ok s" and order: "reordered (inserted n s) t'"
  shows "distinct (map fst al)" "distinct (map fst al')" "fst ` set al \<subseteq> fst ` set al'"
    "filter (\<lambda>j. j \<noteq> nd_id n) (entries_at k al') = filter (\<lambda>j. j \<noteq> nd_id n) (entries_at k al)"
proof -
  let ?al1 = "entries_at c (mb_indices (st_mem (inserted n s)))"
  have m: "mset ?al1 = mset al'" using mem_reordered_entries [OF order_mem(1) [OF order], of c] by (simp add: al'_def)
  have g: "grown (nd_id n) al ?al1" unfolding al_def by (rule inserted_grown [OF s])
  then have d: "distinct (map fst ?al1)" by (simp add: grown_def)
  show "distinct (map fst al)" using s by (simp add: al_def store_ok_def mem_ok_def)
  show "distinct (map fst al')" using map_of_mset(1) [OF m d] .
  show "fst ` set al \<subseteq> fst ` set al'" using g mset_eq_setD [OF m] by (simp add: grown_def)
  show "filter (\<lambda>j. j \<noteq> nd_id n) (entries_at k al') = filter (\<lambda>j. j \<noteq> nd_id n) (entries_at k al)"
    using g map_of_mset(2) [OF m d] by (simp add: grown_def entries_at_def)
qed

lemma take_out_family:
  "map_of (mb_indices (st_mem (take_out i s t'))) c =
     map_option (cut_back (entries_at c (mb_indices (st_mem s)))) (map_of (mb_indices (st_mem t')) c)"
proof -
  have "map_of (map (\<lambda>(c, al). (c, f c al)) xs) c = map_option (f c) (map_of xs c)" for f xs
    by (induction xs) auto
  then show ?thesis by (simp add: take_out_def)
qed

lemma inserted_families:
  assumes "store_ok s" "stored s (nd_id n) = None"
  shows "map_of (mb_indices (st_mem (inserted n s))) c = None \<longleftrightarrow> map_of (mb_indices (st_mem s)) c = None"
proof -
  have "map_of (mb_indices (snd (batch_write ops m))) c = None \<longleftrightarrow> map_of (mb_indices m) c = None"
    if "mem_ok m" "list_all (index_op i) ops" for i ops m
    using that
  proof (induction ops arbitrary: m)
    case (Cons op ops)
    then obtain c' key where op: "op = PutIndex c' key i" "is_cf c'"
      by (auto simp: index_op_def split: write_op.splits)
    have step: "batch_write (op # ops) m = batch_write ops (snd (put_index c' key i m))"
      using put_fst(2) [OF op(2), of key i m] by (cases "put_index c' key i m") (simp add: op(1) apply_op_def)
    have "map_of (mb_indices m) c' \<noteq> None" using Cons.prems(1) op(2) by (simp add: mem_ok_def)
    then have "map_of (mb_indices (snd (put_index c' key i m))) c = None \<longleftrightarrow> map_of (mb_indices m) c = None"
      using op(2) by (auto simp: put_index_def get_index_map_cf update_conv')
    then show ?case unfolding step using Cons mem_ok_put_index [OF Cons.prems(1)] by simp
  qed simp
  from this [OF mem_ok_put_node index_ops_ok] show ?thesis
    using assms(1) by (simp add: write_node_def write_node_split put_node_def store_ok_def)
qed

lemma take_out_reordered:
  assumes "store_ok s" "stored s (nd_id n) = None" "reordered (inserted n s) t'"
  shows "reordered s (take_out (nd_id n) s t')"
proof -
  note mem = order_mem(1) [OF assms(3)]
  have "mset (mb_nodes (st_mem t')) = mset (mb_nodes (st_mem s) @ [(nd_id n, n)])"
    using mem nodes_inserted [OF assms(1,2)] by (simp add: mem_reordered_def del: inserted_simps(1))
  then have "mset (filter (\<lambda>(j, _). j \<noteq> nd_id n) (mb_nodes (st_mem t')))
      = mset (filter (\<lambda>(j, _). j \<noteq> nd_id n) (mb_nodes (st_mem s) @ [(nd_id n, n)]))"
    by (simp only: mset_filter)
  also have "filter (\<lambda>(j, _). j \<noteq> nd_id n) (mb_nodes (st_mem s) @ [(nd_id n, n)]) = mb_nodes (st_mem s)"
    using assms(2) by (force simp: map_of_eq_None_iff filter_id_conv)
  finally have nodes: "mset (mb_nodes (st_mem (take_out (nd_id n) s t'))) = mset (mb_nodes (st_mem s))"
    by (simp add: take_out_def)
  have "rel_option (\<lambda>al al'. mset al' = mset al) (map_of (mb_indices (st_mem s)) c)
      (map_of (mb_indices (st_mem (take_out (nd_id n) s t'))) c)" for c
  proof -
    have rel: "rel_option (\<lambda>al al'. mset al' = mset al) (map_of (mb_indices (st_mem (inserted n s))) c)
        (map_of (mb_indices (st_mem t')) c)"
      using mem by (simp add: mem_reordered_def)
    show ?thesis
    proof (cases "map_of (mb_indices (st_mem s)) c")
      case None
      then show ?thesis using rel inserted_families [OF assms(1,2), of c] by (simp add: take_out_family)
    next
      case (Some al)
      then obtain al' where al': "map_of (mb_indices (st_mem t')) c = Some al'"
        using rel inserted_families [OF assms(1,2), of c] by (cases "map_of (mb_indices (st_mem t')) c") auto
      have "mset (cut_back al al') = mset al"
        using cut_back_mset order_family(1-3) [OF assms(1,3), of c] Some al' by (simp add: entries_at_def)
      then show ?thesis using Some al' by (simp add: take_out_family entries_at_def)
    qed
  qed
  then show ?thesis using nodes
    by (auto simp: reordered_def mem_reordered_def take_out_def intro!: exI [of _ "st_mem (take_out (nd_id n) s t')"])
qed

lemma take_out_scan:
  assumes "store_ok s" "reordered (inserted n s) t'"
  shows "filter (\<lambda>j. j \<noteq> nd_id n) (scan_or_empty t' c p)
    = filter (\<lambda>j. j \<noteq> nd_id n) (scan_or_empty (take_out (nd_id n) s t') c p)"
proof (cases "map_of (mb_indices (st_mem t')) c")
  case None
  then show ?thesis by (simp add: scan_or_empty_def scan_index_def take_out_family)
next
  case (Some al')
  have al': "entries_at c (mb_indices (st_mem t')) = al'" using Some by (simp add: entries_at_def)
  note fam = order_family [OF assms, of c, unfolded al']
  have "filter (\<lambda>j. j \<noteq> nd_id n) vs
      = filter (\<lambda>j. j \<noteq> nd_id n) (entries_at k (entries_at c (mb_indices (st_mem s))))" if "(k, vs) \<in> set al'" for k vs
    using order_family(4) [OF assms, of k c] in_entries [OF fam(2) that] by (simp add: al')
  from cut_back_scan [OF this, of al' "\<lambda>(key, _). prefix (encode_index_prefix p) key"]
  show ?thesis using Some by (simp add: scan_or_empty_def scan_index_def take_out_family)
qed

lemma take_out_unseen_in:
  assumes "store_ok s" "stored s (nd_id n) = None" "reordered (inserted n s) t'"
  shows "unseen_in n t' (take_out (nd_id n) s t')"
proof -
  let ?t = "take_out (nd_id n) s t'"
  have t: "stored ?t = stored s" using reordered_ok(2) [OF assms(1) take_out_reordered [OF assms]] .
  have t': "stored t' = (stored s)(nd_id n \<mapsto> n)"
    using reordered_ok(2) [OF store_ok_inserted(1) [OF assms(1,2)] assms(3)] store_ok_inserted(2) [OF assms(1,2)] by simp
  have mem: "mem_ok (st_mem t')"
    using reordered_ok(1) [OF store_ok_inserted(1) [OF assms(1,2)] assms(3)] by (simp add: store_ok_def)
  have reg: "st_registry t' = st_registry ?t" by (subst order_mem(2) [OF assms(3)]) (simp add: take_out_def)
  have all: "filter P (store_all t') = filter P (store_all ?t)" if "\<not> P n" for P
  proof -
    have id: "nd_id m = j" "m = n \<longleftrightarrow> j = nd_id n" if "(j, m) \<in> set (mb_nodes (st_mem t'))" for j m
    proof -
      show j: "nd_id m = j" using mem that by (auto simp only: mem_ok_def)
      have "distinct (map fst (mb_nodes (st_mem t')))" using mem by (simp only: mem_ok_def)
      then have "stored t' j = Some m" using that by simp
      then show "m = n \<longleftrightarrow> j = nd_id n" using j fun_cong [OF t', of j] by (auto split: if_splits)
    qed
    then have rest: "P m \<Longrightarrow> j \<noteq> nd_id n" if "(j, m) \<in> set (mb_nodes (st_mem t'))" for j m using that \<open>\<not> P n\<close> by metis
    have "filter (\<lambda>p. P (snd p)) (mb_nodes (st_mem t'))
        = filter (\<lambda>p. P (snd p)) (filter (\<lambda>(j, _). j \<noteq> nd_id n) (mb_nodes (st_mem t')))"
      by (auto simp: filter_filter dest: rest intro!: filter_cong)
    then show ?thesis by (simp add: store_all_def iter_nodes_def take_out_def filter_map o_def)
  qed
  have scan: "filter P (resolve_nodes t' (scan_or_empty t' c p)) = filter P (resolve_nodes ?t (scan_or_empty ?t c p))"
    if "\<not> P n" for P c p
  proof -
    have no: "seen P t' (nd_id n) = None" "seen P ?t (nd_id n) = None"
      using that by (simp_all add: seen_def t t' assms(2))
    have "seen P t' j = seen P ?t j" if "j \<noteq> nd_id n" for j using that by (simp add: seen_def t t')
    then have "List.map_filter (seen P t') (filter (\<lambda>j. j \<noteq> nd_id n) ids)
        = List.map_filter (seen P ?t) (filter (\<lambda>j. j \<noteq> nd_id n) ids)" for ids
      by (intro map_filter_cong) simp
    moreover have "List.map_filter (seen P u) ids = List.map_filter (seen P u) (filter (\<lambda>j. j \<noteq> nd_id n) ids)"
      if "seen P u (nd_id n) = None" for u ids
      using that by (subst map_filter_skip) auto
    ultimately show ?thesis
      unfolding filter_resolve using no take_out_scan [OF assms(1,3), of c p] by metis
  qed
  show ?thesis using t t' reg all scan assms(2) by (simp add: unseen_in_def)
qed

section \<open>Outcomes\<close>

lemma outcomes_unseen:
  assumes "store_ok s" "stored s (nd_id n) = None"
    "\<And>t' t. store_ok t \<Longrightarrow> unseen_in n t' t \<Longrightarrow> f t' = f t"
  shows "outcomes f (inserted n s) = outcomes f s"
proof (intro equalityI subsetI)
  fix r assume "r \<in> outcomes f (inserted n s)"
  then obtain t' where t': "reordered (inserted n s) t'" "r = f t'" by (auto simp: outcomes_def)
  note out = take_out_reordered [OF assms(1,2) t'(1)]
  show "r \<in> outcomes f s"
    using out t'(2) assms(3) [OF reordered_ok(1) [OF assms(1) out] take_out_unseen_in [OF assms(1,2) t'(1)]]
    by (auto simp: outcomes_def)
next
  fix r assume "r \<in> outcomes f s"
  then obtain t where t: "reordered s t" "r = f t" by (auto simp: outcomes_def)
  have ok: "store_ok t" "stored t (nd_id n) = None" using reordered_ok [OF assms(1) t(1)] assms(2) by simp_all
  show "r \<in> outcomes f (inserted n s)"
    using inserted_reordered [OF assms(1,2) t(1)] assms(3) [OF ok(1) inserted_unseen_in [OF ok]] t(2)
    by (auto simp: outcomes_def image_iff intro!: exI [of _ "inserted n t"])
qed

lemma query_matches_unseen:
  assumes "unseen_in n t' t" "\<not> admitted opts n"
  shows "query_matches q opts t' = query_matches q opts t"
proof -
  have "filter (admitted opts) (lookup_by_entity t' e) = filter (admitted opts) (lookup_by_entity t e)"
    "filter (admitted opts) (lookup_by_pred t' h) = filter (admitted opts) (lookup_by_pred t h)" for e h
    using assms by (simp_all add: unseen_in_def lookup_by_entity_def lookup_by_pred_def)
  moreover have "st_registry t' = st_registry t" using assms(1) by (simp add: unseen_in_def)
  ultimately show ?thesis by (simp add: query_matches_def get_candidates_def split: option.split)
qed

end
