(* ===== verification/Cascade.thy ===== *)
theory Cascade
  imports Store_Facts
begin

text \<open>
  Retraction and its cascade, \<open>FactumStore::retract\<close>, \<open>retract_with_limit\<close> and
  \<open>retract_recursive\<close> of \<open>factum-rt/src/store.rs\<close>. The three \<open>&mut\<close> arguments of the recursion are
  fields of the record \<open>cascade\<close>, beside the store. The recursion ends because every nested call
  follows a push to \<open>all_retracted\<close>, whose length stays below \<open>max_nodes\<close>.
\<close>

definition DEFAULT_MAX_CASCADE_NODES :: nat where "DEFAULT_MAX_CASCADE_NODES = 100"

record retract_result =
  rr_retracted :: "node_id list"
  rr_truncated :: bool
  rr_depth_reached :: nat

definition rr_count :: "retract_result \<Rightarrow> nat" where
  "rr_count r = length (rr_retracted r)"

record cascade =
  cc_store :: store
  cc_all :: "node_id list"
  cc_depth :: nat
  cc_trunc :: bool

definition is_derived :: "provenance \<Rightarrow> bool" where
  "is_derived p = (case p of Derived _ _ \<Rightarrow> True | _ \<Rightarrow> False)"

definition reach_depth :: "nat \<Rightarrow> cascade \<Rightarrow> cascade" where
  "reach_depth d c = (if cc_depth c < d then c\<lparr>cc_depth := d\<rparr> else c)"

definition log_retracted :: "node_id \<Rightarrow> mem \<Rightarrow> cascade \<Rightarrow> cascade" where
  \<comment> \<open>the write-ahead log entry and the push to \<open>all_retracted\<close>\<close>
  "log_retracted i m c =
     c\<lparr>cc_store := push_wal (WalRetract i) ((cc_store c)\<lparr>st_mem := m\<rparr>), cc_all := cc_all c @ [i]\<rparr>"

function retract_recursive :: "node_id \<Rightarrow> nat \<Rightarrow> nat \<Rightarrow> cascade \<Rightarrow> (store_error + unit) \<times> cascade"
  and cascade_loop :: "node_id list \<Rightarrow> nat \<Rightarrow> nat \<Rightarrow> cascade \<Rightarrow> (store_error + unit) \<times> cascade" where
  "retract_recursive i mx d c =
     (if mx \<le> length (cc_all c) then (Inr (), c\<lparr>cc_trunc := True\<rparr>)
      else
        (case get_node (st_mem (cc_store c)) i of
           Inl e \<Rightarrow> (Inl (StorageFailed e), reach_depth d c)
         | Inr None \<Rightarrow> (Inl (NotFound i), reach_depth d c)
         | Inr (Some n) \<Rightarrow>
             if nd_status n = Retracted then (Inr (), reach_depth d c)
             else
               (case put_node (n\<lparr>nd_status := Retracted\<rparr>) (st_mem (cc_store c)) of
                  (Inl e, m) \<Rightarrow> (Inl (StorageFailed e), reach_depth d c)
                | (Inr _, m) \<Rightarrow>
                    cascade_loop (entries_at i (st_deps_rev (cc_store c))) mx d
                      (log_retracted i m (reach_depth d c)))))"
| "cascade_loop [] mx d c = (Inr (), c)"
| "cascade_loop (x # xs) mx d c =
     (case get_node (st_mem (cc_store c)) x of
        Inl e \<Rightarrow> (Inl (StorageFailed e), c)
      | Inr None \<Rightarrow> cascade_loop xs mx d c
      | Inr (Some n) \<Rightarrow>
          if is_derived (nd_prov n) \<and> nd_status n = Active then
            if mx \<le> length (cc_all c) then (Inr (), c\<lparr>cc_trunc := True\<rparr>)
            else
              (case retract_recursive x mx (d + 1) c of
                 (Inl e, c') \<Rightarrow> (Inl e, c')
               | (Inr _, c') \<Rightarrow> cascade_loop xs mx d c')
          else cascade_loop xs mx d c)"
  by pat_completeness auto

lemma log_all [simp]: "cc_all (log_retracted i m c) = cc_all c @ [i]" "cc_all (reach_depth d c) = cc_all c"
  by (simp_all add: log_retracted_def reach_depth_def)

lemma cascade_grows:
  "retract_recursive_cascade_loop_dom (Inl (i, mx, d, c)) \<Longrightarrow>
    length (cc_all c) \<le> length (cc_all (snd (retract_recursive i mx d c)))"
  "retract_recursive_cascade_loop_dom (Inr (xs, mx, d, c)) \<Longrightarrow>
    length (cc_all c) \<le> length (cc_all (snd (cascade_loop xs mx d c)))"
proof (induction i mx d c and xs mx d c rule: retract_recursive_cascade_loop.pinduct)
  case (1 i mx d c)
  then show ?case
    by (simp add: retract_recursive.psimps split: sum.split option.split prod.split) fastforce
next
  case (2 mx d c)
  then show ?case by (simp add: cascade_loop.psimps)
next
  case (3 x xs mx d c)
  then show ?case
    by (simp add: cascade_loop.psimps split: sum.split option.split prod.split) fastforce
qed

termination retract_recursive
proof (relation "measures
    [\<lambda>x. case x of Inl (i, mx, d, c) \<Rightarrow> mx - length (cc_all c) | Inr (xs, mx, d, c) \<Rightarrow> mx - length (cc_all c),
     \<lambda>x. case x of Inl _ \<Rightarrow> 0 | Inr (xs, mx, d, c) \<Rightarrow> length xs]", goal_cases)
  case (5 x xs mx d c b n r c')
  then have "snd (retract_recursive x mx (d + 1) c) = c'" by (metis snd_conv)
  with cascade_grows(1) [OF 5(7)] have "length (cc_all c) \<le> length (cc_all c')" by simp
  then show ?case by auto
qed auto


declare retract_recursive.simps [simp del] cascade_loop.simps(2) [simp del]

definition retract_with_limit :: "node_id \<Rightarrow> nat \<Rightarrow> store \<Rightarrow> retract_result store_result" where
  "retract_with_limit i mx s =
     (case retract_recursive i mx 0 \<lparr>cc_store = s, cc_all = [], cc_depth = 0, cc_trunc = False\<rparr> of
        (Inl e, c) \<Rightarrow> (Inl e, cc_store c)
      | (Inr _, c) \<Rightarrow>
          (Inr \<lparr>rr_retracted = cc_all c, rr_truncated = cc_trunc c, rr_depth_reached = cc_depth c\<rparr>,
           (cc_store c)\<lparr>st_subs := notify_retract i (cc_all c) (st_subs (cc_store c))\<rparr>))"

definition retract :: "node_id \<Rightarrow> store \<Rightarrow> node_id list store_result" where
  "retract i s =
     (case retract_with_limit i DEFAULT_MAX_CASCADE_NODES s of
        (Inl e, s') \<Rightarrow> (Inl e, s')
      | (Inr r, s') \<Rightarrow> (Inr (rr_retracted r), s'))"

section \<open>What the cascade leaves\<close>

definition retracted_node :: "node \<Rightarrow> node" where
  "retracted_node n = n\<lparr>nd_status := Retracted\<rparr>"

definition mark :: "node_id list \<Rightarrow> store \<Rightarrow> store" where
  \<comment> \<open>the nodes of the list retracted, and logged in its order\<close>
  "mark is s =
     s\<lparr>st_mem := (st_mem s)\<lparr>mb_nodes := map (\<lambda>(j, n). (j, if j \<in> set is then retracted_node n else n)) (mb_nodes (st_mem s))\<rparr>,
       st_wal := st_wal s @ map WalRetract is\<rparr>"

lemma mark_simps [simp]:
  "st_deps_rev (mark is s) = st_deps_rev s"
  "st_by_validity (mark is s) = st_by_validity s"
  "st_registry (mark is s) = st_registry s"
  "st_subs (mark is s) = st_subs s"
  "st_verifiers (mark is s) = st_verifiers s"
  "st_wal (mark is s) = st_wal s @ map WalRetract is"
  by (simp_all add: mark_def)

lemma retracted_twice [simp]: "retracted_node (retracted_node n) = retracted_node n"
  by (simp add: retracted_node_def)

lemma retracted_fields [simp]:
  "nd_id (retracted_node n) = nd_id n" "nd_status (retracted_node n) = Retracted"
  "nd_deps (retracted_node n) = nd_deps n" "nd_validity (retracted_node n) = nd_validity n"
  "nd_prov (retracted_node n) = nd_prov n" "nd_pred (retracted_node n) = nd_pred n"
  "nd_perm (retracted_node n) = nd_perm n"
  by (simp_all add: retracted_node_def)

lemma mark_Nil [simp]: "mark [] s = s"
  by (cases s; simp add: mark_def split_beta)

lemma mark_append: "mark js (mark is s) = mark (is @ js) s"
  by (cases s) (auto simp: mark_def split_beta)

lemma stored_mark [simp]:
  "stored (mark is s) j = (if j \<in> set is then map_option retracted_node (stored s j) else stored s j)"
proof -
  have "map_of (map (\<lambda>(j, n). (j, if j \<in> set is then retracted_node n else n)) al) j
    = (if j \<in> set is then map_option retracted_node (map_of al j) else map_of al j)" for al
    by (induction al) auto
  then show ?thesis by (simp add: mark_def)
qed

lemma files_mark: "files (st_mem (mark is s)) = files (st_mem s)"
  by (intro ext) (simp add: mark_def files_def idx_def)

lemma mem_ok_mark: "mem_ok (st_mem s) \<Longrightarrow> mem_ok (st_mem (mark is s))"
  by (auto simp: mem_ok_def mark_def comp_def split_beta)

text \<open>One retraction is the mark of one id.\<close>

lemma update_in_place:
  "distinct (map fst al) \<Longrightarrow> map_of al k = Some v \<Longrightarrow>
    AList.update k w al = map (\<lambda>(j, x). (j, if j = k then w else x)) al"
proof (induction al)
  case (Cons p al)
  have "map (\<lambda>(j, x). (j, if j = k then w else x)) al = al" if "fst p = k"
    using Cons.prems(1) that by (intro map_idI) (auto simp: image_iff)
  then show ?case using Cons by (cases p) auto
qed simp

lemma put_retracted:
  assumes "mem_ok (st_mem s)" "stored s i = Some n"
  shows "push_wal (WalRetract i) (s\<lparr>st_mem := snd (put_node (n\<lparr>nd_status := Retracted\<rparr>) (st_mem s))\<rparr>) = mark [i] s"
proof -
  have id: "nd_id n = i" using assms by (auto simp: mem_ok_def dest: map_of_SomeD)
  have d: "distinct (map fst (mb_nodes (st_mem s)))" using assms(1) by (simp add: mem_ok_def)
  have "map (\<lambda>(j, x). (j, if j = i then retracted_node n else x)) (mb_nodes (st_mem s))
    = map (\<lambda>(j, x). (j, if j = i then retracted_node x else x)) (mb_nodes (st_mem s))"
    using assms(2) d by (auto intro!: map_cong dest: map_of_SomeD eq_key_imp_eq_value)
  then show ?thesis
    using update_in_place [OF d assms(2), of "retracted_node n"]
    by (cases s) (simp add: mark_def push_wal_def put_node_def id flip: retracted_node_def)
qed

section \<open>Active derived nodes and the dependency relation\<close>

definition live_derived :: "store \<Rightarrow> node_id \<Rightarrow> bool" where
  "live_derived s x \<longleftrightarrow> (\<exists>n. stored s x = Some n \<and> is_derived (nd_prov n) \<and> nd_status n = Active)"

definition cascades :: "store \<Rightarrow> (node_id \<times> node_id) set" where
  \<comment> \<open>from a node to the active derived nodes listed as its dependents\<close>
  "cascades s = {(a, b). b \<in> set (entries_at a (st_deps_rev s)) \<and> live_derived s b}"

lemma live_mark [simp]: "live_derived (mark is s) x \<longleftrightarrow> live_derived s x \<and> x \<notin> set is"
  by (auto simp: live_derived_def)

lemma cascades_mark: "cascades (mark is s) = {(a, b). (a, b) \<in> cascades s \<and> b \<notin> set is}"
  by (auto simp: cascades_def)

lemma cascades_mark_sub: "(cascades (mark is s))\<^sup>* \<subseteq> (cascades s)\<^sup>*"
  by (rule rtrancl_mono) (auto simp: cascades_mark)

text \<open>What any part of the cascade does to its state: \<open>new\<close> is what it retracts.\<close>

definition retracts :: "nat \<Rightarrow> cascade \<Rightarrow> cascade \<Rightarrow> node_id list \<Rightarrow> bool" where
  "retracts mx c c' new \<longleftrightarrow>
     cc_all c' = cc_all c @ new \<and> cc_store c' = mark new (cc_store c) \<and> distinct new
     \<and> (\<forall>j \<in> set new. \<exists>n. stored (cc_store c) j = Some n \<and> nd_status n \<noteq> Retracted)
     \<and> length (cc_all c') \<le> max mx (length (cc_all c))
     \<and> (cc_trunc c \<longrightarrow> cc_trunc c')
     \<and> (\<not> cc_trunc c' \<longrightarrow> (\<forall>a \<in> set new. \<forall>b. (a, b) \<notin> cascades (cc_store c')))"

lemma retracts_refl: "cc_all c' = cc_all c \<Longrightarrow> cc_store c' = cc_store c \<Longrightarrow> cc_trunc c \<longrightarrow> cc_trunc c' \<Longrightarrow> retracts mx c c' []"
  by (simp add: retracts_def)

lemma retracts_mono:
  "retracts mx c c' new \<Longrightarrow> cc_trunc c \<Longrightarrow> cc_trunc c'"
  "retracts mx c c' new \<Longrightarrow> mx \<le> length (cc_all c) \<Longrightarrow> new = []"
  by (auto simp: retracts_def)

lemma retracts_trans:
  assumes "retracts mx c c1 new1" "retracts mx c1 c2 new2"
  shows "retracts mx c c2 (new1 @ new2)"
proof -
  note r1 = assms(1) [unfolded retracts_def] and r2 = assms(2) [unfolded retracts_def]
  have old: "\<exists>n. stored (cc_store c) j = Some n \<and> nd_status n \<noteq> Retracted" "j \<notin> set new1"
    if j: "j \<in> set new2" for j
  proof -
    obtain n where "stored (cc_store c1) j = Some n" "nd_status n \<noteq> Retracted" using r2 j by blast
    moreover have "cc_store c1 = mark new1 (cc_store c)" using r1 by blast
    ultimately show "\<exists>n. stored (cc_store c) j = Some n \<and> nd_status n \<noteq> Retracted" "j \<notin> set new1"
      by (auto split: if_splits)
  qed
  have "cc_store c2 = mark new2 (cc_store c1)" using r2 by blast
  then have sub: "cascades (cc_store c2) \<subseteq> cascades (cc_store c1)" by (auto simp: cascades_mark)
  show ?thesis
    unfolding retracts_def
  proof (intro conjI)
    show "cc_store c2 = mark (new1 @ new2) (cc_store c)" using r1 r2 by (simp add: mark_append)
    show "distinct (new1 @ new2)" using r1 r2 old(2) by auto
    show "\<forall>j \<in> set (new1 @ new2). \<exists>n. stored (cc_store c) j = Some n \<and> nd_status n \<noteq> Retracted"
      using r1 old(1) by auto
    show "length (cc_all c2) \<le> max mx (length (cc_all c))" using r1 r2 by linarith
    show "\<not> cc_trunc c2 \<longrightarrow> (\<forall>a \<in> set (new1 @ new2). \<forall>b. (a, b) \<notin> cascades (cc_store c2))"
      using r1 r2 sub by auto
  qed (use r1 r2 in auto)
qed

section \<open>The cascade retracts what depends on its root\<close>

text \<open>What is claimed of the recursion on a live node, and of its loop.\<close>

definition from_root :: "node_id \<Rightarrow> nat \<Rightarrow> cascade \<Rightarrow> (store_error + unit) \<times> cascade \<Rightarrow> bool" where
  "from_root i mx c r \<longleftrightarrow>
     fst r = Inr () \<and> (\<exists>new. retracts mx c (snd r) new \<and> i \<in> set new
       \<and> (\<forall>j \<in> set new. (i, j) \<in> (cascades (cc_store c))\<^sup>*)
       \<and> (cc_trunc (snd r) \<and> \<not> cc_trunc c \<longrightarrow>
            mx \<le> length (cc_all (snd r))
            \<and> (\<exists>x. (i, x) \<in> (cascades (cc_store c))\<^sup>* \<and> live_derived (cc_store (snd r)) x)))"

definition from_loop :: "node_id list \<Rightarrow> nat \<Rightarrow> cascade \<Rightarrow> (store_error + unit) \<times> cascade \<Rightarrow> bool" where
  "from_loop xs mx c r \<longleftrightarrow>
     fst r = Inr () \<and> (\<exists>new. retracts mx c (snd r) new
       \<and> (\<forall>j \<in> set new. \<exists>x \<in> set xs. live_derived (cc_store c) x \<and> (x, j) \<in> (cascades (cc_store c))\<^sup>*)
       \<and> (\<not> cc_trunc (snd r) \<longrightarrow> (\<forall>x \<in> set xs. \<not> live_derived (cc_store (snd r)) x))
       \<and> (cc_trunc (snd r) \<and> \<not> cc_trunc c \<longrightarrow>
            mx \<le> length (cc_all (snd r))
            \<and> (\<exists>x \<in> set xs. \<exists>j. live_derived (cc_store c) x \<and> (x, j) \<in> (cascades (cc_store c))\<^sup>*
                 \<and> live_derived (cc_store (snd r)) j)))"

lemma from_root_step:
  assumes "mem_ok (st_mem (cc_store c))" "length (cc_all c) < mx"
    "stored (cc_store c) i = Some n" "nd_status n \<noteq> Retracted"
    and c2: "cc_store c2 = mark [i] (cc_store c)" "cc_all c2 = cc_all c @ [i]" "cc_trunc c2 = cc_trunc c"
    and loop: "from_loop (entries_at i (st_deps_rev (cc_store c))) mx c2 r"
  shows "from_root i mx c r"
proof -
  let ?R = "cascades (cc_store c)" and ?xs = "entries_at i (st_deps_rev (cc_store c))"
  obtain new where new: "fst r = Inr ()" "retracts mx c2 (snd r) new"
    "\<And>j. j \<in> set new \<Longrightarrow> \<exists>x \<in> set ?xs. live_derived (cc_store c2) x \<and> (x, j) \<in> (cascades (cc_store c2))\<^sup>*"
    "\<not> cc_trunc (snd r) \<Longrightarrow> (\<forall>x \<in> set ?xs. \<not> live_derived (cc_store (snd r)) x)"
    "cc_trunc (snd r) \<Longrightarrow> \<not> cc_trunc c2 \<Longrightarrow> mx \<le> length (cc_all (snd r))
            \<and> (\<exists>x \<in> set ?xs. \<exists>j. live_derived (cc_store c2) x \<and> (x, j) \<in> (cascades (cc_store c2))\<^sup>*
                 \<and> live_derived (cc_store (snd r)) j)"
    using loop unfolding from_loop_def by blast
  have reach: "(i, j) \<in> ?R\<^sup>*" if "x \<in> set ?xs" "live_derived (cc_store c2) x" "(x, j) \<in> (cascades (cc_store c2))\<^sup>*" for x j
  proof -
    have "(i, x) \<in> ?R" using that(1,2) by (simp add: c2(1) cascades_def)
    moreover have "(x, j) \<in> ?R\<^sup>*" using that(3) cascades_mark_sub c2(1) by auto
    ultimately show ?thesis by (rule converse_rtrancl_into_rtrancl)
  qed
  note r = new(2) [unfolded retracts_def]
  have "retracts mx c (snd r) (i # new)"
    unfolding retracts_def
  proof (intro conjI)
    have fin: "cc_store (snd r) = mark new (cc_store c2)" using r by blast
    then show "cc_store (snd r) = mark (i # new) (cc_store c)" by (simp add: c2(1) mark_append)
    have live: "\<exists>n. stored (cc_store c) j = Some n \<and> nd_status n \<noteq> Retracted" "j \<noteq> i" if "j \<in> set new" for j
    proof -
      obtain n where "stored (cc_store c2) j = Some n" "nd_status n \<noteq> Retracted" using r \<open>j \<in> set new\<close> by blast
      then show "\<exists>n. stored (cc_store c) j = Some n \<and> nd_status n \<noteq> Retracted" "j \<noteq> i"
        by (auto simp: c2(1) split: if_splits)
    qed
    show "distinct (i # new)" using r live(2) by auto
    show "\<forall>j \<in> set (i # new). \<exists>n. stored (cc_store c) j = Some n \<and> nd_status n \<noteq> Retracted"
      using live(1) assms(3,4) by auto
    show "\<not> cc_trunc (snd r) \<longrightarrow> (\<forall>a \<in> set (i # new). \<forall>b. (a, b) \<notin> cascades (cc_store (snd r)))"
      using r new(4) by (auto simp: cascades_def fin c2(1))
    show "length (cc_all (snd r)) \<le> max mx (length (cc_all c))" using r assms(2) c2(2) by auto
  qed (use r c2 in auto)
  moreover have "\<forall>j \<in> set (i # new). (i, j) \<in> ?R\<^sup>*" using new(3) reach by auto
  ultimately show ?thesis
    unfolding from_root_def using new(1,5) c2(3) reach by (metis list.set_intros(1))
qed

lemma from_loop_skip:
  assumes "\<not> live_derived (cc_store c) x" "from_loop xs mx c r"
  shows "from_loop (x # xs) mx c r"
proof -
  have "\<not> live_derived (cc_store (snd r)) x"
    using assms by (auto simp: from_loop_def retracts_def)
  then show ?thesis using assms(2) unfolding from_loop_def by (metis list.set_intros(2) set_ConsD)
qed

lemma from_loop_step:
  assumes x: "live_derived (cc_store c) x"
    and root: "from_root x mx c (Inr (), c1)" and loop: "from_loop xs mx c1 r"
  shows "from_loop (x # xs) mx c r"
proof -
  let ?R = "cascades (cc_store c)"
  obtain new1 where n1: "retracts mx c c1 new1" "x \<in> set new1" "\<And>j. j \<in> set new1 \<Longrightarrow> (x, j) \<in> ?R\<^sup>*"
    "cc_trunc c1 \<Longrightarrow> \<not> cc_trunc c \<Longrightarrow> mx \<le> length (cc_all c1) \<and> (\<exists>y. (x, y) \<in> ?R\<^sup>* \<and> live_derived (cc_store c1) y)"
    using root unfolding from_root_def by auto
  obtain new2 where n2: "fst r = Inr ()" "retracts mx c1 (snd r) new2"
    "\<And>j. j \<in> set new2 \<Longrightarrow> \<exists>y \<in> set xs. live_derived (cc_store c1) y \<and> (y, j) \<in> (cascades (cc_store c1))\<^sup>*"
    "\<not> cc_trunc (snd r) \<Longrightarrow> (\<forall>x \<in> set xs. \<not> live_derived (cc_store (snd r)) x)"
    "cc_trunc (snd r) \<Longrightarrow> \<not> cc_trunc c1 \<Longrightarrow> mx \<le> length (cc_all (snd r))
            \<and> (\<exists>x \<in> set xs. \<exists>j. live_derived (cc_store c1) x \<and> (x, j) \<in> (cascades (cc_store c1))\<^sup>*
                 \<and> live_derived (cc_store (snd r)) j)"
    using loop unfolding from_loop_def by blast
  have c1: "cc_store c1 = mark new1 (cc_store c)" using n1(1) by (simp add: retracts_def)
  have r: "cc_store (snd r) = mark new2 (cc_store c1)" using n2(2) by (simp add: retracts_def)
  have sub: "(cascades (cc_store c1))\<^sup>* \<subseteq> ?R\<^sup>*" using cascades_mark_sub c1 by simp
  have reach: "\<exists>x \<in> set (x # xs). live_derived (cc_store c) x \<and> (x, j) \<in> ?R\<^sup>*" if "j \<in> set (new1 @ new2)" for j
    using that n1(3) n2(3) x sub by (auto simp: c1)
  have "mx \<le> length (cc_all (snd r)) \<and> (\<exists>x \<in> set (x # xs). \<exists>j. live_derived (cc_store c) x \<and> (x, j) \<in> ?R\<^sup>*
      \<and> live_derived (cc_store (snd r)) j)" if t: "cc_trunc (snd r)" "\<not> cc_trunc c"
  proof (cases "cc_trunc c1")
    case True
    obtain y where y: "mx \<le> length (cc_all c1)" "(x, y) \<in> ?R\<^sup>*" "live_derived (cc_store c1) y"
      using n1(4) [OF True t(2)] by blast
    have "new2 = []" using retracts_mono(2) [OF n2(2) y(1)] .
    then have "cc_store (snd r) = cc_store c1" "cc_all (snd r) = cc_all c1" using n2(2) by (simp_all add: retracts_def)
    then show ?thesis using y x by auto
  next
    case False
    show ?thesis using n2(5) [OF t(1) False] sub by (auto simp: c1)
  qed
  moreover have "\<forall>x \<in> set (x # xs). \<not> live_derived (cc_store (snd r)) x" if "\<not> cc_trunc (snd r)"
    using n2(4) [OF that] n1(2) by (auto simp: r c1)
  ultimately show ?thesis
    unfolding from_loop_def using n2(1) retracts_trans [OF n1(1) n2(2)] reach by blast
qed

lemma cascade_spec:
  "mem_ok (st_mem (cc_store c)) \<and> length (cc_all c) < mx
    \<and> (\<exists>n. stored (cc_store c) i = Some n \<and> nd_status n \<noteq> Retracted) \<longrightarrow>
    from_root i mx c (retract_recursive i mx d c)"
  "mem_ok (st_mem (cc_store c)) \<longrightarrow> from_loop xs mx c (cascade_loop xs mx d c)"
proof (induction i mx d c and xs mx d c rule: retract_recursive_cascade_loop.induct)
  case (1 i mx d c)
  show ?case
  proof (intro impI, elim conjE exE)
    fix n
    assume a: "mem_ok (st_mem (cc_store c))" "length (cc_all c) < mx" "stored (cc_store c) i = Some n" "nd_status n \<noteq> Retracted"
    let ?m = "snd (put_node (n\<lparr>nd_status := Retracted\<rparr>) (st_mem (cc_store c)))"
    let ?c2 = "log_retracted i ?m (reach_depth d c)"
    have get: "get_node (st_mem (cc_store c)) i = Inr (Some n)" using a(3) by (simp add: get_node_def)
    have put: "put_node (n\<lparr>nd_status := Retracted\<rparr>) (st_mem (cc_store c)) = (Inr (), ?m)" by (simp add: put_node_def)
    have st: "cc_store ?c2 = mark [i] (cc_store c)"
      using put_retracted [OF a(1,3)] by (simp add: log_retracted_def reach_depth_def)
    have run: "retract_recursive i mx d c = cascade_loop (entries_at i (st_deps_rev (cc_store c))) mx d ?c2"
      using a by (simp add: retract_recursive.simps get put_node_def)
    have "from_loop (entries_at i (st_deps_rev (cc_store c))) mx ?c2 (retract_recursive i mx d c)"
      unfolding run
    proof (rule mp [OF 1 [OF _ get refl a(4) put [symmetric] refl]])
      show "mem_ok (st_mem (cc_store ?c2))" unfolding st by (rule mem_ok_mark [OF a(1)])
    qed (use a(2) in simp)
    then show "from_root i mx c (retract_recursive i mx d c)"
      by (intro from_root_step [OF a st]) (simp_all add: log_retracted_def reach_depth_def)
  qed
next
  case (2 mx d c)
  show ?case by (auto simp: from_loop_def intro: retracts_refl)
next
  case (3 x xs mx d c)
  show ?case
  proof
    assume ok: "mem_ok (st_mem (cc_store c))"
    have get: "get_node (st_mem (cc_store c)) x = Inr (stored (cc_store c) x)" by (simp add: get_node_def)
    show "from_loop (x # xs) mx c (cascade_loop (x # xs) mx d c)"
    proof (cases "live_derived (cc_store c) x")
      case False
      then have run: "cascade_loop (x # xs) mx d c = cascade_loop xs mx d c"
        by (auto simp: cascade_loop.simps get live_derived_def split: option.split)
      have "from_loop xs mx c (cascade_loop xs mx d c)"
        using 3(1,4) [OF get] False ok by (cases "stored (cc_store c) x") (auto simp: live_derived_def)
      then show ?thesis unfolding run using from_loop_skip [OF False] by blast
    next
      case True
      then obtain n where n: "stored (cc_store c) x = Some n" "is_derived (nd_prov n) \<and> nd_status n = Active"
        by (auto simp: live_derived_def)
      show ?thesis
      proof (cases "mx \<le> length (cc_all c)")
        case full: True
        then have "cascade_loop (x # xs) mx d c = (Inr (), c\<lparr>cc_trunc := True\<rparr>)"
          using n by (simp add: cascade_loop.simps get)
        moreover have "retracts mx c (c\<lparr>cc_trunc := True\<rparr>) []" by (rule retracts_refl) simp_all
        ultimately show ?thesis using full True by (fastforce simp: from_loop_def)
      next
        case False
        let ?r = "retract_recursive x mx (d + 1) c"
        have root: "from_root x mx c ?r"
          using 3(2) [OF get n] False ok n by auto
        then have fst: "fst ?r = Inr ()" by (simp add: from_root_def)
        then have eq: "?r = (Inr (), snd ?r)" by (metis prod.collapse)
        have "mem_ok (st_mem (cc_store (snd ?r)))"
          using root mem_ok_mark [OF ok] by (auto simp: from_root_def retracts_def)
        then have "from_loop xs mx (snd ?r) (cascade_loop xs mx d (snd ?r))"
          using 3(3) [OF get n False eq [symmetric]] by simp
        moreover have "cascade_loop (x # xs) mx d c = cascade_loop xs mx d (snd ?r)"
          using n False by (subst cascade_loop.simps, subst eq) (simp add: get)
        moreover have "from_root x mx c (Inr (), snd ?r)" using root eq by metis
        ultimately show ?thesis using from_loop_step [OF True] by metis
      qed
    qed
  qed
qed


lemma store_ok_mark: "store_ok s \<Longrightarrow> store_ok (mark is s)"
proof -
  assume s: "store_ok s"
  have upd: "exact get b (stored (mark is s)) m = exact get b (stored s) m"
    if "\<And>n k. b (retracted_node n) k = b n k" for get :: "'m \<Rightarrow> 'k \<Rightarrow> node_id list" and b m
    using that by (auto simp: exact_def split: option.splits) blast+
  have "filed reg (retracted_node n) ck = filed reg n ck" for reg n ck
    by (simp add: filed_def retracted_node_def)
  with s show ?thesis
    unfolding store_ok_def by (simp add: upd mem_ok_mark) (simp add: exact_def files_mark)
qed

section \<open>Retraction of a stored node\<close>

definition derived_from :: "store \<Rightarrow> (node_id \<times> node_id) set" where
  \<comment> \<open>from a node to the active derived nodes whose dependencies name it\<close>
  "derived_from s =
     {(a, b). \<exists>n. stored s b = Some n \<and> a \<in> set (nd_deps n) \<and> is_derived (nd_prov n) \<and> nd_status n = Active}"

definition downstream :: "store \<Rightarrow> node_id \<Rightarrow> node_id set" where
  "downstream s i = (derived_from s)\<^sup>* `` {i}"

lemma cascades_derived: "store_ok s \<Longrightarrow> cascades s = derived_from s"
  by (auto simp: store_ok_def exact_def cascades_def derived_from_def live_derived_def)

lemma downstream_finite: "finite (downstream s i)"
proof (rule finite_subset)
  show "downstream s i \<subseteq> insert i (dom (stored s))"
    unfolding downstream_def by (auto simp: derived_from_def elim: rtranclE)
qed (simp add: finite_dom_map_of)

lemma closed_reach:
  assumes "i \<in> A" "\<And>a b. a \<in> A \<Longrightarrow> (a, b) \<in> r \<Longrightarrow> b \<in> A"
  shows "r\<^sup>* `` {i} \<subseteq> A"
proof
  fix j assume "j \<in> r\<^sup>* `` {i}"
  then have "(i, j) \<in> r\<^sup>*" by simp
  then show "j \<in> A" by induction (use assms in auto)
qed

lemma retract_live:
  assumes "store_ok s" "0 < mx" "stored s i = Some n" "nd_status n \<noteq> Retracted"
  obtains new depth where
    "retract_with_limit i mx s =
       (Inr \<lparr>rr_retracted = new, rr_truncated = (mx < card (downstream s i)), rr_depth_reached = depth\<rparr>,
        (mark new s)\<lparr>st_subs := notify_retract i new (st_subs s)\<rparr>)"
    "distinct new" "i \<in> set new" "set new \<subseteq> downstream s i"
    "length new = min mx (card (downstream s i))"
proof -
  let ?c = "\<lparr>cc_store = s, cc_all = [], cc_depth = 0, cc_trunc = False\<rparr>"
  obtain r where r: "r = retract_recursive i mx 0 ?c" by blast
  have "mem_ok (st_mem s)" using assms(1) by (simp add: store_ok_def)
  then have "from_root i mx ?c r"
    unfolding r using assms by (intro mp [OF cascade_spec(1)]) simp
  then obtain new where f: "fst r = Inr ()" and ret: "retracts mx ?c (snd r) new" and root: "i \<in> set new"
    and reach: "\<forall>j \<in> set new. (i, j) \<in> (cascades s)\<^sup>*"
    and cut: "cc_trunc (snd r) \<Longrightarrow> mx \<le> length (cc_all (snd r))
      \<and> (\<exists>x. (i, x) \<in> (cascades s)\<^sup>* \<and> live_derived (cc_store (snd r)) x)"
    unfolding from_root_def by auto
  let ?D = "downstream s i"
  have D: "?D = (cascades s)\<^sup>* `` {i}" by (simp add: downstream_def cascades_derived [OF assms(1)])
  note d = ret [unfolded retracts_def, simplified]
  have sub: "set new \<subseteq> ?D" using reach by (auto simp: D)
  have len: "length new = card (set new)" using d by (simp add: distinct_card)
  have full: "set new = ?D" if t: "\<not> cc_trunc (snd r)"
  proof
    have "b \<in> set new" if "a \<in> set new" "(a, b) \<in> cascades s" for a b
      using that d t by (auto simp: cascades_mark)
    then show "?D \<subseteq> set new" unfolding D using closed_reach [of i "set new", OF root] by blast
  qed (rule sub)
  have more: "mx = length new \<and> mx < card ?D" if t: "cc_trunc (snd r)"
  proof -
    obtain x where x: "(i, x) \<in> (cascades s)\<^sup>*" "x \<notin> set new" using cut [OF t] d by auto
    then have "set new \<subset> ?D" using sub by (auto simp: D)
    then have "card (set new) < card ?D" by (rule psubset_card_mono [OF downstream_finite])
    then show ?thesis using cut [OF t] d len assms(2) by auto
  qed
  have "length new \<le> mx" using d by metis
  then have trunc: "cc_trunc (snd r) \<longleftrightarrow> mx < card ?D" and length: "length new = min mx (card ?D)"
    using full more len by (cases "cc_trunc (snd r)"; simp)+
  have "r = (Inr (), snd r)" using f by (metis prod.collapse)
  from arg_cong [OF this, of "\<lambda>r. case r of
        (Inl e, c) \<Rightarrow> (Inl e, cc_store c)
      | (Inr _, c) \<Rightarrow>
          (Inr \<lparr>rr_retracted = cc_all c, rr_truncated = cc_trunc c, rr_depth_reached = cc_depth c\<rparr>,
           (cc_store c)\<lparr>st_subs := notify_retract i (cc_all c) (st_subs (cc_store c))\<rparr>)"]
  have "retract_with_limit i mx s =
       (Inr \<lparr>rr_retracted = cc_all (snd r), rr_truncated = cc_trunc (snd r), rr_depth_reached = cc_depth (snd r)\<rparr>,
        (cc_store (snd r))\<lparr>st_subs := notify_retract i (cc_all (snd r)) (st_subs (cc_store (snd r)))\<rparr>)"
    by (simp add: retract_with_limit_def flip: r)
  then have "retract_with_limit i mx s =
       (Inr \<lparr>rr_retracted = new, rr_truncated = (mx < card ?D), rr_depth_reached = cc_depth (snd r)\<rparr>,
        (mark new s)\<lparr>st_subs := notify_retract i new (st_subs s)\<rparr>)"
    using d trunc by simp
  then show thesis using that d root sub length by blast
qed

lemma retract_other:
  "stored s i = None \<Longrightarrow> 0 < mx \<Longrightarrow> retract_with_limit i mx s = (Inl (NotFound i), s)"
  "stored s i = Some n \<Longrightarrow> nd_status n = Retracted \<Longrightarrow> 0 < mx \<Longrightarrow>
    retract_with_limit i mx s =
      (Inr \<lparr>rr_retracted = [], rr_truncated = False, rr_depth_reached = 0\<rparr>,
       s\<lparr>st_subs := notify_retract i [] (st_subs s)\<rparr>)"
  "retract_with_limit i 0 s =
      (Inr \<lparr>rr_retracted = [], rr_truncated = True, rr_depth_reached = 0\<rparr>,
       s\<lparr>st_subs := notify_retract i [] (st_subs s)\<rparr>)"
  by (simp_all add: retract_with_limit_def retract_recursive.simps get_node_def reach_depth_def)

lemma store_ok_subs [simp]: "store_ok (s\<lparr>st_subs := x\<rparr>) = store_ok s"
  by (simp add: store_ok_def)

lemma store_ok_retract_with_limit: "store_ok s \<Longrightarrow> store_ok (snd (retract_with_limit i mx s))"
proof -
  assume s: "store_ok s"
  consider "mx = 0" | "0 < mx" "stored s i = None"
    | n where "0 < mx" "stored s i = Some n" "nd_status n = Retracted"
    | n where "0 < mx" "stored s i = Some n" "nd_status n \<noteq> Retracted"
    by (cases "stored s i") auto
  then show ?thesis
  proof cases
    case 4
    from retract_live [OF s this] show ?thesis
      by (metis snd_conv store_ok_mark [OF s] store_ok_subs)
  qed (simp_all add: retract_other s)
qed

end
