(* ===== verification/Store_Properties.thy ===== *)
theory Store_Properties
  imports Cascade
begin

text \<open>
  The properties of the store: its invariant under every operation, insertion and batches on every
  branch, exact lookups, the write-ahead log as the history of the nodes, retraction and its cascade,
  and what reopening a backend gives. A small store serves as the witness.
\<close>

section \<open>Every operation that changes a store\<close>

datatype store_op =
    OpInsert node
  | OpInsertBatch "node list"
  | OpRetract node_id
  | OpRetractWithLimit node_id nat
  | OpEnableVerifiers
  | OpSetVerifiers "verifier list"
  | OpDisableVerifiers
  | OpSubscribe string
  | OpUnsubscribe u64
  | OpPoll u64

fun run_store_op :: "store_op \<Rightarrow> store \<Rightarrow> store" where
  "run_store_op (OpInsert n) s = snd (insert_node n s)"
| "run_store_op (OpInsertBatch ns) s = snd (insert_batch ns s)"
| "run_store_op (OpRetract i) s = snd (retract i s)"
| "run_store_op (OpRetractWithLimit i mx) s = snd (retract_with_limit i mx s)"
| "run_store_op OpEnableVerifiers s = enable_verifiers s"
| "run_store_op (OpSetVerifiers vs) s = set_verifiers vs s"
| "run_store_op OpDisableVerifiers s = disable_verifiers s"
| "run_store_op (OpSubscribe p) s = s\<lparr>st_subs := snd (subscribe p (st_subs s))\<rparr>"
| "run_store_op (OpUnsubscribe i) s = s\<lparr>st_subs := unsubscribe i (st_subs s)\<rparr>"
| "run_store_op (OpPoll i) s = s\<lparr>st_subs := snd (poll_id i (st_subs s))\<rparr>"

inductive store_reaches :: "store \<Rightarrow> store \<Rightarrow> bool" where
  start: "store_reaches s s"
| op: "store_reaches s t \<Longrightarrow> store_reaches s (run_store_op x t)"

lemma snd_retract: "snd (retract i s) = snd (retract_with_limit i DEFAULT_MAX_CASCADE_NODES s)"
  by (simp add: retract_def split: prod.split sum.split)

lemma store_ok_verifiers [simp]: "store_ok (s\<lparr>st_verifiers := x\<rparr>) = store_ok s"
  by (simp add: store_ok_def)

lemma run_store_op_ok: "store_ok s \<Longrightarrow> store_ok (run_store_op x s)"
  by (cases x)
    (simp_all add: store_ok_insert store_ok_insert_batch store_ok_retract_with_limit snd_retract
      enable_verifiers_def set_verifiers_def disable_verifiers_def)

section \<open>The log as a history\<close>

fun replay_entry :: "wal_entry \<Rightarrow> (node_id \<Rightarrow> node option) \<Rightarrow> node_id \<Rightarrow> node option" where
  "replay_entry (WalInsert n) \<sigma> = \<sigma>(nd_id n \<mapsto> n)"
| "replay_entry (WalRetract i) \<sigma> = \<sigma>(i := map_option retracted_node (\<sigma> i))"
| "replay_entry WalCheckpoint \<sigma> = \<sigma>"

definition replay :: "wal_entry list \<Rightarrow> node_id \<Rightarrow> node option" where
  "replay es = fold replay_entry es Map.empty"

lemma replay_snoc [simp]: "replay (es @ [e]) = replay_entry e (replay es)"
  by (simp add: replay_def)

lemma replay_inserts: "replay (es @ map WalInsert ns) = (replay es)(map nd_id ns [\<mapsto>] ns)"
proof (induction ns arbitrary: es)
  case (Cons n ns)
  show ?case using Cons [of "es @ [WalInsert n]"] by (simp del: fun_upd_apply)
qed simp

lemma replay_retracts:
  "replay (es @ map WalRetract is) = (\<lambda>j. if j \<in> set is then map_option retracted_node (replay es j) else replay es j)"
proof (induction "is" arbitrary: es)
  case (Cons i "is")
  have "replay (es @ map WalRetract (i # is)) = replay ((es @ [WalRetract i]) @ map WalRetract is)" by simp
  also have "\<dots> = (\<lambda>j. if j \<in> set is then map_option retracted_node (replay (es @ [WalRetract i]) j)
      else replay (es @ [WalRetract i]) j)" by (rule Cons)
  also have "\<dots> = (\<lambda>j. if j \<in> set (i # is) then map_option retracted_node (replay es j) else replay es j)"
    by (rule ext) (simp add: option.map_comp comp_def)
  finally show ?case .
qed simp

definition logged :: "store \<Rightarrow> bool" where
  "logged s \<longleftrightarrow> stored s = replay (st_wal s)"

lemma logged_insert:
  assumes "store_ok s" "logged s"
  shows "logged (snd (insert_node n s))"
proof (cases "verify_opt (st_verifiers s) n")
  case None
  show ?thesis
  proof (cases "stored s (nd_id n)")
    case fresh: None
    show ?thesis
      using assms(2) store_ok_inserted(2) [OF assms(1) fresh] None fresh
      by (simp add: insert_node_ok [OF assms(1)] logged_def del: inserted_simps(1))
  qed (use None assms in \<open>simp add: insert_node_ok\<close>)
qed (use assms in \<open>simp add: insert_node_ok\<close>)

lemma logged_insert_batch:
  assumes "store_ok s" "logged s"
  shows "logged (snd (insert_batch ns s))"
proof (cases "first_failure (st_verifiers s) ns = None \<and> check_duplicates (st_mem s) [] ns = None")
  case True
  then have d: "distinct (map nd_id ns)" "\<And>n. n \<in> set ns \<Longrightarrow> stored s (nd_id n) = None"
    by (simp_all add: check_duplicates_None)
  show ?thesis
    using fold_inserted [OF assms(1) d] assms(2) True
      replay_snoc [of "st_wal s @ map WalInsert ns" WalCheckpoint]
    by (simp add: insert_batch_ok [OF assms(1)] logged_def push_wal_def replay_inserts)
next
  case False
  then show ?thesis using assms by (auto simp: insert_batch_ok split: option.splits)
qed

lemma logged_mark: "logged s \<Longrightarrow> logged (mark is s)"
  by (auto simp: logged_def replay_retracts)

lemma logged_retract:
  assumes "store_ok s" "logged s"
  shows "logged (snd (retract_with_limit i mx s))"
proof -
  have subs: "logged (s\<lparr>st_subs := x\<rparr>) = logged s" for s x by (simp add: logged_def)
  consider "mx = 0" | "0 < mx" "stored s i = None"
    | n where "0 < mx" "stored s i = Some n" "nd_status n = Retracted"
    | n where "0 < mx" "stored s i = Some n" "nd_status n \<noteq> Retracted"
    by (cases "stored s i") auto
  then show ?thesis
  proof cases
    case 4
    from retract_live [OF assms(1) this] show ?thesis
      by (metis snd_conv logged_mark [OF assms(2)] subs)
  qed (simp_all add: retract_other assms subs)
qed

lemma run_store_op_logged: "store_ok s \<Longrightarrow> logged s \<Longrightarrow> logged (run_store_op x s)"
  by (cases x)
    (simp_all add: logged_insert logged_insert_batch logged_retract snd_retract
      enable_verifiers_def set_verifiers_def disable_verifiers_def logged_def [of "_\<lparr>st_subs := _\<rparr>"]
      logged_def [of "_\<lparr>st_verifiers := _\<rparr>"] flip: logged_def)

lemma logged_new: "logged (store_new reg)"
  by (simp add: logged_def store_new_def with_backend_def rebuild_indices_def iter_nodes_def mem_new_def replay_def)

lemma reaches_both: "store_reaches s t \<Longrightarrow> store_ok s \<and> logged s \<Longrightarrow> store_ok t \<and> logged t"
  by (induction rule: store_reaches.induct) (simp_all add: run_store_op_ok run_store_op_logged)

section \<open>A small store\<close>

lemma mem_push_wal: "st_mem (push_wal e s) = st_mem s"
  by (simp add: push_wal_def)

definition fact_a :: node where
  "fact_a = (node_new ''a'' (Predicate (HeadName ''p'') [TEnt ''X''] []))\<lparr>nd_prov := Asserted ''u''\<rparr>"

definition fact_b :: node where
  "fact_b = (node_new ''b'' (Predicate (HeadName ''q'') [TEnt ''X''] []))\<lparr>nd_prov := Derived ''a'' ''r'', nd_deps := [''a'']\<rparr>"

definition fact_c :: node where
  "fact_c = (node_new ''c'' (Predicate (HeadName ''q'') [TEnt ''Y''] []))\<lparr>nd_prov := Derived ''b'' ''r'', nd_deps := [''b''],
     nd_validity := Window 0 (Some 10), nd_perm := CONFIDENTIAL\<rparr>"

definition small_store :: store where
  "small_store = snd (insert_batch [fact_a, fact_b, fact_c] (store_new registry_new))"

lemma small_store_ok: "store_ok small_store"
  unfolding small_store_def by (intro store_ok_insert_batch store_ok_new)

lemma small_store_nodes: "stored small_store = [''a'' \<mapsto> fact_a, ''b'' \<mapsto> fact_b, ''c'' \<mapsto> fact_c]"
proof -
  let ?ns = "[fact_a, fact_b, fact_c]" and ?s = "store_new registry_new"
  have ids: "map nd_id ?ns = [''a'', ''b'', ''c'']" by (simp add: fact_a_def fact_b_def fact_c_def node_new_def)
  have empty: "stored ?s = Map.empty" "st_verifiers ?s = None"
    by (simp_all add: store_new_def with_backend_def rebuild_indices_def iter_nodes_def mem_new_def)
  have "check_duplicates (st_mem ?s) [] ?ns = None"
    unfolding check_duplicates_None ids by (simp add: empty)
  moreover have "first_failure (st_verifiers ?s) ?ns = None" by (simp add: empty verify_opt_def)
  ultimately have e: "small_store = push_wal WalCheckpoint (fold inserted ?ns ?s)"
    unfolding small_store_def by (simp add: insert_batch_ok [OF store_ok_new])
  have "stored small_store = stored (fold inserted ?ns ?s)"
    unfolding e by (simp only: mem_push_wal)
  also have "\<dots> = (stored ?s)(map nd_id ?ns [\<mapsto>] ?ns)"
    using fold_inserted [OF store_ok_new, of ?ns registry_new] unfolding ids by (simp add: empty)
  finally show ?thesis by (simp only: ids empty map_upds_Cons list.sel map_upds_Nil1)
qed


lemma small_fields [simp]:
  "nd_id fact_a = ''a''" "nd_id fact_b = ''b''" "nd_id fact_c = ''c''"
  "nd_status fact_a = Active" "nd_status fact_b = Active" "nd_status fact_c = Active"
  "nd_deps fact_a = []" "nd_deps fact_b = [''a'']" "nd_deps fact_c = [''b'']"
  by (simp_all add: fact_a_def fact_b_def fact_c_def node_new_def)

section \<open>The properties\<close>

text \<open>C2. The retraction cascade. Retracting a live node retracts, in one pass, only nodes that are
  downstream of it: reachable through active derived nodes whose dependencies name a retracted node.
  All of them are retracted when they number at most \<open>max_nodes\<close>; otherwise exactly \<open>max_nodes\<close> of
  them are, and only then is the result marked truncated. Each retracted id is reported once, no other
  node, index or verifier changes, the log gets one entry per id, and every subscriber is told.\<close>

theorem retract_cascade:
  assumes "store_ok s" "0 < mx" "stored s i = Some n" "nd_status n \<noteq> Retracted"
  shows "\<exists>new depth.
    retract_with_limit i mx s =
      (Inr \<lparr>rr_retracted = new, rr_truncated = (mx < card (downstream s i)), rr_depth_reached = depth\<rparr>,
       (mark new s)\<lparr>st_subs := notify_retract i new (st_subs s)\<rparr>)
    \<and> distinct new \<and> i \<in> set new \<and> set new \<subseteq> downstream s i
    \<and> length new = min mx (card (downstream s i))"
  using retract_live [OF assms] by metis

theorem retract_cascade_witness:
  "\<exists>new depth.
    retract_with_limit ''a'' 100 small_store =
      (Inr \<lparr>rr_retracted = new, rr_truncated = (100 < card (downstream small_store ''a'')), rr_depth_reached = depth\<rparr>,
       (mark new small_store)\<lparr>st_subs := notify_retract ''a'' new (st_subs small_store)\<rparr>)
    \<and> distinct new \<and> ''a'' \<in> set new \<and> set new \<subseteq> downstream small_store ''a''
    \<and> length new = min 100 (card (downstream small_store ''a''))"
  by (rule retract_cascade [OF small_store_ok, where n = fact_a]) (simp_all add: small_store_nodes)

text \<open>C5. The store invariant. Whatever operations run on a new store, its indices stay exact: an
  id is listed under a key of a column family, as a dependent of a node or under a validity interval
  just when the stored node of that id says so. And the write-ahead log is the history of the store:
  replaying it from nothing gives the stored nodes.\<close>

theorem store_invariant:
  assumes "store_reaches (store_new reg) s"
  shows "store_ok s \<and> replay (st_wal s) = stored s"
  using reaches_both [OF assms] store_ok_new logged_new by (simp add: logged_def)

theorem store_invariant_witness:
  "store_ok (run_store_op (OpRetract ''a'') (run_store_op (OpInsert fact_a) (store_new registry_new)))
   \<and> replay (st_wal (run_store_op (OpRetract ''a'') (run_store_op (OpInsert fact_a) (store_new registry_new))))
     = stored (run_store_op (OpRetract ''a'') (run_store_op (OpInsert fact_a) (store_new registry_new)))"
  by (rule store_invariant [of registry_new]) (intro store_reaches.intros)

text \<open>C6. Insertion on every branch: a node a verifier refuses or whose id exists leaves the store
  as it was, with that error; any other node is stored under its id, the invariant is kept, the log
  gets its entry and the subscribers with a matching pattern get the event.\<close>

theorem insert_branches:
  assumes "store_ok s"
  shows "case verify_opt (st_verifiers s) n of
      Some r \<Rightarrow> insert_node n s = (Inl (InvalidNode r), s)
    | None \<Rightarrow>
        (if stored s (nd_id n) \<noteq> None then insert_node n s = (Inl (AlreadyExists (nd_id n)), s)
         else \<exists>t. insert_node n s = (Inr (), t) \<and> store_ok t \<and> stored t = (stored s)(nd_id n \<mapsto> n)
           \<and> st_wal t = st_wal s @ [WalInsert n] \<and> st_subs t = notify_insert n (st_subs s)
           \<and> st_verifiers t = st_verifiers s)"
proof (cases "verify_opt (st_verifiers s) n")
  case None
  show ?thesis
  proof (cases "stored s (nd_id n)")
    case fresh: None
    then show ?thesis
      using None store_ok_inserted [OF assms fresh]
      by (auto simp: insert_node_ok [OF assms] intro!: exI [of _ "inserted n s"])
  qed (use None in \<open>simp add: insert_node_ok [OF assms]\<close>)
qed (simp add: insert_node_ok [OF assms])

theorem insert_branches_witness:
  "case verify_opt (st_verifiers small_store) fact_a of
      Some r \<Rightarrow> insert_node fact_a small_store = (Inl (InvalidNode r), small_store)
    | None \<Rightarrow>
        (if stored small_store (nd_id fact_a) \<noteq> None
         then insert_node fact_a small_store = (Inl (AlreadyExists (nd_id fact_a)), small_store)
         else \<exists>t. insert_node fact_a small_store = (Inr (), t) \<and> store_ok t
           \<and> stored t = (stored small_store)(nd_id fact_a \<mapsto> fact_a)
           \<and> st_wal t = st_wal small_store @ [WalInsert fact_a] \<and> st_subs t = notify_insert fact_a (st_subs small_store)
           \<and> st_verifiers t = st_verifiers small_store)"
  by (rule insert_branches [OF small_store_ok])

text \<open>C3. A batch is all or nothing: it is stored whole exactly when every node passes the
  verifiers, the ids are new and no two are equal, and then the log closes with a checkpoint; in every
  other case the store is unchanged.\<close>

theorem batch_atomic:
  assumes "store_ok s"
  shows "if first_failure (st_verifiers s) ns = None \<and> distinct (map nd_id ns)
        \<and> list_all (\<lambda>n. stored s (nd_id n) = None) ns
      then \<exists>t. insert_batch ns s = (Inr (), t) \<and> store_ok t
        \<and> stored t = (stored s)(map nd_id ns [\<mapsto>] ns)
        \<and> st_wal t = st_wal s @ map WalInsert ns @ [WalCheckpoint]
      else \<exists>e. insert_batch ns s = (Inl e, s)"
proof (cases "first_failure (st_verifiers s) ns")
  case None
  show ?thesis
  proof (cases "check_duplicates (st_mem s) [] ns")
    case fresh: None
    then have d: "distinct (map nd_id ns)" "\<And>n. n \<in> set ns \<Longrightarrow> stored s (nd_id n) = None"
      by (simp_all add: check_duplicates_None)
    let ?t = "push_wal WalCheckpoint (fold inserted ns s)"
    have "insert_batch ns s = (Inr (), ?t)" using None fresh by (simp add: insert_batch_ok [OF assms])
    moreover have "store_ok ?t \<and> stored ?t = (stored s)(map nd_id ns [\<mapsto>] ns)
        \<and> st_wal ?t = st_wal s @ map WalInsert ns @ [WalCheckpoint]"
      using fold_inserted [OF assms d] store_ok_push_wal [of WalCheckpoint "fold inserted ns s"]
      by (simp add: push_wal_def)
    ultimately show ?thesis using None d by (simp add: list_all_iff)
  next
    case (Some e)
    then have "\<not> (distinct (map nd_id ns) \<and> list_all (\<lambda>n. stored s (nd_id n) = None) ns)"
      using check_duplicates_None [of "st_mem s" "[]" ns] by (auto simp: list_all_iff)
    then show ?thesis using None Some by (auto simp: insert_batch_ok [OF assms])
  qed
qed (simp add: insert_batch_ok [OF assms])

theorem batch_atomic_witness:
  "if first_failure (st_verifiers small_store) [fact_a] = None \<and> distinct (map nd_id [fact_a])
        \<and> list_all (\<lambda>n. stored small_store (nd_id n) = None) [fact_a]
      then \<exists>t. insert_batch [fact_a] small_store = (Inr (), t) \<and> store_ok t
        \<and> stored t = (stored small_store)(map nd_id [fact_a] [\<mapsto>] [fact_a])
        \<and> st_wal t = st_wal small_store @ map WalInsert [fact_a] @ [WalCheckpoint]
      else \<exists>e. insert_batch [fact_a] small_store = (Inl e, small_store)"
  by (rule batch_atomic [OF small_store_ok])

text \<open>C7. The index lookups are exact: looking a name up gives the active stored nodes filed
  under exactly that name (by an entity they mention, by their predicate's name, by their source), not
  those of a longer name that starts with it. Names hold no zero byte, the separator of the keys.\<close>

theorem lookups_exact:
  assumes "store_ok s" "nul_free p" "names_ok s"
  shows "set (lookup_by_entity s p) = {n. stored s (nd_id n) = Some n \<and> nd_status n = Active \<and> node_mentions p n}
    \<and> set (lookup_by_pred s p) =
      {n. stored s (nd_id n) = Some n \<and> nd_status n = Active \<and> pred_key (st_registry s) (pr_head (nd_pred n)) = p}
    \<and> set (lookup_by_doc s p) = {n. stored s (nd_id n) = Some n \<and> nd_status n = Active \<and> src_key (nd_prov n) = p}"
proof -
  have "n \<in> set (resolve_nodes s (scan_or_empty s c p)) \<longleftrightarrow>
    stored s (nd_id n) = Some n \<and> nd_status n = Active \<and> filed_under (st_registry s) c n p"
    if "c \<in> set [BY_ENTITY, BY_PRED, BY_SRC]" for c n
    using that assms(3) by (intro resolve_exact [OF assms(1) _ assms(2)]) (auto simp: names_ok_def)
  then show ?thesis
    by (auto simp: lookup_by_entity_def lookup_by_pred_def lookup_by_doc_def filed_under_def)
qed

lemma small_store_names: "names_ok small_store"
proof -
  have "list_all (\<lambda>c. name_sep reg c n) [BY_ENTITY, BY_PRED, BY_SRC]" if "n \<in> {fact_a, fact_b, fact_c}" for n reg
    using that by (auto simp: name_sep_def filed_under_def nul_free_def node_mentions_def pred_key_def src_key_def
        fact_a_def fact_b_def fact_c_def node_new_def)
  then show ?thesis by (auto simp: names_ok_def small_store_nodes split: if_splits)
qed

theorem lookups_exact_witness:
  "set (lookup_by_entity small_store ''X'') =
     {n. stored small_store (nd_id n) = Some n \<and> nd_status n = Active \<and> node_mentions ''X'' n}
    \<and> set (lookup_by_pred small_store ''X'') =
      {n. stored small_store (nd_id n) = Some n \<and> nd_status n = Active
        \<and> pred_key (st_registry small_store) (pr_head (nd_pred n)) = ''X''}
    \<and> set (lookup_by_doc small_store ''X'') =
      {n. stored small_store (nd_id n) = Some n \<and> nd_status n = Active \<and> src_key (nd_prov n) = ''X''}"
  by (rule lookups_exact [OF small_store_ok _ small_store_names]) (simp add: nul_free_def)

text \<open>C15. The temporal lookup is exact: the range scan over the validity index followed by the
  filter gives the active stored nodes that are valid at the instant, no more and no fewer.\<close>

theorem valid_at_exact:
  assumes "store_ok s" "time_ok t" "\<And>i n. stored s i = Some n \<Longrightarrow> validity_ok (nd_validity n)"
  shows "set (lookup_valid_at s t) =
    {n. stored s (nd_id n) = Some n \<and> nd_status n = Active \<and> is_valid_at (nd_validity n) t}"
  using lookup_valid_exact [OF assms(1,2)] assms(3) by blast

theorem valid_at_exact_witness:
  "set (lookup_valid_at small_store 5) =
    {n. stored small_store (nd_id n) = Some n \<and> nd_status n = Active \<and> is_valid_at (nd_validity n) 5}"
proof (rule valid_at_exact [OF small_store_ok])
  show "validity_ok (nd_validity n)" if "stored small_store i = Some n" for i n
    using that by (auto simp: small_store_nodes fact_a_def fact_b_def fact_c_def node_new_def validity_ok_def
        time_ok_def I64_MIN_def I64_MAX_def timestamp_def split: if_splits)
qed (simp add: time_ok_def I64_MIN_def I64_MAX_def timestamp_def)

text \<open>C16. Reopening a backend rebuilds the same indices: the reverse dependencies and the validity
  intervals, which are not persisted, list the same ids as before, whatever the order of the nodes.\<close>

theorem reopen_same:
  assumes "store_ok s"
  shows "store_ok (with_backend (st_mem s) (st_registry s))
    \<and> (\<forall>d. set (entries_at d (st_deps_rev (with_backend (st_mem s) (st_registry s)))) = set (entries_at d (st_deps_rev s)))
    \<and> (\<forall>k. set (entries_at k (st_by_validity (with_backend (st_mem s) (st_registry s)))) = set (entries_at k (st_by_validity s)))"
proof -
  let ?t = "with_backend (st_mem s) (st_registry s)"
  have ok: "store_ok ?t" using assms by (intro store_ok_with_backend) (simp_all add: store_ok_def)
  have "stored ?t = stored s" by (simp add: with_backend_def rebuild_indices_def iter_nodes_def)
  then show ?thesis using ok assms unfolding store_ok_def exact_def by (auto simp del: split_paired_All)
qed

theorem reopen_same_witness:
  "store_ok (with_backend (st_mem small_store) (st_registry small_store))
    \<and> (\<forall>d. set (entries_at d (st_deps_rev (with_backend (st_mem small_store) (st_registry small_store))))
         = set (entries_at d (st_deps_rev small_store)))
    \<and> (\<forall>k. set (entries_at k (st_by_validity (with_backend (st_mem small_store) (st_registry small_store))))
         = set (entries_at k (st_by_validity small_store)))"
  by (rule reopen_same [OF small_store_ok])

text \<open>The other outcomes of a retraction: an unknown id is reported and nothing changes, a node
  already retracted gives an empty result, and a limit of zero gives an empty, truncated one even for
  an id that does not exist.\<close>

lemma retract_outcomes:
  "(mx = 0 \<longrightarrow> retract_with_limit i mx s =
      (Inr \<lparr>rr_retracted = [], rr_truncated = True, rr_depth_reached = 0\<rparr>,
       s\<lparr>st_subs := notify_retract i [] (st_subs s)\<rparr>))
   \<and> (0 < mx \<and> stored s i = None \<longrightarrow> retract_with_limit i mx s = (Inl (NotFound i), s))
   \<and> (0 < mx \<and> map_option nd_status (stored s i) = Some Retracted \<longrightarrow> retract_with_limit i mx s =
      (Inr \<lparr>rr_retracted = [], rr_truncated = False, rr_depth_reached = 0\<rparr>,
       s\<lparr>st_subs := notify_retract i [] (st_subs s)\<rparr>))"
  by (auto simp: retract_other)

lemma retract_outcomes_witness:
  "retract_with_limit ''d'' 100 small_store = (Inl (NotFound ''d''), small_store)
   \<and> retract_with_limit ''a'' 100 (set_status ''a'' fact_a Retracted small_store) =
      (Inr \<lparr>rr_retracted = [], rr_truncated = False, rr_depth_reached = 0\<rparr>,
       (set_status ''a'' fact_a Retracted small_store)
         \<lparr>st_subs := notify_retract ''a'' [] (st_subs (set_status ''a'' fact_a Retracted small_store))\<rparr>)"
  using retract_outcomes [of 100 "''d''" small_store] retract_outcomes [of 100 "''a''" "set_status ''a'' fact_a Retracted small_store"]
    store_ok_set_status(2) [OF small_store_ok, of "''a''" fact_a Retracted]
  by (simp add: small_store_nodes)

text \<open>Reading by id checks the caller's roles: a missing node is not found, a node whose tag
  shares no bit with the role mask is denied, any other is returned.\<close>

lemma get_with_perm_cases:
  "get_with_perm s i ctx =
    (case stored s i of
       None \<Rightarrow> Inl (NotFound i)
     | Some n \<Rightarrow> if nd_perm n AND pc_role_mask ctx = 0 then Inl PermissionDenied else Inr n)"
  by (simp add: get_with_perm_def store_get_eq check_permission_def tag_grants_def split: option.split)

end
