(* ===== verification/Query_Properties.thy ===== *)
theory Query_Properties
  imports Orders Store_Properties Samples
begin

text \<open>
  The properties of queries: what pattern matching means, which nodes a query finds, what a caller can
  learn about nodes hidden from it, and what each arbitration policy guarantees.
\<close>

section \<open>Samples\<close>

definition sample_pattern :: predicate where
  "sample_pattern = Predicate (HeadName ''q'') [TVar ''x''] []"

definition sample_query :: query where
  "sample_query = query_new sample_pattern"

definition sample_options :: query_options where
  "sample_options = default_options 5"

definition rival :: "string \<Rightarrow> f32 \<Rightarrow> query_result" where
  "rival v a = \<lparr>qr_node = (node_new v (Predicate (HeadName ''q'') [TEnt v] []))\<lparr>nd_auth := a\<rparr>, qr_bindings = []\<rparr>"

lemma rival_fields [simp]: "nd_auth (qr_node (rival v a)) = a"
  by (simp add: rival_def)

section \<open>The properties\<close>

text \<open>C4. What a query finds, before arbitration: exactly the stored nodes that mention the filter
  entity (when there is one), whose predicate the pattern matches under some assignment of its
  variables, that are active and valid at the time of the query, that the caller's roles may see and
  whose confidence is not below the threshold. No index can add or hide a node.\<close>

theorem query_finds_exactly:
  assumes "store_ok s" "names_ok s" "query_names_ok q"
  shows "qr_node ` set (query_matches q opts s) = {n. stored s (nd_id n) = Some n \<and> answers q opts n}"
  using query_matches_exact [OF assms] by blast

theorem query_finds_exactly_witness:
  "qr_node ` set (query_matches sample_query sample_options small_store) =
     {n. stored small_store (nd_id n) = Some n \<and> answers sample_query sample_options n}"
  by (rule query_finds_exactly [OF small_store_ok small_store_names])
    (simp add: query_names_ok_def sample_query_def query_new_def sample_pattern_def nul_free_def)

text \<open>C17. Every result a query returns, under any arbitration policy, is an answer of the store,
  and its bindings make the pattern and the node's predicate equal.\<close>

theorem query_sound:
  assumes "store_ok s" "names_ok s" "query_names_ok q"
    "query_run C q opts s = Some (Inr rs)" "r \<in> set (rs_results rs)"
  shows "stored s (nd_id (qr_node r)) = Some (qr_node r) \<and> answers q opts (qr_node r)
    \<and> psat (map_of (qr_bindings r)) (q_pattern q) (nd_pred (qr_node r))"
proof -
  have "r \<in> set (query_matches q opts s)" using query_run_in assms(4,5) .
  then show ?thesis
    using query_matches_exact [OF assms(1-3), of "qr_node r"] match_sound(1) query_matches_iff by blast
qed

lemma fold_inserted_verifiers: "st_verifiers (fold inserted ns s) = st_verifiers s"
  by (induction ns arbitrary: s) simp_all

lemma small_store_verifiers: "st_verifiers small_store = None"
proof -
  have "st_verifiers (snd (insert_batch ns s)) = st_verifiers s" if "store_ok s" for ns s
    using that by (simp add: insert_batch_ok push_wal_def fold_inserted_verifiers split: option.split)
  then show ?thesis
    by (simp add: small_store_def store_ok_new)
      (simp add: store_new_def with_backend_def rebuild_indices_def iter_nodes_def)
qed

lemma sample_query_ok: "query_names_ok sample_query"
  by (simp add: query_names_ok_def sample_query_def query_new_def sample_pattern_def nul_free_def)

lemma fact_b_answers: "answers sample_query sample_options fact_b"
proof -
  have "psat [''x'' \<mapsto> TEnt ''X''] sample_pattern (nd_pred fact_b)"
    by (simp add: sample_pattern_def fact_b_def node_new_def psat_iff)
  moreover have "\<not> f32_lt default_confidence f32_zero" "tag_grants PUBLIC PUBLIC" by code_simp+
  ultimately show ?thesis
    by (auto simp: answers_def sample_query_def query_new_def sample_options_def default_options_def ctx_public_def
        fact_b_def node_new_def)
qed

lemma sample_result:
  "\<exists>rs r. query_run sample_chrono sample_query sample_options small_store = Some (Inr rs) \<and> r \<in> set (rs_results rs)"
proof -
  let ?ms = "query_matches sample_query sample_options small_store"
  have mem: "n \<in> qr_node ` set ?ms \<longleftrightarrow> stored small_store (nd_id n) = Some n \<and> answers sample_query sample_options n" for n
    by (rule query_matches_exact [OF small_store_ok small_store_names sample_query_ok])
  have "fact_b \<in> qr_node ` set ?ms" unfolding mem using fact_b_answers by (simp add: small_store_nodes)
  then have ne: "?ms \<noteq> []" by auto
  have "nd_auth (qr_node r) \<noteq> F32_NaN" if "r \<in> set ?ms" for r
  proof -
    have "stored small_store (nd_id (qr_node r)) = Some (qr_node r)" using mem that by blast
    then have "qr_node r \<in> {fact_a, fact_b, fact_c}" by (auto simp: small_store_nodes split: if_splits)
    then have "nd_auth (qr_node r) = default_authority"
      by (auto simp: fact_a_def fact_b_def fact_c_def node_new_def)
    moreover have "default_authority \<noteq> F32_NaN" by code_simp
    ultimately show ?thesis by simp
  qed
  from latest_wins_group [OF this ne, of sample_chrono] obtain rs a
    where g: "arbitrate_group sample_chrono LatestWins ?ms = Some (rs, a)"
      and w: "\<And>m. m \<in> set ?ms \<Longrightarrow> \<exists>w \<in> set rs. sig_of sample_chrono w = sig_of sample_chrono m \<and> latest_cmp m w \<le> 0"
    by metis
  have pol: "qo_policy sample_options = LatestWins" by (simp only: sample_options_def default_options_def query_options.simps)
  have "query_run sample_chrono sample_query sample_options small_store
      = Some (Inr \<lparr>rs_results = rs, rs_ambiguous = a\<rparr>)"
    by (simp only: query_run_def arbitrate_pattern [OF ne] pol g option.case prod.case)
  moreover obtain m where "m \<in> set ?ms" using ne by (meson list.set_sel(1))
  moreover from w [OF this] obtain r where "r \<in> set rs" by blast
  ultimately show ?thesis by (metis result_set.select_convs(1))
qed

theorem query_sound_witness:
  "\<exists>rs r. query_run sample_chrono sample_query sample_options small_store = Some (Inr rs) \<and> r \<in> set (rs_results rs)
    \<and> stored small_store (nd_id (qr_node r)) = Some (qr_node r) \<and> answers sample_query sample_options (qr_node r)
    \<and> psat (map_of (qr_bindings r)) (q_pattern sample_query) (nd_pred (qr_node r))"
  using sample_result query_sound [OF small_store_ok small_store_names sample_query_ok] by blast

text \<open>C10. A node the caller may not see leaves no trace. The backend may visit its hash maps in any
  order, and in another one after the insertion; arbitration visits its own in the order of the hashes
  \<open>C\<close> gives. For every such \<open>C\<close>, each answer a query of that caller can have with the node inserted,
  results in their order and ambiguity flag, it can have without it, and the other way round.\<close>

theorem hidden_node_leaves_no_trace:
  assumes "store_ok s" "stored s (nd_id n) = None" "verify_opt (st_verifiers s) n = None"
    "\<not> tag_grants (nd_perm n) (pc_role_mask (qo_perm opts))"
  shows "fst (insert_node n s) = Inr ()
    \<and> outcomes (query_run C q opts) (snd (insert_node n s)) = outcomes (query_run C q opts) s"
proof -
  have "\<not> admitted opts n" using assms(4) by (simp add: admitted_def check_permission_def)
  then have "query_run C q opts t' = query_run C q opts t" if "unseen_in n t' t" for t' t
    using query_matches_unseen [OF that] by (simp add: query_run_def)
  then show ?thesis
    using outcomes_unseen [OF assms(1,2), of "query_run C q opts"] assms(1-3) by (simp add: insert_node_ok)
qed

definition hidden :: node where
  "hidden = (node_new ''d'' (Predicate (HeadName ''q'') [TEnt ''X''] []))\<lparr>nd_perm := RESTRICTED\<rparr>"

theorem hidden_node_leaves_no_trace_witness:
  "fst (insert_node hidden small_store) = Inr ()
   \<and> outcomes (query_run sample_chrono sample_query sample_options) (snd (insert_node hidden small_store))
     = outcomes (query_run sample_chrono sample_query sample_options) small_store"
proof (rule hidden_node_leaves_no_trace [OF small_store_ok])
  have "\<not> tag_grants RESTRICTED PUBLIC" by code_simp
  then show "\<not> tag_grants (nd_perm hidden) (pc_role_mask (qo_perm sample_options))"
    by (simp add: hidden_def sample_options_def default_options_def ctx_public_def)
qed (simp_all add: hidden_def node_new_def small_store_nodes small_store_verifiers verify_opt_def)

text \<open>C18. Matching: a pattern matches a predicate exactly when some assignment of its variables
  makes them equal, and the bindings found are the least such assignment.\<close>

theorem match_pattern_least:
  "(match_pattern p q = None \<longleftrightarrow> \<not> (\<exists>\<sigma>. psat \<sigma> p q))
   \<and> (case match_pattern p q of None \<Rightarrow> True
      | Some bs \<Rightarrow> psat (map_of bs) p q \<and> {\<sigma>. psat \<sigma> p q \<and> \<not> map_of bs \<subseteq>\<^sub>m \<sigma>} = {})"
  using match_iff [of p q] match_sound(1) [of p q] match_complete(1) [of _ p q]
  by (cases "match_pattern p q") auto

text \<open>Refusal: \<open>Unanimous\<close>, \<open>WeightedVote\<close> and \<open>Custom\<close> give one result, or none with the
  ambiguity flag set; they never give a guess, and never nothing without the flag.\<close>

lemma agreement_or_refusal:
  assumes "agreement_policy policy" "ms \<noteq> []"
  shows "\<exists>rs a. arbitrate C ms policy (Some p) = Some (rs, a) \<and> (if a then rs = [] else length rs = 1)"
  using agreement_shape [OF assms] by metis

lemma agreement_or_refusal_witness:
  "\<exists>rs a. arbitrate sample_chrono [rival ''v'' f32_one, rival ''w'' f32_one] Unanimous (Some sample_pattern) = Some (rs, a)
     \<and> (if a then rs = [] else length rs = 1)"
  by (rule agreement_or_refusal) (simp_all add: agreement_policy_def)

text \<open>C28. \<open>LatestWins\<close>: when no authority is a NaN, every match has a result with its predicate
  that it does not beat, by authority and then by the recency of its validity; and no result is beaten
  by a match with its predicate.\<close>

theorem latest_wins_maximal:
  assumes "list_all (\<lambda>r. nd_auth (qr_node r) \<noteq> F32_NaN) ms" "ms \<noteq> []"
  shows "\<exists>rs a. arbitrate C ms LatestWins (Some p) = Some (rs, a)
    \<and> list_all (\<lambda>m. list_ex (\<lambda>w. sig_of C w = sig_of C m \<and> latest_cmp m w \<le> 0) rs) ms
    \<and> list_all (\<lambda>w. list_all (\<lambda>m. sig_of C m = sig_of C w \<longrightarrow> latest_cmp m w \<le> 0) ms) rs"
proof -
  have "\<And>r. r \<in> set ms \<Longrightarrow> nd_auth (qr_node r) \<noteq> F32_NaN" using assms(1) by (simp add: list_all_iff)
  from latest_wins_group [OF this assms(2), of C] obtain rs a
    where g: "arbitrate_group C LatestWins ms = Some (rs, a)"
      and all: "\<And>m. m \<in> set ms \<Longrightarrow> \<exists>w \<in> set rs. sig_of C w = sig_of C m \<and> latest_cmp m w \<le> 0"
      and max: "\<And>w m. w \<in> set rs \<Longrightarrow> m \<in> set ms \<Longrightarrow> sig_of C m = sig_of C w \<Longrightarrow> latest_cmp m w \<le> 0"
    by metis
  have "arbitrate C ms LatestWins (Some p) = Some (rs, a)" using arbitrate_pattern [OF assms(2)] g by metis
  moreover have "list_all (\<lambda>m. list_ex (\<lambda>w. sig_of C w = sig_of C m \<and> latest_cmp m w \<le> 0) rs) ms"
    unfolding list_all_iff list_ex_iff using all by (intro ballI)
  moreover have "list_all (\<lambda>w. list_all (\<lambda>m. sig_of C m = sig_of C w \<longrightarrow> latest_cmp m w \<le> 0) ms) rs"
    unfolding list_all_iff using max by (intro ballI impI)
  ultimately show ?thesis by (intro exI conjI)
qed

lemma unit_samples: "in_unit f32_one \<and> f32_wf f32_one" "in_unit f32_zero \<and> f32_wf f32_zero"
  by code_simp+

lemma not_nan_samples: "f32_one \<noteq> F32_NaN" "f32_zero \<noteq> F32_NaN"
  by code_simp+

theorem latest_wins_maximal_witness:
  "\<exists>rs a. arbitrate sample_chrono [rival ''v'' f32_one, rival ''v'' f32_zero] LatestWins (Some sample_pattern) = Some (rs, a)
    \<and> list_all (\<lambda>m. list_ex (\<lambda>w. sig_of sample_chrono w = sig_of sample_chrono m \<and> latest_cmp m w \<le> 0) rs)
        [rival ''v'' f32_one, rival ''v'' f32_zero]
    \<and> list_all (\<lambda>w. list_all (\<lambda>m. sig_of sample_chrono m = sig_of sample_chrono w \<longrightarrow> latest_cmp m w \<le> 0)
        [rival ''v'' f32_one, rival ''v'' f32_zero]) rs"
  by (rule latest_wins_maximal) (simp_all only: list.pred_inject rival_fields unit_samples not_nan_samples simp_thms list.simps)

text \<open>C29. \<open>HighestAuthority\<close> answers for every predicate matched, without the panic of
  \<open>winners[0]\<close>, as long as the authorities are in the unit interval.\<close>

theorem highest_authority_answers:
  assumes "list_all (\<lambda>r. in_unit (nd_auth (qr_node r)) \<and> f32_wf (nd_auth (qr_node r))) ms" "ms \<noteq> []"
  shows "\<exists>rs a. arbitrate C ms HighestAuthority (Some p) = Some (rs, a)
    \<and> list_all (\<lambda>m. list_ex (\<lambda>w. sig_of C w = sig_of C m) rs) ms"
proof -
  have "\<And>r. r \<in> set ms \<Longrightarrow> in_unit (nd_auth (qr_node r)) \<and> f32_wf (nd_auth (qr_node r))"
    using assms(1) by (simp add: list_all_iff)
  from highest_group [OF this assms(2), of C] obtain rs a
    where g: "arbitrate_group C HighestAuthority ms = Some (rs, a)"
      and all: "\<And>m. m \<in> set ms \<Longrightarrow> \<exists>w \<in> set rs. sig_of C w = sig_of C m"
    by metis
  have "arbitrate C ms HighestAuthority (Some p) = Some (rs, a)" using arbitrate_pattern [OF assms(2)] g by metis
  moreover have "list_all (\<lambda>m. list_ex (\<lambda>w. sig_of C w = sig_of C m) rs) ms"
    unfolding list_all_iff list_ex_iff using all by (intro ballI)
  ultimately show ?thesis by (intro exI conjI)
qed

theorem highest_authority_answers_witness:
  "\<exists>rs a. arbitrate sample_chrono [rival ''v'' f32_one, rival ''v'' f32_zero] HighestAuthority (Some sample_pattern) = Some (rs, a)
    \<and> list_all (\<lambda>m. list_ex (\<lambda>w. sig_of sample_chrono w = sig_of sample_chrono m) rs) [rival ''v'' f32_one, rival ''v'' f32_zero]"
  by (rule highest_authority_answers) (simp_all only: list.pred_inject rival_fields unit_samples simp_thms list.simps)

text \<open>Outside the unit interval it can panic: two results of the same predicate whose authority
  is a NaN have no winner.\<close>

lemma highest_authority_panics:
  "arbitrate sample_chrono [rival ''v'' F32_NaN, rival ''v'' F32_NaN] HighestAuthority (Some sample_pattern) = None"
proof -
  let ?r = "rival ''v'' F32_NaN"
  have sig: "sig_of sample_chrono ?r = sig_of sample_chrono ?r" ..
  have "sub_group_by_predicate sample_chrono [?r, ?r] = [[?r, ?r]]"
    by (simp add: sub_group_by_predicate_def push_at_def entries_at_def)
  moreover have "highest_sub [?r, ?r] = None"
    by (simp add: highest_sub_def Let_def auth_close_def f32_sub_def f32_lt_def)
  ultimately show ?thesis by (simp add: arbitrate_pattern arbitrate_group_def)
qed

text \<open>C38. \<open>WeightedVote\<close>: a vote is decided exactly when the supporters of one predicate have weights
  that, added in order, exceed half of the total. The answer is then the first supporter of a predicate
  that has such a majority, whatever order the tally is visited in; without a majority nothing is
  returned and the vote is ambiguous. (No sum of weights may be a NaN; rounding is included.)\<close>

theorem weighted_vote_majority:
  assumes "2 \<le> length ms" "list_all (\<lambda>r. sum_weights ws (supporters C ms r) \<noteq> F32_NaN) ms"
  shows "\<exists>rs a. arbitrate C ms (WeightedVote ws) (Some p) = Some (rs, a)
    \<and> (if list_ex (majority C ws ms) ms
       then \<not> a \<and> (\<exists>r rest. rs = [r] \<and> supporters C ms r = r # rest \<and> majority C ws ms r)
       else a \<and> rs = [])"
proof -
  obtain rs a where v: "weighted_vote C ws ms = (rs, a)" by (meson surj_pair)
  have "ms \<noteq> []" "length ms \<noteq> 1" using assms(1) by auto
  then have "arbitrate C ms (WeightedVote ws) (Some p) = Some (rs, a)"
    by (simp add: arbitrate_pattern arbitrate_group_def v)
  moreover have "\<not> a" if "r \<in> set ms" "majority C ws ms r" for r
    using weighted_vote_decides [OF v that] assms(2) by (simp add: list_all_iff)
  moreover have "a \<and> rs = [] \<or> \<not> a \<and> (\<exists>r rest. rs = [r] \<and> supporters C ms r = r # rest \<and> majority C ws ms r \<and> r \<in> set ms)"
  proof -
    have "majority C ws ms r \<and> r \<in> set ms"
      if "supporters C ms r = r # rest"
        "f32_lt (f32_mul (foldl f32_add f32_zero (map (weight_of ws) ms)) (f32_lit 5 1)) (sum_weights ws (r # rest))" for r rest
    proof -
      have "r \<in> set (supporters C ms r)" by (simp only: that(1) list.set_intros)
      then have "r \<in> set ms" by (simp add: supporters_def)
      then show ?thesis using that by (simp add: majority_def)
    qed
    then show ?thesis using weighted_vote_cases [OF v] unfolding supporters_def [symmetric] by blast
  qed
  ultimately show ?thesis unfolding list_ex_iff by (cases "\<exists>r \<in> set ms. majority C ws ms r") auto
qed

definition ballot :: "query_result list" where
  "ballot = [rival ''v'' f32_one, rival ''w'' f32_one, rival ''w'' f32_zero]"

lemma ballot_counts:
  "list_all (\<lambda>r. sum_weights [] (supporters sample_chrono ballot r) \<noteq> F32_NaN) ballot"
  "list_ex (majority sample_chrono [] ballot) ballot"
  by code_simp+

theorem weighted_vote_majority_witness:
  "\<exists>rs a. arbitrate sample_chrono ballot (WeightedVote []) (Some sample_pattern) = Some (rs, a)
    \<and> \<not> a \<and> (\<exists>r rest. rs = [r] \<and> supporters sample_chrono ballot r = r # rest \<and> majority sample_chrono [] ballot r)"
proof -
  have "2 \<le> length ballot" by (simp add: ballot_def)
  from weighted_vote_majority [OF this ballot_counts(1), of sample_pattern] show ?thesis using ballot_counts(2) by simp
qed

end
