(* ===== verification/Review.thy ===== *)
theory Review
  imports Prelude "HOL-Library.Multiset"
begin

text \<open>
  The review queue, \<open>factum-rt/src/review.rs\<close>: events waiting for a human decision. The two cells of
  the source, the deque and the id counter, are the fields of one record; the clock is an argument of
  \<open>enqueue\<close>. The status of an event is a small state machine, given as a step relation, and every
  sequence of operations moves each event along it.
\<close>

datatype review_priority = NormalPriority | HighPriority

datatype review_event_type = AmbiguousArbitration | BandClippingExceeded | CascadeTruncated

datatype review_status = ReviewPending | Approved | Rejected | AutoResolved

definition event_type_str :: "review_event_type \<Rightarrow> string" where
  "event_type_str t =
     (case t of
        AmbiguousArbitration \<Rightarrow> ''AmbiguousArbitration''
      | BandClippingExceeded \<Rightarrow> ''BandClippingExceeded''
      | CascadeTruncated \<Rightarrow> ''CascadeTruncated'')"

definition priority_str :: "review_priority \<Rightarrow> string" where
  "priority_str p = (case p of HighPriority \<Rightarrow> ''High'' | NormalPriority \<Rightarrow> ''Normal'')"

definition status_str :: "review_status \<Rightarrow> string" where
  "status_str s =
     (case s of
        ReviewPending \<Rightarrow> ''Pending''
      | Approved \<Rightarrow> ''Approved''
      | Rejected \<Rightarrow> ''Rejected''
      | AutoResolved \<Rightarrow> ''AutoResolved'')"

record review_event =
  re_id :: u64
  re_type :: review_event_type
  re_priority :: review_priority
  re_node_ids :: "string list"
  re_reason :: string
  re_timestamp :: int
  re_status :: review_status

definition is_pending :: "review_event \<Rightarrow> bool" where
  "is_pending e \<longleftrightarrow> re_status e = ReviewPending"

record review_queue =
  rq_events :: "review_event list"
  rq_next_id :: u64

definition review_new :: review_queue where
  "review_new = \<lparr>rq_events = [], rq_next_id = 1\<rparr>"

section \<open>Operations\<close>

definition insert_before :: "('a \<Rightarrow> bool) \<Rightarrow> 'a \<Rightarrow> 'a list \<Rightarrow> 'a list" where
  \<comment> \<open>\<open>insert(position(p).unwrap_or(len), x)\<close>\<close>
  "insert_before p x xs = takeWhile (\<lambda>y. \<not> p y) xs @ x # dropWhile (\<lambda>y. \<not> p y) xs"

definition enqueue ::
  "int \<Rightarrow> review_event_type \<Rightarrow> review_priority \<Rightarrow> string list \<Rightarrow> string \<Rightarrow> review_queue \<Rightarrow> u64 \<times> review_queue" where
  "enqueue now ty pr ids why q =
     (let i = rq_next_id q;
          e = \<lparr>re_id = i, re_type = ty, re_priority = pr, re_node_ids = ids, re_reason = why,
               re_timestamp = now, re_status = ReviewPending\<rparr>;
          before = (if pr = HighPriority then (\<lambda>x. \<not> is_pending x \<or> re_priority x = NormalPriority)
                    else (\<lambda>x. \<not> is_pending x))
      in (i, q\<lparr>rq_next_id := i + 1, rq_events := insert_before before e (rq_events q)\<rparr>))"

fun insert_by :: "('a \<Rightarrow> 'a \<Rightarrow> int) \<Rightarrow> 'a \<Rightarrow> 'a list \<Rightarrow> 'a list" where
  "insert_by cmp x [] = [x]"
| "insert_by cmp x (y # ys) = (if cmp x y \<le> 0 then x # y # ys else y # insert_by cmp x ys)"

definition sort_by :: "('a \<Rightarrow> 'a \<Rightarrow> int) \<Rightarrow> 'a list \<Rightarrow> 'a list" where
  \<comment> \<open>a stable sort, as \<open>slice::sort_by\<close>\<close>
  "sort_by cmp xs = foldr (insert_by cmp) xs []"

definition priority_rank :: "review_priority \<Rightarrow> int" where
  \<comment> \<open>the derived order, by declaration\<close>
  "priority_rank p = (case p of NormalPriority \<Rightarrow> 0 | HighPriority \<Rightarrow> 1)"

definition pending_cmp :: "review_event \<Rightarrow> review_event \<Rightarrow> int" where
  "pending_cmp a b =
     (let c = sgn (priority_rank (re_priority b) - priority_rank (re_priority a)) in
      if c \<noteq> 0 then c else sgn (uint (re_id a) - uint (re_id b)))"

definition list_pending :: "review_queue \<Rightarrow> review_event list" where
  "list_pending q = sort_by pending_cmp (filter is_pending (rq_events q))"

definition list_all_events :: "review_queue \<Rightarrow> review_event list" where
  "list_all_events q = sort_by (\<lambda>a b. sgn (uint (re_id b) - uint (re_id a))) (rev (rq_events q))"

definition review_get :: "u64 \<Rightarrow> review_queue \<Rightarrow> review_event option" where
  "review_get i q = find (\<lambda>e. re_id e = i) (rq_events q)"

datatype review_error = EventNotFound u64 | AlreadyDecided u64 review_status

fun update_first :: "('a \<Rightarrow> bool) \<Rightarrow> ('a \<Rightarrow> 'a) \<Rightarrow> 'a list \<Rightarrow> 'a list" where
  \<comment> \<open>assignment through \<open>iter_mut().find(p)\<close>\<close>
  "update_first p f [] = []"
| "update_first p f (x # xs) = (if p x then f x # xs else x # update_first p f xs)"

definition assign_status :: "u64 \<Rightarrow> review_status \<Rightarrow> review_queue \<Rightarrow> review_queue" where
  "assign_status i s q =
     q\<lparr>rq_events := update_first (\<lambda>e. re_id e = i) (\<lambda>e. e\<lparr>re_status := s\<rparr>) (rq_events q)\<rparr>"

definition approve :: "u64 \<Rightarrow> review_queue \<Rightarrow> (review_error + unit) \<times> review_queue" where
  "approve i q =
     (case review_get i q of
        None \<Rightarrow> (Inl (EventNotFound i), q)
      | Some e \<Rightarrow>
          if re_status e \<noteq> ReviewPending then (Inl (AlreadyDecided i (re_status e)), q)
          else (Inr (), assign_status i Approved q))"

definition reject :: "u64 \<Rightarrow> review_queue \<Rightarrow> (review_error + unit) \<times> review_queue" where
  "reject i q =
     (case review_get i q of
        None \<Rightarrow> (Inl (EventNotFound i), q)
      | Some e \<Rightarrow>
          if re_status e \<noteq> ReviewPending then (Inl (AlreadyDecided i (re_status e)), q)
          else (Inr (), assign_status i Rejected q))"

definition auto_resolve :: "u64 \<Rightarrow> review_queue \<Rightarrow> (review_error + unit) \<times> review_queue" where
  "auto_resolve i q =
     (case review_get i q of
        None \<Rightarrow> (Inl (EventNotFound i), q)
      | Some e \<Rightarrow> (Inr (), assign_status i AutoResolved q))"

definition pending_count :: "review_queue \<Rightarrow> nat" where
  "pending_count q = length (filter is_pending (rq_events q))"

definition total_count :: "review_queue \<Rightarrow> nat" where
  "total_count q = length (rq_events q)"

section \<open>The stable sort\<close>

lemma insert_by_mset [simp]: "mset (insert_by cmp x ys) = add_mset x (mset ys)"
  by (induction cmp x ys rule: insert_by.induct) simp_all

lemma sort_by_mset [simp]: "mset (sort_by cmp xs) = mset xs"
  by (induction xs) (simp_all add: sort_by_def)

lemma sort_by_set [simp]: "set (sort_by cmp xs) = set xs"
  using mset_eq_setD [OF sort_by_mset] .

locale comparison =
  fixes cmp :: "'a \<Rightarrow> 'a \<Rightarrow> int"
  assumes anti: "cmp y x = - cmp x y"
    and trans: "cmp x y \<le> 0 \<Longrightarrow> cmp y z \<le> 0 \<Longrightarrow> cmp x z \<le> 0"
begin

lemma insert_sorted: "sorted_wrt (\<lambda>a b. cmp a b \<le> 0) ys \<Longrightarrow> sorted_wrt (\<lambda>a b. cmp a b \<le> 0) (insert_by cmp x ys)"
proof (induction ys)
  case (Cons y ys)
  have set: "set (insert_by cmp x ys) = insert x (set ys)"
    using insert_by_mset [of cmp x ys] by (metis set_mset_add_mset_insert set_mset_mset)
  show ?case
  proof (cases "cmp x y \<le> 0")
    case True
    then show ?thesis using Cons.prems trans by auto
  next
    case False
    then have "cmp y x \<le> 0" using anti [of x y] by simp
    then show ?thesis using False Cons set by auto
  qed
qed simp

lemma sorted: "sorted_wrt (\<lambda>a b. cmp a b \<le> 0) (sort_by cmp xs)"
  by (induction xs) (simp_all add: sort_by_def insert_sorted)

end

lemma sgn_swap: "sgn (b - a) = - sgn (a - b :: int)"
  by (simp add: sgn_if)

interpretation by_priority: comparison pending_cmp
proof
  show "pending_cmp y x = - pending_cmp x y" for x y
    by (cases "re_priority x"; cases "re_priority y") (simp_all add: pending_cmp_def priority_rank_def sgn_if)
  show "pending_cmp x z \<le> 0" if "pending_cmp x y \<le> 0" "pending_cmp y z \<le> 0" for x y z
    using that by (cases "re_priority x"; cases "re_priority y"; cases "re_priority z")
      (auto simp: pending_cmp_def priority_rank_def sgn_if split: if_splits)
qed

interpretation newest_first: comparison "\<lambda>a b. sgn (uint (re_id b) - uint (re_id a))"
  by unfold_locales (auto simp: sgn_if split: if_splits)

section \<open>The queue keeps its events\<close>

definition queue_ok :: "review_queue \<Rightarrow> bool" where
  "queue_ok q \<longleftrightarrow> distinct (map re_id (rq_events q)) \<and> (\<forall>e \<in> set (rq_events q). re_id e < rq_next_id q)"

lemma insert_before_mset [simp]: "mset (insert_before p x xs) = add_mset x (mset xs)"
proof -
  have "mset (takeWhile (\<lambda>y. \<not> p y) xs) + mset (dropWhile (\<lambda>y. \<not> p y) xs) = mset xs"
    by (metis mset_append takeWhile_dropWhile_id)
  then show ?thesis by (simp add: insert_before_def)
qed

lemma insert_before_set [simp]: "set (insert_before p x xs) = insert x (set xs)"
  by (metis insert_before_mset set_mset_add_mset_insert set_mset_mset)

lemma insert_before_map: "f x \<notin> f ` set xs \<Longrightarrow> distinct (map f xs) \<Longrightarrow> distinct (map f (insert_before p x xs))"
proof -
  assume a: "f x \<notin> f ` set xs" "distinct (map f xs)"
  have "mset (map f (insert_before p x xs)) = mset (map f (x # xs))" by (simp only: mset_map insert_before_mset mset.simps)
  then show ?thesis using a mset_eq_imp_distinct_iff by (metis distinct.simps(2) list.set_map list.simps(9))
qed

lemma find_distinct:
  "distinct (map re_id es) \<Longrightarrow> find (\<lambda>e. re_id e = i) es = Some e \<longleftrightarrow> e \<in> set es \<and> re_id e = i"
  by (induction es) auto

lemma get_iff: "queue_ok q \<Longrightarrow> review_get i q = Some e \<longleftrightarrow> e \<in> set (rq_events q) \<and> re_id e = i"
  by (simp add: review_get_def queue_ok_def find_distinct)

lemma queue_ok_new: "queue_ok review_new"
  by (simp add: queue_ok_def review_new_def)

lemma word_succ_less: "(i :: u64) < n \<Longrightarrow> n \<noteq> - 1 \<Longrightarrow> i < n + 1"
  using word_less_succ [of n] less_trans by blast

definition new_event ::
  "int \<Rightarrow> review_event_type \<Rightarrow> review_priority \<Rightarrow> string list \<Rightarrow> string \<Rightarrow> u64 \<Rightarrow> review_event" where
  "new_event now ty pr ids why i =
     \<lparr>re_id = i, re_type = ty, re_priority = pr, re_node_ids = ids, re_reason = why,
      re_timestamp = now, re_status = ReviewPending\<rparr>"

lemma enqueue_simps [simp]:
  "fst (enqueue now ty pr ids why q) = rq_next_id q"
  "rq_next_id (snd (enqueue now ty pr ids why q)) = rq_next_id q + 1"
  "mset (rq_events (snd (enqueue now ty pr ids why q))) =
     add_mset (new_event now ty pr ids why (rq_next_id q)) (mset (rq_events q))"
  "set (rq_events (snd (enqueue now ty pr ids why q))) =
     insert (new_event now ty pr ids why (rq_next_id q)) (set (rq_events q))"
  by (simp_all add: enqueue_def new_event_def Let_def)

lemma queue_ok_enqueue:
  assumes "queue_ok q" "rq_next_id q \<noteq> - 1"
  shows "queue_ok (snd (enqueue now ty pr ids why q))"
proof -
  have "re_id (new_event now ty pr ids why (rq_next_id q)) \<notin> re_id ` set (rq_events q)"
    using assms(1) by (force simp: queue_ok_def new_event_def)
  then have "distinct (map re_id (rq_events (snd (enqueue now ty pr ids why q))))"
    using assms(1) unfolding enqueue_def Let_def new_event_def queue_ok_def by (simp add: insert_before_map)
  moreover have "re_id e < rq_next_id q + 1" if "e \<in> set (rq_events q)" for e
    using that assms word_succ_less by (simp add: queue_ok_def)
  ultimately show ?thesis
    using assms word_less_succ by (simp add: queue_ok_def) (simp add: new_event_def)
qed

lemma update_first_ids [simp]:
  "(\<And>e. re_id (f e) = re_id e) \<Longrightarrow> map re_id (update_first p f es) = map re_id es"
  by (induction p f es rule: update_first.induct) simp_all

lemma update_first_in:
  fixes es :: "review_event list"
  shows "distinct (map re_id es) \<Longrightarrow> e \<in> set (update_first (\<lambda>e. re_id e = i) f es) \<longleftrightarrow>
     (\<exists>e0 \<in> set es. e = (if re_id e0 = i then f e0 else e0))"
proof (induction es)
  case (Cons x es)
  then show ?case
  proof (cases "re_id x = i")
    case True
    then have "\<forall>y \<in> set es. re_id y \<noteq> i" using Cons.prems by (force simp: image_iff)
    then show ?thesis using True by auto
  qed auto
qed simp

lemma queue_ok_assign: "queue_ok q \<Longrightarrow> queue_ok (assign_status i s q)"
  by (fastforce simp: queue_ok_def assign_status_def update_first_in)

lemma get_assign:
  assumes "queue_ok q"
  shows "review_get j (assign_status i s q) =
    map_option (\<lambda>e. if j = i then e\<lparr>re_status := s\<rparr> else e) (review_get j q)"
proof -
  have d: "distinct (map re_id (rq_events q))" using assms by (simp add: queue_ok_def)
  have "review_get j (assign_status i s q) = Some e \<longleftrightarrow>
    map_option (\<lambda>e. if j = i then e\<lparr>re_status := s\<rparr> else e) (review_get j q) = Some e" for e
    using get_iff [OF assms] get_iff [OF queue_ok_assign [OF assms]]
    by (auto simp: assign_status_def update_first_in [OF d])
  then show ?thesis by (metis option.exhaust)
qed

lemma get_enqueue:
  assumes "queue_ok q" "rq_next_id q \<noteq> - 1"
  shows "review_get j (snd (enqueue now ty pr ids why q)) =
    (if j = rq_next_id q then Some (new_event now ty pr ids why j) else review_get j q)"
proof -
  have "review_get j (snd (enqueue now ty pr ids why q)) = Some e \<longleftrightarrow>
    (if j = rq_next_id q then Some (new_event now ty pr ids why j) else review_get j q) = Some e" for e
    using get_iff [OF assms(1)] get_iff [OF queue_ok_enqueue [OF assms]] assms(1)
    by (auto simp: new_event_def queue_ok_def)
  then show ?thesis by (metis option.exhaust)
qed

section \<open>The life of an event\<close>

inductive status_step :: "review_status \<Rightarrow> review_status \<Rightarrow> bool" where
  approved: "status_step ReviewPending Approved"
| rejected: "status_step ReviewPending Rejected"
| auto: "status_step s AutoResolved"

code_pred status_step .

inductive_simps status_step_iff: "status_step a b"
inductive_cases from_autoE: "status_step AutoResolved s"

datatype review_op =
    Enqueue int review_event_type review_priority "string list" string
  | Approve u64
  | Reject u64
  | AutoResolve u64

definition run_op :: "review_op \<Rightarrow> review_queue \<Rightarrow> review_queue" where
  "run_op o' q =
     (case o' of
        Enqueue now ty pr ids why \<Rightarrow> snd (enqueue now ty pr ids why q)
      | Approve i \<Rightarrow> snd (approve i q)
      | Reject i \<Rightarrow> snd (reject i q)
      | AutoResolve i \<Rightarrow> snd (auto_resolve i q))"

text \<open>Queues reachable by operations, as long as the id counter has not wrapped.\<close>

inductive reaches :: "review_queue \<Rightarrow> review_queue \<Rightarrow> bool" where
  here: "reaches q q"
| step: "reaches q r \<Longrightarrow> rq_next_id r \<noteq> - 1 \<Longrightarrow> reaches q (run_op x r)"

lemma run_op_ok: "queue_ok q \<Longrightarrow> rq_next_id q \<noteq> - 1 \<Longrightarrow> queue_ok (run_op x q)"
  by (auto simp: run_op_def approve_def reject_def auto_resolve_def queue_ok_enqueue queue_ok_assign
      split: review_op.split option.split)

lemma reaches_ok: "reaches q r \<Longrightarrow> queue_ok q \<Longrightarrow> queue_ok r"
  by (induction rule: reaches.induct) (simp_all add: run_op_ok)

lemma run_op_cases:
  obtains (enqueued) now ty pr ids why where "run_op x q = snd (enqueue now ty pr ids why q)"
  | (refused) "run_op x q = q"
  | (assigned) j s where "run_op x q = assign_status j s q" "\<And>e. review_get j q = Some e \<Longrightarrow> status_step (re_status e) s"
proof (cases x)
  case (Enqueue now ty pr ids why)
  then show ?thesis using enqueued by (simp add: run_op_def)
next
  case (Approve j)
  then show ?thesis
    using refused assigned [of j Approved]
    by (cases "review_get j q"; cases "re_status (the (review_get j q)) = ReviewPending")
      (simp_all add: run_op_def approve_def status_step_iff)
next
  case (Reject j)
  then show ?thesis
    using refused assigned [of j Rejected]
    by (cases "review_get j q"; cases "re_status (the (review_get j q)) = ReviewPending")
      (simp_all add: run_op_def reject_def status_step_iff)
next
  case (AutoResolve j)
  then show ?thesis
    using refused assigned [of j AutoResolved]
    by (cases "review_get j q") (simp_all add: run_op_def auto_resolve_def status_step_iff)
qed

lemma run_op_event:
  assumes "queue_ok q" "rq_next_id q \<noteq> - 1" "review_get i q = Some e"
  obtains e' where "review_get i (run_op x q) = Some e'" "status_step\<^sup>*\<^sup>* (re_status e) (re_status e')"
    "e' = e\<lparr>re_status := re_status e'\<rparr>"
proof (cases x q rule: run_op_cases)
  case (enqueued now ty pr ids why)
  have "i < rq_next_id q" using assms(1,3) get_iff [OF assms(1)] by (auto simp: queue_ok_def)
  then show ?thesis using that [of e] assms enqueued by (simp add: get_enqueue)
next
  case refused
  then show ?thesis using that [of e] assms(3) by simp
next
  case (assigned j s)
  then show ?thesis
    using that [of "if i = j then e\<lparr>re_status := s\<rparr> else e"] assms(1,3) by (cases "i = j") (auto simp: get_assign)
qed

lemma reaches_event:
  "reaches q r \<Longrightarrow> queue_ok q \<Longrightarrow> review_get i q = Some e \<Longrightarrow>
    \<exists>e'. review_get i r = Some e' \<and> status_step\<^sup>*\<^sup>* (re_status e) (re_status e') \<and> e' = e\<lparr>re_status := re_status e'\<rparr>"
proof (induction rule: reaches.induct)
  case (step q r x)
  obtain e1 where e1: "review_get i r = Some e1" "status_step\<^sup>*\<^sup>* (re_status e) (re_status e1)"
    "e1 = e\<lparr>re_status := re_status e1\<rparr>" using step.IH step.prems by blast
  obtain e2 where "review_get i (run_op x r) = Some e2" "status_step\<^sup>*\<^sup>* (re_status e1) (re_status e2)"
    "e2 = e1\<lparr>re_status := re_status e2\<rparr>"
    using run_op_event [OF reaches_ok [OF step.hyps(1) step.prems(1)] step.hyps(2) e1(1)] by blast
  then show ?case using e1 by (metis review_event.update_convs(7) rtranclp_trans review_event.surjective)
qed simp

text \<open>Once decided, an event is never pending again, nor decided the other way.\<close>

lemma decided_stays:
  "status_step\<^sup>*\<^sup>* a b \<Longrightarrow> a \<noteq> ReviewPending \<Longrightarrow> b = a \<or> b = AutoResolved"
  by (induction rule: rtranclp_induct) (auto simp: status_step_iff)

lemma list_pending_sorted: "sorted_wrt (\<lambda>a b. pending_cmp a b \<le> 0) (list_pending q)"
  unfolding list_pending_def by (rule by_priority.sorted)

lemma pending_cmp_le:
  "pending_cmp a b \<le> 0 \<longleftrightarrow>
     (re_priority a = HighPriority \<and> re_priority b = NormalPriority)
     \<or> (re_priority a = re_priority b \<and> re_id a \<le> re_id b)"
  by (cases "re_priority a"; cases "re_priority b")
    (auto simp: pending_cmp_def priority_rank_def sgn_if word_le_def)

lemma list_all_sorted: "sorted_wrt (\<lambda>a b. re_id b \<le> re_id a) (list_all_events q)"
  unfolding list_all_events_def
  by (rule sorted_wrt_mono_rel [OF _ newest_first.sorted]) (auto simp: sgn_if word_le_def split: if_splits)

end
