(* ===== verification/Queue_Properties.thy ===== *)
theory Queue_Properties
  imports Review Subscription
begin

text \<open>
  Properties of the two queues of the runtime: the review queue and the subscribers' buffers.
\<close>

section \<open>The review queue\<close>

definition sample_queue :: review_queue where
  "sample_queue =
     snd (enqueue 1 CascadeTruncated HighPriority [''b''] [] (snd (enqueue 0 AmbiguousArbitration NormalPriority [''a''] [] review_new)))"

lemma sample_queue_ok: "queue_ok sample_queue" "rq_next_id sample_queue \<noteq> - 1"
proof -
  have "rq_next_id review_new \<noteq> - 1" "rq_next_id review_new + 1 \<noteq> - 1" by (simp_all add: review_new_def)
  then show "queue_ok sample_queue" unfolding sample_queue_def
    by (intro queue_ok_enqueue queue_ok_new) simp_all
  show "rq_next_id sample_queue \<noteq> - 1" by (simp add: sample_queue_def review_new_def)
qed

lemma sample_queue_get:
  "review_get 1 sample_queue = Some (new_event 0 AmbiguousArbitration NormalPriority [''a''] [] 1)"
proof -
  let ?q = "snd (enqueue 0 AmbiguousArbitration NormalPriority [''a''] [] review_new)"
  have "rq_next_id review_new = 1" "rq_next_id ?q = 2" by (simp_all add: review_new_def)
  then show ?thesis
    unfolding sample_queue_def
    using queue_ok_new queue_ok_enqueue [of review_new] by (simp add: get_enqueue)
qed

text \<open>C27. The life of a review event. Whatever operations run after it was enqueued, the event stays
  in the queue under its id with all its fields but the status; the status follows the steps from
  pending to a decision and from anything to auto-resolved, so an event once approved or rejected is
  never pending again nor decided the other way.\<close>

theorem review_life:
  assumes "queue_ok q" "reaches q r" "review_get i q = Some e"
  shows "\<exists>e'. review_get i r = Some e' \<and> e' = e\<lparr>re_status := re_status e'\<rparr>
    \<and> status_step\<^sup>*\<^sup>* (re_status e) (re_status e')
    \<and> re_status e' \<in> (if re_status e = ReviewPending then UNIV else {re_status e, AutoResolved})"
proof -
  obtain e' where "review_get i r = Some e'" "e' = e\<lparr>re_status := re_status e'\<rparr>"
    and steps: "status_step\<^sup>*\<^sup>* (re_status e) (re_status e')"
    using reaches_event [OF assms(2,1,3)] by blast
  then show ?thesis using decided_stays [OF steps] by (intro exI [of _ e']) auto
qed

theorem review_life_witness:
  "\<exists>e'. review_get 1 (run_op (Approve 1) sample_queue) = Some e'
    \<and> e' = (new_event 0 AmbiguousArbitration NormalPriority [''a''] [] 1)\<lparr>re_status := re_status e'\<rparr>
    \<and> status_step\<^sup>*\<^sup>* (re_status (new_event 0 AmbiguousArbitration NormalPriority [''a''] [] 1)) (re_status e')
    \<and> re_status e' \<in> (if re_status (new_event 0 AmbiguousArbitration NormalPriority [''a''] [] 1) = ReviewPending then UNIV
        else {re_status (new_event 0 AmbiguousArbitration NormalPriority [''a''] [] 1), AutoResolved})"
proof (rule review_life [OF sample_queue_ok(1) _ sample_queue_get])
  show "reaches sample_queue (run_op (Approve 1) sample_queue)"
    by (rule reaches.step [OF reaches.here sample_queue_ok(2)])
qed

text \<open>The listings show every event once: the pending ones with high priority before normal and
  older before newer within a priority, and all of them newest first.\<close>

lemma review_listing:
  "mset (list_pending q) = filter_mset is_pending (mset (rq_events q))
   \<and> sorted_wrt (\<lambda>a b. (re_priority a = HighPriority \<and> re_priority b = NormalPriority)
       \<or> (re_priority a = re_priority b \<and> re_id a \<le> re_id b)) (list_pending q)
   \<and> mset (list_all_events q) = mset (rq_events q)
   \<and> sorted_wrt (\<lambda>a b. re_id b \<le> re_id a) (list_all_events q)
   \<and> pending_count q = length (list_pending q) \<and> total_count q = length (list_all_events q)"
proof (intro conjI)
  show pend: "mset (list_pending q) = filter_mset is_pending (mset (rq_events q))" by (simp add: list_pending_def)
  show all: "mset (list_all_events q) = mset (rq_events q)" by (simp add: list_all_events_def)
  show "pending_count q = length (list_pending q)"
    using pend by (simp add: pending_count_def flip: size_mset)
  show "total_count q = length (list_all_events q)"
    using mset_eq_length [OF all] by (simp add: total_count_def)
qed (use list_pending_sorted [of q] list_all_sorted [of q] in \<open>simp_all only: pending_cmp_le\<close>)

text \<open>The decisions: an unknown id is reported; approving and rejecting need a pending event and
  report the status of a decided one without changing it; auto-resolving checks no status, so it
  overrides a human decision.\<close>

lemma review_decisions:
  assumes "queue_ok q"
  shows "case review_get i q of
      None \<Rightarrow> approve i q = (Inl (EventNotFound i), q) \<and> reject i q = (Inl (EventNotFound i), q)
        \<and> auto_resolve i q = (Inl (EventNotFound i), q)
    | Some e \<Rightarrow>
        (if re_status e = ReviewPending
         then fst (approve i q) = Inr () \<and> review_get i (snd (approve i q)) = Some (e\<lparr>re_status := Approved\<rparr>)
           \<and> fst (reject i q) = Inr () \<and> review_get i (snd (reject i q)) = Some (e\<lparr>re_status := Rejected\<rparr>)
         else approve i q = (Inl (AlreadyDecided i (re_status e)), q)
           \<and> reject i q = (Inl (AlreadyDecided i (re_status e)), q))
        \<and> fst (auto_resolve i q) = Inr () \<and> review_get i (snd (auto_resolve i q)) = Some (e\<lparr>re_status := AutoResolved\<rparr>)"
  by (cases "review_get i q") (simp_all add: approve_def reject_def auto_resolve_def get_assign [OF assms])

lemma review_decisions_witness:
  "case review_get 1 sample_queue of
      None \<Rightarrow> approve 1 sample_queue = (Inl (EventNotFound 1), sample_queue)
        \<and> reject 1 sample_queue = (Inl (EventNotFound 1), sample_queue)
        \<and> auto_resolve 1 sample_queue = (Inl (EventNotFound 1), sample_queue)
    | Some e \<Rightarrow>
        (if re_status e = ReviewPending
         then fst (approve 1 sample_queue) = Inr () \<and> review_get 1 (snd (approve 1 sample_queue)) = Some (e\<lparr>re_status := Approved\<rparr>)
           \<and> fst (reject 1 sample_queue) = Inr () \<and> review_get 1 (snd (reject 1 sample_queue)) = Some (e\<lparr>re_status := Rejected\<rparr>)
         else approve 1 sample_queue = (Inl (AlreadyDecided 1 (re_status e)), sample_queue)
           \<and> reject 1 sample_queue = (Inl (AlreadyDecided 1 (re_status e)), sample_queue))
        \<and> fst (auto_resolve 1 sample_queue) = Inr ()
        \<and> review_get 1 (snd (auto_resolve 1 sample_queue)) = Some (e\<lparr>re_status := AutoResolved\<rparr>)"
  by (rule review_decisions [OF sample_queue_ok(1)])

section \<open>Subscriptions\<close>

definition buffer :: "manager \<Rightarrow> u64 \<Rightarrow> event list" where
  \<comment> \<open>what the holder of subscription \<open>i\<close> would get now\<close>
  "buffer m i = fst (poll_id i m)"

lemma find_map_id:
  "(\<And>s. sb_id (f s) = sb_id s) \<Longrightarrow> find (\<lambda>s. sb_id s = i) (map f ss) = map_option f (find (\<lambda>s. sb_id s = i) ss)"
  by (induction ss) auto

text \<open>C32. Delivery: inserting a node appends one event to the buffer of every subscription whose
  pattern and window match it and to no other; a retraction is appended to every buffer; polling hands
  the buffer over and leaves it empty, touching no other subscriber's.\<close>

theorem delivery:
  assumes "find (\<lambda>s. sb_id s = i) (sm_subs m) = Some s"
  shows "buffer (notify_insert n m) i = buffer m i @ (if sub_matches s n then [Inserted n] else [])
    \<and> buffer (notify_retract k cs m) i = buffer m i @ [RetractedEvent k cs]
    \<and> (\<forall>j. buffer (snd (poll_id j m)) i = (if j = i then [] else buffer m i))"
proof (intro conjI allI)
  show "buffer (notify_insert n m) i = buffer m i @ (if sub_matches s n then [Inserted n] else [])"
    using assms by (simp add: buffer_def poll_id_def notify_insert_def find_map_id poll_def)
  show "buffer (notify_retract k cs m) i = buffer m i @ [RetractedEvent k cs]"
    using assms by (simp add: buffer_def poll_id_def notify_retract_def find_map_id poll_def)
  have id: "sb_id (if sb_id t = j then snd (poll t) else t) = sb_id t" for t j by (simp add: poll_def)
  have si: "sb_id s = i" using assms by (auto simp: find_Some_iff)
  have same: "buffer (snd (poll_id i m)) i = []"
    using assms si by (simp add: buffer_def poll_id_def find_map_id [OF id]) (simp add: poll_def)
  have other: "buffer (snd (poll_id j m)) i = buffer m i" if "j \<noteq> i" for j
    using assms si that
    by (cases "find (\<lambda>s. sb_id s = j) (sm_subs m)") (auto simp add: buffer_def poll_id_def find_map_id [OF id])
  show "buffer (snd (poll_id j m)) i = (if j = i then [] else buffer m i)" for j
    using same other by simp
qed

definition sample_manager :: manager where
  "sample_manager = snd (subscribe ''q'' (snd (subscribe ''*'' manager_new)))"

theorem delivery_witness:
  "buffer (notify_insert (node_new ''a'' (Predicate (HeadName ''p'') [] [])) sample_manager) 1
     = buffer sample_manager 1 @ (if sub_matches (subscription_new 1 ''q'') (node_new ''a'' (Predicate (HeadName ''p'') [] []))
         then [Inserted (node_new ''a'' (Predicate (HeadName ''p'') [] []))] else [])
    \<and> buffer (notify_retract ''a'' [''a''] sample_manager) 1 = buffer sample_manager 1 @ [RetractedEvent ''a'' [''a'']]
    \<and> (\<forall>j. buffer (snd (poll_id j sample_manager)) 1 = (if j = 1 then [] else buffer sample_manager 1))"
  by (rule delivery) (simp add: sample_manager_def subscribe_def manager_new_def subscription_new_def)

end
