(* ===== verification/Json.thy ===== *)
theory Json
  imports F32 "HOL-Library.List_Lexorder" "HOL-Library.Char_ord"
begin

text \<open>
  The JSON values of \<open>serde_json::Value\<close>, as far as the program builds and reads them. Its objects
  are \<open>BTreeMap\<close>s, so the \<open>json!\<close> macro, here \<open>jobj\<close>, puts the fields in the order of their names.
  The text of a value is the library's, a parameter where it is used.
\<close>

section \<open>JSON values\<close>

datatype f64 = F64 bool int \<comment> \<open>a finite double: a sign and a multiple of \<open>2^-1074\<close>\<close>

datatype jnum = PosInt u64 | NegInt "64 word" | Float f64 | Single f32
  \<comment> \<open>\<open>Single\<close> is a single float written without passing through a \<open>Value\<close>\<close>

datatype json =
    JNull
  | JBool bool
  | JNum jnum
  | JStr string
  | JArr "json list"
  | JObj "(string \<times> json) list"

definition jobj :: "(string \<times> json) list \<Rightarrow> json" where
  "jobj kvs = JObj (sort_key fst kvs)"

definition jnat :: "nat \<Rightarrow> json" where
  "jnat n = JNum (PosInt (word_of_nat n))"

definition jint :: "int \<Rightarrow> json" where
  \<comment> \<open>an \<open>i64\<close>\<close>
  "jint i = JNum (if 0 \<le> i then PosInt (word_of_int i) else NegInt (word_of_int i))"

definition jstrs :: "string list \<Rightarrow> json" where
  "jstrs ss = JArr (map JStr ss)"

definition jopt :: "string option \<Rightarrow> json" where
  "jopt x = (case x of None \<Rightarrow> JNull | Some s \<Rightarrow> JStr s)"

definition jf32 :: "f32 \<Rightarrow> json" where
  \<comment> \<open>\<open>Value::from(f32)\<close>: widened to a double, \<open>null\<close> when not finite\<close>
  "jf32 v = (case v of F32_Fin s k \<Rightarrow> JNum (Float (F64 s (k * 2 ^ 925))) | _ \<Rightarrow> JNull)"

definition json_get :: "string \<Rightarrow> json \<Rightarrow> json option" where
  "json_get k v = (case v of JObj kvs \<Rightarrow> map_of kvs k | _ \<Rightarrow> None)"

definition as_str :: "json \<Rightarrow> string option" where
  "as_str v = (case v of JStr s \<Rightarrow> Some s | _ \<Rightarrow> None)"

definition as_u64 :: "json \<Rightarrow> u64 option" where
  "as_u64 v = (case v of JNum (PosInt n) \<Rightarrow> Some n | _ \<Rightarrow> None)"

definition get_str :: "string \<Rightarrow> json \<Rightarrow> string option" where
  \<comment> \<open>\<open>v.get(k).and_then(|v| v.as_str())\<close>\<close>
  "get_str k v = (case json_get k v of None \<Rightarrow> None | Some w \<Rightarrow> as_str w)"

definition get_u64 :: "string \<Rightarrow> json \<Rightarrow> u64 option" where
  "get_u64 k v = (case json_get k v of None \<Rightarrow> None | Some w \<Rightarrow> as_u64 w)"

definition int_as_f64 :: "int \<Rightarrow> f64" where
  \<comment> \<open>\<open>n as f64\<close> for a 64-bit integer: rounded to 53 bits\<close>
  "int_as_f64 i =
     (let m = \<bar>i\<bar>; b = bitlen m;
          r = (if b \<le> 53 then m else rnd_ne m (2 ^ (b - 53)) * 2 ^ (b - 53))
      in F64 (i < 0) (r * 2 ^ 1074))"

definition as_f64 :: "jnum \<Rightarrow> f64 option" where
  \<comment> \<open>\<open>Number::as_f64\<close>\<close>
  "as_f64 n =
     (case n of
        PosInt w \<Rightarrow> Some (int_as_f64 (uint w))
      | NegInt w \<Rightarrow> Some (int_as_f64 (sint w))
      | Float f \<Rightarrow> Some f
      | Single v \<Rightarrow> (case v of F32_Fin s k \<Rightarrow> Some (F64 s (k * 2 ^ 925)) | _ \<Rightarrow> None))"

definition f64_as_f32 :: "f64 \<Rightarrow> f32" where
  \<comment> \<open>\<open>f as f32\<close>\<close>
  "f64_as_f32 v = (case v of F64 s k \<Rightarrow> f32_round s k (2 ^ 925))"

section \<open>Fields of objects\<close>

lemma get_jobj:
  assumes "distinct (map fst kvs)"
  shows "json_get k (jobj kvs) = map_of kvs k"
proof -
  have d: "distinct (map fst (sort_key fst kvs))" using assms by (simp add: distinct_map)
  have "map_of (sort_key fst kvs) k = Some v \<longleftrightarrow> map_of kvs k = Some v" for v
    using map_of_eq_Some_iff [OF d] map_of_eq_Some_iff [OF assms] by simp
  then have "map_of (sort_key fst kvs) k = map_of kvs k" by (metis not_Some_eq)
  then show ?thesis by (simp add: json_get_def jobj_def)
qed

end
