(* ===== verification/Protocol.thy ===== *)
theory Protocol
  imports Json Parser Query Review
begin

text \<open>
  The JSON-RPC and MCP messages of \<open>factum-mcp/src/protocol.rs\<close>. The messages of errors are kept
  as the values they print.
\<close>

section \<open>Messages\<close>

record json_rpc_request =
  rq_jsonrpc :: string
  rq_id :: json
  rq_method :: string
  rq_params :: "json option"

datatype rpc_message =
    MsgParseError
  | MsgMethodNotFound
  | MsgMissingParams
  | MsgUnknownTool string
  | MsgBadArguments string \<comment> \<open>the text of serde's error\<close>
  | MsgQueryParse parse_error
  | MsgNodeParse parse_error
  | MsgPredicateParse parse_error
  | MsgBatchParse nat parse_error
  | MsgNoNodes
  | MsgNoNodesInBatch
  | MsgStore store_error
  | MsgQueryFailed query_error
  | MsgInvalidUri string
  | MsgNoResource
  | MsgKeywordRequired
  | MsgUnknownMode string
  | MsgUnknownReviewMode string
  | MsgEventIdRequired string
  | MsgReview review_error
  | MsgNoEvent u64

record json_rpc_error =
  er_code :: int
  er_message :: rpc_message
  er_data :: "json option"

definition rpc_parse_error :: json_rpc_error where
  "rpc_parse_error = \<lparr>er_code = -32700, er_message = MsgParseError, er_data = None\<rparr>"

definition method_not_found :: json_rpc_error where
  "method_not_found = \<lparr>er_code = -32601, er_message = MsgMethodNotFound, er_data = None\<rparr>"

definition invalid_params :: "rpc_message \<Rightarrow> json_rpc_error" where
  "invalid_params m = \<lparr>er_code = -32602, er_message = m, er_data = None\<rparr>"

definition rpc_internal :: "rpc_message \<Rightarrow> json_rpc_error" where
  "rpc_internal m = \<lparr>er_code = -32603, er_message = m, er_data = None\<rparr>"

record json_rpc_response =
  rs_jsonrpc :: string
  rs_id :: json
  rs_result :: "json option"
  rs_error :: "json_rpc_error option"

definition rpc_success :: "json \<Rightarrow> json \<Rightarrow> json_rpc_response" where
  "rpc_success i r = \<lparr>rs_jsonrpc = ''2.0'', rs_id = i, rs_result = Some r, rs_error = None\<rparr>"

definition rpc_error :: "json \<Rightarrow> json_rpc_error \<Rightarrow> json_rpc_response" where
  "rpc_error i e = \<lparr>rs_jsonrpc = ''2.0'', rs_id = i, rs_result = None, rs_error = Some e\<rparr>"

record morpheme_entry =
  me_id :: u32
  me_name :: string
  me_kind :: string

record tool_capability =
  tc_list_changed :: "bool option"

record resource_capability =
  rc_subscribe :: "bool option"
  rc_list_changed :: "bool option"

record server_capabilities =
  sc_tools :: tool_capability
  sc_resources :: resource_capability

record server_info =
  sv_name :: string
  sv_version :: string

record initialize_result =
  ir_protocol :: string
  ir_capabilities :: server_capabilities
  ir_server :: server_info
  ir_morphemes :: "morpheme_entry list option"

definition jbool_field :: "string \<Rightarrow> bool option \<Rightarrow> (string \<times> json) list" where
  \<comment> \<open>\<open>skip_serializing_if = "Option::is_none"\<close>\<close>
  "jbool_field k b = (case b of None \<Rightarrow> [] | Some v \<Rightarrow> [(k, JBool v)])"

definition entry_json :: "morpheme_entry \<Rightarrow> json" where
  "entry_json e = jobj [(''id'', JNum (PosInt (ucast (me_id e)))), (''name'', JStr (me_name e)), (''kind'', JStr (me_kind e))]"

definition initialize_json :: "initialize_result \<Rightarrow> json" where
  "initialize_json r =
     jobj ([(''protocolVersion'', JStr (ir_protocol r)),
       (''capabilities'', jobj [
         (''tools'', jobj (jbool_field ''listChanged'' (tc_list_changed (sc_tools (ir_capabilities r))))),
         (''resources'', jobj (jbool_field ''subscribe'' (rc_subscribe (sc_resources (ir_capabilities r)))
            @ jbool_field ''listChanged'' (rc_list_changed (sc_resources (ir_capabilities r)))))]),
       (''serverInfo'', jobj [(''name'', JStr (sv_name (ir_server r))), (''version'', JStr (sv_version (ir_server r)))])]
      @ (case ir_morphemes r of None \<Rightarrow> [] | Some es \<Rightarrow> [(''factum_morphemes'', JArr (map entry_json es))]))"

datatype content_block = ContentText string

record tool_result =
  tr_content :: "content_block list"
  tr_structured :: "json option"
  tr_is_error :: "bool option"

definition structured :: "(json \<Rightarrow> string) \<Rightarrow> json \<Rightarrow> tool_result" where
  \<comment> \<open>the first argument is \<open>Value::to_string\<close>\<close>
  "structured txt v =
     \<lparr>tr_content = [ContentText (txt v)], tr_structured = Some v, tr_is_error = Some False\<rparr>"

definition tool_result_json :: "tool_result \<Rightarrow> json" where
  "tool_result_json r =
     jobj ([(''content'', JArr (map (\<lambda>c. case c of ContentText t \<Rightarrow> jobj [(''type'', JStr ''text''), (''text'', JStr t)]) (tr_content r)))]
       @ (case tr_structured r of None \<Rightarrow> [] | Some v \<Rightarrow> [(''structuredContent'', v)])
       @ jbool_field ''isError'' (tr_is_error r))"

definition MCP_PROTOCOL_VERSION :: string where
  "MCP_PROTOCOL_VERSION = ''2025-06-18''"

section \<open>Fields of objects\<close>

lemma structured_content:
  "json_get ''structuredContent'' (tool_result_json (structured txt v)) = Some v"
  by (simp add: tool_result_json_def structured_def jbool_field_def get_jobj)

end
