(* ===== verification/Tools.thy ===== *)
theory Tools
  imports Protocol
begin

text \<open>
  The tools of \<open>factum-mcp/src/tools.rs\<close>: the parameters of each, their definitions as a client lists
  them, and the URIs of node resources. Reading parameters from a JSON value is serde's derived code,
  which \<open>serde\<close> collects with the text of a value.
\<close>

section \<open>Parameters\<close>

record query_params =
  qp_query :: string
  qp_policy :: "string option"
  qp_as_of :: "string option"
  qp_min_confidence :: "f32 option"
  qp_agent_weights :: "json option"

record insert_params =
  ip_node :: string

record retract_params =
  rp_node_id :: string
  rp_max_cascade_nodes :: "nat option"

record lookup_params =
  lp_entity :: string
  lp_min_confidence :: "f32 option"

record insert_batch_params =
  bp_nodes :: "string list"

record upsert_params =
  up_node :: string
  up_entity :: string
  up_predicate :: string

record search_params =
  ep_mode :: string
  ep_keyword :: "string option"
  ep_limit :: "nat option"

record assert_params =
  ap_predicate :: string
  ap_by :: "string option"
  ap_confidence :: "f32 option"
  ap_note :: "string option"

record serde =
  \<comment> \<open>\<open>serde_json::from_value\<close> for each of them, with the text of the error, and \<open>to_string\<close>\<close>
  sj_query :: "json \<Rightarrow> string + query_params"
  sj_insert :: "json \<Rightarrow> string + insert_params"
  sj_retract :: "json \<Rightarrow> string + retract_params"
  sj_lookup :: "json \<Rightarrow> string + lookup_params"
  sj_insert_batch :: "json \<Rightarrow> string + insert_batch_params"
  sj_upsert :: "json \<Rightarrow> string + upsert_params"
  sj_search :: "json \<Rightarrow> string + search_params"
  sj_assert :: "json \<Rightarrow> string + assert_params"
  sj_text :: "json \<Rightarrow> string"

section \<open>Resource URIs\<close>

fun strip_prefix :: "string \<Rightarrow> string \<Rightarrow> string option" where
  \<comment> \<open>\<open>str::strip_prefix\<close>\<close>
  "strip_prefix [] s = Some s"
| "strip_prefix (c # p) [] = None"
| "strip_prefix (c # p) (d # s) = (if c = d then strip_prefix p s else None)"

definition node_resource_uri :: "string \<Rightarrow> string" where
  "node_resource_uri i = ''factum://nodes/'' @ i"

definition parse_node_resource_uri :: "string \<Rightarrow> string option" where
  "parse_node_resource_uri uri = strip_prefix ''factum://nodes/'' uri"

lemma strip_prefix_append [simp]: "strip_prefix p (p @ s) = Some s"
  by (induction p) simp_all

lemma strip_prefix_Some: "strip_prefix p s = Some r \<longleftrightarrow> s = p @ r"
  by (induction p s rule: strip_prefix.induct) auto

lemma uri_inverse: "parse_node_resource_uri (node_resource_uri i) = Some i"
  by (simp only: parse_node_resource_uri_def node_resource_uri_def strip_prefix_append)

section \<open>Definitions\<close>

record tool_definition =
  td_name :: string
  td_description :: string
  td_schema :: json

definition def_query :: tool_definition where
  "def_query =
     \<lparr>td_name = ''factum_query'',
      td_description = ''Query the Factum knowledge graph using S-expression syntax. Returns matching nodes with their provenance and confidence.'',
      td_schema = jobj [
          (''type'', JStr ''object''),
          (''properties'', jobj [
            (''query'', jobj [
              (''type'', JStr ''string''),
              (''description'', JStr ''Factum-F S-expression query, e.g. (shareholder-major @ACME-CORP ?p)'')]),
            (''policy'', jobj [
              (''type'', JStr ''string''),
              (''enum'', JArr [JStr ''latest'', JStr ''authority'', JStr ''unanimous'', JStr ''weighted'']),
              (''default'', JStr ''latest''),
              (''description'', JStr (''Conflict resolution policy. '' @ [CHR 0x27] @ ''weighted'' @ [CHR 0x27] @ '' uses agent_weights for majority vote (multi-agent).''))]),
            (''as_of'', jobj [
              (''type'', JStr ''string''),
              (''format'', JStr ''date-time''),
              (''description'', JStr ''Historical query: return knowledge valid at this time'')]),
            (''min_confidence'', jobj [
              (''type'', JStr ''number''),
              (''minimum'', jnat 0),
              (''maximum'', jnat 1),
              (''default'', jnat 0),
              (''description'', JStr ''Minimum confidence threshold'')]),
            (''agent_weights'', jobj [
              (''type'', JStr ''object''),
              (''description'', JStr (''Agent weights for '' @ [CHR 0x27] @ ''weighted'' @ [CHR 0x27] @ '' policy. Keys are agent/principal names, values are 0.0'' @ [CHR 0xE2, CHR 0x80, CHR 0x93] @ ''1.0. Agents not listed default to 0.5.'')),
              (''additionalProperties'', jobj [
                (''type'', JStr ''number'')])])]),
          (''required'', JArr [JStr ''query''])]\<rparr>"

definition def_insert :: tool_definition where
  "def_insert =
     \<lparr>td_name = ''factum_insert'',
      td_description = (''Insert a new knowledge node into the Factum graph. The node must be in valid Factum-F S-expression format. Use '' @ [CHR 0x22] @ ''auto'' @ [CHR 0x22] @ '' as the node ID to auto-generate a content-based ID (same behavior as factum_assert).''),
      td_schema = jobj [
          (''type'', JStr ''object''),
          (''properties'', jobj [
            (''node'', jobj [
              (''type'', JStr ''string''),
              (''description'', JStr ''Factum-F node definition, e.g. (node n001 :pred (instance-of @X organization)). Use (node auto :pred ...) to auto-generate the node ID.'')])]),
          (''required'', JArr [JStr ''node''])]\<rparr>"

definition def_retract :: tool_definition where
  "def_retract =
     \<lparr>td_name = ''factum_retract'',
      td_description = (''Retract a node from the Factum graph. Retraction is a soft delete '' @ [CHR 0xE2, CHR 0x80, CHR 0x94] @ '' the node is marked as retracted but not removed, preserving audit history. Derived nodes depending on the retracted node are cascade-retracted. The cascade is limited to a configurable number of nodes to prevent explosion in large knowledge bases.''),
      td_schema = jobj [
          (''type'', JStr ''object''),
          (''properties'', jobj [
            (''node_id'', jobj [
              (''type'', JStr ''string''),
              (''description'', JStr ''ID of the node to retract'')]),
            (''max_cascade_nodes'', jobj [
              (''type'', JStr ''integer''),
              (''minimum'', jnat 1),
              (''default'', jnat 100),
              (''description'', JStr (''Maximum number of nodes to retract in the cascade (including root). If exceeded, the cascade is truncated and '' @ [CHR 0x27] @ ''truncated: true'' @ [CHR 0x27] @ '' is returned.''))])]),
          (''required'', JArr [JStr ''node_id''])]\<rparr>"

definition def_lookup :: tool_definition where
  "def_lookup =
     \<lparr>td_name = ''factum_lookup'',
      td_description = (''Look up all knowledge about a specific entity. Returns all active nodes where the entity appears in the predicate arguments. Uses exact entity name matching (e.g. '' @ [CHR 0x22] @ ''ACME-CORP'' @ [CHR 0x22] @ '' matches only @ACME-CORP, not @ACME-SUBSIDIARY). For partial/substring matching, use factum_search with mode='' @ [CHR 0x22] @ ''keyword'' @ [CHR 0x22] @ '' instead.''),
      td_schema = jobj [
          (''type'', JStr ''object''),
          (''properties'', jobj [
            (''entity'', jobj [
              (''type'', JStr ''string''),
              (''description'', JStr (''Entity name (without @ prefix), e.g. '' @ [CHR 0x22] @ ''ACME-CORP'' @ [CHR 0x22]))]),
            (''min_confidence'', jobj [
              (''type'', JStr ''number''),
              (''minimum'', jnat 0),
              (''maximum'', jnat 1),
              (''default'', jnat 0),
              (''description'', JStr ''Minimum confidence threshold'')])]),
          (''required'', JArr [JStr ''entity''])]\<rparr>"

definition def_insert_batch :: tool_definition where
  "def_insert_batch =
     \<lparr>td_name = ''factum_insert_batch'',
      td_description = ''Insert multiple knowledge nodes atomically. If any node fails parsing or verification, the entire batch is rejected (no partial insert). More efficient than calling factum_insert repeatedly.'',
      td_schema = jobj [
          (''type'', JStr ''object''),
          (''properties'', jobj [
            (''nodes'', jobj [
              (''type'', JStr ''array''),
              (''items'', jobj [
                (''type'', JStr ''string'')]),
              (''minItems'', jnat 1),
              (''maxItems'', jnat 100),
              (''description'', JStr ''Array of Factum-F node definitions'')])]),
          (''required'', JArr [JStr ''nodes''])]\<rparr>"

definition def_upsert :: tool_definition where
  "def_upsert =
     \<lparr>td_name = ''factum_upsert'',
      td_description = ''Update or insert a knowledge node. Finds active nodes matching the given entity + predicate, retracts them, then inserts the new node. If multiple matching nodes exist, returns Ambiguous (refuses to guess). If no match, performs a plain insert.'',
      td_schema = jobj [
          (''type'', JStr ''object''),
          (''properties'', jobj [
            (''node'', jobj [
              (''type'', JStr ''string''),
              (''description'', JStr (''Factum-F node definition for the new node, e.g. (node n010 :pred (version @FACTUM-PROJECT '' @ [CHR 0x22] @ ''0.1.2'' @ [CHR 0x22] @ ''))''))]),
            (''entity'', jobj [
              (''type'', JStr ''string''),
              (''description'', JStr (''Entity name to find existing nodes (without @ prefix), e.g. '' @ [CHR 0x22] @ ''FACTUM-PROJECT'' @ [CHR 0x22]))]),
            (''predicate'', jobj [
              (''type'', JStr ''string''),
              (''description'', JStr (''Predicate head to match, e.g. '' @ [CHR 0x22] @ ''version'' @ [CHR 0x22]))])]),
          (''required'', JArr [JStr ''node'', JStr ''entity'', JStr ''predicate''])]\<rparr>"

definition def_search :: tool_definition where
  "def_search =
     \<lparr>td_name = ''factum_search'',
      td_description = ''Search the knowledge graph by keyword, list all predicates, or get statistics. Keyword mode finds nodes whose canonical text contains the keyword (case-insensitive). Predicates mode lists all distinct predicate heads with counts. Stats mode returns total node count and status breakdown.'',
      td_schema = jobj [
          (''type'', JStr ''object''),
          (''properties'', jobj [
            (''mode'', jobj [
              (''type'', JStr ''string''),
              (''enum'', JArr [JStr ''keyword'', JStr ''predicates'', JStr ''stats'']),
              (''description'', JStr ''Search mode: keyword (substring search), predicates (list all predicate heads), stats (counts summary)'')]),
            (''keyword'', jobj [
              (''type'', JStr ''string''),
              (''description'', JStr (''Keyword for substring search (required when mode='' @ [CHR 0x22] @ ''keyword'' @ [CHR 0x22] @ '')''))]),
            (''limit'', jobj [
              (''type'', JStr ''integer''),
              (''minimum'', jnat 1),
              (''maximum'', jnat 200),
              (''default'', jnat 50),
              (''description'', JStr ''Maximum results (keyword mode only)'')])]),
          (''required'', JArr [JStr ''mode''])]\<rparr>"

definition def_assert :: tool_definition where
  "def_assert =
     \<lparr>td_name = ''factum_assert'',
      td_description = (''Assert a fact with minimal syntax. Provide only the predicate S-expression '' @ [CHR 0xE2, CHR 0x80, CHR 0x94] @ '' node ID is auto-generated from content hash, provenance defaults to Asserted. For full control (validity, deps, custom permissions), use factum_insert.''),
      td_schema = jobj [
          (''type'', JStr ''object''),
          (''properties'', jobj [
            (''predicate'', jobj [
              (''type'', JStr ''string''),
              (''description'', JStr (''Predicate S-expression, e.g. (version @FACTUM-PROJECT '' @ [CHR 0x22] @ ''0.1.3'' @ [CHR 0x22] @ '')''))]),
            (''by'', jobj [
              (''type'', JStr ''string''),
              (''default'', JStr ''system''),
              (''description'', JStr ''Who is asserting this fact'')]),
            (''confidence'', jobj [
              (''type'', JStr ''number''),
              (''minimum'', jnat 0),
              (''maximum'', jnat 1),
              (''description'', JStr ''Confidence level. If omitted, a provenance-based default is used (Asserted=0.60, Extracted=0.80, etc.). See docs/confidence-calibration-research.md.'')]),
            (''note'', jobj [
              (''type'', JStr ''string''),
              (''description'', JStr (''Optional human-readable note for context (e.g. '' @ [CHR 0x22] @ ''v6 plan'' @ [CHR 0x22] @ '', '' @ [CHR 0x22] @ ''extracted from page 3'' @ [CHR 0x22] @ ''). Does not affect content hash or equality.''))])]),
          (''required'', JArr [JStr ''predicate''])]\<rparr>"

definition def_review :: tool_definition where
  "def_review =
     \<lparr>td_name = ''factum_review'',
      td_description = ''Review queue for agent knowledge governance. Lists events that need human decisions (ambiguous arbitration, confidence band violations, truncated cascades). Modes: list_pending (default), list_all, approve, reject, get_detail. Reject mode retracts associated nodes and cascades to derived nodes.'',
      td_schema = jobj [
          (''type'', JStr ''object''),
          (''properties'', jobj [
            (''mode'', jobj [
              (''type'', JStr ''string''),
              (''enum'', JArr [JStr ''list_pending'', JStr ''list_all'', JStr ''approve'', JStr ''reject'', JStr ''get_detail'']),
              (''default'', JStr ''list_pending''),
              (''description'', JStr ''Review action mode'')]),
            (''event_id'', jobj [
              (''type'', JStr ''integer''),
              (''description'', JStr ''Event ID (required for approve, reject, get_detail modes)'')])]),
          (''required'', JArr [JStr ''mode''])]\<rparr>"

definition tool_definitions :: "tool_definition list" where
  "tool_definitions =
     [def_query, def_insert, def_retract, def_lookup, def_insert_batch, def_upsert, def_search, def_assert, def_review]"

definition definition_json :: "tool_definition \<Rightarrow> json" where
  "definition_json d =
     jobj [(''name'', JStr (td_name d)), (''description'', JStr (td_description d)), (''inputSchema'', td_schema d)]"

lemma tool_names:
  "map td_name tool_definitions =
     [''factum_query'', ''factum_insert'', ''factum_retract'', ''factum_lookup'', ''factum_insert_batch'',
      ''factum_upsert'', ''factum_search'', ''factum_assert'', ''factum_review'']"
  by (simp add: tool_definitions_def def_query_def def_insert_def def_retract_def def_lookup_def
      def_insert_batch_def def_upsert_def def_search_def def_assert_def def_review_def)

end
