(* ===== verification/Compact.thy ===== *)
theory Compact
  imports Json Serialize Morphemes
begin

text \<open>
  The compact form of \<open>factum-core/src/serialize.rs\<close>: the records a node is copied into, and the JSON
  that the serde attributes on them give (\<open>rename\<close>, \<open>untagged\<close>, \<open>tag\<close> and \<open>content\<close>,
  \<open>skip_serializing_if\<close>), with the fields in the order of their declaration. The text of the JSON is
  the library's. The form is written, and never read back, by the program.
\<close>

datatype compact_head = CName string | CId u32

datatype compact_term =
    CVar string
  | CEnt string
  | CLit string
  | CList "compact_term list"
  | CCompound compact_predicate
and compact_predicate =
    CPredicate (cp_h: compact_head) (cp_a: "compact_term list") (cp_n: "(string \<times> compact_term) list")

datatype compact_validity = CForever | CWindow string "string option"

datatype compact_provenance =
    CVerbatim string "u32 \<times> u32"
  | CSummary string "u32 \<times> u32"
  | CExtracted string "u32 \<times> u32" "string \<times> string"
  | CDerived string string
  | CAsserted string

record compact_node =
  cn_id :: string
  cn_head :: compact_head
  cn_args :: "compact_term list"
  cn_named :: "(string \<times> compact_term) list"
  cn_valid :: compact_validity
  cn_src :: compact_provenance
  cn_conf :: f32
  cn_auth :: f32
  cn_perm :: u32
  cn_deps :: "string list"
  cn_note :: "string option"

section \<open>From a node\<close>

definition plain_head :: "predicate_head \<Rightarrow> compact_head" where
  "plain_head h = (case h of HeadName nm \<Rightarrow> CName nm | HeadId i \<Rightarrow> CId i)"

fun from_term :: "chrono \<Rightarrow> trm \<Rightarrow> compact_term" where
  "from_term C (TVar s) = CVar s"
| "from_term C (TEnt e) = CEnt e"
| "from_term C (TLit l) = CLit (to_canonical_string C l)"
| "from_term C (TList ts) = CList (map (from_term C) ts)"
| "from_term C (TCompound (Predicate h as ns)) =
     CCompound (CPredicate (plain_head h) (map (from_term C) as) (map (\<lambda>(k, v). (k, from_term C v)) ns))"

definition compact_head_of :: "registry \<Rightarrow> predicate_head \<Rightarrow> compact_head" where
  "compact_head_of reg h =
     (case h of
        HeadName nm \<Rightarrow> (case resolve reg nm of Some i \<Rightarrow> CId i | None \<Rightarrow> CName nm)
      | HeadId i \<Rightarrow> CId i)"

definition compact_validity_of :: "(datetime \<Rightarrow> string) \<Rightarrow> validity \<Rightarrow> compact_validity" where
  \<comment> \<open>the first argument is \<open>format("%Y-%m-%d")\<close>\<close>
  "compact_validity_of day v =
     (case v of
        Forever \<Rightarrow> CForever
      | Window fr un \<Rightarrow> CWindow (day fr) (map_option day un))"

definition compact_provenance_of :: "provenance \<Rightarrow> compact_provenance" where
  "compact_provenance_of p =
     (case p of
        Verbatim d s \<Rightarrow> CVerbatim d (sp_start s, sp_end s)
      | Summary d s \<Rightarrow> CSummary d (sp_start s, sp_end s)
      | Extracted d s m \<Rightarrow> CExtracted d (sp_start s, sp_end s) (m_name m, m_version m)
      | Derived f r \<Rightarrow> CDerived f r
      | Asserted b \<Rightarrow> CAsserted b)"

definition from_node :: "chrono \<Rightarrow> (datetime \<Rightarrow> string) \<Rightarrow> registry \<Rightarrow> node \<Rightarrow> compact_node" where
  "from_node C day reg n =
     \<lparr>cn_id = nd_id n,
      cn_head = compact_head_of reg (pr_head (nd_pred n)),
      cn_args = map (from_term C) (pr_args (nd_pred n)),
      cn_named = map (\<lambda>(k, v). (k, from_term C v)) (pr_named (nd_pred n)),
      cn_valid = compact_validity_of day (nd_validity n),
      cn_src = compact_provenance_of (nd_prov n),
      cn_conf = nd_conf n, cn_auth = nd_auth n, cn_perm = nd_perm n,
      cn_deps = nd_deps n, cn_note = nd_note n\<rparr>"

section \<open>To JSON\<close>

definition u32_json :: "u32 \<Rightarrow> json" where
  "u32_json w = JNum (PosInt (ucast w))"

definition single_json :: "f32 \<Rightarrow> json" where
  \<comment> \<open>a float that is not finite is written as \<open>null\<close>\<close>
  "single_json v = (case v of F32_Fin _ _ \<Rightarrow> JNum (Single v) | _ \<Rightarrow> JNull)"

definition head_json :: "compact_head \<Rightarrow> json" where
  "head_json h = (case h of CName nm \<Rightarrow> JStr nm | CId i \<Rightarrow> u32_json i)"

fun term_json :: "compact_term \<Rightarrow> json" where
  "term_json (CVar s) = JStr s"
| "term_json (CEnt s) = JStr s"
| "term_json (CLit s) = JStr s"
| "term_json (CList ts) = JArr (map term_json ts)"
| "term_json (CCompound (CPredicate h as ns)) =
     JObj ([(''h'', head_json h), (''a'', JArr (map term_json as))]
       @ (if ns = [] then [] else [(''n'', JArr (map (\<lambda>(k, v). JArr [JStr k, term_json v]) ns))]))"

definition span_json :: "u32 \<times> u32 \<Rightarrow> json" where
  "span_json s = JArr [u32_json (fst s), u32_json (snd s)]"

definition tagged :: "string \<Rightarrow> (string \<times> json) list \<Rightarrow> json" where
  \<comment> \<open>\<open>tag = "t", content = "v"\<close>\<close>
  "tagged t fs = JObj [(''t'', JStr t), (''v'', JObj fs)]"

definition provenance_json :: "compact_provenance \<Rightarrow> json" where
  "provenance_json p =
     (case p of
        CVerbatim d s \<Rightarrow> tagged ''Verbatim'' [(''d'', JStr d), (''s'', span_json s)]
      | CSummary d s \<Rightarrow> tagged ''Summary'' [(''d'', JStr d), (''s'', span_json s)]
      | CExtracted d s m \<Rightarrow> tagged ''Extracted''
          [(''d'', JStr d), (''s'', span_json s), (''m'', jstrs [fst m, snd m])]
      | CDerived f r \<Rightarrow> tagged ''Derived'' [(''f'', JStr f), (''r'', JStr r)]
      | CAsserted b \<Rightarrow> tagged ''Asserted'' [(''b'', JStr b)])"

definition validity_json :: "compact_validity \<Rightarrow> json" where
  "validity_json v =
     (case v of
        CForever \<Rightarrow> JStr ''Forever''
      | CWindow f u \<Rightarrow> JObj [(''Window'', JObj [(''f'', JStr f), (''u'', jopt u)])])"

definition compact_json :: "compact_node \<Rightarrow> json" where
  "compact_json c =
     JObj ([(''0'', JStr (cn_id c)), (''1'', head_json (cn_head c)), (''2'', JArr (map term_json (cn_args c)))]
       @ (if cn_named c = [] then []
          else [(''3'', JArr (map (\<lambda>(k, v). JArr [JStr k, term_json v]) (cn_named c)))])
       @ [(''4'', validity_json (cn_valid c)), (''5'', provenance_json (cn_src c)),
          (''6'', single_json (cn_conf c)), (''7'', single_json (cn_auth c)), (''8'', u32_json (cn_perm c))]
       @ (if cn_deps c = [] then [] else [(''9'', jstrs (cn_deps c))])
       @ (case cn_note c of None \<Rightarrow> [] | Some s \<Rightarrow> [(''10'', JStr s)]))"

definition compact :: "chrono \<Rightarrow> (datetime \<Rightarrow> string) \<Rightarrow> (json \<Rightarrow> string) \<Rightarrow> registry \<Rightarrow> node \<Rightarrow> string" where
  \<comment> \<open>\<open>txt\<close> is \<open>serde_json::to_string\<close>, which does not fail on these values\<close>
  "compact C day txt reg n = txt (compact_json (from_node C day reg n))"

definition compact_all :: "chrono \<Rightarrow> (datetime \<Rightarrow> string) \<Rightarrow> (json \<Rightarrow> string) \<Rightarrow> registry \<Rightarrow> node list \<Rightarrow> string" where
  "compact_all C day txt reg ns = txt (JArr (map (\<lambda>n. compact_json (from_node C day reg n)) ns))"

section \<open>What the compact form keeps\<close>

text \<open>The untagged terms: a variable and an entity of the same name are the same JSON.\<close>

lemma compact_ambiguous:
  "compact C day txt reg (n\<lparr>nd_pred := Predicate h [TVar s] ns\<rparr>) = compact C day txt reg (n\<lparr>nd_pred := Predicate h [TEnt s] ns\<rparr>)"
  by (simp add: compact_def from_node_def compact_json_def)

text \<open>The head is kept: with the registry that was used, the id stands for exactly that name.\<close>

definition read_head :: "registry \<Rightarrow> compact_head \<Rightarrow> string option" where
  \<comment> \<open>what a client that got the registry's table makes of a head\<close>
  "read_head reg h = (case h of CName nm \<Rightarrow> Some nm | CId i \<Rightarrow> map_option md_name (lookup_id reg i))"

lemma head_kept: "reg_ok reg \<Longrightarrow> read_head reg (compact_head_of reg (HeadName nm)) = Some nm"
  by (auto simp: compact_head_of_def read_head_def lookup_id_def resolve_def reg_ok_def split: option.split)

lemma compact_fields:
  "json_get ''0'' (compact_json c) = Some (JStr (cn_id c))"
  "json_get ''1'' (compact_json c) = Some (head_json (cn_head c))"
  "json_get ''2'' (compact_json c) = Some (JArr (map term_json (cn_args c)))"
  "json_get ''5'' (compact_json c) = Some (provenance_json (cn_src c))"
  "json_get ''6'' (compact_json c) = Some (single_json (cn_conf c))"
  "json_get ''7'' (compact_json c) = Some (single_json (cn_auth c))"
  "json_get ''8'' (compact_json c) = Some (u32_json (cn_perm c))"
  "json_get ''9'' (compact_json c) = (if cn_deps c = [] then None else Some (jstrs (cn_deps c)))"
  "json_get ''10'' (compact_json c) = map_option JStr (cn_note c)"
  by (simp_all add: compact_json_def json_get_def map_add_def split: option.split)

lemma u32_json_inj: "u32_json a = u32_json b \<longleftrightarrow> a = b"
proof
  assume "u32_json a = u32_json b"
  then have "(ucast (ucast a :: u64) :: u32) = ucast (ucast b :: u64)" by (simp add: u32_json_def)
  moreover have "(ucast (ucast w :: u64) :: u32) = w" for w by (rule bit_word_eqI) (simp add: bit_simps)
  ultimately show "a = b" by simp
qed simp

lemma jstrs_inj: "jstrs a = jstrs b \<longleftrightarrow> a = b"
  by (auto simp: jstrs_def map_inj_on inj_on_def dest: map_inj_on)

lemma head_json_inj: "head_json a = head_json b \<longleftrightarrow> a = b"
  using u32_json_inj by (cases a; cases b) (auto simp: head_json_def u32_json_def)

lemma provenance_json_inj: "provenance_json a = provenance_json b \<longleftrightarrow> a = b"
  using u32_json_inj by (cases a; cases b) (auto simp: provenance_json_def tagged_def span_json_def jstrs_def)

lemma compact_provenance_inj: "compact_provenance_of a = compact_provenance_of b \<longleftrightarrow> a = b"
  by (cases a; cases b) (auto simp: compact_provenance_of_def)

lemma single_json_inj: "single_json (F32_Fin s k) = single_json v \<longleftrightarrow> v = F32_Fin s k"
  by (cases v) (auto simp: single_json_def)

end
