(* ===== verification/Handler.thy ===== *)
theory Handler
  imports Tools Compact Cascade Calibration
begin

text \<open>
  The request handler of \<open>factum-mcp/src/handler.rs\<close>. Its state is the store, the form negotiated for
  results and the review queue. A request is one step: the response and the next state, \<open>None\<close> instead
  of the response where arbitration panics. What the handler takes from the environment and from
  libraries is the record \<open>env\<close>: the clock, the date library, the hash, Unicode lower case, \<open>Debug\<close> and
  fixed-point formatting, and serde.
\<close>

datatype preferred_form = CompactForm | CanonicalForm

record mcp =
  mh_store :: store
  mh_form :: preferred_form
  mh_queue :: review_queue

record env =
  en_chrono :: chrono
  en_now :: datetime
  en_day :: "datetime \<Rightarrow> string" \<comment> \<open>\<open>format("%Y-%m-%d")\<close>\<close>
  en_parse_utc :: "string \<Rightarrow> datetime option" \<comment> \<open>\<open>parse::<DateTime<Utc>>\<close>\<close>
  en_hash :: "string \<Rightarrow> u64" \<comment> \<open>\<open>DefaultHasher\<close> of a string\<close>
  en_lower :: "string \<Rightarrow> string" \<comment> \<open>\<open>str::to_lowercase\<close>\<close>
  en_debug :: "provenance \<Rightarrow> string" \<comment> \<open>\<open>{:?}\<close>\<close>
  en_fixed2 :: "f32 \<Rightarrow> string" \<comment> \<open>\<open>{:.2}\<close>\<close>
  en_version :: string \<comment> \<open>\<open>CARGO_PKG_VERSION\<close>\<close>
  en_serde :: serde

section \<open>Helpers\<close>

definition predicate_head_str :: "predicate_head \<Rightarrow> string" where
  "predicate_head_str h = (case h of HeadName nm \<Rightarrow> nm | HeadId _ \<Rightarrow> ''<morpheme-id>'')"

definition store_error_to_jsonrpc :: "store_error \<Rightarrow> json_rpc_error" where
  "store_error_to_jsonrpc e =
     (case e of StorageFailed _ \<Rightarrow> rpc_internal (MsgStore e) | _ \<Rightarrow> invalid_params (MsgStore e))"

definition hex_char :: "nat \<Rightarrow> char" where
  "hex_char d = ''0123456789abcdef'' ! d"

definition hex12 :: "nat \<Rightarrow> string" where
  \<comment> \<open>\<open>{:012x}\<close> of a number below \<open>2^48\<close>\<close>
  "hex12 n = map (\<lambda>i. hex_char (n div 16 ^ i mod 16)) (rev [0..<12])"

definition generate_content_id :: "(string \<Rightarrow> u64) \<Rightarrow> string \<Rightarrow> string" where
  "generate_content_id h s = ''auto-'' @ hex12 (unat (h s AND 0xFFFFFFFFFFFF))"

definition parse_agent_weights :: "json option \<Rightarrow> (string \<times> f32) list" where
  "parse_agent_weights v =
     (case v of
        Some (JObj kvs) \<Rightarrow>
          List.map_filter (\<lambda>(k, w). case w of JNum n \<Rightarrow> map_option (\<lambda>f. (k, f64_as_f32 f)) (as_f64 n) | _ \<Rightarrow> None) kvs
      | _ \<Rightarrow> [])"

definition kind_str :: "morpheme_kind \<Rightarrow> string" where
  \<comment> \<open>\<open>{:?}\<close>\<close>
  "kind_str k =
     (case k of
        MkEntity \<Rightarrow> ''Entity'' | MkRelation \<Rightarrow> ''Relation'' | MkQuantifier \<Rightarrow> ''Quantifier'' | MkModal \<Rightarrow> ''Modal''
      | MkTemporal \<Rightarrow> ''Temporal'' | MkStatus \<Rightarrow> ''Status'' | MkAction \<Rightarrow> ''Action'' | MkAttribute \<Rightarrow> ''Attribute''
      | MkClassification \<Rightarrow> ''Classification'')"

definition node_status_str :: "node_status \<Rightarrow> string" where
  "node_status_str st = (case st of Active \<Rightarrow> ''Active'' | Retracted \<Rightarrow> ''Retracted'' | Pending \<Rightarrow> ''Pending'')"

type_synonym step = "mcp \<Rightarrow> json_rpc_response \<times> mcp"

definition refuse :: "json_rpc_request \<Rightarrow> json_rpc_error \<Rightarrow> step" where
  "refuse req e h = (rpc_error (rq_id req) e, h)"

definition answer :: "env \<Rightarrow> json_rpc_request \<Rightarrow> json \<Rightarrow> step" where
  \<comment> \<open>\<open>success(id, to_value(ToolResult::structured(json)))\<close>\<close>
  "answer E req v h = (rpc_success (rq_id req) (tool_result_json (structured (sj_text (en_serde E)) v)), h)"

definition canonical_text :: "env \<Rightarrow> node \<Rightarrow> json" where
  "canonical_text E n = JStr (canonical (en_chrono E) n)"

definition compact_text :: "env \<Rightarrow> store \<Rightarrow> node \<Rightarrow> json" where
  "compact_text E s n = JStr (compact (en_chrono E) (en_day E) (sj_text (en_serde E)) (st_registry s) n)"

definition visible :: "node \<Rightarrow> bool" where
  \<comment> \<open>active and open to the public context\<close>
  "visible n \<longleftrightarrow> nd_status n = Active \<and> check_permission n ctx_public"

section \<open>The handshake and the listings\<close>

definition mcp_new :: "store \<Rightarrow> mcp" where
  "mcp_new s = \<lparr>mh_store = s, mh_form = CompactForm, mh_queue = review_new\<rparr>"

definition with_review_queue :: "store \<Rightarrow> review_queue \<Rightarrow> mcp" where
  "with_review_queue s q = \<lparr>mh_store = s, mh_form = CompactForm, mh_queue = q\<rparr>"

definition factum_caps :: "json_rpc_request \<Rightarrow> json option" where
  "factum_caps req =
     (case rq_params req of None \<Rightarrow> None
      | Some p \<Rightarrow> (case json_get ''capabilities'' p of None \<Rightarrow> None | Some c \<Rightarrow> json_get ''factum'' c))"

definition negotiated :: "json option \<Rightarrow> preferred_form" where
  "negotiated fc =
     (case fc of
        None \<Rightarrow> CanonicalForm
      | Some c \<Rightarrow> if get_str ''preferred_form'' c = Some ''canonical'' then CanonicalForm else CompactForm)"

definition morpheme_table :: "registry \<Rightarrow> morpheme_entry list" where
  "morpheme_table reg =
     map (\<lambda>m. \<lparr>me_id = md_id m, me_name = md_name m, me_kind = kind_str (md_kind m)\<rparr>) (registry_all reg)"

definition handle_initialize :: "env \<Rightarrow> json_rpc_request \<Rightarrow> step" where
  "handle_initialize E req h =
     (let fc = factum_caps req;
          r = \<lparr>ir_protocol = MCP_PROTOCOL_VERSION,
               ir_capabilities = \<lparr>sc_tools = \<lparr>tc_list_changed = Some True\<rparr>,
                 sc_resources = \<lparr>rc_subscribe = None, rc_list_changed = None\<rparr>\<rparr>,
               ir_server = \<lparr>sv_name = ''factum-mcp'', sv_version = en_version E\<rparr>,
               ir_morphemes = (case fc of None \<Rightarrow> None | Some _ \<Rightarrow> Some (morpheme_table (st_registry (mh_store h))))\<rparr>
      in (rpc_success (rq_id req) (initialize_json r), h\<lparr>mh_form := negotiated fc\<rparr>))"

definition handle_list_tools :: "json_rpc_request \<Rightarrow> step" where
  "handle_list_tools req h =
     (rpc_success (rq_id req) (jobj [(''tools'', JArr (map definition_json tool_definitions))]), h)"

definition handle_list_resources :: "json_rpc_request \<Rightarrow> step" where
  "handle_list_resources req h =
     (let ns = sort_key nd_id (filter (\<lambda>n. check_permission n ctx_public) (all_active (mh_store h))) in
      (rpc_success (rq_id req) (jobj [(''resources'', JArr (map (\<lambda>n. jobj [
         (''uri'', JStr (node_resource_uri (nd_id n))), (''name'', JStr (nd_id n)), (''mimeType'', JStr ''text/plain'')]) ns))]), h))"

definition resource_templates :: json where
  "resource_templates =
     jobj [(''resourceTemplates'', JArr [jobj [
       (''uriTemplate'', JStr ''factum://nodes/{id}''),
       (''name'', JStr ''Factum node''),
       (''description'', JStr ''Read an active public knowledge node as canonical Factum text''),
       (''mimeType'', JStr ''text/plain'')]])]"

definition handle_read_resource :: "env \<Rightarrow> json_rpc_request \<Rightarrow> step" where
  "handle_read_resource E req h =
     (case rq_params req of
        None \<Rightarrow> refuse req (invalid_params MsgMissingParams) h
      | Some p \<Rightarrow>
          let uri = (case get_str ''uri'' p of None \<Rightarrow> [] | Some u \<Rightarrow> u) in
          (case parse_node_resource_uri uri of
             None \<Rightarrow> refuse req (invalid_params (MsgInvalidUri uri)) h
           | Some i \<Rightarrow>
               (case get_with_perm (mh_store h) i ctx_public of
                  Inr n \<Rightarrow>
                    if nd_status n = Active then
                      (rpc_success (rq_id req) (jobj [(''contents'', JArr [jobj [
                         (''uri'', JStr uri), (''mimeType'', JStr ''text/plain''), (''text'', canonical_text E n)]])]), h)
                    else refuse req (invalid_params MsgNoResource) h
                | Inl _ \<Rightarrow> refuse req (invalid_params MsgNoResource) h)))"

section \<open>Querying and looking up\<close>

definition policy_of :: "query_params \<Rightarrow> conflict_policy" where
  "policy_of p =
     (case qp_policy p of
        None \<Rightarrow> LatestWins
      | Some s \<Rightarrow>
          if s = ''latest'' then LatestWins
          else if s = ''authority'' then HighestAuthority
          else if s = ''unanimous'' then Unanimous
          else if s = ''weighted'' then WeightedVote (parse_agent_weights (qp_agent_weights p))
          else LatestWins)"

definition options_of :: "env \<Rightarrow> query_params \<Rightarrow> query_options" where
  "options_of E p =
     (let o0 = default_options (en_now E) in
      o0\<lparr>qo_policy := policy_of p,
         qo_now := (case qp_as_of p of None \<Rightarrow> en_now E
           | Some t \<Rightarrow> (case en_parse_utc E t of None \<Rightarrow> en_now E | Some dt \<Rightarrow> dt)),
         qo_min_conf := (case qp_min_confidence p of None \<Rightarrow> qo_min_conf o0 | Some c \<Rightarrow> c)\<rparr>)"

definition results_json :: "env \<Rightarrow> mcp \<Rightarrow> result_set \<Rightarrow> json" where
  "results_json E h rs =
     (case mh_form h of
        CanonicalForm \<Rightarrow> jobj [
          (''nodes'', JArr (map (\<lambda>r. canonical_text E (qr_node r)) (rs_results rs))),
          (''form'', JStr ''canonical''),
          (''count'', jnat (length (rs_results rs))), (''ambiguous'', JBool (rs_ambiguous rs))]
      | CompactForm \<Rightarrow> jobj [
          (''nodes'', JArr (map (\<lambda>r. compact_text E (mh_store h) (qr_node r)) (rs_results rs))),
          (''count'', jnat (length (rs_results rs))), (''ambiguous'', JBool (rs_ambiguous rs))])"

definition tool_query :: "env \<Rightarrow> json_rpc_request \<Rightarrow> json \<Rightarrow> mcp \<Rightarrow> json_rpc_response option \<times> mcp" where
  "tool_query E req args h =
     (case sj_query (en_serde E) args of
        Inl e \<Rightarrow> apfst Some (refuse req (invalid_params (MsgBadArguments e)) h)
      | Inr p \<Rightarrow>
          (case parse_predicate (en_chrono E) (qp_query p) of
             Inl e \<Rightarrow> apfst Some (refuse req (invalid_params (MsgQueryParse e)) h)
           | Inr pat \<Rightarrow>
               (case query_run (en_chrono E) (query_new pat) (options_of E p) (mh_store h) of
                  None \<Rightarrow> (None, h)
                | Some (Inl e) \<Rightarrow> apfst Some (refuse req (rpc_internal (MsgQueryFailed e)) h)
                | Some (Inr rs) \<Rightarrow> apfst Some (answer E req (results_json E h rs) h))))"

definition entity_name :: "string \<Rightarrow> string" where
  \<comment> \<open>\<open>strip_prefix('@').unwrap_or(..)\<close>\<close>
  "entity_name s = (case strip_prefix ''@'' s of None \<Rightarrow> s | Some r \<Rightarrow> r)"

definition lookup_nodes :: "lookup_params \<Rightarrow> store \<Rightarrow> node list" where
  "lookup_nodes p s =
     (let ns = lookup_by_entity s (entity_name (lp_entity p));
          ns = (case lp_min_confidence p of None \<Rightarrow> ns | Some c \<Rightarrow> filter (\<lambda>n. f32_le c (nd_conf n)) ns)
      in filter visible ns)"

definition tool_lookup :: "env \<Rightarrow> json_rpc_request \<Rightarrow> json \<Rightarrow> step" where
  "tool_lookup E req args h =
     (case sj_lookup (en_serde E) args of
        Inl e \<Rightarrow> refuse req (invalid_params (MsgBadArguments e)) h
      | Inr p \<Rightarrow>
          let ns = lookup_nodes p (mh_store h) in
          answer E req
            (case mh_form h of
               CanonicalForm \<Rightarrow> jobj [(''nodes'', JArr (map (canonical_text E) ns)),
                 (''form'', JStr ''canonical''), (''count'', jnat (length ns))]
             | CompactForm \<Rightarrow> jobj [(''nodes'', JArr (map (compact_text E (mh_store h)) ns)),
                 (''count'', jnat (length ns))]) h)"

section \<open>Inserting\<close>

definition auto_id :: "env \<Rightarrow> node \<Rightarrow> string" where
  "auto_id E n = generate_content_id (en_hash E) (canonical_predicate (en_chrono E) (nd_pred n))"

definition tool_insert :: "env \<Rightarrow> json_rpc_request \<Rightarrow> json \<Rightarrow> step" where
  "tool_insert E req args h =
     (case sj_insert (en_serde E) args of
        Inl e \<Rightarrow> refuse req (invalid_params (MsgBadArguments e)) h
      | Inr p \<Rightarrow>
          (case parse (en_chrono E) (ip_node p) of
             Inl e \<Rightarrow> refuse req (invalid_params (MsgNodeParse e)) h
           | Inr [] \<Rightarrow> refuse req (invalid_params MsgNoNodes) h
           | Inr (n # _) \<Rightarrow>
               let auto = nd_id n = ''auto'';
                   i = auto_id E n;
                   m = (if auto then n\<lparr>nd_id := i\<rparr> else n)
               in (case insert_node m (mh_store h) of
                     (Inl e, s) \<Rightarrow> refuse req (store_error_to_jsonrpc e) (h\<lparr>mh_store := s\<rparr>)
                   | (Inr _, s) \<Rightarrow>
                       answer E req
                         (if auto then jobj [(''status'', JStr ''Node inserted successfully''),
                            (''node_id'', JStr i), (''auto_generated'', JBool True)]
                          else jobj [(''status'', JStr ''Node inserted successfully'')])
                         (h\<lparr>mh_store := s\<rparr>))))"

fun parse_batch :: "chrono \<Rightarrow> nat \<Rightarrow> string list \<Rightarrow> (nat \<times> parse_error) + node list" where
  \<comment> \<open>the loop over the node texts, with the index of the one that fails\<close>
  "parse_batch C i [] = Inr []"
| "parse_batch C i (t # ts) =
     (case parse C t of
        Inl e \<Rightarrow> Inl (i, e)
      | Inr ns \<Rightarrow> (case parse_batch C (Suc i) ts of Inl e \<Rightarrow> Inl e | Inr ms \<Rightarrow> Inr (ns @ ms)))"

definition tool_insert_batch :: "env \<Rightarrow> json_rpc_request \<Rightarrow> json \<Rightarrow> step" where
  "tool_insert_batch E req args h =
     (case sj_insert_batch (en_serde E) args of
        Inl e \<Rightarrow> refuse req (invalid_params (MsgBadArguments e)) h
      | Inr p \<Rightarrow>
          (case parse_batch (en_chrono E) 0 (bp_nodes p) of
             Inl (i, e) \<Rightarrow> refuse req (invalid_params (MsgBatchParse i e)) h
           | Inr ns \<Rightarrow>
               if ns = [] then refuse req (invalid_params MsgNoNodesInBatch) h
               else
                 (case insert_batch ns (mh_store h) of
                    (Inl e, s) \<Rightarrow> refuse req (store_error_to_jsonrpc e) (h\<lparr>mh_store := s\<rparr>)
                  | (Inr _, s) \<Rightarrow>
                      answer E req
                        (jobj [(''inserted'', jnat (length (bp_nodes p))),
                           (''status'', JStr ''all nodes inserted successfully'')])
                        (h\<lparr>mh_store := s\<rparr>))))"

section \<open>Retracting and updating\<close>

definition review_enqueue ::
  "env \<Rightarrow> review_event_type \<Rightarrow> review_priority \<Rightarrow> string list \<Rightarrow> string \<Rightarrow> mcp \<Rightarrow> mcp" where
  "review_enqueue E ty pr ids why h =
     h\<lparr>mh_queue := snd (enqueue (timestamp (en_now E)) ty pr ids why (mh_queue h))\<rparr>"

definition truncated_reason :: "retract_result \<Rightarrow> string" where
  "truncated_reason r =
     ''Cascade retraction truncated at '' @ int_dec (int (length (rr_retracted r))) @ '' nodes (depth ''
     @ int_dec (int (rr_depth_reached r))
     @ ''). Knowledge base may be in a partially-retracted state. Review and decide whether to continue retraction or restore.''"

definition tool_retract :: "env \<Rightarrow> json_rpc_request \<Rightarrow> json \<Rightarrow> step" where
  "tool_retract E req args h =
     (case sj_retract (en_serde E) args of
        Inl e \<Rightarrow> refuse req (invalid_params (MsgBadArguments e)) h
      | Inr p \<Rightarrow>
          let mx = (case rp_max_cascade_nodes p of None \<Rightarrow> 100 | Some k \<Rightarrow> k) in
          (case retract_with_limit (rp_node_id p) mx (mh_store h) of
             (Inl e, s) \<Rightarrow> refuse req (store_error_to_jsonrpc e) (h\<lparr>mh_store := s\<rparr>)
           | (Inr r, s) \<Rightarrow>
               let h1 = h\<lparr>mh_store := s\<rparr>;
                   h2 = (if rr_truncated r
                         then review_enqueue E CascadeTruncated HighPriority [rp_node_id p] (truncated_reason r) h1
                         else h1)
               in answer E req
                    (jobj [(''retracted'', jstrs (rr_retracted r)), (''count'', jnat (length (rr_retracted r))),
                       (''truncated'', JBool (rr_truncated r)), (''depth_reached'', jnat (rr_depth_reached r))]) h2))"

definition storage_error_text :: "storage_error \<Rightarrow> string" where
  "storage_error_text e =
     (case e of
        IoError m \<Rightarrow> ''IO error: '' @ m
      | SerializationError m \<Rightarrow> ''serialization error: '' @ m
      | CfNotFound m \<Rightarrow> ''column family not found: '' @ m)"

definition fail_reason_text :: "fail_reason \<Rightarrow> string" where
  "fail_reason_text r =
     (case r of
        UnknownMorpheme \<Rightarrow> ''unknown morpheme''
      | ArityTooFew k opt got \<Rightarrow> ''arity mismatch: expected at least '' @ int_dec (int k) @ '' args ('' @ int_dec (int k)
          @ '' required, '' @ int_dec (int opt) @ '' optional), got '' @ int_dec (int got)
      | ArityTooMany k got \<Rightarrow> ''arity mismatch: expected at most '' @ int_dec (int k) @ '' args, got '' @ int_dec (int got)
      | EntityWithArguments \<Rightarrow> ''entity-type morpheme used with arguments''
      | DecimalScale sc \<Rightarrow> ''decimal scale '' @ int_dec (uint sc) @ '' exceeds maximum 38''
      | DecimalDigits d \<Rightarrow> ''decimal has '' @ int_dec (int d) @ '' digits, exceeds maximum 38''
      | CustomFailure m \<Rightarrow> m)"

definition store_error_text :: "store_error \<Rightarrow> string" where
  "store_error_text e =
     (case e of
        NotFound i \<Rightarrow> ''node not found: '' @ i
      | AlreadyExists i \<Rightarrow> ''node already exists: '' @ i
      | PermissionDenied \<Rightarrow> ''permission denied''
      | InvalidNode r \<Rightarrow> ''invalid node: '' @ fail_reason_text r
      | StorageFailed m \<Rightarrow> ''storage error: '' @ storage_error_text m)"

definition upsert_matches :: "upsert_params \<Rightarrow> store \<Rightarrow> node list" where
  "upsert_matches p s =
     filter (\<lambda>n. visible n \<and> predicate_head_str (pr_head (nd_pred n)) = up_predicate p)
       (lookup_by_entity s (entity_name (up_entity p)))"

definition ambiguous_reason :: "nat \<Rightarrow> string" where
  "ambiguous_reason k =
     ''Upsert found '' @ int_dec (int k)
     @ '' matching nodes with conflicting values. System refused to guess. Retract specific nodes manually or narrow the predicate.''"

definition upsert_insert :: "env \<Rightarrow> json_rpc_request \<Rightarrow> node \<Rightarrow> step" where
  \<comment> \<open>no match: a plain insertion\<close>
  "upsert_insert E req n h =
     (case insert_node n (mh_store h) of
        (Inl e, s) \<Rightarrow> refuse req (store_error_to_jsonrpc e) (h\<lparr>mh_store := s\<rparr>)
      | (Inr _, s) \<Rightarrow>
          answer E req
            (jobj [(''action'', JStr ''inserted''), (''retracted'', JArr []),
               (''status'', JStr ''no existing node found, inserted as new'')]) (h\<lparr>mh_store := s\<rparr>))"

definition upsert_replace :: "env \<Rightarrow> json_rpc_request \<Rightarrow> node \<Rightarrow> node \<Rightarrow> step" where
  \<comment> \<open>one match \<open>old\<close>: insert the new node, then retract the old one\<close>
  "upsert_replace E req old n h =
     (case insert_node n (mh_store h) of
        (Inl e, s) \<Rightarrow> refuse req (store_error_to_jsonrpc e) (h\<lparr>mh_store := s\<rparr>)
      | (Inr _, s) \<Rightarrow>
          (case retract (nd_id old) s of
             (Inr ids, s') \<Rightarrow>
               answer E req
                 (jobj [(''action'', JStr ''updated''), (''retracted'', jstrs ids), (''retracted_count'', jnat (length ids)),
                    (''status'', JStr ''old node retracted, new node inserted'')]) (h\<lparr>mh_store := s'\<rparr>)
           | (Inl e, s') \<Rightarrow>
               answer E req
                 (jobj [(''action'', JStr ''partial''),
                    (''warning'', JStr ''new node inserted but old node retraction failed''),
                    (''error'', JStr (store_error_text e)), (''old_node_id'', JStr (nd_id old))]) (h\<lparr>mh_store := s'\<rparr>)))"

definition upsert_ambiguous :: "env \<Rightarrow> json_rpc_request \<Rightarrow> node list \<Rightarrow> step" where
  "upsert_ambiguous E req ms h =
     answer E req
       (jobj [(''action'', JStr ''ambiguous''), (''matching_nodes'', jstrs (map nd_id ms)), (''count'', jnat (length ms)),
          (''status'', JStr (''multiple matching nodes found '' @ [CHR 0xE2, CHR 0x80, CHR 0x94] @ '' refusing to guess. Retract specific nodes manually or narrow the predicate.''))])
       (review_enqueue E AmbiguousArbitration NormalPriority (map nd_id ms) (ambiguous_reason (length ms)) h)"

definition tool_upsert :: "env \<Rightarrow> json_rpc_request \<Rightarrow> json \<Rightarrow> step" where
  "tool_upsert E req args h =
     (case sj_upsert (en_serde E) args of
        Inl e \<Rightarrow> refuse req (invalid_params (MsgBadArguments e)) h
      | Inr p \<Rightarrow>
          (case parse (en_chrono E) (up_node p) of
             Inl e \<Rightarrow> refuse req (invalid_params (MsgNodeParse e)) h
           | Inr [] \<Rightarrow> refuse req (invalid_params MsgNoNodes) h
           | Inr (n # _) \<Rightarrow>
               (case upsert_matches p (mh_store h) of
                  [] \<Rightarrow> upsert_insert E req n h
                | [old] \<Rightarrow> upsert_replace E req old n h
                | ms \<Rightarrow> upsert_ambiguous E req ms h)))"

section \<open>Asserting\<close>

definition band_text :: "env \<Rightarrow> band_violation \<Rightarrow> string" where
  "band_text E v =
     (case v of
        AboveBand c nm up \<Rightarrow> ''confidence '' @ en_fixed2 E c @ '' exceeds '' @ nm @ '' band upper bound '' @ en_fixed2 E up
          @ ''; corroboration evidence required for values above '' @ en_fixed2 E up
      | BelowBand c nm lo \<Rightarrow> ''confidence '' @ en_fixed2 E c @ '' is below '' @ nm @ '' band lower bound '' @ en_fixed2 E lo
          @ ''; consider not inserting this knowledge'')"

definition band_reason :: "env \<Rightarrow> node \<Rightarrow> band_violation \<Rightarrow> string" where
  "band_reason E n v =
     ''Confidence '' @ f32_display (nd_conf n) @ '' for provenance '' @ en_debug E (nd_prov n)
     @ '' exceeds band. '' @ band_text E v"

definition asserted_by :: "assert_params \<Rightarrow> string" where
  "asserted_by p = (case ap_by p of None \<Rightarrow> ''system'' | Some b \<Rightarrow> b)"

definition asserted_node :: "env \<Rightarrow> assert_params \<Rightarrow> predicate \<Rightarrow> node" where
  "asserted_node E p pred =
     (let n = node_new (generate_content_id (en_hash E) (canonical_predicate (en_chrono E) pred)) pred;
          n = n\<lparr>nd_prov := Asserted (asserted_by p)\<rparr>;
          n = n\<lparr>nd_conf := (case ap_confidence p of Some c \<Rightarrow> c | None \<Rightarrow> default_confidence_for_provenance (nd_prov n))\<rparr>
      in (case ap_note p of None \<Rightarrow> n | Some t \<Rightarrow> n\<lparr>nd_note := Some t\<rparr>))"

definition existing_principal :: "node option \<Rightarrow> string" where
  "existing_principal n =
     (case n of
        None \<Rightarrow> ''unknown''
      | Some m \<Rightarrow>
          (case nd_prov m of
             Asserted b \<Rightarrow> b
           | Extracted _ _ r \<Rightarrow> m_name r
           | Verbatim _ _ \<Rightarrow> ''unknown''
           | Summary _ _ \<Rightarrow> ''unknown''
           | Derived _ _ \<Rightarrow> ''unknown''))"

definition assert_existing :: "env \<Rightarrow> json_rpc_request \<Rightarrow> assert_params \<Rightarrow> string \<Rightarrow> string \<Rightarrow> step" where
  \<comment> \<open>the id exists: a duplicate or a corroboration\<close>
  "assert_existing E req p i canon h =
     (let who = existing_principal (store_get (mh_store h) i) in
      if who = asserted_by p then
        answer E req
          (jobj [(''action'', JStr ''duplicate''), (''node_id'', JStr i), (''predicate'', JStr canon),
             (''status'', JStr ''fact already asserted by the same principal (no-op)'')]) h
      else
        answer E req
          (jobj [(''action'', JStr ''corroborated''), (''node_id'', JStr i), (''predicate'', JStr canon),
             (''status'', JStr (''fact already exists '' @ [CHR 0xE2, CHR 0x80, CHR 0x94] @ '' your assertion is recorded as corroboration'')),
             (''corroborated_by'', JStr who), (''your_principal'', JStr (asserted_by p)),
             (''hint'', JStr ''use factum_insert with a custom node ID to add your own provenance, or use WeightedVote policy in queries to leverage multiple principals'')]) h)"

definition band_check :: "env \<Rightarrow> node \<Rightarrow> mcp \<Rightarrow> mcp" where
  "band_check E n h =
     (case check_confidence_band (nd_prov n) (nd_conf n) of
        Inr _ \<Rightarrow> h
      | Inl v \<Rightarrow> review_enqueue E BandClippingExceeded NormalPriority [nd_id n] (band_reason E n v) h)"

definition tool_assert :: "env \<Rightarrow> json_rpc_request \<Rightarrow> json \<Rightarrow> step" where
  "tool_assert E req args h =
     (case sj_assert (en_serde E) args of
        Inl e \<Rightarrow> refuse req (invalid_params (MsgBadArguments e)) h
      | Inr p \<Rightarrow>
          (case parse_predicate (en_chrono E) (ap_predicate p) of
             Inl e \<Rightarrow> refuse req (invalid_params (MsgPredicateParse e)) h
           | Inr pred \<Rightarrow>
               let canon = canonical_predicate (en_chrono E) pred;
                   n = asserted_node E p pred;
                   h1 = band_check E n h
               in (case insert_node n (mh_store h1) of
                     (Inr _, s) \<Rightarrow>
                       answer E req
                         (jobj [(''action'', JStr ''asserted''), (''node_id'', JStr (nd_id n)), (''predicate'', JStr canon),
                            (''status'', JStr ''fact asserted with auto-generated ID'')]) (h1\<lparr>mh_store := s\<rparr>)
                   | (Inl e, s) \<Rightarrow>
                       (case e of
                          AlreadyExists _ \<Rightarrow> assert_existing E req p (nd_id n) canon (h1\<lparr>mh_store := s\<rparr>)
                        | _ \<Rightarrow> refuse req (store_error_to_jsonrpc e) (h1\<lparr>mh_store := s\<rparr>)))))"

section \<open>Searching\<close>

fun contains :: "string \<Rightarrow> string \<Rightarrow> bool" where
  \<comment> \<open>\<open>s.contains(k)\<close>\<close>
  "contains k [] = (k = [])"
| "contains k (c # s) = (strip_prefix k (c # s) \<noteq> None \<or> contains k s)"

definition entity_ids :: "node \<Rightarrow> string list" where
  "entity_ids n = List.map_filter (\<lambda>t. case t of TEnt e \<Rightarrow> Some e | _ \<Rightarrow> None) (pr_args (nd_pred n))"

definition match_types :: "env \<Rightarrow> string \<Rightarrow> node \<Rightarrow> string list" where
  "match_types E kw n =
     (let found = (\<lambda>s. contains kw (en_lower E s)) in
      (if found (nd_id n) then [''node-id''] else [])
      @ (if found (predicate_head_str (pr_head (nd_pred n))) then [''predicate-head''] else [])
      @ (if list_ex found (entity_ids n) then [''entity''] else [])
      @ (if found (canonical (en_chrono E) n) then [''content''] else [])
      @ (case nd_note n of None \<Rightarrow> [] | Some t \<Rightarrow> if found t then [''note''] else []))"

definition summary_arg :: "env \<Rightarrow> trm \<Rightarrow> string" where
  "summary_arg E t =
     (case t of
        TEnt e \<Rightarrow> '' @'' @ e
      | TVar v \<Rightarrow> '' ?'' @ v
      | TLit l \<Rightarrow> '' '' @ to_canonical_string (en_chrono E) l
      | TCompound _ \<Rightarrow> []
      | TList _ \<Rightarrow> [])"

definition summary_text :: "env \<Rightarrow> node \<Rightarrow> string" where
  "summary_text E n =
     ''(node '' @ nd_id n @ '' :pred ('' @ predicate_head_str (pr_head (nd_pred n))
     @ concat (map (summary_arg E) (pr_args (nd_pred n))) @ ''))''"

definition hit_json :: "env \<Rightarrow> string \<Rightarrow> node \<Rightarrow> json" where
  "hit_json E kw n =
     jobj [(''node_id'', JStr (nd_id n)), (''predicate_head'', JStr (predicate_head_str (pr_head (nd_pred n)))),
       (''match_type'', jstrs (match_types E kw n)), (''summary'', JStr (summary_text E n)), (''note'', jopt (nd_note n))]"

fun keyword_loop :: "env \<Rightarrow> string \<Rightarrow> nat \<Rightarrow> node list \<Rightarrow> json list \<Rightarrow> json list" where
  "keyword_loop E kw lim [] acc = acc"
| "keyword_loop E kw lim (n # ns) acc =
     (if lim \<le> length acc then acc
      else if match_types E kw n \<noteq> [] then keyword_loop E kw lim ns (acc @ [hit_json E kw n])
      else keyword_loop E kw lim ns acc)"

definition public_nodes :: "store \<Rightarrow> node list" where
  \<comment> \<open>\<open>active_nodes\<close>: the active nodes the public context may see\<close>
  "public_nodes s = filter (\<lambda>n. check_permission n ctx_public) (all_active s)"

definition pred_counts :: "node list \<Rightarrow> (string \<times> nat) list" where
  \<comment> \<open>the \<open>BTreeMap\<close> from heads to counts, in the order of the heads\<close>
  "pred_counts ns =
     (let hs = map (\<lambda>n. predicate_head_str (pr_head (nd_pred n))) ns in
      map (\<lambda>k. (k, count_list hs k)) (sort (remdups hs)))"

definition counts_json :: "(string \<times> nat) list \<Rightarrow> json" where
  "counts_json cs = JArr (map (\<lambda>(k, c). jobj [(''predicate'', JStr k), (''count'', jnat c)]) cs)"

definition search_keyword :: "env \<Rightarrow> json_rpc_request \<Rightarrow> search_params \<Rightarrow> step" where
  "search_keyword E req p h =
     (case ep_keyword p of
        None \<Rightarrow> refuse req (invalid_params MsgKeywordRequired) h
      | Some kw \<Rightarrow>
          if kw = [] then refuse req (invalid_params MsgKeywordRequired) h
          else
            let lim = min (case ep_limit p of None \<Rightarrow> 50 | Some k \<Rightarrow> k) 200;
                hits = keyword_loop E (en_lower E kw) lim (public_nodes (mh_store h)) []
            in answer E req
                 (jobj [(''mode'', JStr ''keyword''), (''keyword'', JStr kw), (''results'', JArr hits),
                    (''count'', jnat (length hits)), (''truncated'', JBool (length hits = lim))]) h)"

definition stats_json :: "store \<Rightarrow> json" where
  "stats_json s =
     (let act = public_nodes s; all = store_len s; cs = pred_counts act in
      jobj [(''mode'', JStr ''stats''), (''total_nodes'', jnat all), (''active_nodes'', jnat (length act)),
        (''retracted_nodes'', jnat (all - length act)), (''distinct_predicates'', jnat (length cs)),
        (''predicates'', counts_json cs)])"

definition tool_search :: "env \<Rightarrow> json_rpc_request \<Rightarrow> json \<Rightarrow> step" where
  "tool_search E req args h =
     (case sj_search (en_serde E) args of
        Inl e \<Rightarrow> refuse req (invalid_params (MsgBadArguments e)) h
      | Inr p \<Rightarrow>
          if ep_mode p = ''keyword'' then search_keyword E req p h
          else if ep_mode p = ''predicates'' then
            let cs = pred_counts (public_nodes (mh_store h)) in
            answer E req
              (jobj [(''mode'', JStr ''predicates''), (''predicates'', counts_json cs), (''distinct_count'', jnat (length cs)),
                 (''total_active'', jnat (length (public_nodes (mh_store h))))]) h
          else if ep_mode p = ''stats'' then answer E req (stats_json (mh_store h)) h
          else refuse req (invalid_params (MsgUnknownMode (ep_mode p))) h)"

section \<open>Reviewing\<close>

definition event_fields :: "review_event \<Rightarrow> (string \<times> json) list" where
  "event_fields e =
     [(''id'', JNum (PosInt (re_id e))), (''event_type'', JStr (event_type_str (re_type e))),
      (''priority'', JStr (priority_str (re_priority e))), (''node_ids'', jstrs (re_node_ids e)),
      (''reason'', JStr (re_reason e)), (''timestamp'', jint (re_timestamp e))]"

definition event_json :: "review_event \<Rightarrow> json" where
  "event_json e = jobj (event_fields e @ [(''status'', JStr (status_str (re_status e)))])"

definition detail_json :: "env \<Rightarrow> string \<Rightarrow> node \<Rightarrow> json" where
  "detail_json E i n =
     jobj [(''node_id'', JStr i), (''canonical'', canonical_text E n), (''status'', JStr (node_status_str (nd_status n))),
       (''confidence'', jf32 (nd_conf n)), (''provenance'', JStr (en_debug E (nd_prov n)))]"

fun retract_each :: "string list \<Rightarrow> store \<Rightarrow> (node_id list \<times> string list) \<times> store" where
  \<comment> \<open>retract the nodes of an event in turn; the ids retracted and the errors\<close>
  "retract_each [] s = (([], []), s)"
| "retract_each (i # is) s =
     (case retract i s of
        (Inr ids, s1) \<Rightarrow> (case retract_each is s1 of ((done, errs), s2) \<Rightarrow> ((ids @ done, errs), s2))
      | (Inl e, s1) \<Rightarrow>
          (case retract_each is s1 of ((done, errs), s2) \<Rightarrow> ((done, (i @ '': '' @ store_error_text e) # errs), s2)))"

definition review_list_pending :: "env \<Rightarrow> json_rpc_request \<Rightarrow> step" where
  "review_list_pending E req h =
     (let es = list_pending (mh_queue h) in
      answer E req (jobj [(''pending'', JArr (map (\<lambda>e. jobj (event_fields e)) es)), (''count'', jnat (length es))]) h)"

definition review_list_all :: "env \<Rightarrow> json_rpc_request \<Rightarrow> step" where
  "review_list_all E req h =
     (let es = list_all_events (mh_queue h) in
      answer E req
        (jobj [(''events'', JArr (map event_json es)), (''count'', jnat (length es)),
           (''pending_count'', jnat (pending_count (mh_queue h)))]) h)"

definition review_approve :: "env \<Rightarrow> json_rpc_request \<Rightarrow> u64 \<Rightarrow> step" where
  "review_approve E req i h =
     (case approve i (mh_queue h) of
        (Inr _, q) \<Rightarrow>
          answer E req
            (jobj [(''action'', JStr ''approved''), (''event_id'', JNum (PosInt i)),
               (''status'', JStr (''event approved '' @ [CHR 0xE2, CHR 0x80, CHR 0x94] @ '' fact is allowed to stand''))]) (h\<lparr>mh_queue := q\<rparr>)
      | (Inl e, q) \<Rightarrow> refuse req (invalid_params (MsgReview e)) (h\<lparr>mh_queue := q\<rparr>))"

definition review_reject :: "env \<Rightarrow> json_rpc_request \<Rightarrow> u64 \<Rightarrow> step" where
  "review_reject E req i h =
     (case reject i (mh_queue h) of
        (Inl e, q) \<Rightarrow> refuse req (invalid_params (MsgReview e)) (h\<lparr>mh_queue := q\<rparr>)
      | (Inr _, q) \<Rightarrow>
          (case review_get i q of
             None \<Rightarrow> refuse req (invalid_params (MsgNoEvent i)) (h\<lparr>mh_queue := q\<rparr>)
           | Some e \<Rightarrow>
               (case retract_each (re_node_ids e) (mh_store h) of ((done, errs), s) \<Rightarrow>
                  answer E req
                    (jobj [(''action'', JStr ''rejected''), (''event_id'', JNum (PosInt i)), (''retracted_nodes'', jstrs done),
                       (''retracted_count'', jnat (length done)), (''errors'', jstrs errs),
                       (''status'', JStr (''event rejected '' @ [CHR 0xE2, CHR 0x80, CHR 0x94] @ '' associated nodes retracted''))])
                    (h\<lparr>mh_queue := q, mh_store := s\<rparr>))))"

definition review_detail :: "env \<Rightarrow> json_rpc_request \<Rightarrow> u64 \<Rightarrow> step" where
  "review_detail E req i h =
     (case review_get i (mh_queue h) of
        None \<Rightarrow> refuse req (invalid_params (MsgNoEvent i)) h
      | Some e \<Rightarrow>
          answer E req
            (jobj [(''event'', event_json e),
               (''node_details'', JArr (List.map_filter
                  (\<lambda>j. map_option (detail_json E j) (store_get (mh_store h) j)) (re_node_ids e)))]) h)"

definition tool_review :: "env \<Rightarrow> json_rpc_request \<Rightarrow> json \<Rightarrow> step" where
  "tool_review E req args h =
     (let mode = (case get_str ''mode'' args of None \<Rightarrow> ''list_pending'' | Some m \<Rightarrow> m) in
      if mode = ''list_pending'' then review_list_pending E req h
      else if mode = ''list_all'' then review_list_all E req h
      else if mode \<in> {''approve'', ''reject'', ''get_detail''} then
        (case get_u64 ''event_id'' args of
           None \<Rightarrow> refuse req (invalid_params (MsgEventIdRequired mode)) h
         | Some i \<Rightarrow>
             if mode = ''approve'' then review_approve E req i h
             else if mode = ''reject'' then review_reject E req i h
             else review_detail E req i h)
      else refuse req (invalid_params (MsgUnknownReviewMode mode)) h)"

section \<open>Dispatch\<close>

type_synonym handled = "json_rpc_response option \<times> mcp"

definition tool_name :: "json \<Rightarrow> string" where
  "tool_name p = (case get_str ''name'' p of None \<Rightarrow> [] | Some s \<Rightarrow> s)"

definition tool_args :: "json \<Rightarrow> json" where
  "tool_args p = (case json_get ''arguments'' p of None \<Rightarrow> JNull | Some a \<Rightarrow> a)"

definition handle_call_tool :: "env \<Rightarrow> json_rpc_request \<Rightarrow> mcp \<Rightarrow> handled" where
  "handle_call_tool E req h =
     (case rq_params req of
        None \<Rightarrow> apfst Some (refuse req (invalid_params MsgMissingParams) h)
      | Some p \<Rightarrow>
          let tool = tool_name p; args = tool_args p in
             if tool = ''factum_query'' then tool_query E req args h
             else apfst Some
               (if tool = ''factum_lookup'' then tool_lookup E req args h
                else if tool = ''factum_insert'' then tool_insert E req args h
                else if tool = ''factum_insert_batch'' then tool_insert_batch E req args h
                else if tool = ''factum_upsert'' then tool_upsert E req args h
                else if tool = ''factum_assert'' then tool_assert E req args h
                else if tool = ''factum_search'' then tool_search E req args h
                else if tool = ''factum_retract'' then tool_retract E req args h
                else if tool = ''factum_review'' then tool_review E req args h
                else refuse req (invalid_params (MsgUnknownTool tool)) h))"

definition handle :: "env \<Rightarrow> json_rpc_request \<Rightarrow> mcp \<Rightarrow> handled" where
  "handle E req h =
     (if rq_method req = ''tools/call'' then handle_call_tool E req h
      else apfst Some
        (if rq_method req = ''initialize'' then handle_initialize E req h
         else if rq_method req = ''ping'' then (rpc_success (rq_id req) (jobj []), h)
         else if rq_method req = ''tools/list'' then handle_list_tools req h
         else if rq_method req = ''resources/list'' then handle_list_resources req h
         else if rq_method req = ''resources/templates/list'' then (rpc_success (rq_id req) resource_templates, h)
         else if rq_method req = ''resources/read'' then handle_read_resource E req h
         else refuse req method_not_found h))"

end
