(* ===== verification/Handler_Facts.thy ===== *)
theory Handler_Facts
  imports Handler Orders Store_Properties
begin

text \<open>
  What a request does to the state: it runs operations of the store and of the review queue, and a
  reading request runs none. What a caller sees of a node that is not public: nothing, in the tools
  that filter.
\<close>

section \<open>Every request runs operations\<close>

lemma step_simps [simp]:
  "snd (refuse req e h) = h" "snd (answer E req v h) = h"
  by (simp_all add: refuse_def answer_def)

lemma enqueue_store [simp]:
  "mh_store (review_enqueue E ty pr ids why h) = mh_store h" "mh_form (review_enqueue E ty pr ids why h) = mh_form h"
  by (simp_all add: review_enqueue_def)

lemma store_reaches_trans: "store_reaches t u \<Longrightarrow> store_reaches s t \<Longrightarrow> store_reaches s u"
  by (induction rule: store_reaches.induct) (auto intro: store_reaches.op)

lemma reaches_insert: "insert_node n s = (r, s') \<Longrightarrow> store_reaches s s'"
  using store_reaches.op [OF store_reaches.start, of s "OpInsert n"] by simp

lemma reaches_insert_batch: "insert_batch ns s = (r, s') \<Longrightarrow> store_reaches s s'"
  using store_reaches.op [OF store_reaches.start, of s "OpInsertBatch ns"] by simp

lemma reaches_retract: "retract i s = (r, s') \<Longrightarrow> store_reaches s s'"
  using store_reaches.op [OF store_reaches.start, of s "OpRetract i"] by simp

lemma reaches_retract_with_limit: "retract_with_limit i mx s = (r, s') \<Longrightarrow> store_reaches s s'"
  using store_reaches.op [OF store_reaches.start, of s "OpRetractWithLimit i mx"] by simp

lemmas store_steps = reaches_insert reaches_insert_batch reaches_retract reaches_retract_with_limit store_reaches.start

lemma reaches_retract_each: "retract_each is s = (r, s') \<Longrightarrow> store_reaches s s'"
proof (induction "is" arbitrary: s r)
  case Nil
  then show ?case by (simp add: store_reaches.start)
next
  case (Cons i "is")
  then show ?case
    by (auto split: prod.splits sum.splits dest!: reaches_retract intro: store_reaches_trans)
qed

lemma queue_steps:
  assumes "rq_next_id q \<noteq> - 1"
  shows "reaches q (snd (enqueue now ty pr ids why q))" "reaches q (snd (approve i q))" "reaches q (snd (reject i q))"
  using reaches.step [OF reaches.here assms, of "Enqueue now ty pr ids why"]
    reaches.step [OF reaches.here assms, of "Approve i"] reaches.step [OF reaches.here assms, of "Reject i"]
  by (simp_all add: run_op_def)

definition evolves :: "mcp \<Rightarrow> mcp \<Rightarrow> bool" where
  "evolves h h' \<longleftrightarrow> store_reaches (mh_store h) (mh_store h') \<and> reaches (mh_queue h) (mh_queue h')"

lemma evolves_refl: "evolves h h"
  by (simp add: evolves_def store_reaches.start reaches.here)

lemma evolves_store: "store_reaches (mh_store h) s \<Longrightarrow> evolves h (h\<lparr>mh_store := s\<rparr>)"
  by (simp add: evolves_def reaches.here)

lemma evolves_enqueue:
  "rq_next_id (mh_queue h) \<noteq> - 1 \<Longrightarrow> store_reaches (mh_store h) s \<Longrightarrow>
    evolves h ((review_enqueue E ty pr ids why h)\<lparr>mh_store := s\<rparr>)"
  by (simp add: evolves_def review_enqueue_def queue_steps)

lemma enqueue_commute:
  "review_enqueue E ty pr ids why (h\<lparr>mh_store := s\<rparr>) = (review_enqueue E ty pr ids why h)\<lparr>mh_store := s\<rparr>"
  by (simp add: review_enqueue_def)

lemma evolves_enqueue_only:
  "rq_next_id (mh_queue h) \<noteq> - 1 \<Longrightarrow> evolves h (review_enqueue E ty pr ids why h)"
  by (simp add: evolves_def review_enqueue_def queue_steps store_reaches.start)

lemma evolves_insert: "evolves h (snd (tool_insert E req args h))"
  by (auto simp: tool_insert_def Let_def evolves_refl split: sum.split list.split prod.split
      intro!: evolves_store dest: reaches_insert)

lemma evolves_insert_batch: "evolves h (snd (tool_insert_batch E req args h))"
  by (auto simp: tool_insert_batch_def Let_def evolves_refl split: sum.split prod.split
      intro!: evolves_store dest: reaches_insert_batch)

lemma evolves_retract:
  "rq_next_id (mh_queue h) \<noteq> - 1 \<Longrightarrow> evolves h (snd (tool_retract E req args h))"
  by (auto simp: tool_retract_def Let_def evolves_refl enqueue_commute split: sum.split prod.split
      intro!: evolves_store evolves_enqueue dest: reaches_retract_with_limit)

lemma evolves_upsert:
  assumes "rq_next_id (mh_queue h) \<noteq> - 1"
  shows "evolves h (snd (tool_upsert E req args h))"
proof -
  have ins: "evolves h (snd (upsert_insert E req n h))" for n
    by (auto simp: upsert_insert_def split: sum.split prod.split intro!: evolves_store dest: reaches_insert)
  have rep: "evolves h (snd (upsert_replace E req old n h))" for old n
    by (auto simp: upsert_replace_def split: sum.split prod.split intro!: evolves_store
        dest!: reaches_insert reaches_retract intro: store_reaches_trans)
  have amb: "evolves h (snd (upsert_ambiguous E req ms h))" for ms
    using assms by (simp add: upsert_ambiguous_def evolves_enqueue_only)
  show ?thesis
    using ins rep amb by (auto simp: tool_upsert_def evolves_refl split: sum.split list.split)
qed

lemma band_check_cases:
  "band_check E n h = h \<or> (\<exists>why. band_check E n h = review_enqueue E BandClippingExceeded NormalPriority [nd_id n] why h)"
  by (auto simp: band_check_def split: sum.split)

lemma evolves_assert:
  assumes "rq_next_id (mh_queue h) \<noteq> - 1"
  shows "evolves h (snd (tool_assert E req args h))"
proof -
  have b: "evolves h ((band_check E n h)\<lparr>mh_store := s\<rparr>)" if "store_reaches (mh_store h) s" for n s
    using band_check_cases [of E n h] evolves_store [OF that] evolves_enqueue [OF assms that] by metis
  have st: "mh_store (band_check E n h) = mh_store h" for n using band_check_cases [of E n h] by fastforce
  have ex: "snd (assert_existing E req p i c h') = h'" for p i c h'
    by (simp add: assert_existing_def Let_def)
  show ?thesis
    by (auto simp: tool_assert_def Let_def evolves_refl st ex split: sum.split prod.split store_error.split
        intro!: b dest: reaches_insert)
qed

lemma evolves_review:
  assumes "rq_next_id (mh_queue h) \<noteq> - 1"
  shows "evolves h (snd (tool_review E req args h))"
proof -
  have app: "evolves h (snd (review_approve E req i h))" for i
    using queue_steps(2) [OF assms, of i]
    by (cases "approve i (mh_queue h)") (auto simp: review_approve_def evolves_def store_reaches.start split: sum.split)
  have rej: "evolves h (snd (review_reject E req i h))" for i
    using queue_steps(3) [OF assms, of i]
    by (cases "reject i (mh_queue h)")
      (auto simp: review_reject_def evolves_def store_reaches.start split: sum.split option.split prod.split
        dest: reaches_retract_each)
  have det: "snd (review_detail E req i h) = h" for i by (simp add: review_detail_def split: option.split)
  show ?thesis
    using app rej by (auto simp: tool_review_def Let_def review_list_pending_def review_list_all_def det evolves_refl
        split: option.split)
qed

lemma read_tools:
  "snd (tool_query E req args h) = h" "snd (tool_lookup E req args h) = h" "snd (tool_search E req args h) = h"
  "snd (handle_read_resource E req h) = h" "snd (handle_list_resources req h) = h" "snd (handle_list_tools req h) = h"
  by (simp_all add: tool_query_def tool_lookup_def tool_search_def search_keyword_def handle_read_resource_def
      handle_list_resources_def handle_list_tools_def Let_def refuse_def answer_def split: sum.split option.split)

lemma evolves_handle:
  assumes "rq_next_id (mh_queue h) \<noteq> - 1"
  shows "evolves h (snd (handle E req h))"
proof -
  have init: "evolves h (snd (handle_initialize E req h))"
    by (simp add: handle_initialize_def Let_def evolves_def store_reaches.start reaches.here)
  have call: "evolves h (snd (handle_call_tool E req h))"
    using evolves_insert evolves_insert_batch evolves_retract [OF assms] evolves_upsert [OF assms]
      evolves_assert [OF assms] evolves_review [OF assms]
    by (simp add: handle_call_tool_def Let_def read_tools evolves_refl split: option.split)
  show ?thesis
    using init call by (simp add: handle_def read_tools evolves_refl)
qed

section \<open>A node that is not public\<close>

lemma public_unseen:
  assumes "unseen_in n t' t" "\<not> check_permission n ctx_public"
  shows "public_nodes t' = public_nodes t"
proof -
  have "public_nodes u = filter visible (store_all u)" for u
    by (auto simp: public_nodes_def all_active_def visible_def intro: filter_cong)
  then show ?thesis using assms by (simp add: unseen_in_def visible_def)
qed

lemma lookup_unseen:
  assumes "unseen_in n t' t" "\<not> check_permission n ctx_public"
  shows "lookup_nodes p t' = lookup_nodes p t"
proof -
  have "filter visible (lookup_by_entity t' e) = filter visible (lookup_by_entity t e)" for e
    using assms by (simp add: unseen_in_def lookup_by_entity_def visible_def)
  moreover have swap: "filter visible (filter Q ns) = filter Q (filter visible ns)" for Q ns
    by (simp add: conj_commute)
  ultimately show ?thesis unfolding lookup_nodes_def Let_def by (simp only: swap split: option.split) simp
qed

lemma options_perm: "qo_perm (options_of E p) = ctx_public"
  by (simp add: options_of_def Let_def default_options_def)

definition public_read :: "env \<Rightarrow> json_rpc_request \<Rightarrow> bool" where
  \<comment> \<open>not a call of a tool, or of one that only reads through the permission filter\<close>
  "public_read E req \<longleftrightarrow>
     rq_method req \<noteq> ''tools/call''
     \<or> (case rq_params req of
          None \<Rightarrow> True
        | Some p \<Rightarrow>
            tool_name p \<in> {''factum_query'', ''factum_lookup''}
            \<or> tool_name p = ''factum_search''
              \<and> (case sj_search (en_serde E) (tool_args p) of Inl _ \<Rightarrow> True | Inr q \<Rightarrow> ep_mode q \<noteq> ''stats''))"

lemma unseen_steps:
  fixes h :: mcp and n :: node
  assumes "unseen_in n s' (mh_store h)" "\<not> check_permission n ctx_public"
  defines h': "h' \<equiv> h\<lparr>mh_store := s'\<rparr>"
  shows "fst (tool_query E req args h') = fst (tool_query E req args h)"
    "fst (tool_lookup E req args h') = fst (tool_lookup E req args h)"
    "fst (handle_read_resource E req h') = fst (handle_read_resource E req h)"
    "fst (handle_list_resources req h') = fst (handle_list_resources req h)"
    "fst (handle_initialize E req h') = fst (handle_initialize E req h)"
    "(\<And>p. sj_search (en_serde E) args = Inr p \<Longrightarrow> ep_mode p \<noteq> ''stats'') \<Longrightarrow>
      fst (tool_search E req args h') = fst (tool_search E req args h)"
proof -
  let ?s = "mh_store h"
  have pub: "public_nodes s' = public_nodes ?s" using public_unseen [OF assms(1,2)] .
  have matches: "query_matches q (options_of E p) s' = query_matches q (options_of E p) ?s" for q p
    using query_matches_unseen [OF assms(1), of "options_of E p" q] assms(2) by (simp add: admitted_def options_perm)
  have same: "compact_text E s' = compact_text E ?s" using assms(1) by (intro ext) (simp add: compact_text_def unseen_in_def)
  show "fst (tool_query E req args h') = fst (tool_query E req args h)"
    by (simp add: h' tool_query_def query_run_def matches results_json_def same answer_def refuse_def
        split: sum.split option.split prod.split preferred_form.split)
  show "fst (tool_lookup E req args h') = fst (tool_lookup E req args h)"
    by (simp add: h' tool_lookup_def lookup_unseen [OF assms(1,2)] same answer_def refuse_def Let_def
        split: sum.split preferred_form.split)
  have st: "stored s' = (stored ?s)(nd_id n \<mapsto> n)" "stored ?s (nd_id n) = None"
    using assms(1) by (simp_all add: unseen_in_def)
  show "fst (handle_read_resource E req h') = fst (handle_read_resource E req h)"
    using assms(2)
    by (simp add: h' handle_read_resource_def get_with_perm_def store_get_eq st refuse_def Let_def
        split: option.split sum.split)
  show "fst (handle_list_resources req h') = fst (handle_list_resources req h)"
    using pub by (simp add: h' handle_list_resources_def public_nodes_def Let_def)
  have "st_registry s' = st_registry ?s" using assms(1) by (simp add: unseen_in_def)
  then show "fst (handle_initialize E req h') = fst (handle_initialize E req h)"
    by (cases "factum_caps req") (simp_all add: h' handle_initialize_def Let_def)
  show "fst (tool_search E req args h') = fst (tool_search E req args h)"
    if "\<And>p. sj_search (en_serde E) args = Inr p \<Longrightarrow> ep_mode p \<noteq> ''stats''"
    using that
    by (simp add: h' tool_search_def search_keyword_def pub answer_def refuse_def Let_def split: sum.split option.split)
qed

lemma fst_apfst_Some: "fst (apfst Some x) = Some (fst x)"
  by (cases x) simp

lemma unseen_handle:
  assumes "unseen_in n s' (mh_store h)" "\<not> check_permission n ctx_public" "public_read E req"
  shows "fst (handle E req (h\<lparr>mh_store := s'\<rparr>)) = fst (handle E req h)"
proof -
  note steps = unseen_steps [OF assms(1,2)]
  show ?thesis
  proof (cases "rq_method req = ''tools/call''")
    case True
    have search: "fst (tool_search E req args (h\<lparr>mh_store := s'\<rparr>)) = fst (tool_search E req args h)"
      if "case sj_search (en_serde E) args of Inl _ \<Rightarrow> True | Inr q \<Rightarrow> ep_mode q \<noteq> ''stats''" for args
      using that by (intro steps(6)) simp
    show ?thesis
      using True assms(3) steps(1,2) search
      by (auto simp: handle_def handle_call_tool_def public_read_def fst_apfst_Some refuse_def Let_def
          split: option.splits)
  next
    case False
    then show ?thesis
      using steps(3-5) by (simp add: handle_def fst_apfst_Some handle_list_tools_def refuse_def)
  qed
qed

end
