(* ===== verification/Tool_Facts.thy ===== *)
theory Tool_Facts
  imports Handler_Facts
begin

text \<open>
  What single tools do: error responses leave the store as it was, an upsert replaces the node it found,
  an assertion repeated changes nothing, the statistics and the resource listing.
\<close>

section \<open>Errors\<close>

lemma insert_error: "store_ok s \<Longrightarrow> insert_node n s = (Inl e, s') \<Longrightarrow> s' = s"
  by (auto simp: insert_node_ok split: option.splits if_splits)

lemma insert_batch_error: "store_ok s \<Longrightarrow> insert_batch ns s = (Inl e, s') \<Longrightarrow> s' = s"
  by (auto simp: insert_batch_ok split: option.splits)

lemma retract_error:
  assumes "store_ok s" "retract_with_limit i mx s = (Inl e, s')"
  shows "s' = s \<and> e = NotFound i"
proof -
  consider "mx = 0" | "0 < mx" "stored s i = None"
    | n where "0 < mx" "stored s i = Some n" "nd_status n = Retracted"
    | n where "0 < mx" "stored s i = Some n" "nd_status n \<noteq> Retracted"
    by (cases "stored s i") auto
  then show ?thesis
  proof cases
    case 4
    then show ?thesis using retract_live [OF assms(1) 4] assms(2) by (metis Inl_Inr_False prod.inject)
  qed (use assms in \<open>auto simp: retract_other\<close>)
qed

lemma fst_refuse: "rs_error (fst (answer E req v h)) = None"
  by (simp add: answer_def rpc_success_def)

definition failed :: "json_rpc_response \<times> mcp \<Rightarrow> bool" where
  "failed x \<longleftrightarrow> rs_error (fst x) \<noteq> None"

lemma failed_simps [simp]:
  "\<not> failed (answer E req v h)" "\<not> failed (rpc_success i r, h)" "failed (refuse req e h)"
  by (simp_all add: failed_def answer_def refuse_def rpc_success_def rpc_error_def)

lemma band_store [simp]: "mh_store (band_check E n h) = mh_store h"
  using band_check_cases [of E n h] by fastforce

lemma failed_tools:
  assumes "store_ok (mh_store h)"
  shows "failed (tool_insert E req args h) \<Longrightarrow> mh_store (snd (tool_insert E req args h)) = mh_store h"
    "failed (tool_insert_batch E req args h) \<Longrightarrow> mh_store (snd (tool_insert_batch E req args h)) = mh_store h"
    "failed (tool_retract E req args h) \<Longrightarrow> mh_store (snd (tool_retract E req args h)) = mh_store h"
    "failed (tool_upsert E req args h) \<Longrightarrow> mh_store (snd (tool_upsert E req args h)) = mh_store h"
    "failed (tool_assert E req args h) \<Longrightarrow> mh_store (snd (tool_assert E req args h)) = mh_store h"
    "failed (tool_review E req args h) \<Longrightarrow> mh_store (snd (tool_review E req args h)) = mh_store h"
proof -
  show "failed (tool_insert E req args h) \<Longrightarrow> mh_store (snd (tool_insert E req args h)) = mh_store h"
    using insert_error [OF assms]
    by (auto simp: tool_insert_def Let_def split: sum.splits list.splits prod.splits if_splits)
  show "failed (tool_insert_batch E req args h) \<Longrightarrow> mh_store (snd (tool_insert_batch E req args h)) = mh_store h"
    using insert_batch_error [OF assms]
    by (auto simp: tool_insert_batch_def Let_def split: sum.splits prod.splits if_splits)
  show "failed (tool_retract E req args h) \<Longrightarrow> mh_store (snd (tool_retract E req args h)) = mh_store h"
    using retract_error [OF assms]
    by (auto simp: tool_retract_def Let_def split: sum.splits prod.splits if_splits)
  have "failed (upsert_insert E req n h) \<Longrightarrow> mh_store (snd (upsert_insert E req n h)) = mh_store h"
    "failed (upsert_replace E req old n h) \<Longrightarrow> mh_store (snd (upsert_replace E req old n h)) = mh_store h"
    "\<not> failed (upsert_ambiguous E req ms h)" for n old ms
    using insert_error [OF assms]
    by (auto simp: upsert_insert_def upsert_replace_def upsert_ambiguous_def split: sum.splits prod.splits if_splits)
  then show "failed (tool_upsert E req args h) \<Longrightarrow> mh_store (snd (tool_upsert E req args h)) = mh_store h"
    by (auto simp: tool_upsert_def split: sum.splits list.splits)
  have ex: "\<not> failed (assert_existing E req p i c h')" for p i c h'
    by (simp add: assert_existing_def Let_def)
  show "failed (tool_assert E req args h) \<Longrightarrow> mh_store (snd (tool_assert E req args h)) = mh_store h"
    using insert_error [OF assms] ex
    by (auto simp: tool_assert_def Let_def split: sum.splits prod.splits store_error.splits)
  have "failed (review_approve E req i h) \<Longrightarrow> mh_store (snd (review_approve E req i h)) = mh_store h"
    "failed (review_reject E req i h) \<Longrightarrow> mh_store (snd (review_reject E req i h)) = mh_store h"
    "mh_store (snd (review_detail E req i h)) = mh_store h" for i
    by (auto simp: review_approve_def review_reject_def review_detail_def split: sum.splits prod.splits option.splits)
  then show "failed (tool_review E req args h) \<Longrightarrow> mh_store (snd (tool_review E req args h)) = mh_store h"
    by (auto simp: tool_review_def Let_def review_list_pending_def review_list_all_def split: option.splits if_splits)
qed

lemma failed_handle:
  assumes "store_ok (mh_store h)" "fst (handle E req h) = Some r" "rs_error r \<noteq> None"
  shows "mh_store (snd (handle E req h)) = mh_store h"
proof -
  have conv: "failed x \<longleftrightarrow> (\<exists>r. fst (apfst Some x) = Some r \<and> rs_error r \<noteq> None)" for x :: "json_rpc_response \<times> mcp"
    by (cases x) (simp add: failed_def)
  note tools = failed_tools [OF assms(1)]
  show ?thesis
  proof (cases "rq_method req = ''tools/call''")
    case call: True
    show ?thesis
    proof (cases "rq_params req")
      case None
      then show ?thesis using call by (simp add: handle_def handle_call_tool_def)
    next
      case (Some p)
      have "mh_store (snd x) = mh_store h" if "fst (apfst Some x) = Some r" "failed x \<Longrightarrow> mh_store (snd x) = mh_store h"
        for x :: "json_rpc_response \<times> mcp"
        using that assms(3) conv by blast
      then show ?thesis
        using assms(2) call Some tools
        by (simp add: handle_def handle_call_tool_def Let_def read_tools split: if_splits)
    qed
  next
    case False
    then show ?thesis by (simp add: handle_def read_tools handle_initialize_def Let_def)
  qed
qed

section \<open>Upsert\<close>

definition content :: "json_rpc_response \<Rightarrow> json option" where
  \<comment> \<open>the structured content of a tool's result\<close>
  "content r = (case rs_result r of None \<Rightarrow> None | Some v \<Rightarrow> json_get ''structuredContent'' v)"

definition action :: "json_rpc_response \<Rightarrow> string option" where
  "action r = (case content r of None \<Rightarrow> None | Some v \<Rightarrow> get_str ''action'' v)"

lemma content_answer [simp]: "content (fst (answer E req v h)) = Some v"
  by (simp add: content_def answer_def rpc_success_def structured_content)

lemma action_answer:
  "distinct (map fst kvs) \<Longrightarrow> map_of kvs ''action'' = Some (JStr a) \<Longrightarrow> action (fst (answer E req (jobj kvs) h)) = Some a"
  by (simp add: action_def get_str_def get_jobj as_str_def)

lemma not_downstream:
  "\<not> is_derived (nd_prov n) \<Longrightarrow> stored s b = Some n \<Longrightarrow> b \<noteq> a \<Longrightarrow> b \<notin> downstream s a"
  by (auto simp: downstream_def derived_from_def elim: rtranclE)

lemma stored_subs [simp]: "stored (s\<lparr>st_subs := x\<rparr>) = stored s"
  by simp

lemma upsert_replace_effect:
  assumes ok: "store_ok (mh_store h)" and old: "stored (mh_store h) (nd_id old) = Some old" "nd_status old \<noteq> Retracted"
    and fresh: "stored (mh_store h) (nd_id n) = None" "verify_opt (st_verifiers (mh_store h)) n = None"
  obtains ids where
    "action (fst (upsert_replace E req old n h)) = Some ''updated''"
    "mh_store (snd (upsert_replace E req old n h)) =
       (mark ids (inserted n (mh_store h)))\<lparr>st_subs := notify_retract (nd_id old) ids (st_subs (inserted n (mh_store h)))\<rparr>"
    "nd_id old \<in> set ids" "set ids \<subseteq> downstream (inserted n (mh_store h)) (nd_id old)"
proof -
  let ?s = "mh_store h"
  have ins: "insert_node n ?s = (Inr (), inserted n ?s)" using fresh by (simp add: insert_node_ok [OF ok])
  note st = store_ok_inserted [OF ok fresh(1)]
  have live: "stored (inserted n ?s) (nd_id old) = Some old" using old(1) fresh(1) by (auto simp: st(2) simp del: inserted_simps(1))
  have pos: "0 < DEFAULT_MAX_CASCADE_NODES" by (simp add: DEFAULT_MAX_CASCADE_NODES_def)
  obtain ids d where r: "retract_with_limit (nd_id old) DEFAULT_MAX_CASCADE_NODES (inserted n ?s) =
      (Inr \<lparr>rr_retracted = ids, rr_truncated = (DEFAULT_MAX_CASCADE_NODES < card (downstream (inserted n ?s) (nd_id old))),
         rr_depth_reached = d\<rparr>,
       (mark ids (inserted n ?s))\<lparr>st_subs := notify_retract (nd_id old) ids (st_subs (inserted n ?s))\<rparr>)"
    "nd_id old \<in> set ids" "set ids \<subseteq> downstream (inserted n ?s) (nd_id old)"
    using retract_live [OF st(1) _ live old(2), of DEFAULT_MAX_CASCADE_NODES] pos by metis
  show ?thesis
  proof (rule that [of ids])
    show "action (fst (upsert_replace E req old n h)) = Some ''updated''"
      by (simp add: upsert_replace_def ins retract_def r(1) action_answer)
    show "mh_store (snd (upsert_replace E req old n h)) =
       (mark ids (inserted n ?s))\<lparr>st_subs := notify_retract (nd_id old) ids (st_subs (inserted n ?s))\<rparr>"
      by (simp add: upsert_replace_def ins retract_def r(1))
  qed (use r in simp_all)
qed

lemma upsert_match_stored:
  assumes "store_ok s" "old \<in> set (upsert_matches p s)"
  shows "stored s (nd_id old) = Some old" "visible old"
proof -
  have "old \<in> set (lookup_by_entity s (entity_name (up_entity p)))" "visible old" using assms(2) by (simp_all add: upsert_matches_def)
  then obtain i where i: "stored s i = Some old" by (auto simp: lookup_by_entity_def resolve_in)
  have "nd_id old = i" using assms(1) i stored_id by blast
  then show "stored s (nd_id old) = Some old" "visible old" using i \<open>visible old\<close> by simp_all
qed

section \<open>Assertions\<close>

lemma asserted_fields [simp]:
  "nd_id (asserted_node E p pred) = generate_content_id (en_hash E) (canonical_predicate (en_chrono E) pred)"
  "nd_pred (asserted_node E p pred) = pred" "nd_prov (asserted_node E p pred) = Asserted (asserted_by p)"
  "nd_status (asserted_node E p pred) = Active"
  by (simp_all add: asserted_node_def node_new_def Let_def split: option.split)

lemma assert_new:
  assumes "sj_assert (en_serde E) args = Inr p" "parse_predicate (en_chrono E) (ap_predicate p) = Inr pred"
    and ok: "store_ok (mh_store h)" "stored (mh_store h) (nd_id (asserted_node E p pred)) = None"
      "verify_opt (st_verifiers (mh_store h)) (asserted_node E p pred) = None"
  shows "action (fst (tool_assert E req args h)) = Some ''asserted''"
    "mh_store (snd (tool_assert E req args h)) = inserted (asserted_node E p pred) (mh_store h)"
  using ok(2,3) by (simp_all add: tool_assert_def assms(1,2) Let_def insert_node_ok [OF ok(1)] action_answer)

lemma assert_known:
  assumes "sj_assert (en_serde E) args = Inr p" "parse_predicate (en_chrono E) (ap_predicate p) = Inr pred"
    and ok: "store_ok (mh_store h)" "stored (mh_store h) (nd_id (asserted_node E p pred)) = Some m"
      "verify_opt (st_verifiers (mh_store h)) (asserted_node E p pred) = None"
  shows "action (fst (tool_assert E req args h)) =
      Some (if existing_principal (Some m) = asserted_by p then ''duplicate'' else ''corroborated'')"
    "snd (tool_assert E req args h) = band_check E (asserted_node E p pred) h"
  using ok(2,3)
  by (simp_all add: tool_assert_def assms(1,2) Let_def insert_node_ok [OF ok(1)] assert_existing_def store_get_eq action_answer)

section \<open>Statistics\<close>

lemma public_split: "length (filter (\<lambda>n. \<not> visible n) (store_all s)) = store_len s - length (public_nodes s)"
proof -
  have "public_nodes s = filter visible (store_all s)"
    by (auto simp: public_nodes_def all_active_def visible_def intro: filter_cong)
  moreover have "store_len s = length (store_all s)" by (simp add: store_len_def mem_len_def store_all_def iter_nodes_def)
  ultimately show ?thesis using sum_length_filter_compl [of visible "store_all s"] by simp
qed

section \<open>Resources\<close>

lemma store_all_stored:
  assumes "store_ok s"
  shows "n \<in> set (store_all s) \<longleftrightarrow> stored s (nd_id n) = Some n" "distinct (map nd_id (store_all s))"
proof -
  have mem: "mem_ok (st_mem s)" using assms by (simp add: store_ok_def)
  then have d: "distinct (map fst (mb_nodes (st_mem s)))" and k: "\<And>i m. (i, m) \<in> set (mb_nodes (st_mem s)) \<Longrightarrow> nd_id m = i"
    unfolding mem_ok_def by (simp, blast)
  have "n \<in> set (store_all s) \<longleftrightarrow> (\<exists>i. (i, n) \<in> set (mb_nodes (st_mem s)))" by (force simp: store_all_def iter_nodes_def)
  also have "\<dots> \<longleftrightarrow> (nd_id n, n) \<in> set (mb_nodes (st_mem s))" using k by blast
  finally show "n \<in> set (store_all s) \<longleftrightarrow> stored s (nd_id n) = Some n" by (simp only: map_of_eq_Some_iff [OF d])
  show "distinct (map nd_id (store_all s))" using nodes_map_of(2) [OF mem] by (simp add: store_all_def iter_nodes_def)
qed

definition listed_ids :: "store \<Rightarrow> node_id list" where
  \<comment> \<open>the ids of the resources, in the order they are listed\<close>
  "listed_ids s = map nd_id (sort_key nd_id (public_nodes s))"

lemma listed_ids_exact:
  assumes "store_ok s"
  shows "sorted (listed_ids s)" "distinct (listed_ids s)"
    "i \<in> set (listed_ids s) \<longleftrightarrow> (\<exists>n. stored s i = Some n \<and> visible n)"
proof -
  show "sorted (listed_ids s)" by (simp add: listed_ids_def)
  have pub: "public_nodes s = filter visible (store_all s)"
    by (auto simp: public_nodes_def all_active_def visible_def intro: filter_cong)
  have "distinct (map nd_id (public_nodes s))"
    unfolding pub using store_all_stored(2) [OF assms] by (rule distinct_map_filter)
  then show "distinct (listed_ids s)" by (simp add: listed_ids_def distinct_map)
  show "i \<in> set (listed_ids s) \<longleftrightarrow> (\<exists>n. stored s i = Some n \<and> visible n)"
  proof -
    have "i \<in> set (listed_ids s) \<longleftrightarrow> (\<exists>n. stored s (nd_id n) = Some n \<and> visible n \<and> nd_id n = i)"
      by (simp only: listed_ids_def pub set_map set_sort set_filter store_all_stored(1) [OF assms] image_def) blast
    then show ?thesis using stored_id [OF assms] by metis
  qed
qed

definition read_uri :: "string \<Rightarrow> json_rpc_request \<Rightarrow> bool" where
  "read_uri uri req \<longleftrightarrow> (case rq_params req of None \<Rightarrow> False | Some p \<Rightarrow> get_str ''uri'' p = Some uri)"

definition resource_json :: "env \<Rightarrow> string \<Rightarrow> node \<Rightarrow> json" where
  "resource_json E uri n =
     jobj [(''contents'', JArr [jobj [(''uri'', JStr uri), (''mimeType'', JStr ''text/plain''), (''text'', canonical_text E n)]])]"

lemma read_resource_cases:
  assumes "read_uri (node_resource_uri i) req"
  shows "handle_read_resource E req h =
    (case stored (mh_store h) i of
       Some n \<Rightarrow> if visible n then (rpc_success (rq_id req) (resource_json E (node_resource_uri i) n), h)
         else refuse req (invalid_params MsgNoResource) h
     | None \<Rightarrow> refuse req (invalid_params MsgNoResource) h)"
  using assms
  by (auto simp: read_uri_def handle_read_resource_def uri_inverse get_with_perm_def store_get_eq visible_def resource_json_def
      split: option.splits)

end
