(* ===== verification/Handler_Properties.thy ===== *)
theory Handler_Properties
  imports Tool_Facts Samples
begin

text \<open>
  The properties of the server: its invariant over any sequence of requests, what requests may change,
  what a public caller can learn, and what the tools that write promise.
\<close>

section \<open>A server\<close>

text \<open>Any number of requests, each with its own environment, as long as the counter of review events
  has not wrapped.\<close>

inductive served :: "mcp \<Rightarrow> mcp \<Rightarrow> bool" where
  idle: "served h h"
| request: "served h h' \<Longrightarrow> rq_next_id (mh_queue h') \<noteq> - 1 \<Longrightarrow> served h (snd (handle E req h'))"

lemma served_ok:
  "served h h' \<Longrightarrow> store_ok (mh_store h) \<and> logged (mh_store h) \<and> queue_ok (mh_queue h) \<Longrightarrow>
    store_ok (mh_store h') \<and> logged (mh_store h') \<and> queue_ok (mh_queue h')"
proof (induction rule: served.induct)
  case (request h h' E req)
  have "evolves h' (snd (handle E req h'))" using evolves_handle [OF request.hyps(2)] .
  then show ?case using request.IH [OF request.prems] reaches_both reaches_ok unfolding evolves_def by blast
qed

section \<open>Samples\<close>

definition sample_serde :: serde where
  "sample_serde =
     \<lparr>sj_query = (\<lambda>_. Inl ''query''), sj_insert = (\<lambda>_. Inl ''insert''), sj_retract = (\<lambda>_. Inl ''retract''),
      sj_lookup = (\<lambda>_. Inl ''lookup''), sj_insert_batch = (\<lambda>_. Inl ''batch''),
      sj_upsert = (\<lambda>_. Inr \<lparr>up_node = ''(node z :pred (p @X))'', up_entity = ''@X'', up_predicate = ''p''\<rparr>),
      sj_search = (\<lambda>_. Inr \<lparr>ep_mode = ''predicates'', ep_keyword = None, ep_limit = None\<rparr>),
      sj_assert = (\<lambda>v. Inr \<lparr>ap_predicate = ''(p @X)'', ap_by = as_str v,
        ap_confidence = (if v = JNull then Some f32_one else None), ap_note = None\<rparr>),
      sj_text = (\<lambda>_. [])\<rparr>"

definition sample_env :: env where
  "sample_env =
     \<lparr>en_chrono = sample_chrono, en_now = 5, en_day = int_dec, en_parse_utc = (\<lambda>_. None), en_hash = (\<lambda>_. 7),
      en_lower = (\<lambda>s. s), en_debug = (\<lambda>_. []), en_fixed2 = (\<lambda>_. []), en_version = ''0'', en_serde = sample_serde\<rparr>"

definition sample_request :: "string \<Rightarrow> json_rpc_request" where
  "sample_request m = \<lparr>rq_jsonrpc = ''2.0'', rq_id = JStr ''1'', rq_method = m, rq_params = None\<rparr>"

definition call_request :: "string \<Rightarrow> json_rpc_request" where
  "call_request t =
     (sample_request ''tools/call'')\<lparr>rq_params := Some (JObj [(''name'', JStr t)])\<rparr>"

definition one_fact :: store where
  "one_fact = snd (insert_node fact_a (store_new registry_new))"

lemma new_fields [simp]: "stored (store_new reg) = Map.empty" "st_verifiers (store_new reg) = None"
  by (simp_all add: store_new_def with_backend_def rebuild_indices_def iter_nodes_def mem_new_def)

lemma one_fact_inserted: "one_fact = inserted fact_a (store_new registry_new)"
  by (simp add: one_fact_def insert_node_ok [OF store_ok_new] verify_opt_def)

lemma one_fact_ok:
  "store_ok one_fact" "stored one_fact = [''a'' \<mapsto> fact_a]" "st_verifiers one_fact = None"
  unfolding one_fact_inserted using store_ok_inserted [OF store_ok_new, of registry_new fact_a] by simp_all

section \<open>The properties\<close>

text \<open>C12. The server's invariant. Whatever requests a new server handles, whatever the clock, the hash
  and the decoding of arguments do, the store's indices stay exact, its log replays to its nodes, and
  the review queue keeps distinct ids below its counter.\<close>

theorem server_invariant:
  assumes "served (mcp_new (store_new reg)) h"
  shows "store_ok (mh_store h) \<and> replay (st_wal (mh_store h)) = stored (mh_store h) \<and> queue_ok (mh_queue h)"
  using served_ok [OF assms] store_ok_new logged_new queue_ok_new by (simp add: mcp_new_def logged_def)

theorem server_invariant_witness:
  "store_ok (mh_store (snd (handle sample_env (call_request ''factum_assert'') (mcp_new (store_new registry_new)))))
   \<and> replay (st_wal (mh_store (snd (handle sample_env (call_request ''factum_assert'') (mcp_new (store_new registry_new))))))
     = stored (mh_store (snd (handle sample_env (call_request ''factum_assert'') (mcp_new (store_new registry_new)))))
   \<and> queue_ok (mh_queue (snd (handle sample_env (call_request ''factum_assert'') (mcp_new (store_new registry_new)))))"
  by (rule server_invariant [of registry_new], rule served.request [OF served.idle])
    (simp add: mcp_new_def review_new_def)

text \<open>C33. Reading requests read: everything but the five tools that write and the two decisions on
  a review event leaves the store and the review queue as they are, and only the handshake changes the
  form of the results.\<close>

definition mutating :: "json_rpc_request \<Rightarrow> bool" where
  "mutating req \<longleftrightarrow>
     rq_method req = ''tools/call''
     \<and> (case rq_params req of
          None \<Rightarrow> False
        | Some p \<Rightarrow>
            tool_name p \<in> {''factum_insert'', ''factum_insert_batch'', ''factum_upsert'', ''factum_assert'', ''factum_retract''}
            \<or> tool_name p = ''factum_review''
              \<and> get_str ''mode'' (tool_args p) \<in> {Some ''approve'', Some ''reject''})"

theorem reads_change_nothing:
  assumes "\<not> mutating req"
  shows "mh_store (snd (handle E req h)) = mh_store h \<and> mh_queue (snd (handle E req h)) = mh_queue h
    \<and> mh_form (snd (handle E req h)) = (if rq_method req = ''initialize'' then negotiated (factum_caps req) else mh_form h)"
proof (cases "rq_method req = ''tools/call''")
  case True
  have review: "snd (tool_review E req args h) = h" if "get_str ''mode'' args \<notin> {Some ''approve'', Some ''reject''}" for args
    using that by (auto simp: tool_review_def Let_def review_list_pending_def review_list_all_def review_detail_def
        split: option.split)
  have "snd (handle E req h) = h"
    using assms True review
    by (auto simp: mutating_def handle_def handle_call_tool_def Let_def read_tools split: option.splits)
  then show ?thesis using True by simp
next
  case False
  then show ?thesis by (simp add: handle_def read_tools handle_initialize_def Let_def)
qed

theorem reads_change_nothing_witness:
  "mh_store (snd (handle sample_env (sample_request ''initialize'') (mcp_new one_fact))) = mh_store (mcp_new one_fact)
   \<and> mh_queue (snd (handle sample_env (sample_request ''initialize'') (mcp_new one_fact))) = mh_queue (mcp_new one_fact)
   \<and> mh_form (snd (handle sample_env (sample_request ''initialize'') (mcp_new one_fact)))
     = (if rq_method (sample_request ''initialize'') = ''initialize'' then negotiated (factum_caps (sample_request ''initialize''))
        else mh_form (mcp_new one_fact))"
  by (rule reads_change_nothing) (simp add: mutating_def sample_request_def)

text \<open>C14. A request answered with an error leaves the store exactly as it was, whichever tool it
  called and at whatever point it failed.\<close>

theorem errors_keep_store:
  assumes "store_ok (mh_store h)" "fst (handle E req h) = Some r" "rs_error r \<noteq> None"
  shows "mh_store (snd (handle E req h)) = mh_store h"
  by (rule failed_handle [OF assms])

theorem errors_keep_store_witness:
  "mh_store (snd (handle sample_env (call_request ''factum_insert'') (mcp_new one_fact))) = one_fact"
proof -
  have "fst (handle sample_env (call_request ''factum_insert'') (mcp_new one_fact)) =
      Some (rpc_error (JStr ''1'') (invalid_params (MsgBadArguments ''insert'')))"
    by (simp add: handle_def handle_call_tool_def call_request_def sample_request_def tool_name_def get_str_def json_get_def
        as_str_def tool_insert_def sample_env_def sample_serde_def refuse_def)
  from errors_keep_store [OF _ this] show ?thesis by (simp add: mcp_new_def one_fact_ok rpc_error_def)
qed





text \<open>The statistics: \<open>retracted_nodes\<close> is the number of stored nodes that are not both active and
  public, so active nodes the client may not see are counted there too; the subtraction never underflows.\<close>

lemma stats_counts:
  "json_get ''retracted_nodes'' (stats_json s) = Some (jnat (length (filter (\<lambda>n. \<not> visible n) (store_all s))))
   \<and> json_get ''active_nodes'' (stats_json s) = Some (jnat (length (filter visible (store_all s))))
   \<and> length (public_nodes s) \<le> store_len s"
proof -
  have "public_nodes s = filter visible (store_all s)"
    by (auto simp: public_nodes_def all_active_def visible_def intro: filter_cong)
  moreover have "store_len s = length (store_all s)" by (simp add: store_len_def mem_len_def store_all_def iter_nodes_def)
  ultimately show ?thesis using public_split [of s] by (simp add: stats_json_def Let_def get_jobj)
qed

text \<open>C39. Resources: the listing gives every active public node exactly once, in the order of the
  ids; and reading the URI of an id gives the node's canonical text just when the listing has it.\<close>

theorem resources_listed:
  assumes "store_ok (mh_store h)" "read_uri (node_resource_uri i) req"
  shows "fst (handle_list_resources req' h) = rpc_success (rq_id req') (jobj [(''resources'', JArr (map (\<lambda>j. jobj [
         (''uri'', JStr (node_resource_uri j)), (''name'', JStr j), (''mimeType'', JStr ''text/plain'')]) (listed_ids (mh_store h))))])
    \<and> sorted (listed_ids (mh_store h)) \<and> distinct (listed_ids (mh_store h))
    \<and> set (listed_ids (mh_store h)) = {j. \<exists>n. stored (mh_store h) j = Some n \<and> visible n}
    \<and> fst (handle_read_resource E req h) =
        (if i \<in> set (listed_ids (mh_store h))
         then rpc_success (rq_id req) (resource_json E (node_resource_uri i) (the (stored (mh_store h) i)))
         else rpc_error (rq_id req) (invalid_params MsgNoResource))"
proof -
  note ids = listed_ids_exact [OF assms(1)]
  have "fst (handle_read_resource E req h) =
        (if i \<in> set (listed_ids (mh_store h))
         then rpc_success (rq_id req) (resource_json E (node_resource_uri i) (the (stored (mh_store h) i)))
         else rpc_error (rq_id req) (invalid_params MsgNoResource))"
    unfolding ids(3) read_resource_cases [OF assms(2)] by (simp add: refuse_def split: option.split)
  moreover have "fst (handle_list_resources req' h) = rpc_success (rq_id req') (jobj [(''resources'', JArr (map (\<lambda>j. jobj [
         (''uri'', JStr (node_resource_uri j)), (''name'', JStr j), (''mimeType'', JStr ''text/plain'')]) (listed_ids (mh_store h))))])"
    by (simp add: handle_list_resources_def listed_ids_def public_nodes_def Let_def comp_def)
  ultimately show ?thesis using ids by auto
qed

definition read_a :: json_rpc_request where
  "read_a = (sample_request ''resources/read'')\<lparr>rq_params := Some (JObj [(''uri'', JStr (node_resource_uri ''a''))])\<rparr>"

theorem resources_listed_witness:
  "fst (handle_list_resources read_a (mcp_new one_fact)) = rpc_success (rq_id read_a) (jobj [(''resources'', JArr (map (\<lambda>j. jobj [
         (''uri'', JStr (node_resource_uri j)), (''name'', JStr j), (''mimeType'', JStr ''text/plain'')]) (listed_ids (mh_store (mcp_new one_fact)))))])
    \<and> sorted (listed_ids (mh_store (mcp_new one_fact))) \<and> distinct (listed_ids (mh_store (mcp_new one_fact)))
    \<and> set (listed_ids (mh_store (mcp_new one_fact))) = {j. \<exists>n. stored (mh_store (mcp_new one_fact)) j = Some n \<and> visible n}
    \<and> fst (handle_read_resource sample_env read_a (mcp_new one_fact)) =
        (if ''a'' \<in> set (listed_ids (mh_store (mcp_new one_fact)))
         then rpc_success (rq_id read_a) (resource_json sample_env (node_resource_uri ''a'') (the (stored (mh_store (mcp_new one_fact)) ''a'')))
         else rpc_error (rq_id read_a) (invalid_params MsgNoResource))"
  by (rule resources_listed)
    (simp_all add: mcp_new_def one_fact_ok read_uri_def read_a_def get_str_def json_get_def as_str_def)

text \<open>C25. Upsert: when exactly one public node mentions the entity under the predicate, and the new
  node's id is free and no verifier refuses it, the answer is \<open>updated\<close>; afterwards the old node is
  retracted; the new node is stored and, unless it is itself derived, active; no node outside the
  cascade of the old one has changed.\<close>

theorem upsert_replaces:
  assumes "sj_upsert (en_serde E) args = Inr p" "parse (en_chrono E) (up_node p) = Inr (n # rest)"
    and ok: "store_ok (mh_store h)" and one: "upsert_matches p (mh_store h) = [old]"
    and fresh: "stored (mh_store h) (nd_id n) = None" "verify_opt (st_verifiers (mh_store h)) n = None"
  shows "action (fst (tool_upsert E req args h)) = Some ''updated''
    \<and> stored (mh_store (snd (tool_upsert E req args h))) (nd_id old) = Some (retracted_node old)
    \<and> (is_derived (nd_prov n) \<or> stored (mh_store (snd (tool_upsert E req args h))) (nd_id n) = Some n)
    \<and> {i. stored (mh_store (snd (tool_upsert E req args h))) i \<noteq> ((stored (mh_store h))(nd_id n \<mapsto> n)) i}
        \<subseteq> downstream (inserted n (mh_store h)) (nd_id old)"
proof -
  let ?s = "inserted n (mh_store h)"
  have m: "stored (mh_store h) (nd_id old) = Some old" "visible old"
    using upsert_match_stored [OF ok, of old p] one by simp_all
  then have live: "nd_status old \<noteq> Retracted" by (simp add: visible_def)
  have tool: "tool_upsert E req args h = upsert_replace E req old n h"
    by (simp add: tool_upsert_def assms(1,2) one)
  obtain ids where act: "action (fst (upsert_replace E req old n h)) = Some ''updated''"
    and eq: "mh_store (snd (upsert_replace E req old n h)) =
       (mark ids ?s)\<lparr>st_subs := notify_retract (nd_id old) ids (st_subs ?s)\<rparr>"
    and ids: "nd_id old \<in> set ids" "set ids \<subseteq> downstream ?s (nd_id old)"
    using upsert_replace_effect [OF ok m(1) live fresh, of E req] by metis
  have st: "stored ?s = (stored (mh_store h))(nd_id n \<mapsto> n)" using store_ok_inserted(2) [OF ok fresh(1)] .
  have ne: "nd_id n \<noteq> nd_id old" using m(1) fresh(1) by auto
  have after: "stored (mh_store (snd (upsert_replace E req old n h))) i =
      (if i \<in> set ids then map_option retracted_node (stored ?s i) else stored ?s i)" for i
    unfolding eq stored_subs by (rule stored_mark)
  have "stored ?s (nd_id old) = Some old" using m(1) ne by (simp add: st del: inserted_simps(1))
  then have "stored (mh_store (snd (upsert_replace E req old n h))) (nd_id old) = Some (retracted_node old)"
    using ids(1) by (simp add: after del: inserted_simps(1))
  moreover have "stored ?s (nd_id n) = Some n" by (simp add: st del: inserted_simps(1))
  then have "is_derived (nd_prov n) \<or> stored (mh_store (snd (upsert_replace E req old n h))) (nd_id n) = Some n"
    using not_downstream [of n ?s "nd_id n" "nd_id old"] ids(2) ne by (auto simp: after simp del: inserted_simps(1))
  moreover have "stored (mh_store (snd (upsert_replace E req old n h))) i = stored ?s i" if "i \<notin> downstream ?s (nd_id old)" for i
    using that ids(2) unfolding after by auto
  ultimately show ?thesis unfolding tool st [symmetric] using act by blast
qed

definition new_z :: node where
  "new_z = node_new ''z'' (Predicate (HeadName ''p'') [TEnt ''X''] [])"

lemma parse_z: "parse sample_chrono ''(node z :pred (p @X))'' = Inr [new_z]"
  by code_simp

lemma upsert_one: "upsert_matches \<lparr>up_node = ''(node z :pred (p @X))'', up_entity = ''@X'', up_predicate = ''p''\<rparr> one_fact = [fact_a]"
  by code_simp

theorem upsert_replaces_witness:
  "action (fst (tool_upsert sample_env (call_request ''factum_upsert'') JNull (mcp_new one_fact))) = Some ''updated''
    \<and> stored (mh_store (snd (tool_upsert sample_env (call_request ''factum_upsert'') JNull (mcp_new one_fact)))) (nd_id fact_a)
        = Some (retracted_node fact_a)
    \<and> (is_derived (nd_prov new_z)
       \<or> stored (mh_store (snd (tool_upsert sample_env (call_request ''factum_upsert'') JNull (mcp_new one_fact)))) (nd_id new_z) = Some new_z)
    \<and> {i. stored (mh_store (snd (tool_upsert sample_env (call_request ''factum_upsert'') JNull (mcp_new one_fact)))) i
         \<noteq> ((stored (mh_store (mcp_new one_fact)))(nd_id new_z \<mapsto> new_z)) i}
        \<subseteq> downstream (inserted new_z (mh_store (mcp_new one_fact))) (nd_id fact_a)"
proof (rule upsert_replaces)
  let ?p = "\<lparr>up_node = ''(node z :pred (p @X))'', up_entity = ''@X'', up_predicate = ''p''\<rparr>"
  show "sj_upsert (en_serde sample_env) JNull = Inr ?p" by (simp add: sample_env_def sample_serde_def)
  show "parse (en_chrono sample_env) (up_node ?p) = Inr (new_z # [])" using parse_z by (simp add: sample_env_def)
  show "upsert_matches ?p (mh_store (mcp_new one_fact)) = [fact_a]" using upsert_one by (simp add: mcp_new_def)
qed (simp_all add: mcp_new_def one_fact_ok new_z_def node_new_def verify_opt_def)

text \<open>C26. Asserting: the first assertion of a fact stores it under the id of its text. Asserting the
  same fact again, by whomever, changes no node, index or log; the whole state stays as it was, but for
  one event in the review queue when the confidence of the repeated assertion lies outside the band of
  asserted facts. It is answered \<open>duplicate\<close> to the principal who asserted it and \<open>corroborated\<close> to any
  other: within the band that assertion is recorded nowhere, although the answer says it is.\<close>

theorem assert_twice:
  assumes "sj_assert (en_serde E) args = Inr p" "parse_predicate (en_chrono E) (ap_predicate p) = Inr pred"
    and "sj_assert (en_serde E) args2 = Inr p2" "parse_predicate (en_chrono E) (ap_predicate p2) = Inr pred"
    and "store_ok (mh_store h)" "stored (mh_store h) (nd_id (asserted_node E p pred)) = None"
    and "verify_opt (st_verifiers (mh_store h)) (asserted_node E p pred) = None"
    and "verify_opt (st_verifiers (mh_store h)) (asserted_node E p2 pred) = None"
  shows "action (fst (tool_assert E req args h)) = Some ''asserted''
    \<and> stored (mh_store (snd (tool_assert E req args h)))
        = (stored (mh_store h))(nd_id (asserted_node E p pred) \<mapsto> asserted_node E p pred)
    \<and> mh_store (snd (tool_assert E req args2 (snd (tool_assert E req args h)))) = mh_store (snd (tool_assert E req args h))
    \<and> snd (tool_assert E req args2 (snd (tool_assert E req args h))) =
        (case check_confidence_band (Asserted (asserted_by p2)) (nd_conf (asserted_node E p2 pred)) of
           Inr _ \<Rightarrow> snd (tool_assert E req args h)
         | Inl v \<Rightarrow> review_enqueue E BandClippingExceeded NormalPriority [nd_id (asserted_node E p pred)]
             (band_reason E (asserted_node E p2 pred) v) (snd (tool_assert E req args h)))
    \<and> action (fst (tool_assert E req args2 (snd (tool_assert E req args h))))
        = Some (if asserted_by p2 = asserted_by p then ''duplicate'' else ''corroborated'')"
proof -
  let ?n = "asserted_node E p pred" and ?h = "snd (tool_assert E req args h)"
  note first = assert_new [OF assms(1,2,5,6,7), of req]
  note st = store_ok_inserted [OF assms(5,6)]
  have s: "store_ok (mh_store ?h)" "stored (mh_store ?h) = (stored (mh_store h))(nd_id ?n \<mapsto> ?n)"
    "st_verifiers (mh_store ?h) = st_verifiers (mh_store h)"
    unfolding first(2) using st by (simp_all del: inserted_simps(1))
  have "stored (mh_store ?h) (nd_id (asserted_node E p2 pred)) = Some ?n" using s(2) by simp
  note second = assert_known [OF assms(3,4) s(1) this, of req]
  have id: "nd_id (asserted_node E p2 pred) = nd_id ?n" "nd_prov (asserted_node E p2 pred) = Asserted (asserted_by p2)"
    by simp_all
  have "mh_store (snd (tool_assert E req args2 ?h)) = mh_store ?h"
    using second(2) assms(8) s(3) band_check_cases [of E "asserted_node E p2 pred" ?h] by auto
  then show ?thesis
    using second assms(8) first(1) s(2,3) unfolding band_check_def id by (auto simp: existing_principal_def)
qed

lemma parse_assert: "parse_predicate sample_chrono ''(p @X)'' = Inr (Predicate (HeadName ''p'') [TEnt ''X''] [])"
  by code_simp

theorem assert_twice_witness:
  "let h = mcp_new (store_new registry_new); req = call_request ''factum_assert'';
       pred = Predicate (HeadName ''p'') [TEnt ''X''] [];
       p = \<lparr>ap_predicate = ''(p @X)'', ap_by = Some ''u'', ap_confidence = None, ap_note = None\<rparr>;
       p2 = \<lparr>ap_predicate = ''(p @X)'', ap_by = None, ap_confidence = Some f32_one, ap_note = None\<rparr>;
       h1 = snd (tool_assert sample_env req (JStr ''u'') h)
   in action (fst (tool_assert sample_env req (JStr ''u'') h)) = Some ''asserted''
    \<and> stored (mh_store h1) = (stored (mh_store h))(nd_id (asserted_node sample_env p pred) \<mapsto> asserted_node sample_env p pred)
    \<and> mh_store (snd (tool_assert sample_env req JNull h1)) = mh_store h1
    \<and> snd (tool_assert sample_env req JNull h1) =
        review_enqueue sample_env BandClippingExceeded NormalPriority [nd_id (asserted_node sample_env p pred)]
          (band_reason sample_env (asserted_node sample_env p2 pred) (AboveBand f32_one ''Asserted'' (f32_lit 80 2))) h1
    \<and> action (fst (tool_assert sample_env req JNull h1)) = Some ''corroborated''"
proof -
  let ?p = "\<lparr>ap_predicate = ''(p @X)'', ap_by = Some ''u'', ap_confidence = None, ap_note = None\<rparr>"
  let ?p2 = "\<lparr>ap_predicate = ''(p @X)'', ap_by = None, ap_confidence = Some f32_one, ap_note = None\<rparr>"
  have "sj_assert (en_serde sample_env) (JStr ''u'') = Inr ?p" "sj_assert (en_serde sample_env) JNull = Inr ?p2"
    by (simp_all add: sample_env_def sample_serde_def as_str_def)
  moreover have "parse_predicate (en_chrono sample_env) (ap_predicate ?p) = Inr (Predicate (HeadName ''p'') [TEnt ''X''] [])"
    "parse_predicate (en_chrono sample_env) (ap_predicate ?p2) = Inr (Predicate (HeadName ''p'') [TEnt ''X''] [])"
    using parse_assert by (simp_all add: sample_env_def)
  moreover have "f32_lt (f32_lit 80 2) f32_one" by code_simp
  then have "check_confidence_band (Asserted b) f32_one = Inl (AboveBand f32_one ''Asserted'' (f32_lit 80 2))" for b
    by (simp add: check_confidence_band_def confidence_band_def provenance_name_def)
  moreover have "asserted_by ?p2 \<noteq> asserted_by ?p" by (simp add: asserted_by_def)
  moreover have "nd_conf (asserted_node E ?p2 pred) = f32_one" for E pred by (simp add: asserted_node_def Let_def)
  ultimately show ?thesis
    using assert_twice [of sample_env "JStr ''u''" ?p _ JNull ?p2 "mcp_new (store_new registry_new)"
        "call_request ''factum_assert''"]
    by (simp add: Let_def mcp_new_def store_ok_new verify_opt_def)
qed

section \<open>The compact form\<close>

text \<open>C34. What the compact form keeps: two nodes whose heads are names and whose compact JSON is the
  same, written with the same registry, have the same id, head, provenance, permissions, dependencies
  and note, and equal confidence and authority unless these are not finite. (Arguments are not kept:
  a variable, an entity and a literal of the same text give the same JSON.)\<close>

theorem compact_keeps:
  assumes "reg_ok reg" "pr_head (nd_pred m) = HeadName a" "pr_head (nd_pred n) = HeadName b"
    "compact_json (from_node C day reg m) = compact_json (from_node C day reg n)"
  shows "nd_id m = nd_id n \<and> a = b \<and> nd_prov m = nd_prov n \<and> nd_perm m = nd_perm n \<and> nd_deps m = nd_deps n
    \<and> nd_note m = nd_note n
    \<and> single_json (nd_conf m) = single_json (nd_conf n) \<and> single_json (nd_auth m) = single_json (nd_auth n)"
proof -
  let ?m = "from_node C day reg m" and ?n = "from_node C day reg n"
  have eq: "json_get k (compact_json ?m) = json_get k (compact_json ?n)" for k using assms(4) by simp
  have "compact_head_of reg (HeadName a) = compact_head_of reg (HeadName b)"
    using eq [of "''1''"] assms(2,3) by (simp add: compact_fields head_json_inj from_node_def)
  then have "a = b" using head_kept [OF assms(1)] by (metis option.inject)
  moreover have "nd_note m = nd_note n"
    using eq [of "''10''"] by (cases "nd_note m"; cases "nd_note n") (simp_all add: compact_fields from_node_def)
  moreover have "nd_deps m = nd_deps n"
    using eq [of "''9''"] by (simp add: compact_fields from_node_def jstrs_inj split: if_splits)
  ultimately show ?thesis
    using eq [of "''0''"] eq [of "''5''"] eq [of "''6''"] eq [of "''7''"] eq [of "''8''"]
    by (simp add: compact_fields from_node_def provenance_json_inj compact_provenance_inj u32_json_inj)
qed

theorem compact_keeps_witness:
  "nd_id (fact_a\<lparr>nd_pred := Predicate (HeadName ''p'') [TVar ''X''] []\<rparr>) = nd_id fact_a \<and> ''p'' = ''p''
    \<and> nd_prov (fact_a\<lparr>nd_pred := Predicate (HeadName ''p'') [TVar ''X''] []\<rparr>) = nd_prov fact_a
    \<and> nd_perm (fact_a\<lparr>nd_pred := Predicate (HeadName ''p'') [TVar ''X''] []\<rparr>) = nd_perm fact_a
    \<and> nd_deps (fact_a\<lparr>nd_pred := Predicate (HeadName ''p'') [TVar ''X''] []\<rparr>) = nd_deps fact_a
    \<and> nd_note (fact_a\<lparr>nd_pred := Predicate (HeadName ''p'') [TVar ''X''] []\<rparr>) = nd_note fact_a
    \<and> single_json (nd_conf (fact_a\<lparr>nd_pred := Predicate (HeadName ''p'') [TVar ''X''] []\<rparr>)) = single_json (nd_conf fact_a)
    \<and> single_json (nd_auth (fact_a\<lparr>nd_pred := Predicate (HeadName ''p'') [TVar ''X''] []\<rparr>)) = single_json (nd_auth fact_a)"
  by (rule compact_keeps [OF reg_ok_new, where C = sample_chrono and day = int_dec])
    (simp_all add: fact_a_def node_new_def from_node_def compact_json_def)

end
