(* ===== verification/F32_Arith.thy ===== *)
theory F32_Arith
  imports F32 Complex_Main
begin

text \<open>
  The rest of Rust's \<open>f32\<close> that the latent codecs need: division, square root, \<open>round\<close>, \<open>clamp\<close>,
  casts from and to integers and \<open>iter().sum()\<close>; and how far a rounded result is from the exact
  one. The value of a finite \<open>f32\<close> is read as a real number, and \<open>inside f lo hi\<close> says that \<open>f\<close> is
  finite, not negative, and between two bounds. The rules for \<open>inside\<close> follow an expression
  operation by operation, so that an error bound for a whole computation is an inequality
  between reals.
\<close>

section \<open>Operations\<close>

fun f32_div :: "f32 \<Rightarrow> f32 \<Rightarrow> f32" where
  "f32_div F32_NaN b = F32_NaN"
| "f32_div a F32_NaN = F32_NaN"
| "f32_div (F32_Inf s) (F32_Inf t) = F32_NaN"
| "f32_div (F32_Inf s) (F32_Fin t l) = F32_Inf (s \<noteq> t)"
| "f32_div (F32_Fin s k) (F32_Inf t) = F32_Fin (s \<noteq> t) 0"
| "f32_div (F32_Fin s k) (F32_Fin t l) =
     (if l = 0 then (if k = 0 then F32_NaN else F32_Inf (s \<noteq> t))
      else f32_round (s \<noteq> t) (k * 2 ^ 149) l)"

text \<open>
  \<open>sqrt\<close>, correctly rounded. The integer part of the root is found bit by bit; a value that is not
  zero has a root of more than 24 bits, and whether it lies above the middle of two neighbours is
  decided on the squares.
\<close>

fun isqrt_bits :: "nat \<Rightarrow> int \<Rightarrow> int \<Rightarrow> int" where
  "isqrt_bits 0 n r = r"
| "isqrt_bits (Suc i) n r = isqrt_bits i n (if (r + 2 ^ i) ^ 2 \<le> n then r + 2 ^ i else r)"

definition isqrt :: "int \<Rightarrow> int" where
  "isqrt n = isqrt_bits (bitlen n div 2 + 1) n 0"

definition sqrt_mag :: "int \<Rightarrow> int" where
  "sqrt_mag k =
     (let n = k * 2 ^ 149; s = isqrt n; e = 2 ^ (bitlen s - 24); q = s div e in
      (if 4 * n < (2 * q + 1) ^ 2 * e ^ 2 \<or> 4 * n = (2 * q + 1) ^ 2 * e ^ 2 \<and> even q
       then q else q + 1) * e)"

fun f32_sqrt :: "f32 \<Rightarrow> f32" where
  "f32_sqrt F32_NaN = F32_NaN"
| "f32_sqrt (F32_Inf s) = (if s then F32_NaN else F32_Inf False)"
| "f32_sqrt (F32_Fin s k) =
     (if k = 0 then F32_Fin s 0 else if s then F32_NaN else F32_Fin False (sqrt_mag k))"

fun f32_round_away :: "f32 \<Rightarrow> f32" where
  \<comment> \<open>\<open>f32::round\<close>: to the nearest integer, halves away from zero\<close>
  "f32_round_away (F32_Fin s k) = F32_Fin s ((2 * k + 2 ^ 149) div 2 ^ 150 * 2 ^ 149)"
| "f32_round_away f = f"

fun f32_to_uint :: "nat \<Rightarrow> f32 \<Rightarrow> nat" where
  \<comment> \<open>\<open>as usize\<close>, \<open>as u32\<close>: towards zero, saturating at 0 and \<open>2^w - 1\<close>, 0 for a NaN\<close>
  "f32_to_uint w F32_NaN = 0"
| "f32_to_uint w (F32_Inf s) = (if s then 0 else 2 ^ w - 1)"
| "f32_to_uint w (F32_Fin s k) = (if s then 0 else min (nat (k div 2 ^ 149)) (2 ^ w - 1))"

definition f32_of_nat :: "nat \<Rightarrow> f32" where
  \<comment> \<open>\<open>n as f32\<close>\<close>
  "f32_of_nat n = f32_round False (int n * 2 ^ 149) 1"

definition f32_clamp :: "f32 \<Rightarrow> f32 \<Rightarrow> f32 \<Rightarrow> f32" where
  "f32_clamp lo hi f = (let g = (if f32_lt f lo then lo else f) in if f32_lt hi g then hi else g)"

definition f32_sum :: "f32 list \<Rightarrow> f32" where
  \<comment> \<open>\<open>iter().sum::<f32>()\<close>, from the left\<close>
  "f32_sum fs = foldl f32_add (F32_Fin False 0) fs"

section \<open>How far rounding goes\<close>

definition ulp :: real where
  \<comment> \<open>half a unit in the last of 24 places, relative to the value\<close>
  "ulp = 1 / 2 ^ 24"

definition tiny :: real where
  \<comment> \<open>half the least positive value\<close>
  "tiny = 1 / 2 ^ 150"

lemma rnd_ne_real:
  assumes "0 < d"
  shows "\<bar>real_of_int (rnd_ne n d) - of_int n / of_int d\<bar> \<le> 1 / 2"
proof -
  have d: "(0::real) < of_int d" using assms by simp
  have "real_of_int \<bar>2 * (rnd_ne n d * d - n)\<bar> \<le> of_int d"
    using rnd_ne_nearest [OF assms, of n] by (simp only: of_int_le_iff)
  then have "\<bar>2 * (real_of_int (rnd_ne n d) * of_int d - of_int n)\<bar> \<le> of_int d" by simp
  then have "\<bar>2 * (real_of_int (rnd_ne n d) - of_int n / of_int d)\<bar> * of_int d \<le> of_int d"
    using d by (simp add: abs_mult_pos [symmetric] field_simps)
  then have "\<bar>2 * (real_of_int (rnd_ne n d) - of_int n / of_int d)\<bar> \<le> 1"
    using d mult_le_cancel_right_pos [of "of_int d" "\<bar>2 * (real_of_int (rnd_ne n d) - of_int n / of_int d)\<bar>" 1]
    by simp
  then have "2 * \<bar>real_of_int (rnd_ne n d) - of_int n / of_int d\<bar> \<le> 1"
    by (simp only: abs_mult abs_numeral)
  then show ?thesis by simp
qed

lemma f32_mag_real:
  assumes "0 \<le> n" "0 < d"
  shows "\<bar>real_of_int (f32_mag n d) - of_int n / of_int d\<bar> \<le> 1 / 2 + of_int n / of_int d * ulp"
proof -
  let ?x = "real_of_int n / of_int d"
  have x: "0 \<le> ?x" using assms by simp
  define b where "b = bitlen (n div d)"
  show ?thesis
  proof (cases "b \<le> 24")
    case True
    then have "f32_mag n d = rnd_ne n d" by (simp add: f32_mag_def b_def Let_def)
    then show ?thesis using rnd_ne_real [OF assms(2), of n] x by (simp add: ulp_def add_increasing2)
  next
    case False
    define e :: int where "e = 2 ^ (b - 24)"
    have e: "0 < e" and re: "(0::real) < of_int e" by (simp_all add: e_def)
    have m: "f32_mag n d = rnd_ne n (d * e) * e" using False by (simp add: f32_mag_def b_def e_def Let_def)
    have r: "\<bar>real_of_int (rnd_ne n (d * e)) - of_int n / (of_int d * of_int e)\<bar> \<le> 1 / 2"
      using rnd_ne_real [of "d * e" n] assms(2) e by simp
    have "real_of_int (f32_mag n d) - ?x = (of_int (rnd_ne n (d * e)) - of_int n / (of_int d * of_int e)) * of_int e"
      using re by (simp add: m field_simps)
    then have "\<bar>real_of_int (f32_mag n d) - ?x\<bar>
        = \<bar>of_int (rnd_ne n (d * e)) - of_int n / (of_int d * of_int e)\<bar> * of_int e"
      using re by (simp add: abs_mult)
    also have "\<dots> \<le> 1 / 2 * of_int e" using r re by (intro mult_right_mono) auto
    finally have a: "\<bar>real_of_int (f32_mag n d) - ?x\<bar> \<le> 1 / 2 * of_int e" .
    have "0 < n div d" using False by (metis b_def bitlen_nonpos not_less zero_le)
    then have "2 ^ (b - 1) \<le> n div d" unfolding b_def by (rule bitlen_ge)
    then have "(2::real) ^ (b - 1) \<le> of_int (n div d)" by (metis of_int_le_iff of_int_numeral of_int_power)
    also have "\<dots> \<le> ?x" by (simp add: real_of_int_div4)
    finally have "(2::real) ^ (b - 1) \<le> ?x" .
    moreover define c where "c = b - 25"
    have "b = c + 25" using False by (simp add: c_def)
    then have "(2::real) ^ (b - 1) = 2 ^ 23 * of_int e" by (simp add: e_def power_add)
    ultimately have "2 ^ 23 * of_int e * ulp \<le> ?x * ulp" by (simp add: ulp_def)
    then have "1 / 2 * of_int e \<le> ?x * ulp" by (simp add: ulp_def)
    with a show ?thesis by linarith
  qed
qed

definition inside :: "f32 \<Rightarrow> real \<Rightarrow> real \<Rightarrow> bool" where
  "inside f lo hi \<longleftrightarrow> (\<exists>k. f = F32_Fin False k \<and> f32_repr k \<and> lo \<le> of_int k / 2 ^ 149 \<and> of_int k / 2 ^ 149 \<le> hi)"

lemma insideI: "f32_repr k \<Longrightarrow> lo \<le> of_int k / 2 ^ 149 \<Longrightarrow> of_int k / 2 ^ 149 \<le> hi \<Longrightarrow> inside (F32_Fin False k) lo hi"
  by (auto simp: inside_def)

lemma insideE:
  assumes "inside f lo hi"
  obtains k where "f = F32_Fin False k" "f32_repr k" "0 \<le> k" "lo \<le> of_int k / 2 ^ 149"
    "of_int k / 2 ^ 149 \<le> hi"
  using assms by (auto simp: inside_def f32_repr_def)

lemma inside_mono: "inside f lo hi \<Longrightarrow> lo' \<le> lo \<Longrightarrow> hi \<le> hi' \<Longrightarrow> inside f lo' hi'"
  by (force simp: inside_def)

lemma inside_nonneg: "inside f lo hi \<Longrightarrow> inside f (max 0 lo) hi"
  by (auto elim!: insideE intro!: insideI)

text \<open>One rounding.\<close>

lemma inside_round:
  assumes "0 \<le> n" "0 < d" and lo: "lo \<le> of_int n / of_int d / 2 ^ 149" "0 \<le> lo"
    and hi: "of_int n / of_int d / 2 ^ 149 \<le> hi" "hi \<le> 2 ^ 100"
  shows "inside (f32_round False n d) (lo * (1 - ulp) - tiny) (hi * (1 + ulp) + tiny)"
proof -
  define x where "x = real_of_int n / of_int d"
  define k where "k = f32_mag n d"
  have e: "\<bar>of_int k - x\<bar> \<le> 1 / 2 + x * ulp"
    using f32_mag_real [OF assms(1,2)] by (simp add: k_def x_def)
  have x: "lo * 2 ^ 149 \<le> x" "x \<le> hi * 2 ^ 149" using lo(1) hi(1) by (simp_all add: x_def field_simps)
  have u: "0 < ulp" "ulp < 1" by (simp_all add: ulp_def)
  have "of_int k \<le> x * (1 + ulp) + 1 / 2" using e by (simp add: algebra_simps abs_le_iff)
  also have "\<dots> \<le> hi * 2 ^ 149 * (1 + ulp) + 1 / 2" using x(2) u by (intro add_right_mono mult_right_mono) auto
  finally have up: "of_int k \<le> hi * 2 ^ 149 * (1 + ulp) + 1 / 2" .
  have "lo * 2 ^ 149 * (1 - ulp) - 1 / 2 \<le> x * (1 - ulp) - 1 / 2" using x(1) u by (intro diff_right_mono mult_right_mono) auto
  also have "\<dots> \<le> of_int k" using e by (simp add: algebra_simps abs_le_iff)
  finally have dn: "lo * 2 ^ 149 * (1 - ulp) - 1 / 2 \<le> of_int k" .
  have "hi * 2 ^ 149 * (1 + ulp) + 1 / 2 < 2 ^ 277"
  proof -
    have "hi * 2 ^ 149 * (1 + ulp) \<le> 2 ^ 100 * 2 ^ 149 * 2"
      using hi(2) u lo x by (intro mult_mono) auto
    then show ?thesis by simp
  qed
  with up have "real_of_int k < of_int (2 ^ 277)" by simp
  then have kk: "k < 2 ^ 277" by (simp only: of_int_less_iff)
  have rep: "f32_repr k" using f32_mag_repr [OF assms(1,2)] kk by (simp add: f32_repr_def k_def)
  have "f32_round False n d = F32_Fin False k" using kk by (simp add: f32_round_def Let_def k_def)
  moreover have "lo * (1 - ulp) - tiny \<le> of_int k / 2 ^ 149" "of_int k / 2 ^ 149 \<le> hi * (1 + ulp) + tiny"
    using up dn by (simp_all add: tiny_def field_simps)
  ultimately show ?thesis using rep by (simp add: insideI)
qed

lemma inside_div:
  assumes "inside a la ha" "inside b lb hb" "0 \<le> la" "0 < lb" "ha / lb \<le> 2 ^ 100"
  shows "inside (f32_div a b) (la / hb * (1 - ulp) - tiny) (ha / lb * (1 + ulp) + tiny)"
proof -
  from assms obtain k l where k: "a = F32_Fin False k" "0 \<le> k" "la \<le> of_int k / 2 ^ 149" "of_int k / 2 ^ 149 \<le> ha"
    and l: "b = F32_Fin False l" "0 \<le> l" "lb \<le> of_int l / 2 ^ 149" "of_int l / 2 ^ 149 \<le> hb"
    by (meson insideE)
  have l0: "0 < l" using l(2,3) assms(4) by (cases "l = 0") auto
  have q: "of_int (k * 2 ^ 149) / of_int l / 2 ^ 149 = (of_int k / 2 ^ 149) / (of_int l / (2 ^ 149 :: real))"
    by simp
  have "la / hb \<le> (of_int k / 2 ^ 149) / (of_int l / (2 ^ 149 :: real))"
    using k l assms(3) l0 by (intro frac_le) auto
  moreover have "(of_int k / 2 ^ 149) / (of_int l / (2 ^ 149 :: real)) \<le> ha / lb"
    using k l assms(4) l0 order_trans [OF _ k(4)] by (intro frac_le) auto
  moreover have "0 \<le> la / hb" using assms(3,4) l(3,4) by (intro divide_nonneg_nonneg) auto
  ultimately have "inside (f32_round False (k * 2 ^ 149) l) (la / hb * (1 - ulp) - tiny) (ha / lb * (1 + ulp) + tiny)"
    using k(2) l0 assms(5) by (intro inside_round) (simp_all only: q, auto)
  then show ?thesis using l0 by (simp add: k(1) l(1))
qed

lemma inside_mul:
  assumes "inside a la ha" "inside b lb hb" "0 \<le> la" "0 \<le> lb" "ha * hb \<le> 2 ^ 100"
  shows "inside (f32_mul a b) (la * lb * (1 - ulp) - tiny) (ha * hb * (1 + ulp) + tiny)"
proof -
  from assms obtain k l where k: "a = F32_Fin False k" "0 \<le> k" "la \<le> of_int k / 2 ^ 149" "of_int k / 2 ^ 149 \<le> ha"
    and l: "b = F32_Fin False l" "0 \<le> l" "lb \<le> of_int l / 2 ^ 149" "of_int l / 2 ^ 149 \<le> hb"
    by (meson insideE)
  have q: "of_int (k * l) / of_int (2 ^ 149) / 2 ^ 149 = (of_int k / 2 ^ 149) * (of_int l / (2 ^ 149 :: real))"
    by simp
  have "la * lb \<le> (of_int k / 2 ^ 149) * (of_int l / (2 ^ 149 :: real))"
    using k l assms(3,4) by (intro mult_mono) auto
  moreover have "(of_int k / 2 ^ 149) * (of_int l / (2 ^ 149 :: real)) \<le> ha * hb"
    using k l order_trans [OF _ k(4)] by (intro mult_mono) auto
  ultimately have "inside (f32_round False (k * l) (2 ^ 149)) (la * lb * (1 - ulp) - tiny) (ha * hb * (1 + ulp) + tiny)"
    using k(2) l(2) assms(3,4,5) by (intro inside_round) (simp_all only: q, auto)
  then show ?thesis by (simp add: k(1) l(1))
qed

lemma inside_add:
  assumes "inside a la ha" "inside b lb hb" "0 \<le> la" "0 \<le> lb" "ha + hb \<le> 2 ^ 100"
  shows "inside (f32_add a b) ((la + lb) * (1 - ulp) - tiny) ((ha + hb) * (1 + ulp) + tiny)"
proof -
  from assms obtain k l where k: "a = F32_Fin False k" "0 \<le> k" "la \<le> of_int k / 2 ^ 149" "of_int k / 2 ^ 149 \<le> ha"
    and l: "b = F32_Fin False l" "0 \<le> l" "lb \<le> of_int l / 2 ^ 149" "of_int l / 2 ^ 149 \<le> hb"
    by (meson insideE)
  have q: "of_int (k + l) / of_int 1 / 2 ^ 149 = (of_int k / 2 ^ 149) + (of_int l / (2 ^ 149 :: real))"
    by (simp add: add_divide_distrib)
  have w: "inside (f32_round False (k + l) 1) ((la + lb) * (1 - ulp) - tiny) ((ha + hb) * (1 + ulp) + tiny)"
  proof (rule inside_round)
    show "la + lb \<le> of_int (k + l) / of_int 1 / 2 ^ 149" "of_int (k + l) / of_int 1 / 2 ^ 149 \<le> ha + hb"
      unfolding q using k(3,4) l(3,4) by (auto intro: add_mono)
    show "0 \<le> k + l" "(0::int) < 1" "0 \<le> la + lb" "ha + hb \<le> 2 ^ 100"
      using k(2) l(2) assms(3,4,5) by auto
  qed
  show ?thesis
  proof (cases "k + l = 0")
    case True
    then have "k = 0" "l = 0" using k(2) l(2) by auto
    moreover have "f32_round False 0 1 = F32_Fin False 0"
      by (simp add: f32_round_def f32_mag_def rnd_ne_def)
    ultimately show ?thesis using w by (simp add: k(1) l(1))
  next
    case False
    then show ?thesis using w k(2) l(2) by (simp add: k(1) l(1))
  qed
qed

text \<open>Whole numbers of at most 24 bits are exact, and rounding finds them again.\<close>

lemma repr_nat: "n \<le> 2 ^ 24 \<Longrightarrow> f32_repr (int n * 2 ^ 149)"
proof -
  assume n: "n \<le> 2 ^ 24"
  then have "int n \<le> int (2 ^ 24)" by (simp only: of_nat_le_iff)
  then have "int n \<le> 2 ^ 24" by simp
  moreover from this have "int n * 2 ^ 149 \<le> 2 ^ 24 * 2 ^ 149" by (intro mult_right_mono) auto
  then have "int n * 2 ^ 149 < 2 ^ 277" by simp
  ultimately show ?thesis using repr_small [of "int n" 149] by (simp add: f32_repr_def)
qed

lemma f32_of_nat_exact: "n \<le> 2 ^ 24 \<Longrightarrow> f32_of_nat n = F32_Fin False (int n * 2 ^ 149)"
  using f32_round_exact [OF repr_nat, of n 1] by (simp add: f32_of_nat_def)

lemma inside_of_nat: "n \<le> 2 ^ 24 \<Longrightarrow> inside (f32_of_nat n) (of_nat n) (of_nat n)"
  using insideI [OF repr_nat, of n "of_nat n" "of_nat n"] by (simp add: f32_of_nat_exact)

lemma inside_to_nat:
  assumes "inside f lo hi" "of_nat n - 1 / 2 < lo" "hi < of_nat n + 1 / 2" "n < 2 ^ w"
  shows "f32_to_uint w (f32_round_away f) = n"
proof -
  from assms(1) obtain k where k: "f = F32_Fin False k" "0 \<le> k" "lo \<le> of_int k / 2 ^ 149" "of_int k / 2 ^ 149 \<le> hi"
    by (rule insideE)
  have "of_nat n - 1 / 2 < of_int k / (2 ^ 149 :: real)" "of_int k / (2 ^ 149 :: real) < of_nat n + 1 / 2"
    using k assms(2,3) by linarith+
  then have "real_of_int ((2 * int n - 1) * 2 ^ 149) < of_int (2 * k)"
    "real_of_int (2 * k) < of_int ((2 * int n + 1) * 2 ^ 149)" by (simp_all add: field_simps)
  then have i: "(2 * int n - 1) * 2 ^ 149 < 2 * k" "2 * k < (2 * int n + 1) * 2 ^ 149"
    by (simp_all only: of_int_less_iff)
  have "(2 * k + 2 ^ 149) div 2 ^ 150 = int n"
  proof (rule int_div_pos_eq [where r = "2 * k + 2 ^ 149 - int n * 2 ^ 150"])
    show "2 * k + 2 ^ 149 = 2 ^ 150 * int n + (2 * k + 2 ^ 149 - int n * 2 ^ 150)" by simp
    show "0 \<le> 2 * k + 2 ^ 149 - int n * 2 ^ 150" "2 * k + 2 ^ 149 - int n * 2 ^ 150 < 2 ^ 150"
      using i by (simp_all add: algebra_simps)
  qed
  then show ?thesis using assms(4) by (simp add: k(1))
qed

end
