(* ===== verification/Latent.thy ===== *)
theory Latent
  imports Serialize Calibration Morphemes F32_Arith
begin

text \<open>
  The interface of the latent codecs: \<open>factum-l/src/error.rs\<close>, the vectors and result types of
  \<open>factum-l/src/encoder.rs\<close> and \<open>factum-l/src/decoder.rs\<close>, and the FNV-1a hash. The text inside an
  error is kept as the format string's constructor with its arguments.
\<close>

datatype latent_message =
    MsgParse parse_error
  | MsgDecParse string core_error
  | MsgDateParse string
  | MsgDurParse string
  | MsgCompoundParse parse_error
  | MsgCompoundEmpty
  | MsgUnknownTypeCode nat
  | MsgMorphemeIndex nat
  | MsgNoActivatedMorpheme
  | MsgNoNodes

datatype latent_error =
    EncodeError latent_message
  | DecodeError latent_message
  | EquivError string
  | DimensionMismatch nat nat \<comment> \<open>expected, actual\<close>
  | RegistryError string

section \<open>Thought vectors\<close>

record thought_vector =
  tv_data :: "f32 list"
  tv_dim :: nat

definition tv_zeros :: "nat \<Rightarrow> thought_vector" where
  "tv_zeros d = \<lparr>tv_data = replicate d f32_zero, tv_dim = d\<rparr>"

definition tv_from_vec :: "f32 list \<Rightarrow> thought_vector" where
  "tv_from_vec xs = \<lparr>tv_data = xs, tv_dim = length xs\<rparr>"

definition l2_norm :: "thought_vector \<Rightarrow> f32" where
  "l2_norm v = f32_sqrt (f32_sum (map (\<lambda>x. f32_mul x x) (tv_data v)))"

definition norm_floor :: f32 where
  \<comment> \<open>\<open>1e-10\<close>\<close>
  "norm_floor = f32_lit 1 10"

definition tv_normalize :: "thought_vector \<Rightarrow> thought_vector" where
  "tv_normalize v =
     (let n = l2_norm v in
      if f32_lt n norm_floor then v
      else tv_from_vec (map (\<lambda>x. f32_div x n) (tv_data v)))"

definition cosine_similarity :: "thought_vector \<Rightarrow> thought_vector \<Rightarrow> f32" where
  "cosine_similarity v w =
     (if tv_dim v \<noteq> tv_dim w then f32_zero
      else let dot = f32_sum (map (\<lambda>(a, b). f32_mul a b) (zip (tv_data v) (tv_data w)));
               na = l2_norm v; nb = l2_norm w in
        if f32_lt na norm_floor \<or> f32_lt nb norm_floor then f32_zero
        else f32_div dot (f32_mul na nb))"

text \<open>
  \<open>data\<close> and \<open>dim\<close> are public fields. Every vector the crate builds has as many values as its
  \<open>dim\<close> says, and the code indexes below \<open>dim\<close>.
\<close>

definition tv_ok :: "thought_vector \<Rightarrow> bool" where
  "tv_ok v \<longleftrightarrow> length (tv_data v) = tv_dim v"

lemma tv_ok_from_vec [simp]: "tv_ok (tv_from_vec xs)"
  by (simp add: tv_ok_def tv_from_vec_def)

lemma tv_ok_zeros [simp]: "tv_ok (tv_zeros d)"
  by (simp add: tv_ok_def tv_zeros_def)

lemma tv_ok_normalize: "tv_ok v \<Longrightarrow> tv_ok (tv_normalize v) \<and> tv_dim (tv_normalize v) = tv_dim v"
  by (simp add: tv_normalize_def Let_def) (simp add: tv_from_vec_def tv_ok_def)

record encode_result =
  er_vector :: thought_vector
  er_source_hash :: u64

record decode_result =
  dr_nodes :: "node list"
  dr_text :: string

section \<open>Characters and hashes\<close>

text \<open>\<open>str::chars\<close>: each character as the bytes of its UTF-8 encoding.\<close>

function chars :: "string \<Rightarrow> string list" where
  "chars [] = []"
| "chars (c # s) =
     (let n = (case utf8_len c of None \<Rightarrow> 1 | Some n \<Rightarrow> n) in take n (c # s) # chars (drop (n - 1) s))"
  by pat_completeness auto
termination
  by (relation "measure length") auto

lemma chars_ascii: "\<forall>c \<in> set s. \<not> is_high c \<Longrightarrow> chars s = map (\<lambda>c. [c]) s"
  by (induction s) (auto simp: utf8_len_def is_high_def)

definition fnv_step :: "u64 \<Rightarrow> char \<Rightarrow> u64" where
  "fnv_step h b = (h XOR of_char b) * 0x100000001b3"

definition fnv1a_hash :: "string \<Rightarrow> u64" where
  "fnv1a_hash s = foldl fnv_step 0xcbf29ce484222325 s"

section \<open>Writing a run of values\<close>

fun write_floats :: "nat \<Rightarrow> f32 list \<Rightarrow> f32 list \<Rightarrow> f32 list" where
  \<comment> \<open>\<open>data[offset + j] = c\<close> for each value \<open>c\<close> at position \<open>j\<close>\<close>
  "write_floats off [] data = data"
| "write_floats off (x # xs) data = write_floats (Suc off) xs (data[off := x])"

lemma write_floats_length [simp]: "length (write_floats off xs d) = length d"
  by (induction off xs d rule: write_floats.induct) auto

lemma write_floats_nth:
  "i < length d \<Longrightarrow>
   write_floats off xs d ! i = (if off \<le> i \<and> i < off + length xs then xs ! (i - off) else d ! i)"
proof (induction off xs d rule: write_floats.induct)
  case (2 off x xs d)
  then show ?case by (auto simp: nth_list_update nth_Cons' Suc_diff_Suc not_le)
qed auto

lemma update_all: "list_all P d \<Longrightarrow> P x \<Longrightarrow> list_all P (d[i := x])"
  using set_update_subset_insert [of d i x] by (auto simp: list_all_iff)

lemma write_floats_all:
  "list_all P xs \<Longrightarrow> list_all P d \<Longrightarrow> list_all P (write_floats off xs d)"
  by (induction off xs d rule: write_floats.induct) (simp_all add: update_all)

end
