(* ===== verification/Packed.thy ===== *)
theory Packed
  imports Latent
begin

text \<open>
  The packed codec of \<open>factum-l/src/packed_codec.rs\<close>: a node's head, its first three arguments and
  its confidence and authority in 24 floats, two characters of a 66-letter alphabet to a float.
\<close>

definition PACKED_CODEC_DIM :: nat where "PACKED_CODEC_DIM = 24"

definition CHARSET :: string where
  "CHARSET = ''ABCDEFGHIJKLMNOPQRSTUVWXYZabcdefghijklmnopqrstuvwxyz0123456789-.()''"

definition BASE :: nat where "BASE = 67"
definition CHARS_PER_FLOAT :: nat where "CHARS_PER_FLOAT = 2"
definition MAX_ENCODED :: f32 where "MAX_ENCODED = f32_of_nat (BASE * BASE - 1)"
definition MAX_MORPHEMES :: f32 where "MAX_MORPHEMES = f32_of_nat 300"
definition MAX_PACKED_ARGS :: f32 where "MAX_PACKED_ARGS = f32_of_nat 5323" \<comment> \<open>the literal \<open>5323.0\<close>\<close>

definition OFF_SCALE_REF :: nat where "OFF_SCALE_REF = 0"
definition OFF_HEAD_INDEX :: nat where "OFF_HEAD_INDEX = 1"
definition OFF_PACKED_ARGS :: nat where "OFF_PACKED_ARGS = 2"
definition ARG_FLOATS :: nat where "ARG_FLOATS = 6"
definition OFF_NAMED :: nat where "OFF_NAMED = 21"
definition OFF_CONFIDENCE :: nat where "OFF_CONFIDENCE = 22"
definition OFF_AUTHORITY :: nat where "OFF_AUTHORITY = 23"

definition arg_offset :: "nat \<Rightarrow> nat" where
  \<comment> \<open>\<open>OFF_ARG1\<close>, \<open>OFF_ARG2\<close>, \<open>OFF_ARG3\<close>\<close>
  "arg_offset i = (if i = 0 then 3 else if i = 1 then 9 else 15)"

section \<open>Characters\<close>

fun charset_index :: "nat \<Rightarrow> string \<Rightarrow> string \<Rightarrow> nat" where
  "charset_index i [] c = 0"
| "charset_index i (x # xs) c = (if [x] = c then i + 1 else charset_index (i + 1) xs c)"

definition char_to_idx :: "string \<Rightarrow> nat" where
  "char_to_idx c = (if c = [CHR 0x00] then 0 else charset_index 0 CHARSET c)"

definition idx_to_char :: "nat \<Rightarrow> char" where
  "idx_to_char i =
     (if i = 0 then CHR 0x00 else if length CHARSET < i then CHR ''.'' else CHARSET ! (i - 1))"

definition encode_2chars :: "string \<Rightarrow> string \<Rightarrow> f32" where
  "encode_2chars c1 c2 = f32_div (f32_of_nat (char_to_idx c1 * BASE + char_to_idx c2)) MAX_ENCODED"

definition decode_2chars :: "f32 \<Rightarrow> char \<times> char" where
  "decode_2chars f =
     (let v = f32_to_uint 64 (f32_round_away (f32_mul (f32_clamp f32_zero f32_one f) MAX_ENCODED)) in
      (idx_to_char (v div BASE mod BASE), idx_to_char (v mod BASE)))"

definition char_at :: "string list \<Rightarrow> nat \<Rightarrow> string" where
  "char_at cs i = (if i < length cs then cs ! i else [CHR 0x00])"

definition encode_string :: "string \<Rightarrow> nat \<Rightarrow> f32 list" where
  "encode_string s n =
     map (\<lambda>i. encode_2chars (char_at (chars s) (i * CHARS_PER_FLOAT))
                             (char_at (chars s) (i * CHARS_PER_FLOAT + 1))) [0..<n]"

fun decode_string :: "f32 list \<Rightarrow> string" where
  "decode_string [] = []"
| "decode_string (f # fs) =
     (let (a, b) = decode_2chars f in
      if a = CHR 0x00 then [] else if b = CHR 0x00 then [a] else a # b # decode_string fs)"

definition hash_to_u64 :: "string \<Rightarrow> u64" where
  "hash_to_u64 s = foldl (\<lambda>h b. (h XOR of_char b) * 0x100000001b3) 0xcbf29ce484222325 s"

definition hash_to_float :: "string \<Rightarrow> f32" where
  "hash_to_float s = f32_div (f32_of_nat (unat (hash_to_u64 s mod 100000))) (f32_of_nat 100000)"

section \<open>Terms as text\<close>

fun term_value_string :: "chrono \<Rightarrow> trm \<Rightarrow> string \<times> nat" where
  "term_value_string C (TEnt e) = (e, 1)"
| "term_value_string C (TVar s) = (s, 2)"
| "term_value_string C (TLit l) =
     (case l of
        LDec _ _ \<Rightarrow> (to_canonical_string C l, 3)
      | LStr s \<Rightarrow> (s, 4)
      | LDate d \<Rightarrow> (fmt_date C d, 5)
      | LBool b \<Rightarrow> (if b then ''1'' else ''0'', 6)
      | LUri u \<Rightarrow> (u, 7)
      | LDur d \<Rightarrow> (int_dec d, 8))"
| "term_value_string C (TCompound p) = (canonical_predicate C p, 9)"
| "term_value_string C (TList items) = (join_sp (map (\<lambda>t. fst (term_value_string C t)) items), 10)"

definition lower :: "char \<Rightarrow> char" where
  \<comment> \<open>ASCII only\<close>
  "lower c = (if c \<in> set ''ABCDEFGHIJKLMNOPQRSTUVWXYZ'' then char_of (of_char c + 32 :: nat) else c)"

definition parse_u128 :: "string \<Rightarrow> int option" where
  \<comment> \<open>\<open>str::parse::<u128>\<close>: an optional \<open>+\<close> and digits\<close>
  "parse_u128 s =
     (let d = (case s of [] \<Rightarrow> [] | c # r \<Rightarrow> if c = CHR ''+'' then r else s) in
      if d = [] \<or> \<not> list_all is_digit d \<or> 2 ^ 128 \<le> dec_val d then None else Some (dec_val d))"

fun split_ws :: "string \<Rightarrow> string list \<Rightarrow> string list" where
  \<comment> \<open>\<open>split_whitespace\<close> on characters: the current piece, then the rest\<close>
  "split_ws cur [] = (if cur = [] then [] else [cur])"
| "split_ws cur (c # cs) =
     (if map of_char c \<in> set unicode_ws then (if cur = [] then [] else [cur]) @ split_ws [] cs
      else split_ws (cur @ c) cs)"

definition list_item :: "string \<Rightarrow> trm" where
  "list_item part =
     (if part \<noteq> [] \<and> hd part \<in> set ''ABCDEFGHIJKLMNOPQRSTUVWXYZ'' then TEnt part else TLit (LStr part))"

definition reconstruct_term :: "chrono \<Rightarrow> string \<Rightarrow> nat \<Rightarrow> latent_error + trm" where
  "reconstruct_term C s tc =
     (if tc = 1 then Inr (TEnt s)
      else if tc = 2 then Inr (TVar s)
      else if tc = 3 then
        (case dec_from_str s of
           Inl e \<Rightarrow> Inl (DecodeError (MsgDecParse s e)) | Inr l \<Rightarrow> Inr (TLit l))
      else if tc = 4 then Inr (TLit (LStr s))
      else if tc = 5 then
        (case parse_date C s of
           None \<Rightarrow> Inl (DecodeError (MsgDateParse s)) | Some d \<Rightarrow> Inr (TLit (LDate d)))
      else if tc = 6 then Inr (TLit (LBool (s = ''1'' \<or> map lower s = ''true'')))
      else if tc = 7 then Inr (TLit (LUri s))
      else if tc = 8 then
        (case parse_u128 s of
           None \<Rightarrow> Inl (DecodeError (MsgDurParse s))
         | Some n \<Rightarrow> Inr (TLit (LDur (n mod 2 ^ 64))))
      else if tc = 9 then
        (case parse C (''('' @ s @ '')'') of
           Inl e \<Rightarrow> Inl (DecodeError (MsgCompoundParse e))
         | Inr [] \<Rightarrow> Inl (DecodeError MsgCompoundEmpty)
         | Inr (n # _) \<Rightarrow> Inr (TCompound (nd_pred n)))
      else if tc = 10 then Inr (TList (map list_item (split_ws [] (chars s))))
      else Inl (DecodeError (MsgUnknownTypeCode tc)))"

section \<open>Encoder\<close>

definition head_to_index :: "registry \<Rightarrow> predicate_head \<Rightarrow> nat" where
  "head_to_index r h =
     (case h of
        HeadId i \<Rightarrow> unat i
      | HeadName nm \<Rightarrow> (case resolve r nm of None \<Rightarrow> 0 | Some i \<Rightarrow> unat i))"

definition code_at :: "nat list \<Rightarrow> nat \<Rightarrow> nat" where
  "code_at ts i = (if i < length ts then ts ! i else 0)"

definition packed_code :: "nat \<Rightarrow> nat list \<Rightarrow> nat" where
  "packed_code n ts = n * 1331 + code_at ts 0 * 121 + code_at ts 1 * 11 + code_at ts 2"

definition pack_args :: "nat \<Rightarrow> nat list \<Rightarrow> f32" where
  "pack_args n ts = f32_div (f32_of_nat (packed_code n ts)) MAX_PACKED_ARGS"

definition encode_arg :: "chrono \<Rightarrow> trm list \<Rightarrow> nat \<Rightarrow> f32 list \<times> nat list \<Rightarrow> f32 list \<times> nat list" where
  "encode_arg C args i = (\<lambda>(data, ts).
     if i < length args
     then let (v, t) = term_value_string C (args ! i) in
       (write_floats (arg_offset i) (encode_string v ARG_FLOATS) data, ts @ [t])
     else (data, ts @ [0]))"

definition encode_predicate :: "chrono \<Rightarrow> registry \<Rightarrow> node \<Rightarrow> f32 list \<Rightarrow> f32 list" where
  "encode_predicate C r n data0 =
     (let p = nd_pred n;
          data1 = data0[OFF_HEAD_INDEX := f32_div (f32_of_nat (head_to_index r (pr_head p))) MAX_MORPHEMES];
          arg_count = min (length (pr_args p)) 3;
          (data2, ts) = fold (encode_arg C (pr_args p)) [0..<3] (data1, []);
          data3 = data2[OFF_PACKED_ARGS := pack_args arg_count ts];
          data4 = data3[OFF_NAMED :=
            (case pr_named p of
               [] \<Rightarrow> f32_zero
             | (_, v) # _ \<Rightarrow>
                 f32_add f32_one (f32_div (f32_of_nat (snd (term_value_string C v))) (f32_of_nat 100)))]
      in data4[OFF_CONFIDENCE := nd_conf n, OFF_AUTHORITY := nd_auth n])"

definition packed_content_hash :: "(string \<Rightarrow> u64) \<Rightarrow> chrono \<Rightarrow> node \<Rightarrow> u64" where
  \<comment> \<open>\<open>DefaultHasher\<close> of the canonical text; the hash function is the argument\<close>
  "packed_content_hash H C n = H (canonical C n)"

definition packed_encode_node ::
    "(string \<Rightarrow> u64) \<Rightarrow> chrono \<Rightarrow> registry \<Rightarrow> node \<Rightarrow> latent_error + encode_result" where
  "packed_encode_node H C r n =
     (let data = (replicate PACKED_CODEC_DIM f32_zero)[OFF_SCALE_REF := f32_one] in
      Inr \<lparr>er_vector = \<lparr>tv_data = encode_predicate C r n data, tv_dim = PACKED_CODEC_DIM\<rparr>,
           er_source_hash = packed_content_hash H C n\<rparr>)"

definition packed_empty :: encode_result where
  "packed_empty = \<lparr>er_vector = tv_zeros PACKED_CODEC_DIM, er_source_hash = 0\<rparr>"

definition packed_encode_sequence ::
    "(string \<Rightarrow> u64) \<Rightarrow> chrono \<Rightarrow> registry \<Rightarrow> node list \<Rightarrow> latent_error + encode_result" where
  "packed_encode_sequence H C r ns =
     (case ns of [] \<Rightarrow> Inr packed_empty | n # _ \<Rightarrow> packed_encode_node H C r n)"

definition packed_encode_text ::
    "(string \<Rightarrow> u64) \<Rightarrow> chrono \<Rightarrow> registry \<Rightarrow> string \<Rightarrow> latent_error + encode_result" where
  "packed_encode_text H C r s =
     (case parse C s of
        Inl e \<Rightarrow> Inl (EncodeError (MsgParse e))
      | Inr [] \<Rightarrow> Inr packed_empty
      | Inr (n # _) \<Rightarrow> packed_encode_node H C r n)"

section \<open>Decoder\<close>

definition scale_lost :: "f32 list \<Rightarrow> bool" where
  "scale_lost data \<longleftrightarrow> f32_lt (f32_abs (data ! OFF_SCALE_REF)) norm_floor"

definition recover_value :: "f32 list \<Rightarrow> nat \<Rightarrow> f32" where
  "recover_value data i =
     (if scale_lost data then f32_zero else f32_div (data ! i) (data ! OFF_SCALE_REF))"

definition decode_head :: "registry \<Rightarrow> f32 list \<Rightarrow> latent_error + string" where
  "decode_head r data =
     (let raw = recover_value data OFF_HEAD_INDEX;
          i = f32_to_uint 64 (f32_max (f32_round_away (f32_mul raw MAX_MORPHEMES)) f32_zero) in
      case lookup_id r (word_of_nat i) of
        None \<Rightarrow> Inl (DecodeError (MsgMorphemeIndex i))
      | Some d \<Rightarrow> Inr (md_name d))"

definition unpack_code :: "nat \<Rightarrow> nat \<times> nat list" where
  "unpack_code packed =
     (min (packed div 1331) 3,
      [packed mod 1331 div 121, packed mod 1331 div 11 mod 11, packed mod 1331 mod 11])"

definition unpack_args :: "f32 \<Rightarrow> nat \<times> nat list" where
  "unpack_args raw =
     unpack_code (f32_to_uint 64 (f32_max (f32_round_away (f32_mul raw MAX_PACKED_ARGS)) f32_zero))"

definition decode_string_slice :: "f32 list \<Rightarrow> nat \<Rightarrow> nat \<Rightarrow> string" where
  "decode_string_slice data off len =
     (if scale_lost data then []
      else decode_string (map (\<lambda>i. f32_div (data ! (off + i)) (data ! OFF_SCALE_REF)) [0..<len]))"

fun decode_args :: "chrono \<Rightarrow> f32 list \<Rightarrow> nat list \<Rightarrow> nat list \<Rightarrow> latent_error + trm list" where
  "decode_args C data ts [] = Inr []"
| "decode_args C data ts (i # is) =
     (let v = decode_string_slice data (arg_offset i) ARG_FLOATS; tc = ts ! i in
      if tc = 0 then decode_args C data ts is
      else bindr (reconstruct_term C (if v = [] then ''UNKNOWN'' else v) tc)
        (\<lambda>t. bindr (decode_args C data ts is) (\<lambda>args. Inr (t # args))))"

definition decode_predicate :: "chrono \<Rightarrow> registry \<Rightarrow> f32 list \<Rightarrow> latent_error + predicate" where
  "decode_predicate C r data =
     bindr (decode_head r data) (\<lambda>nm.
       let (arg_count, ts) = unpack_args (recover_value data OFF_PACKED_ARGS) in
       bindr (decode_args C data ts [0..<arg_count]) (\<lambda>args.
         Inr (with_args args (predicate_new (HeadName nm)))))"

definition packed_provenance :: provenance where
  "packed_provenance = Asserted ''packed-codec-decoder''"

definition packed_decode :: "chrono \<Rightarrow> registry \<Rightarrow> thought_vector \<Rightarrow> latent_error + decode_result" where
  "packed_decode C r v =
     (if tv_dim v \<noteq> PACKED_CODEC_DIM then Inl (DimensionMismatch PACKED_CODEC_DIM (tv_dim v))
      else bindr (decode_predicate C r (tv_data v)) (\<lambda>p.
        let auth = f32_clamp f32_zero f32_one (recover_value (tv_data v) OFF_AUTHORITY);
            n = with_provenance packed_provenance (with_validity Forever (with_permissions PUBLIC
                  (with_authority auth (with_confidence
                    (default_confidence_for_provenance packed_provenance) (node_new ''decoded'' p)))))
        in Inr \<lparr>dr_nodes = [n], dr_text = canonical C n\<rparr>))"

definition packed_decode_text :: "chrono \<Rightarrow> registry \<Rightarrow> thought_vector \<Rightarrow> latent_error + string" where
  "packed_decode_text C r v = bindr (packed_decode C r v) (\<lambda>d. Inr (dr_text d))"

end
