(* ===== verification/F32_Bounds.thy ===== *)
theory F32_Bounds
  imports F32_Arith
begin

text \<open>
  Bounds for square roots, sums and clamped values, in the style of \<^theory_text>\<open>F32_Arith\<close>.
\<close>

section \<open>Square roots\<close>

lemma isqrt_bits_spec:
  assumes "0 \<le> r" "r ^ 2 \<le> n" "n < (r + 2 ^ i) ^ 2"
  shows "0 \<le> isqrt_bits i n r \<and> (isqrt_bits i n r) ^ 2 \<le> n \<and> n < (isqrt_bits i n r + 1) ^ 2"
  using assms
proof (induction i arbitrary: r)
  case 0
  then show ?case by simp
next
  case (Suc i)
  show ?case
  proof (cases "(r + 2 ^ i) ^ 2 \<le> n")
    case True
    have "r + 2 ^ i + 2 ^ i = r + 2 ^ Suc i" by simp
    then have "n < (r + 2 ^ i + 2 ^ i) ^ 2" using Suc.prems(3) by (simp only:)
    then show ?thesis using Suc.IH [of "r + 2 ^ i"] Suc.prems(1) True by simp
  next
    case False
    then show ?thesis using Suc.IH [of r] Suc.prems(1,2) by simp
  qed
qed

lemma isqrt_spec:
  assumes "0 \<le> n"
  shows "0 \<le> isqrt n \<and> (isqrt n) ^ 2 \<le> n \<and> n < (isqrt n + 1) ^ 2"
proof -
  have "n < 2 ^ bitlen n" using assms by (rule bitlen_less)
  also have "\<dots> \<le> 2 ^ (2 * (bitlen n div 2 + 1))" by (intro power_increasing) auto
  also have "\<dots> = (0 + 2 ^ (bitlen n div 2 + 1)) ^ 2" by (simp only: power_mult [symmetric] add_0 mult.commute)
  finally show ?thesis unfolding isqrt_def using assms by (intro isqrt_bits_spec) auto
qed

lemma sqrt_mag_near:
  assumes "0 < k"
  defines "s \<equiv> isqrt (k * 2 ^ 149)"
  shows "f32_repr (sqrt_mag k) \<or> 2 ^ 277 \<le> sqrt_mag k"
    and "s - 2 ^ (bitlen s - 24) < sqrt_mag k" "sqrt_mag k \<le> s + 2 ^ (bitlen s - 24)"
proof -
  define e :: int where "e = 2 ^ (bitlen s - 24)"
  define q where "q = s div e"
  have e: "0 < e" by (simp add: e_def)
  have s: "0 \<le> s" using isqrt_spec [of "k * 2 ^ 149"] assms(1) by (simp add: s_def)
  have m: "sqrt_mag k = q * e \<or> sqrt_mag k = (q + 1) * e"
    unfolding sqrt_mag_def Let_def s_def [symmetric] e_def [symmetric] q_def [symmetric]
    by (simp only: split: if_split) simp
  have qe: "q * e \<le> s" "s < (q + 1) * e"
    using div_mult_mod_eq [of s e] pos_mod_bound [OF e, of s] pos_mod_sign [OF e, of s]
    by (simp_all add: q_def [symmetric] algebra_simps)
  have q0: "0 \<le> q" using s e by (simp add: q_def pos_imp_zdiv_nonneg_iff)
  have "s < 2 ^ 24 * 2 ^ (bitlen s - 24)"
  proof -
    have "s < 2 ^ bitlen s" using s by (rule bitlen_less)
    also have "\<dots> \<le> 2 ^ (24 + (bitlen s - 24))" by (intro power_increasing) auto
    finally show ?thesis by (simp only: power_add)
  qed
  then have "q < 2 ^ 24" unfolding q_def e_def by (rule div_less_pow)
  then have "bitlen (q * e) \<le> 24 \<or> 2 ^ (bitlen (q * e) - 24) dvd q * e"
    "bitlen ((q + 1) * e) \<le> 24 \<or> 2 ^ (bitlen ((q + 1) * e) - 24) dvd (q + 1) * e"
    unfolding e_def using q0 by (intro repr_small; simp)+
  then show "f32_repr (sqrt_mag k) \<or> 2 ^ 277 \<le> sqrt_mag k"
    using m q0 e by (auto simp: f32_repr_def)
  show "s - 2 ^ (bitlen s - 24) < sqrt_mag k" "sqrt_mag k \<le> s + 2 ^ (bitlen s - 24)"
    using m qe by (auto simp: e_def [symmetric] algebra_simps)
qed

text \<open>For values that are not small, the root is found up to one part in a million.\<close>

lemma inside_sqrt:
  assumes "inside f (lo ^ 2) (hi ^ 2)" "1 / 2 \<le> lo" "lo \<le> hi" "hi \<le> 1000"
  shows "inside (f32_sqrt f) (lo * 0.999999) (hi * 1.000001)"
proof -
  obtain k where k: "f = F32_Fin False k" "0 \<le> k" "lo ^ 2 \<le> of_int k / 2 ^ 149" "of_int k / 2 ^ 149 \<le> hi ^ 2"
    using assms(1) by (rule insideE)
  have lo2: "(1 / 2) ^ 2 \<le> lo ^ 2" using assms(2) by (intro power_mono) auto
  then have "1 / 4 \<le> of_int k / (2 ^ 149 :: real)" using k(3) by (simp add: power2_eq_square)
  then have "of_int (2 ^ 147) \<le> real_of_int k" by simp
  then have k147: "2 ^ 147 \<le> k" by (simp only: of_int_le_iff)
  then have k0: "0 < k" by simp
  define s where "s = isqrt (k * 2 ^ 149)"
  define m where "m = sqrt_mag k"
  define e :: int where "e = 2 ^ (bitlen s - 24)"
  have s: "0 \<le> s" "s ^ 2 \<le> k * 2 ^ 149" "k * 2 ^ 149 < (s + 1) ^ 2"
    using isqrt_spec [of "k * 2 ^ 149"] k0 by (auto simp: s_def)
  have big: "(2::int) ^ 147 \<le> s"
  proof (rule ccontr)
    assume "\<not> 2 ^ 147 \<le> s"
    then have "(s + 1) ^ 2 \<le> (2 ^ 147) ^ 2" using s(1) by (intro power_mono) auto
    also have "\<dots> \<le> 2 ^ 147 * 2 ^ 149" by simp
    also have "\<dots> \<le> k * 2 ^ 149" using k147 by simp
    finally show False using s(3) by simp
  qed
  have es: "e * 2 ^ 23 \<le> s"
  proof -
    have "\<not> bitlen s \<le> 147" using big s(1) by (simp add: bitlen_le_iff)
    moreover define c where "c = bitlen s - 24"
    ultimately have "bitlen s = c + 24" by simp
    then have "e * 2 ^ 23 = 2 ^ (bitlen s - 1)" by (simp add: e_def power_add)
    also have "\<dots> \<le> s" using big by (intro bitlen_ge) simp
    finally show ?thesis .
  qed
  have m: "s - e < m" "m \<le> s + e" "f32_repr m \<or> 2 ^ 277 \<le> m"
    using sqrt_mag_near [OF k0] unfolding m_def s_def e_def by (assumption | blast)+
  define S E M K where "S = real_of_int s" and "E = real_of_int e" and "M = real_of_int m" and "K = real_of_int k"
  have r: "S ^ 2 \<le> K * 2 ^ 149" "K * 2 ^ 149 \<le> (S + 1) ^ 2" "E * 2 ^ 23 \<le> S" "S - E \<le> M" "M \<le> S + E" "2 ^ 147 \<le> S"
  proof -
    have "real_of_int (s ^ 2) \<le> of_int (k * 2 ^ 149)" "real_of_int (k * 2 ^ 149) \<le> of_int ((s + 1) ^ 2)"
      "real_of_int (e * 2 ^ 23) \<le> of_int s" "real_of_int (s - e) \<le> of_int m" "real_of_int m \<le> of_int (s + e)"
      "real_of_int (2 ^ 147) \<le> of_int s"
      using s es m(1,2) big by (simp_all only: of_int_le_iff)
    then show "S ^ 2 \<le> K * 2 ^ 149" "K * 2 ^ 149 \<le> (S + 1) ^ 2" "E * 2 ^ 23 \<le> S" "S - E \<le> M" "M \<le> S + E" "2 ^ 147 \<le> S"
      by (simp_all only: S_def E_def M_def K_def of_int_power of_int_mult of_int_add of_int_diff of_int_1 of_int_numeral)
  qed
  have "S ^ 2 \<le> (hi * 2 ^ 149) ^ 2" using r(1) k(4) by (simp add: K_def power_mult_distrib field_simps)
  moreover have "0 \<le> hi * 2 ^ 149" using assms(2,3) by simp
  ultimately have sh: "S \<le> hi * 2 ^ 149" by (rule power2_le_imp_le)
  have "(lo * 2 ^ 149) ^ 2 \<le> (S + 1) ^ 2" using r(2) k(3) by (simp add: K_def power_mult_distrib field_simps)
  moreover have "0 \<le> S + 1" using r(6) by simp
  ultimately have sl: "lo * 2 ^ 149 \<le> S + 1" by (rule power2_le_imp_le)
  have up: "M \<le> hi * 1.000001 * 2 ^ 149" using r(3,5) sh assms(2,3) by simp
  have dn: "lo * 0.999999 * 2 ^ 149 \<le> M" using r(3,4,6) sl assms(2) by simp
  have "M < 2 ^ 277" using up assms(4) by simp
  then have "real_of_int m < of_int (2 ^ 277)" by (simp add: M_def)
  then have "\<not> 2 ^ 277 \<le> m" by (simp only: of_int_less_iff not_le)
  then have "inside (F32_Fin False m) (lo * 0.999999) (hi * 1.000001)"
    using m(3) up dn by (intro insideI) (auto simp: M_def field_simps)
  then show ?thesis using k0 by (simp add: k(1) m_def)
qed

section \<open>Sums\<close>

lemma inside_zero: "inside (F32_Fin False 0) 0 0"
  by (rule insideI) (simp_all add: f32_repr_def)

lemma inside_foldl_add:
  assumes "\<forall>x \<in> set xs. inside x 0 h" "inside a la ha" "of_nat (length xs) / 100000 \<le> la"
    and "ha + of_nat (length xs) * (h + 1 / 1000) \<le> 100" "0 \<le> h" "0 \<le> ha" "la \<le> 100"
  shows "inside (foldl f32_add a xs) (la - of_nat (length xs) / 100000) (ha + of_nat (length xs) * (h + 1 / 1000))"
  using assms
proof (induction xs arbitrary: a la ha)
  case Nil
  then show ?case by simp
next
  case (Cons x xs)
  let ?n = "real (length xs)"
  have n: "0 \<le> ?n * (h + 1 / 1000)" using Cons.prems(5) by simp
  have lens: "real (length (x # xs)) = ?n + 1" by simp
  have hb: "ha + ?n * (h + 1 / 1000) + (h + 1 / 1000) \<le> 100"
    using Cons.prems(4) unfolding lens by (simp add: algebra_simps add_divide_distrib)
  have la: "?n / 100000 + 1 / 100000 \<le> la" using Cons.prems(3) unfolding lens by (simp add: add_divide_distrib)
  have "inside (f32_add a x) ((la + 0) * (1 - ulp) - tiny) ((ha + h) * (1 + ulp) + tiny)"
  proof (rule inside_add)
    show "ha + h \<le> 2 ^ 100" using n hb by simp
  qed (use Cons.prems la in auto)
  moreover have "la - 1 / 100000 \<le> (la + 0) * (1 - ulp) - tiny"
    using Cons.prems(7) by (simp add: ulp_def tiny_def algebra_simps)
  moreover have "(ha + h) * (1 + ulp) + tiny \<le> ha + (h + 1 / 1000)"
  proof -
    have "ha + h \<le> 100" using hb n by linarith
    then have "(ha + h) * ulp \<le> 100 * ulp" by (intro mult_right_mono) (auto simp: ulp_def)
    moreover have "100 * ulp + tiny \<le> 1 / 1000" by (simp add: ulp_def tiny_def)
    moreover have "(ha + h) * (1 + ulp) = (ha + h) + (ha + h) * ulp" by (simp only: distrib_left mult_1_right)
    ultimately show ?thesis by linarith
  qed
  ultimately have i: "inside (f32_add a x) (la - 1 / 100000) (ha + (h + 1 / 1000))" by (rule inside_mono)
  have "inside (foldl f32_add (f32_add a x) xs) (la - 1 / 100000 - ?n / 100000)
      (ha + (h + 1 / 1000) + ?n * (h + 1 / 1000))"
    using Cons.prems hb la by (intro Cons.IH i) (auto simp: algebra_simps)
  moreover have "la - 1 / 100000 - ?n / 100000 = la - real (length (x # xs)) / 100000"
    unfolding lens by (simp add: add_divide_distrib)
  moreover have "ha + (h + 1 / 1000) + ?n * (h + 1 / 1000) = ha + real (length (x # xs)) * (h + 1 / 1000)"
    unfolding lens by (simp add: algebra_simps)
  ultimately show ?case by (simp only: foldl_Cons)
qed

section \<open>Clamping and comparing\<close>

lemma f32_cmp_nonneg: "f32_cmp (F32_Fin False k) (F32_Fin False l) = Some (sgn (k - l))"
  by simp

lemma inside_clamp:
  assumes "inside f lo hi" "0 \<le> lo" "lo \<le> 1"
  shows "inside (f32_clamp (F32_Fin False 0) (F32_Fin False (2 ^ 149)) f) lo hi"
proof -
  obtain k where k: "f = F32_Fin False k" "f32_repr k" "0 \<le> k" "lo \<le> of_int k / 2 ^ 149" "of_int k / 2 ^ 149 \<le> hi"
    using assms(1) by (rule insideE)
  have "\<not> f32_lt f (F32_Fin False 0)" using k(1,3) by (auto simp: f32_lt_def sgn_if)
  then have c: "f32_clamp (F32_Fin False 0) (F32_Fin False (2 ^ 149)) f
      = (if f32_lt (F32_Fin False (2 ^ 149)) f then F32_Fin False (2 ^ 149) else f)"
    by (simp add: f32_clamp_def Let_def)
  show ?thesis
  proof (cases "f32_lt (F32_Fin False (2 ^ 149)) f")
    case True
    then have "2 ^ 149 < k" using k(1) by (auto simp: f32_lt_def sgn_if split: if_splits)
    then have "real_of_int (2 ^ 149) < of_int k" by (simp only: of_int_less_iff)
    then have "1 \<le> hi" using k(5) by simp
    then have "inside (F32_Fin False (2 ^ 149)) lo hi"
      using assms(3) repr_nat [of 1] by (intro insideI) simp_all
    then show ?thesis using True c by simp
  next
    case False
    then show ?thesis using c assms(1) by simp
  qed
qed

lemma inside_pos_not_less:
  assumes "inside f lo hi" "inside g lo' hi'" "hi' < lo"
  shows "\<not> f32_lt f g"
proof -
  obtain k l where kl: "f = F32_Fin False k" "lo \<le> of_int k / 2 ^ 149" "g = F32_Fin False l" "of_int l / 2 ^ 149 \<le> hi'"
    using assms by (meson insideE)
  have "of_int l / (2 ^ 149 :: real) < of_int k / 2 ^ 149" using kl(2,4) assms(3) by linarith
  then have "real_of_int l < of_int k" by simp
  then have "l < k" by (simp only: of_int_less_iff)
  then show ?thesis by (simp add: kl(1,3) f32_lt_def)
qed

lemma inside_abs: "inside f lo hi \<Longrightarrow> f32_abs f = f"
  by (auto elim!: insideE)

lemma inside_max_zero: "inside f lo hi \<Longrightarrow> f32_max (f32_round_away f) (F32_Fin False 0) = f32_round_away f"
proof -
  assume "inside f lo hi"
  then obtain k where k: "f = F32_Fin False k" "0 \<le> k" by (rule insideE)
  then have "0 \<le> (2 * k + 2 ^ 149) div 2 ^ 150 * 2 ^ 149" by simp
  then show ?thesis using k by (auto simp: f32_max_def f32_lt_def sgn_if)
qed

end
