(* ===== verification/Packed_Facts.thy ===== *)
theory Packed_Facts
  imports Packed F32_Bounds
begin

text \<open>
  What the packed codec keeps. A string keeps its longest prefix over the alphabet, at most twelve
  characters of it; the rest of this theory bounds the rounding of every step, from the division
  in the encoder to the rounding in the decoder, also when the vector has been normalised and
  shifted by \<open>1e-6\<close> in between.
\<close>

section \<open>The alphabet\<close>

definition in_charset :: "char \<Rightarrow> bool" where
  "in_charset c \<longleftrightarrow> c \<in> set CHARSET"

definition stored_text :: "nat \<Rightarrow> string \<Rightarrow> string" where
  \<comment> \<open>what of a text fits\<close>
  "stored_text n s = take n (takeWhile in_charset s)"

lemma charset_table:
  "list_all (\<lambda>c. 0 < char_to_idx [c] \<and> char_to_idx [c] \<le> 66 \<and> idx_to_char (char_to_idx [c]) = c
     \<and> c \<noteq> CHR 0x00 \<and> \<not> is_high c) CHARSET"
  by code_simp

lemma in_charset_facts:
  assumes "in_charset c"
  shows "0 < char_to_idx [c]" "char_to_idx [c] \<le> 66" "idx_to_char (char_to_idx [c]) = c" "c \<noteq> CHR 0x00"
    "\<not> is_high c"
  using charset_table assms by (auto simp: list_all_iff in_charset_def)

lemma charset_index_le: "charset_index i xs c \<le> i + length xs"
  by (induction i xs c rule: charset_index.induct) auto

lemma char_to_idx_le: "char_to_idx c \<le> 66"
  using charset_index_le [of 0 CHARSET c] by (simp add: char_to_idx_def CHARSET_def)

lemma charset_index_none: "\<forall>x \<in> set xs. [x] \<noteq> c \<Longrightarrow> charset_index i xs c = 0"
  by (induction i xs c rule: charset_index.induct) auto

lemma char_to_idx_unknown: "(\<And>x. c = [x] \<Longrightarrow> \<not> in_charset x) \<Longrightarrow> char_to_idx c = 0"
  by (auto simp: char_to_idx_def in_charset_def intro!: charset_index_none)

lemma idx_to_char_0 [simp]: "idx_to_char 0 = CHR 0x00"
  by (simp add: idx_to_char_def)

section \<open>Strings as codes\<close>

fun pair_codes :: "nat \<Rightarrow> string list \<Rightarrow> nat list" where
  "pair_codes 0 cs = []"
| "pair_codes (Suc n) cs =
     (char_to_idx (char_at cs 0) * 67 + char_to_idx (char_at cs 1)) # pair_codes n (drop 2 cs)"

lemma pair_codes_length [simp]: "length (pair_codes n cs) = n"
  by (induction n arbitrary: cs) auto

lemma char_at_drop: "char_at (drop k cs) i = char_at cs (k + i)"
  by (auto simp: char_at_def)

lemma pair_codes_map:
  "pair_codes n cs = map (\<lambda>i. char_to_idx (char_at cs (i * 2)) * 67 + char_to_idx (char_at cs (i * 2 + 1))) [0..<n]"
proof (induction n arbitrary: cs)
  case (Suc n)
  have "[0..<Suc n] = 0 # map Suc [0..<n]" by (simp add: upt_conv_Cons map_Suc_upt)
  then show ?case using Suc [of "drop 2 cs"] by (simp add: char_at_drop)
qed simp

lemma encode_string_codes:
  "encode_string s n = map (\<lambda>v. f32_div (f32_of_nat v) MAX_ENCODED) (pair_codes n (chars s))"
  by (simp add: encode_string_def pair_codes_map encode_2chars_def CHARS_PER_FLOAT_def BASE_def)

lemma encode_string_length [simp]: "length (encode_string s n) = n"
  by (simp add: encode_string_codes)

lemma pair_codes_le: "\<forall>v \<in> set (pair_codes n cs). v \<le> 4488"
proof (induction n arbitrary: cs)
  case (Suc n)
  have "char_to_idx (char_at cs 0) * 67 \<le> 66 * 67" by (intro mult_right_mono char_to_idx_le) simp
  then show ?case using Suc char_to_idx_le [of "char_at cs 1"] by simp
qed simp

text \<open>How the characters of a text begin: with the character itself, or with one without a code.\<close>

lemma first_char_known: "in_charset c \<Longrightarrow> chars (c # s) = [c] # chars s"
  using in_charset_facts(5) [of c] by (simp add: utf8_len_def is_high_def)

lemma first_char_unknown:
  assumes "s = [] \<or> \<not> in_charset (hd s)"
  shows "char_to_idx (char_at (chars s) 0) = 0"
proof (cases s)
  case Nil
  then show ?thesis by (simp add: char_at_def char_to_idx_def)
next
  case (Cons c t)
  then have "\<not> in_charset c" using assms by simp
  then have "\<And>x. take (case utf8_len c of None \<Rightarrow> 1 | Some n \<Rightarrow> n) (c # t) = [x] \<Longrightarrow> \<not> in_charset x"
    by (auto simp: take_Cons split: nat.splits)
  then show ?thesis by (intro char_to_idx_unknown) (auto simp: Cons Let_def char_at_def)
qed

definition decodes :: "f32 \<Rightarrow> nat \<Rightarrow> bool" where
  \<comment> \<open>the value is read as the code of two characters\<close>
  "decodes f v \<longleftrightarrow> decode_2chars f = (idx_to_char (v div 67), idx_to_char (v mod 67))"

lemma decode_string_codes:
  assumes "list_all2 decodes fs (pair_codes n (chars s))"
  shows "decode_string fs = stored_text (2 * n) s"
  using assms
proof (induction n arbitrary: fs s)
  case 0
  then show ?case by (simp add: stored_text_def)
next
  case (Suc n)
  let ?a = "char_to_idx (char_at (chars s) 0)" and ?b = "char_to_idx (char_at (chars s) 1)"
  obtain f fs' where fs: "fs = f # fs'" "decodes f (?a * 67 + ?b)"
    "list_all2 decodes fs' (pair_codes n (drop 2 (chars s)))"
    using Suc.prems by (auto simp: list_all2_Cons2)
  have b: "?b \<le> 66" by (rule char_to_idx_le)
  then have d: "decode_2chars f = (idx_to_char ?a, idx_to_char ?b)"
    using fs(2) by (simp add: decodes_def)
  show ?case
  proof (cases "s = [] \<or> \<not> in_charset (hd s)")
    case True
    then have "?a = 0" by (rule first_char_unknown)
    moreover have "takeWhile in_charset s = []" using True by (cases s) auto
    ultimately show ?thesis using d by (simp add: fs(1) stored_text_def)
  next
    case False
    then obtain c t where c: "s = c # t" "in_charset c" by (cases s) auto
    have ch: "chars s = [c] # chars t" using c first_char_known by simp
    have a: "idx_to_char ?a = c" "c \<noteq> CHR 0x00" using in_charset_facts [OF c(2)] by (simp_all add: ch char_at_def)
    have bt: "?b = char_to_idx (char_at (chars t) 0)" by (simp add: ch char_at_def)
    show ?thesis
    proof (cases "t = [] \<or> \<not> in_charset (hd t)")
      case True
      then have "?b = 0" unfolding bt by (rule first_char_unknown)
      moreover have "takeWhile in_charset t = []" using True by (cases t) auto
      ultimately show ?thesis using d a c by (simp add: fs(1) stored_text_def)
    next
      case False
      then obtain e u where e: "t = e # u" "in_charset e" by (cases t) auto
      have cht: "chars t = [e] # chars u" using e first_char_known by simp
      have be: "idx_to_char ?b = e" "e \<noteq> CHR 0x00"
        using in_charset_facts [OF e(2)] unfolding bt by (simp_all add: cht char_at_def)
      have "drop 2 (chars s) = chars u" by (simp add: ch cht)
      then have "decode_string fs' = stored_text (2 * n) u" using Suc.IH fs(3) by simp
      then show ?thesis using d a be c e by (simp add: fs(1) stored_text_def)
    qed
  qed
qed

section \<open>Reading a slot back\<close>

definition slack :: real where "slack = 1 / 20000"

definition reads :: "f32 \<Rightarrow> nat \<Rightarrow> nat \<Rightarrow> bool" where
  \<comment> \<open>the value is close to \<open>v / m\<close>\<close>
  "reads f v m \<longleftrightarrow> inside f (max 0 (of_nat v / of_nat m - slack)) (of_nat v / of_nat m + slack)"

lemma reads_closeI: "inside f lo hi \<Longrightarrow> of_nat v / of_nat m - slack \<le> lo \<Longrightarrow> hi \<le> of_nat v / of_nat m + slack \<Longrightarrow> reads f v m"
  unfolding reads_def by (rule inside_mono [OF inside_nonneg]) auto

lemma reads_times:
  assumes "reads f v m" "v \<le> m" "0 < m" "m \<le> 6000" "v < 2 ^ w"
  shows "f32_to_uint w (f32_round_away (f32_mul f (f32_of_nat m))) = v"
    and "\<exists>lo hi. inside (f32_mul f (f32_of_nat m)) lo hi"
proof -
  define x where "x = real v / real m"
  have m: "0 < real m" "real m \<le> 6000" using assms(3,4) by simp_all
  have x: "0 \<le> x" "x \<le> 1" "x * real m = real v" using assms(2,3) by (simp_all add: x_def)
  have f: "inside f (max 0 (x - slack)) (x + slack)" using assms(1) by (simp add: reads_def x_def)
  have "(x + slack) * real m \<le> 2 * 6000" using x m by (intro mult_mono) (auto simp: slack_def)
  then have i: "inside (f32_mul f (f32_of_nat m)) (max 0 (x - slack) * real m * (1 - ulp) - tiny)
      ((x + slack) * real m * (1 + ulp) + tiny)"
    using f assms(3,4) by (intro inside_mul inside_of_nat) auto
  then show "\<exists>lo hi. inside (f32_mul f (f32_of_nat m)) lo hi" by blast
  have hi: "(x + slack) * real m * (1 + ulp) + tiny < real v + 1 / 2"
  proof -
    have "(x + slack) * real m = real v + real m / 20000" using x(3) by (simp add: slack_def algebra_simps)
    moreover have "(real v + real m / 20000) * ulp \<le> 6001 * ulp"
      using assms(2) m by (intro mult_right_mono) (auto simp: ulp_def)
    moreover have "6001 * ulp + tiny < 1 / 10" by (simp add: ulp_def tiny_def)
    ultimately show ?thesis using m(2) by (simp add: distrib_left)
  qed
  have lo: "real v - 1 / 2 < max 0 (x - slack) * real m * (1 - ulp) - tiny"
  proof -
    have "(x - slack) * real m = real v - real m / 20000" using x(3) by (simp add: slack_def algebra_simps)
    moreover have "(x - slack) * real m \<le> max 0 (x - slack) * real m" using m by (intro mult_right_mono) auto
    ultimately have a: "real v - real m / 20000 \<le> max 0 (x - slack) * real m" by simp
    have "max 0 (x - slack) * real m \<le> 1 * real m" using x m by (intro mult_right_mono) (auto simp: slack_def)
    then have "max 0 (x - slack) * real m \<le> 6000" using m by linarith
    then have "max 0 (x - slack) * real m * ulp \<le> 6000 * ulp" by (intro mult_right_mono) (auto simp: ulp_def)
    moreover have "6000 * ulp + tiny < 1 / 10" by (simp add: ulp_def tiny_def)
    ultimately show ?thesis using a m(2) by (simp add: right_diff_distrib)
  qed
  show "f32_to_uint w (f32_round_away (f32_mul f (f32_of_nat m))) = v"
    using i lo hi assms(5) by (rule inside_to_nat)
qed

lemma zero_one_fin: "f32_zero = F32_Fin False 0" "f32_one = F32_Fin False (2 ^ 149)"
  by (simp_all add: f32_zero_def f32_one_def)

lemma reads_decodes:
  assumes "reads f v 4488" "v \<le> 4488"
  shows "decodes f v"
proof -
  have x: "real v / 4488 \<le> 1" using assms(2) by simp
  have "inside (f32_clamp f32_zero f32_one f) (max 0 (real v / 4488 - slack)) (real v / 4488 + slack)"
    unfolding zero_one_fin using assms(1) x by (intro inside_clamp) (auto simp: reads_def slack_def)
  then have "reads (f32_clamp f32_zero f32_one f) v 4488" by (simp add: reads_def)
  then have "f32_to_uint 64 (f32_round_away (f32_mul (f32_clamp f32_zero f32_one f) (f32_of_nat 4488))) = v"
    using assms(2) by (intro reads_times) auto
  moreover have "v div 67 < 67" using assms(2) by simp
  ultimately show ?thesis by (simp add: decodes_def decode_2chars_def MAX_ENCODED_def BASE_def Let_def)
qed

lemma reads_max_zero:
  assumes "reads f v m" "v \<le> m" "0 < m" "m \<le> 6000" "v < 2 ^ w"
  shows "f32_to_uint w (f32_max (f32_round_away (f32_mul f (f32_of_nat m))) f32_zero) = v"
  using reads_times [OF assms] inside_max_zero by (auto simp: zero_one_fin)

lemma reads_unpack: "reads f v 5323 \<Longrightarrow> v \<le> 5323 \<Longrightarrow> unpack_args f = unpack_code v"
  by (simp add: unpack_args_def MAX_PACKED_ARGS_def reads_max_zero)

lemma unpack_packed:
  assumes "n \<le> 3" "length ts = 3" "\<forall>t \<in> set ts. t \<le> 10"
  shows "unpack_code (packed_code n ts) = (n, ts)" "packed_code n ts \<le> 5323"
proof -
  obtain a b c where ts: "ts = [a, b, c]" using assms(2) by (auto simp: numeral_3_eq_3 length_Suc_conv)
  have abc: "a \<le> 10" "b \<le> 10" "c \<le> 10" using assms(3) by (simp_all add: ts)
  have p: "packed_code n ts = n * 1331 + (a * 121 + b * 11 + c)" by (simp add: packed_code_def code_at_def ts)
  have r: "a * 121 + b * 11 + c < 1331" using abc by simp
  have "packed_code n ts div 1331 = n" "packed_code n ts mod 1331 = a * 121 + b * 11 + c"
    unfolding p using r by simp_all
  moreover have "(a * 121 + b * 11 + c) div 121 = a"
  proof -
    have "b * 11 + c < 121" using abc by simp
    then have "((b * 11 + c) + a * 121) div 121 = a" by simp
    then show ?thesis by (simp only: add_ac)
  qed
  moreover have "(a * 121 + b * 11 + c) div 11 mod 11 = b"
  proof -
    have "(c + (a * 11 + b) * 11) div 11 = a * 11 + b" using abc by simp
    then have "(a * 121 + b * 11 + c) div 11 = a * 11 + b" by (simp add: algebra_simps)
    then show ?thesis using abc by simp
  qed
  moreover have "(a * 121 + b * 11 + c) mod 11 = c"
  proof -
    have e: "a * 121 + b * 11 + c = c + (a * 11 + b) * 11" by simp
    have "c mod 11 = c" using abc by simp
    then show ?thesis unfolding e by (simp only: mod_mult_self1)
  qed
  ultimately show "unpack_code (packed_code n ts) = (n, ts)" using assms(1) by (simp add: unpack_code_def ts)
  show "packed_code n ts \<le> 5323" using assms(1) abc by (simp add: p)
qed

end
