(* ===== verification/Packed_Slots.thy ===== *)
theory Packed_Slots
  imports Packed_Facts
begin

text \<open>
  The slots of an encoded vector, and the decoder on any vector whose slots are close to them. What
  the decoder then returns is \<open>packed_reference\<close>, which says in terms of nodes what the codec keeps.
\<close>

section \<open>The reference\<close>

fun all_ok :: "('e + 'a) list \<Rightarrow> 'e + 'a list" where
  \<comment> \<open>the first error, or every value\<close>
  "all_ok [] = Inr []"
| "all_ok (x # xs) = bindr x (\<lambda>v. bindr (all_ok xs) (\<lambda>vs. Inr (v # vs)))"

definition kept_term :: "chrono \<Rightarrow> trm \<Rightarrow> latent_error + trm" where
  "kept_term C t =
     (let (v, tc) = term_value_string C t; w = stored_text 12 v in
      reconstruct_term C (if w = [] then ''UNKNOWN'' else w) tc)"

definition kept_head :: "registry \<Rightarrow> predicate_head \<Rightarrow> latent_error + string" where
  "kept_head r h =
     (case lookup_id r (word_of_nat (head_to_index r h)) of
        None \<Rightarrow> Inl (DecodeError (MsgMorphemeIndex (head_to_index r h)))
      | Some d \<Rightarrow> Inr (md_name d))"

definition kept_predicate :: "chrono \<Rightarrow> registry \<Rightarrow> predicate \<Rightarrow> latent_error + predicate" where
  "kept_predicate C r p =
     bindr (kept_head r (pr_head p)) (\<lambda>nm.
     bindr (all_ok (map (kept_term C) (take 3 (pr_args p)))) (\<lambda>args.
       Inr (Predicate (HeadName nm) args [])))"

section \<open>The slots\<close>

definition type_codes :: "chrono \<Rightarrow> trm list \<Rightarrow> nat list" where
  "type_codes C args = map (\<lambda>i. if i < length args then snd (term_value_string C (args ! i)) else 0) [0..<3]"

definition write_arg :: "chrono \<Rightarrow> trm list \<Rightarrow> nat \<Rightarrow> f32 list \<Rightarrow> f32 list" where
  "write_arg C args i d =
     (if i < length args
      then write_floats (arg_offset i) (encode_string (fst (term_value_string C (args ! i))) 6) d else d)"

lemma write_arg_length [simp]: "length (write_arg C args i d) = length d"
  by (simp add: write_arg_def)

lemma three: "[0..<3] = [0, 1, 2::nat]"
  by (simp add: upt_rec)

lemma fold_encode_arg:
  "fold (encode_arg C args) [0..<3] (d, []) =
   (write_arg C args 2 (write_arg C args 1 (write_arg C args 0 d)), type_codes C args)"
  by (simp add: three type_codes_def encode_arg_def write_arg_def ARG_FLOATS_def case_prod_unfold Let_def)

definition named_value :: "chrono \<Rightarrow> predicate \<Rightarrow> f32" where
  "named_value C p =
     (case pr_named p of
        [] \<Rightarrow> f32_zero
      | (_, v) # _ \<Rightarrow> f32_add f32_one (f32_div (f32_of_nat (snd (term_value_string C v))) (f32_of_nat 100)))"

lemma encode_predicate_slots:
  "encode_predicate C r n d =
   (write_arg C (pr_args (nd_pred n)) 2 (write_arg C (pr_args (nd_pred n)) 1 (write_arg C (pr_args (nd_pred n)) 0
     (d[1 := f32_div (f32_of_nat (head_to_index r (pr_head (nd_pred n)))) MAX_MORPHEMES]))))
   [2 := pack_args (min (length (pr_args (nd_pred n))) 3) (type_codes C (pr_args (nd_pred n))),
    21 := named_value C (nd_pred n), 22 := nd_conf n, 23 := nd_auth n]"
  by (simp add: encode_predicate_def Let_def fold_encode_arg named_value_def OFF_HEAD_INDEX_def
      OFF_PACKED_ARGS_def OFF_NAMED_def OFF_CONFIDENCE_def OFF_AUTHORITY_def case_prod_unfold)

definition encoded :: "chrono \<Rightarrow> registry \<Rightarrow> node \<Rightarrow> f32 list" where
  "encoded C r n = encode_predicate C r n ((replicate 24 f32_zero)[0 := f32_one])"

lemma encoded_length [simp]: "length (encoded C r n) = 24"
  by (simp add: encoded_def encode_predicate_slots)

lemma encode_node_encoded:
  "packed_encode_node H C r n =
   Inr \<lparr>er_vector = \<lparr>tv_data = encoded C r n, tv_dim = 24\<rparr>, er_source_hash = H (canonical C n)\<rparr>"
  by (simp add: packed_encode_node_def encoded_def PACKED_CODEC_DIM_def OFF_SCALE_REF_def
      packed_content_hash_def)

lemma arg_offset_simps: "arg_offset 0 = 3" "arg_offset 1 = 9" "arg_offset (Suc 0) = 9" "arg_offset 2 = 15"
  by (simp_all add: arg_offset_def)

lemma write_arg_nth:
  "i < length d \<Longrightarrow> i < arg_offset k \<or> arg_offset k + 6 \<le> i \<Longrightarrow> write_arg C args k d ! i = d ! i"
  by (auto simp: write_arg_def write_floats_nth)

lemma write_arg_slot:
  assumes "k < length args" "j < 6" "arg_offset k + 6 \<le> length d"
  shows "write_arg C args k d ! (arg_offset k + j) =
    f32_div (f32_of_nat (pair_codes 6 (chars (fst (term_value_string C (args ! k)))) ! j)) MAX_ENCODED"
  using assms by (simp add: write_arg_def write_floats_nth encode_string_codes)

lemma encoded_slots:
  "encoded C r n ! 0 = f32_one"
  "encoded C r n ! 1 = f32_div (f32_of_nat (head_to_index r (pr_head (nd_pred n)))) MAX_MORPHEMES"
  "encoded C r n ! 2 = f32_div (f32_of_nat (packed_code (min (length (pr_args (nd_pred n))) 3)
     (type_codes C (pr_args (nd_pred n))))) MAX_PACKED_ARGS"
  "encoded C r n ! 22 = nd_conf n"
  "encoded C r n ! 23 = nd_auth n"
  by (simp_all add: encoded_def encode_predicate_slots write_arg_nth arg_offset_simps pack_args_def)

lemma encoded_arg:
  assumes "k < 3" "k < length (pr_args (nd_pred n))" "j < 6"
  shows "encoded C r n ! (arg_offset k + j) =
    f32_div (f32_of_nat (pair_codes 6 (chars (fst (term_value_string C (pr_args (nd_pred n) ! k)))) ! j)) MAX_ENCODED"
proof -
  have "k = 0 \<or> k = 1 \<or> k = 2" using assms(1) by auto
  then show ?thesis
    using write_arg_slot [of k "pr_args (nd_pred n)" j] assms(2,3)
    by (elim disjE) (simp_all add: encoded_def encode_predicate_slots write_arg_nth arg_offset_simps nth_list_update)
qed

section \<open>The decoder on close slots\<close>

lemma type_code_bounds: "0 < snd (term_value_string C t)" "snd (term_value_string C t) \<le> 10"
  by (cases t; auto split: literal.splits)+

lemma type_codes_facts:
  "length (type_codes C args) = 3" "\<forall>t \<in> set (type_codes C args). t \<le> 10"
  "i < 3 \<Longrightarrow> i < length args \<Longrightarrow> type_codes C args ! i = snd (term_value_string C (args ! i))"
  using type_code_bounds(2) by (auto simp: type_codes_def)

definition close_to :: "chrono \<Rightarrow> trm list \<Rightarrow> f32 list \<Rightarrow> bool" where
  \<comment> \<open>the argument slots are close to the codes of the arguments' texts\<close>
  "close_to C args d \<longleftrightarrow>
     \<not> scale_lost d \<and>
     reads (recover_value d 2) (packed_code (min (length args) 3) (type_codes C args)) 5323 \<and>
     (\<forall>k < 3. k < length args \<longrightarrow> (\<forall>j < 6.
        reads (f32_div (d ! (arg_offset k + j)) (d ! 0))
          (pair_codes 6 (chars (fst (term_value_string C (args ! k)))) ! j) 4488))"

lemma close_slice:
  assumes "close_to C args d" "k < 3" "k < length args"
  shows "decode_string_slice d (arg_offset k) 6 = stored_text 12 (fst (term_value_string C (args ! k)))"
proof -
  let ?s = "fst (term_value_string C (args ! k))"
  have "list_all2 decodes (map (\<lambda>i. f32_div (d ! (arg_offset k + i)) (d ! 0)) [0..<6]) (pair_codes 6 (chars ?s))"
    unfolding list_all2_conv_all_nth
  proof (intro conjI allI impI)
    fix j assume "j < length (map (\<lambda>i. f32_div (d ! (arg_offset k + i)) (d ! 0)) [0..<6])"
    then have j: "j < 6" by simp
    have "pair_codes 6 (chars ?s) ! j \<le> 4488" using pair_codes_le j by (metis nth_mem pair_codes_length)
    then show "decodes (map (\<lambda>i. f32_div (d ! (arg_offset k + i)) (d ! 0)) [0..<6] ! j) (pair_codes 6 (chars ?s) ! j)"
      using assms j by (auto simp: close_to_def intro!: reads_decodes)
  qed simp
  then have "decode_string (map (\<lambda>i. f32_div (d ! (arg_offset k + i)) (d ! 0)) [0..<6]) = stored_text (2 * 6) ?s"
    by (rule decode_string_codes)
  then show ?thesis using assms(1) by (simp add: decode_string_slice_def close_to_def OFF_SCALE_REF_def)
qed

lemma close_args:
  assumes "close_to C args d" "\<forall>i \<in> set is. i < 3 \<and> i < length args"
  shows "decode_args C d (type_codes C args) is = all_ok (map (\<lambda>i. kept_term C (args ! i)) is)"
  using assms(2)
proof (induction "is")
  case (Cons i "is")
  have "type_codes C args ! i = snd (term_value_string C (args ! i))" using Cons.prems by (simp add: type_codes_facts)
  moreover have "decode_string_slice d (arg_offset i) ARG_FLOATS = stored_text 12 (fst (term_value_string C (args ! i)))"
    unfolding ARG_FLOATS_def using assms(1) Cons.prems by (intro close_slice) auto
  ultimately show ?case
    using Cons type_code_bounds(1) [of C "args ! i"]
    by (simp add: kept_term_def case_prod_unfold Let_def del: bindr_eq_Inr)
qed simp

lemma close_decodes:
  assumes "close_to C (pr_args p) d" "decode_head r d = kept_head r (pr_head p)"
  shows "decode_predicate C r d = kept_predicate C r p"
proof -
  let ?args = "pr_args p"
  let ?v = "packed_code (min (length ?args) 3) (type_codes C ?args)"
  have v: "unpack_code ?v = (min (length ?args) 3, type_codes C ?args)" "?v \<le> 5323"
    using unpack_packed [OF _ type_codes_facts(1,2), of "min (length ?args) 3"] by simp_all
  have "reads (recover_value d 2) ?v 5323" using assms(1) unfolding close_to_def by blast
  then have "unpack_args (recover_value d 2) = unpack_code ?v" using v(2) by (rule reads_unpack)
  then have "unpack_args (recover_value d OFF_PACKED_ARGS) = (min (length ?args) 3, type_codes C ?args)"
    by (simp only: v(1) OFF_PACKED_ARGS_def)
  moreover have "map (\<lambda>i. kept_term C (?args ! i)) [0..<min (length ?args) 3] = map (kept_term C) (take 3 ?args)"
    by (rule nth_equalityI) auto
  ultimately show ?thesis
    using assms close_args [OF assms(1), of "[0..<min (length ?args) 3]"]
    by (simp add: decode_predicate_def kept_predicate_def with_args_def predicate_new_def del: bindr_eq_Inr)
qed

end
