(* ===== verification/Packed_Gate.thy ===== *)
theory Packed_Gate
  imports Packed_Slots
begin

text \<open>
  The two ways a packed vector reaches the decoder: as the encoder wrote it, and after the latent
  operation of the benchmark, normalised to unit length and shifted by \<open>1e-6\<close> in every place. In
  both the slots stay close to what was written.
\<close>

definition noise :: f32 where
  \<comment> \<open>\<open>1e-6\<close>\<close>
  "noise = f32_lit 1 6"

definition latent_operation :: "thought_vector \<Rightarrow> thought_vector" where
  "latent_operation v = tv_from_vec (map (\<lambda>x. f32_add x noise) (tv_data (tv_normalize v)))"

section \<open>Constants\<close>

lemma inside_lit:
  "0 < n \<Longrightarrow> of_int n / 10 ^ p \<le> (2 ^ 100 :: real) \<Longrightarrow>
   inside (f32_lit n p) (of_int n / 10 ^ p * (1 - ulp) - tiny) (of_int n / 10 ^ p * (1 + ulp) + tiny)"
  unfolding f32_lit_def f32_of_dec_def by (rule inside_round) simp_all

lemma noise_bounds: "inside noise (9 / 10 ^ 7) (11 / 10 ^ 7)"
  unfolding noise_def by (rule inside_mono [OF inside_lit]) (simp_all add: ulp_def tiny_def)

lemma norm_floor_bounds: "inside norm_floor 0 (2 / 10 ^ 10)"
  unfolding norm_floor_def by (rule inside_mono [OF inside_lit]) (simp_all add: ulp_def tiny_def)

lemma one_bounds: "inside f32_one 1 1"
  unfolding zero_one_fin using repr_nat [of 1] by (intro insideI) simp_all

lemma not_scale_lost: "inside (d ! 0) lo hi \<Longrightarrow> 1 / 100 \<le> lo \<Longrightarrow> \<not> scale_lost d"
  unfolding scale_lost_def OFF_SCALE_REF_def
  using inside_abs inside_pos_not_less [OF _ norm_floor_bounds, of "d ! 0" lo hi] by simp

lemma small_eps: "0 \<le> ulp" "ulp \<le> 1 / 10 ^ 7" "0 \<le> tiny" "tiny \<le> 1 / 10 ^ 20" "ulp < 1"
  by (simp_all add: ulp_def tiny_def)

lemma small_squares: "ulp * ulp \<le> ulp" "tiny * ulp \<le> tiny" "0 \<le> tiny * ulp" "0 \<le> ulp * ulp"
  by (simp_all add: ulp_def tiny_def)

text \<open>A slot as the encoder writes it.\<close>

lemma slot_bounds:
  assumes "v \<le> 2 ^ 20" "0 < m" "m \<le> 6000"
  shows "inside (f32_div (f32_of_nat v) (f32_of_nat m))
    (max 0 (of_nat v / of_nat m * (1 - ulp) - tiny)) (of_nat v / of_nat m * (1 + ulp) + tiny)"
proof -
  have "real v \<le> real (2 ^ 20)" using assms(1) by (simp only: of_nat_le_iff)
  moreover have "real v / real m \<le> real v / 1" using assms(2) by (intro divide_left_mono) auto
  ultimately have "real v / real m \<le> 2 ^ 100" by simp
  then show ?thesis
    using assms by (intro inside_nonneg inside_div inside_of_nat) auto
qed

section \<open>As written\<close>

lemma over_one:
  assumes "inside a (max 0 (x * (1 - ulp) - tiny)) (x * (1 + ulp) + tiny)" "0 \<le> x" "x \<le> 2 ^ 20"
  shows "inside (f32_div a f32_one) (x * (1 - 2 * ulp) - 2 * tiny) (x * (1 + 3 * ulp) + 3 * tiny)"
proof -
  let ?lo = "max 0 (x * (1 - ulp) - tiny)" and ?hi = "x * (1 + ulp) + tiny"
  have "x * (1 + ulp) \<le> 2 ^ 20 * 2" using assms(2,3) small_eps by (intro mult_mono) auto
  then have b: "?hi / 1 \<le> 2 ^ 100" using small_eps(4) by simp
  have d: "inside (f32_div a f32_one) (?lo / 1 * (1 - ulp) - tiny) (?hi / 1 * (1 + ulp) + tiny)"
    using b by (intro inside_div [OF assms(1) one_bounds]) auto
  have u: "0 \<le> x * ulp" "0 \<le> x * (ulp * ulp)" "x * (ulp * ulp) \<le> x * ulp"
    using mult_nonneg_nonneg [OF assms(2) small_eps(1)] mult_nonneg_nonneg [OF assms(2) small_squares(4)]
      mult_left_mono [OF small_squares(1) assms(2)] by simp_all
  have "(x * (1 - ulp) - tiny) * (1 - ulp) - tiny = x - 2 * (x * ulp) + x * (ulp * ulp) - tiny + tiny * ulp - tiny"
    "x * (1 - 2 * ulp) - 2 * tiny = x - 2 * (x * ulp) - 2 * tiny" by (simp_all add: algebra_simps)
  then have "x * (1 - 2 * ulp) - 2 * tiny \<le> (x * (1 - ulp) - tiny) * (1 - ulp) - tiny"
    using u(2) small_squares(3) by linarith
  also have "\<dots> \<le> ?lo * (1 - ulp) - tiny" using small_eps by (intro diff_right_mono mult_right_mono) auto
  finally have lo: "x * (1 - 2 * ulp) - 2 * tiny \<le> ?lo / 1 * (1 - ulp) - tiny" by (simp only: div_by_1)
  have "?hi * (1 + ulp) = x + 2 * (x * ulp) + x * (ulp * ulp) + tiny + tiny * ulp" by (simp add: algebra_simps)
  then have hi: "?hi / 1 * (1 + ulp) + tiny \<le> x * (1 + 3 * ulp) + 3 * tiny" using u small_squares by (simp add: algebra_simps)
  show ?thesis using inside_mono [OF d lo hi] .
qed

lemma reads_clean:
  assumes "v \<le> m" "0 < m" "m \<le> 6000"
  shows "reads (f32_div (f32_div (f32_of_nat v) (f32_of_nat m)) f32_one) v m"
proof -
  define x where "x = real v / real m"
  have x: "0 \<le> x" "x \<le> 1" using assms by (simp_all add: x_def)
  have u: "0 \<le> x * ulp" "x * ulp \<le> 1 * ulp" 
    using mult_nonneg_nonneg [OF x(1) small_eps(1)] mult_right_mono [OF x(2) small_eps(1)] by simp_all
  have i: "inside (f32_div (f32_div (f32_of_nat v) (f32_of_nat m)) f32_one)
      (x * (1 - 2 * ulp) - 2 * tiny) (x * (1 + 3 * ulp) + 3 * tiny)"
  proof (rule over_one)
    show "inside (f32_div (f32_of_nat v) (f32_of_nat m)) (max 0 (x * (1 - ulp) - tiny)) (x * (1 + ulp) + tiny)"
      using slot_bounds [of v m] assms by (simp add: x_def)
  qed (use x in simp_all)
  have "x - slack \<le> x * (1 - 2 * ulp) - 2 * tiny" "x * (1 + 3 * ulp) + 3 * tiny \<le> x + slack"
    using u small_eps by (simp_all add: slack_def algebra_simps)
  then show ?thesis unfolding x_def by (rule reads_closeI [OF i [unfolded x_def]])
qed

lemma reads_head_clean:
  assumes "v < 2 ^ 20"
  shows "f32_to_uint 64 (f32_max (f32_round_away
    (f32_mul (f32_div (f32_div (f32_of_nat v) MAX_MORPHEMES) f32_one) MAX_MORPHEMES)) f32_zero) = v"
proof -
  define x where "x = real v / 300"
  have v: "x * 300 = real v" by (simp add: x_def)
  have "real v \<le> real (2 ^ 20)" using assms by (simp only: of_nat_le_iff less_imp_le)
  then have v20: "real v \<le> 2 ^ 20" by simp
  have x: "0 \<le> x" "x \<le> 2 ^ 20" using v20 by (simp_all add: x_def)
  let ?f = "f32_div (f32_div (f32_of_nat v) (f32_of_nat 300)) f32_one"
  let ?lo = "max 0 (x * (1 - 2 * ulp) - 2 * tiny)" and ?hi = "x * (1 + 3 * ulp) + 3 * tiny"
  have f: "inside ?f ?lo ?hi"
  proof (rule inside_nonneg [OF over_one])
    show "inside (f32_div (f32_of_nat v) (f32_of_nat 300)) (max 0 (x * (1 - ulp) - tiny)) (x * (1 + ulp) + tiny)"
      using slot_bounds [of v 300] assms by (simp add: x_def)
  qed (rule x)+
  have ux: "0 \<le> real v * ulp" "real v * ulp \<le> 1 / 16"
    using v20 small_eps(1) mult_right_mono [OF v20, of ulp] by (simp_all add: ulp_def)
  have "?hi * 300 = real v + 3 * (real v * ulp) + 900 * tiny" using v by (simp add: algebra_simps)
  then have h: "?hi * 300 \<le> real v + 1 / 5" using ux small_eps by simp
  have "(x * (1 - 2 * ulp) - 2 * tiny) * 300 = real v - 2 * (real v * ulp) - 600 * tiny"
    using v by (simp add: algebra_simps)
  then have l: "real v - 1 / 5 \<le> ?lo * 300" using ux small_eps by (simp add: max_def algebra_simps)
  have l2: "?lo * 300 \<le> real v + 1 / 5"
    using v ux small_eps x by (simp add: max_def algebra_simps)
  have m: "inside (f32_mul ?f (f32_of_nat 300)) (?lo * 300 * (1 - ulp) - tiny) (?hi * 300 * (1 + ulp) + tiny)"
    using f h v20 inside_of_nat [of 300] by (intro inside_mul) auto
  have c: "(real v + 1 / 5) * ulp \<le> 1 / 10"
    using ux(2) small_eps by (simp add: distrib_right)
  have "?hi * 300 * ulp \<le> (real v + 1 / 5) * ulp" using h small_eps by (intro mult_right_mono) auto
  then have hi: "?hi * 300 * (1 + ulp) + tiny < real v + 1 / 2"
    using h c small_eps by (simp add: distrib_left)
  have "?lo * 300 * ulp \<le> (real v + 1 / 5) * ulp" using l2 small_eps by (intro mult_right_mono) auto
  then have lo: "real v - 1 / 2 < ?lo * 300 * (1 - ulp) - tiny"
    using l c small_eps by (simp add: right_diff_distrib)
  have "f32_to_uint 64 (f32_round_away (f32_mul ?f (f32_of_nat 300))) = v"
    using m lo hi assms by (intro inside_to_nat) auto
  then show ?thesis using inside_max_zero [OF m] by (simp add: MAX_MORPHEMES_def zero_one_fin)
qed

section \<open>After the latent operation\<close>

lemma shifted_bounds:
  assumes a: "inside a (max 0 (x * (1 - ulp) - tiny)) (x * (1 + ulp) + tiny)" and x: "0 \<le> x" "x \<le> 1"
    and N: "inside N \<nu> \<nu>" "9 / 10 \<le> \<nu>" and w: "inside noise w w" "0 \<le> w" "w \<le> 1 / 100"
  shows "inside (f32_add (f32_div a N) noise) (x / \<nu> + w - 5 / 10 ^ 7) (x / \<nu> + w + 5 / 10 ^ 7)"
proof -
  define y where "y = 1 / \<nu>"
  define p where "p = x * y"
  have y: "0 < y" "y \<le> 10 / 9" using N(2) by (simp_all add: y_def field_simps)
  have p: "0 \<le> p" "p \<le> 10 / 9"
    using x y mult_mono [OF x(2) y(2)] by (simp_all add: p_def)
  let ?la = "max 0 (x * (1 - ulp) - tiny)" and ?ha = "x * (1 + ulp) + tiny"
  have up: "ulp * p \<le> 12 / 10 ^ 8" "0 \<le> ulp * p"
    using mult_mono [OF small_eps(2) p(2)] p(1) small_eps(1) by simp_all
  have uup: "ulp * (ulp * p) \<le> 1 / 10 ^ 10" "0 \<le> ulp * (ulp * p)"
    using mult_mono [OF small_eps(2) up(1)] up(2) small_eps(1) by simp_all
  have ty: "tiny * y \<le> 2 / 10 ^ 20" "0 \<le> tiny * y"
    using mult_mono [OF small_eps(4) y(2)] y(1) small_eps(3) by simp_all
  have uty: "ulp * (tiny * y) \<le> 1 / 10 ^ 20" "0 \<le> ulp * (tiny * y)"
    using mult_mono [OF small_eps(2) ty(1)] ty(2) small_eps(1) by simp_all
  have hay: "?ha / \<nu> = p + ulp * p + tiny * y" by (simp add: p_def y_def algebra_simps add_divide_distrib diff_divide_distrib)
  have d: "inside (f32_div a N) (?la / \<nu> * (1 - ulp) - tiny) (?ha / \<nu> * (1 + ulp) + tiny)"
    using N(2) p(2) up ty by (intro inside_div [OF a N(1)]) (simp_all add: hay)
  have "?ha / \<nu> * (1 + ulp) + tiny = p + 2 * (ulp * p) + ulp * (ulp * p) + tiny * y + ulp * (tiny * y) + tiny"
    unfolding hay by (simp add: algebra_simps)
  then have hi: "?ha / \<nu> * (1 + ulp) + tiny \<le> p + 3 / 10 ^ 7" using up uup ty uty small_eps(4) by simp
  have "(x * (1 - ulp) - tiny) / \<nu> * (1 - ulp) \<le> ?la / \<nu> * (1 - ulp)"
    using N(2) small_eps by (intro mult_right_mono divide_right_mono) auto
  moreover have "(x * (1 - ulp) - tiny) / \<nu> * (1 - ulp) = (p - ulp * p - tiny * y) * (1 - ulp)"
    by (simp add: p_def y_def algebra_simps diff_divide_distrib add_divide_distrib)
  moreover have "(p - ulp * p - tiny * y) * (1 - ulp)
      = p - 2 * (ulp * p) + ulp * (ulp * p) - tiny * y + ulp * (tiny * y)" by (simp add: algebra_simps)
  ultimately have lo: "p - 3 / 10 ^ 7 \<le> ?la / \<nu> * (1 - ulp) - tiny"
    using up uup ty uty small_eps(4) by simp
  have q: "inside (f32_div a N) (max 0 (p - 3 / 10 ^ 7)) (p + 3 / 10 ^ 7)"
    by (rule inside_nonneg [OF inside_mono [OF d lo hi]])
  have r: "inside (f32_add (f32_div a N) noise) ((max 0 (p - 3 / 10 ^ 7) + w) * (1 - ulp) - tiny)
      ((p + 3 / 10 ^ 7 + w) * (1 + ulp) + tiny)"
    using p w by (intro inside_add [OF q w(1)]) auto
  have "(p + 3 / 10 ^ 7 + w) * ulp \<le> 12 / 10 * (1 / 10 ^ 7)"
    using p w small_eps by (intro mult_mono) auto
  then have h2: "(p + 3 / 10 ^ 7 + w) * (1 + ulp) + tiny \<le> p + w + 5 / 10 ^ 7"
    using small_eps(4) by (simp add: distrib_left)
  have "max 0 (p - 3 / 10 ^ 7) + w \<le> 12 / 10" using p w by (simp add: max_def)
  then have "(max 0 (p - 3 / 10 ^ 7) + w) * ulp \<le> 12 / 10 * (1 / 10 ^ 7)"
    using w small_eps by (intro mult_mono) auto
  then have l2: "p + w - 5 / 10 ^ 7 \<le> (max 0 (p - 3 / 10 ^ 7) + w) * (1 - ulp) - tiny"
    using small_eps(4) by (simp add: right_diff_distrib)
  have "x / \<nu> = p" by (simp add: p_def y_def)
  then show ?thesis using inside_mono [OF r l2 h2] by simp
qed

lemma quotient_reads:
  assumes b: "inside b (x * y + w - 5 / 10 ^ 7) (x * y + w + 5 / 10 ^ 7)"
    and s: "inside s (y + w - 5 / 10 ^ 7) (y + w + 5 / 10 ^ 7)"
    and x: "0 \<le> x" "x \<le> 1" and y: "1 / 6 \<le> y" "y \<le> 10 / 9" and w: "0 \<le> w" "w \<le> 11 / 10 ^ 7"
  shows "inside (f32_div b s) (x - slack) (x + slack)"
proof -
  let ?bl = "max 0 (x * y + w - 5 / 10 ^ 7)" and ?bh = "x * y + w + 5 / 10 ^ 7"
  let ?sl = "y + w - 5 / 10 ^ 7" and ?sh = "y + w + 5 / 10 ^ 7"
  define z where "z = x * w"
  have xw: "0 \<le> z" "z \<le> w" using x w by (simp_all add: z_def mult_left_le_one_le)
  have "(x + 3 / 10 ^ 5) * ?sl = x * y + z - 5 / 10 ^ 7 * x + 3 / 10 ^ 5 * y + 3 / 10 ^ 5 * w - 3 / 10 ^ 5 * (5 / 10 ^ 7)"
    by (simp add: z_def algebra_simps add_divide_distrib diff_divide_distrib)
  then have "?bh \<le> (x + 3 / 10 ^ 5) * ?sl" using xw x y w by simp
  then have h: "?bh / ?sl \<le> x + 3 / 10 ^ 5" using y w by (simp add: pos_divide_le_eq)
  have "(x - 3 / 10 ^ 5) * ?sh = x * y + z + 5 / 10 ^ 7 * x - 3 / 10 ^ 5 * y - 3 / 10 ^ 5 * w - 3 / 10 ^ 5 * (5 / 10 ^ 7)"
    by (simp add: z_def algebra_simps add_divide_distrib diff_divide_distrib)
  then have "(x - 3 / 10 ^ 5) * ?sh \<le> x * y + w - 5 / 10 ^ 7" using xw x y w by simp
  then have "(x - 3 / 10 ^ 5) * ?sh \<le> ?bl" by simp
  then have l: "x - 3 / 10 ^ 5 \<le> ?bl / ?sh" using y w by (simp add: pos_le_divide_eq)
  have d: "inside (f32_div b s) (?bl / ?sh * (1 - ulp) - tiny) (?bh / ?sl * (1 + ulp) + tiny)"
    using y w h x by (intro inside_div [OF inside_nonneg [OF b] s]) auto
  have "?bh / ?sl * (1 + ulp) \<le> (x + 3 / 10 ^ 5) * (1 + ulp)"
    using h small_eps by (intro mult_right_mono) auto
  moreover have "(x + 3 / 10 ^ 5) * (1 + ulp) + tiny \<le> x + slack"
  proof -
    have "x * ulp \<le> 1 * (1 / 10 ^ 7)" using x small_eps by (intro mult_mono) auto
    moreover have "(x + 3 / 10 ^ 5) * (1 + ulp) = x + x * ulp + 3 / 10 ^ 5 + 3 / 10 ^ 5 * ulp"
      by (simp add: distrib_left distrib_right)
    ultimately show ?thesis using small_eps by (simp add: slack_def)
  qed
  ultimately have hi: "?bh / ?sl * (1 + ulp) + tiny \<le> x + slack" by linarith
  have blx: "0 \<le> ?bl / ?sh" using y w by simp
  have "?bl / ?sh \<le> 2"
  proof -
    define p where "p = x * y"
    have "x * y \<le> 1 * y" using x y by (intro mult_right_mono) auto
    then have "p \<le> y" by (simp only: p_def mult_1)
    then have "p + w - 5 / 10 ^ 7 \<le> 2 * ?sh" using y w by simp
    then have "x * y + w - 5 / 10 ^ 7 \<le> 2 * ?sh" by (simp only: p_def)
    moreover have "0 \<le> 2 * ?sh" using y w by simp
    ultimately have "?bl \<le> 2 * ?sh" by (simp only: max.bounded_iff)
    then show ?thesis using y w by (simp add: pos_divide_le_eq)
  qed
  then have "?bl / ?sh * ulp \<le> 2 * (1 / 10 ^ 7)" using blx small_eps by (intro mult_mono) auto
  then have lo: "x - slack \<le> ?bl / ?sh * (1 - ulp) - tiny"
    using l small_eps(4) by (simp add: slack_def right_diff_distrib)
  show ?thesis by (rule inside_mono [OF d lo hi])
qed

text \<open>A slot and the scale, both through the latent operation with the same norm.\<close>

lemma reads_noisy:
  assumes "v \<le> m" "0 < m" "m \<le> 6000" "inside N (9 / 10) 6"
  shows "reads (f32_div (f32_add (f32_div (f32_div (f32_of_nat v) (f32_of_nat m)) N) noise)
                        (f32_add (f32_div f32_one N) noise)) v m"
proof -
  define x where "x = real v / real m"
  have x: "0 \<le> x" "x \<le> 1" using assms(1-3) by (simp_all add: x_def)
  obtain k where k: "N = F32_Fin False k" "f32_repr k" "9 / 10 \<le> real_of_int k / 2 ^ 149" "real_of_int k / 2 ^ 149 \<le> 6"
    using assms(4) by (rule insideE)
  define \<nu> where "\<nu> = real_of_int k / 2 ^ 149"
  have N: "inside N \<nu> \<nu>" "9 / 10 \<le> \<nu>" "\<nu> \<le> 6" using k by (simp_all add: \<nu>_def insideI)
  obtain l where l: "noise = F32_Fin False l" "f32_repr l" "9 / 10 ^ 7 \<le> real_of_int l / 2 ^ 149" "real_of_int l / 2 ^ 149 \<le> 11 / 10 ^ 7"
    using noise_bounds by (rule insideE)
  define w where "w = real_of_int l / 2 ^ 149"
  have w: "inside noise w w" "0 \<le> w" "w \<le> 11 / 10 ^ 7"
    unfolding l(1) w_def using insideI [OF l(2) order.refl order.refl] l(3,4) by simp_all
  have a: "inside (f32_div (f32_of_nat v) (f32_of_nat m)) (max 0 (x * (1 - ulp) - tiny)) (x * (1 + ulp) + tiny)"
    using slot_bounds [of v m] assms(1-3) by (simp add: x_def)
  have o: "inside f32_one (max 0 (1 * (1 - ulp) - tiny)) (1 * (1 + ulp) + tiny)"
    by (rule inside_mono [OF one_bounds]) (use small_eps in auto)
  have b: "inside (f32_add (f32_div (f32_div (f32_of_nat v) (f32_of_nat m)) N) noise)
      (x * (1 / \<nu>) + w - 5 / 10 ^ 7) (x * (1 / \<nu>) + w + 5 / 10 ^ 7)"
    using shifted_bounds [OF a x N(1,2) w(1,2)] w(3) by simp
  have s: "inside (f32_add (f32_div f32_one N) noise) (1 / \<nu> + w - 5 / 10 ^ 7) (1 / \<nu> + w + 5 / 10 ^ 7)"
    using shifted_bounds [OF o _ _ N(1,2) w(1,2)] w(3) by simp
  have "1 / 6 \<le> 1 / \<nu>" "1 / \<nu> \<le> 10 / 9" using N by (simp_all add: field_simps)
  then have "inside (f32_div (f32_add (f32_div (f32_div (f32_of_nat v) (f32_of_nat m)) N) noise)
      (f32_add (f32_div f32_one N) noise)) (x - slack) (x + slack)"
    using x w by (intro quotient_reads [OF b s]) auto
  then show ?thesis by (rule reads_closeI) (simp_all add: x_def)
qed

end
