(* ===== verification/Packed_Codec.thy ===== *)
theory Packed_Codec
  imports Packed_Gate Verifier
begin

text \<open>
  The decoder after the encoder, with and without the latent operation in between, and the nodes
  the codec keeps whole.
\<close>

definition packed_node :: "predicate \<Rightarrow> f32 \<Rightarrow> node" where
  "packed_node p a =
     \<lparr>nd_id = ''decoded'', nd_pred = p, nd_validity = Forever, nd_prov = packed_provenance,
      nd_conf = default_confidence_for_provenance packed_provenance, nd_auth = a, nd_perm = PUBLIC,
      nd_deps = [], nd_status = Active, nd_note = None\<rparr>"

definition packed_result :: "chrono \<Rightarrow> f32 \<Rightarrow> predicate \<Rightarrow> decode_result" where
  "packed_result C a p = \<lparr>dr_nodes = [packed_node p a], dr_text = canonical C (packed_node p a)\<rparr>"

lemma packed_decode_dim:
  "packed_decode C r \<lparr>tv_data = d, tv_dim = 24\<rparr> =
   bindr (decode_predicate C r d) (\<lambda>p.
     Inr (packed_result C (f32_clamp f32_zero f32_one (recover_value d OFF_AUTHORITY)) p))"
  by (simp add: packed_decode_def PACKED_CODEC_DIM_def packed_result_def packed_node_def Let_def
      with_provenance_def with_validity_def with_permissions_def with_authority_def with_confidence_def
      node_new_def)

section \<open>As written\<close>

lemma encoded_recover:
  "\<not> scale_lost (encoded C r n)"
  "recover_value (encoded C r n) i = f32_div (encoded C r n ! i) f32_one"
proof -
  show "\<not> scale_lost (encoded C r n)"
    using not_scale_lost [of "encoded C r n" 1 1] one_bounds by (simp add: encoded_slots)
  then show "recover_value (encoded C r n) i = f32_div (encoded C r n ! i) f32_one"
    by (simp add: recover_value_def OFF_SCALE_REF_def encoded_slots)
qed

lemma max_encoded: "MAX_ENCODED = f32_of_nat 4488"
  by (simp add: MAX_ENCODED_def BASE_def)

lemma code_bound: "j < 6 \<Longrightarrow> pair_codes 6 cs ! j \<le> 4488"
  using pair_codes_le [of 6 cs] nth_mem [of j "pair_codes 6 cs"] by simp

lemma encoded_close: "close_to C (pr_args (nd_pred n)) (encoded C r n)"
proof -
  let ?v = "packed_code (min (length (pr_args (nd_pred n))) 3) (type_codes C (pr_args (nd_pred n)))"
  have "?v \<le> 5323" using unpack_packed(2) [OF _ type_codes_facts(1,2)] by simp
  then have "reads (recover_value (encoded C r n) 2) ?v 5323"
    using reads_clean [of ?v 5323] by (simp add: encoded_recover encoded_slots MAX_PACKED_ARGS_def)
  moreover have "reads (f32_div (encoded C r n ! (arg_offset k + j)) (encoded C r n ! 0))
      (pair_codes 6 (chars (fst (term_value_string C (pr_args (nd_pred n) ! k)))) ! j) 4488"
    if "k < 3" "k < length (pr_args (nd_pred n))" "j < 6" for k j
    using reads_clean [OF code_bound] that by (simp add: encoded_arg encoded_slots max_encoded)
  ultimately show ?thesis by (simp add: close_to_def encoded_recover)
qed

lemma encoded_head:
  assumes "head_to_index r (pr_head (nd_pred n)) < 2 ^ 20"
  shows "decode_head r (encoded C r n) = kept_head r (pr_head (nd_pred n))"
  unfolding decode_head_def kept_head_def encoded_recover OFF_HEAD_INDEX_def encoded_slots Let_def
    reads_head_clean [OF assms] ..

lemma clamp_unit:
  assumes "f32_wf a" "in_unit a"
  shows "f32_clamp f32_zero f32_one (f32_div a f32_one) = a"
proof -
  obtain s k where k: "a = F32_Fin s k" "f32_repr k" "k \<le> one_mag" "s \<longrightarrow> k = 0"
    using in_unit_iff assms by blast
  have "f32_div a f32_one = a"
    using f32_round_exact [OF k(2) one_mag_pos] by (simp only: k(1) f32_one_mag f32_div.simps) (simp add: one_mag_def)
  moreover have "0 \<le> k" using k(2) by (simp add: f32_repr_def)
  ultimately show ?thesis
    using k by (auto simp: f32_clamp_def Let_def f32_zero_def f32_one_mag)
qed

lemma clean_decodes:
  assumes "head_to_index r (pr_head (nd_pred n)) < 2 ^ 20" "f32_wf (nd_auth n)" "in_unit (nd_auth n)"
  shows "packed_decode C r \<lparr>tv_data = encoded C r n, tv_dim = 24\<rparr> =
    bindr (kept_predicate C r (nd_pred n)) (\<lambda>p. Inr (packed_result C (nd_auth n) p))"
  using close_decodes [OF encoded_close encoded_head [OF assms(1)]] clamp_unit [OF assms(2,3)]
  by (simp add: packed_decode_dim encoded_recover encoded_slots OFF_AUTHORITY_def del: bindr_eq_Inr)

section \<open>The norm of an encoded vector\<close>

definition square_ok :: "f32 \<Rightarrow> bool" where
  "square_ok x \<longleftrightarrow> inside (f32_mul x x) 0 (29 / 20)"

lemma square_okI: "inside x 0 (6 / 5) \<Longrightarrow> square_ok x"
  unfolding square_ok_def
  by (rule inside_mono [OF inside_nonneg [OF inside_mul]]) (auto simp: ulp_def tiny_def)

lemma square_ok_unit:
  assumes "f32_wf a" "in_unit a"
  shows "square_ok a"
proof -
  obtain s k where k: "a = F32_Fin s k" "f32_repr k" "k \<le> one_mag" "s \<longrightarrow> k = 0"
    using in_unit_iff assms by blast
  have "real_of_int k \<le> of_int (2 ^ 149)" using k(3) unfolding one_mag_def by (simp only: of_int_le_iff)
  then have "inside (F32_Fin False k) 0 (6 / 5)"
    using k(2) by (intro insideI) (auto simp: f32_repr_def)
  then have "square_ok (F32_Fin False k)" by (rule square_okI)
  then show ?thesis using k by (cases s) (simp_all add: square_ok_def)
qed

lemma slot_square:
  assumes "v \<le> m" "0 < m" "m \<le> 6000"
  shows "square_ok (f32_div (f32_of_nat v) (f32_of_nat m))"
proof (rule square_okI [OF inside_mono])
  show "inside (f32_div (f32_of_nat v) (f32_of_nat m))
      (max 0 (of_nat v / of_nat m * (1 - ulp) - tiny)) (of_nat v / of_nat m * (1 + ulp) + tiny)"
    using assms by (intro slot_bounds) auto
  have "real v / real m \<le> 1" using assms by simp
  then have "real v / real m * (1 + ulp) \<le> 1 * (1 + ulp)" using small_eps by (intro mult_right_mono) auto
  then show "real v / real m * (1 + ulp) + tiny \<le> 6 / 5" using small_eps by simp
qed simp

lemma named_square: "square_ok (named_value C p)"
proof (cases "pr_named p")
  case Nil
  then show ?thesis using inside_mono [OF inside_zero, of 0 "6 / 5"]
    by (simp add: named_value_def square_okI zero_one_fin)
next
  case (Cons kv ns)
  let ?v = "snd (term_value_string C (snd kv))"
  have v: "?v \<le> 10" by (rule type_code_bounds)
  have "inside (f32_div (f32_of_nat ?v) (f32_of_nat 100)) 0 (11 / 100)"
    using v inside_div [OF inside_of_nat inside_of_nat, of ?v 100] small_eps
    by (intro inside_mono [OF slot_bounds]) (auto simp: algebra_simps ulp_def tiny_def)
  then have "inside (f32_add f32_one (f32_div (f32_of_nat ?v) (f32_of_nat 100)))
      ((1 + 0) * (1 - ulp) - tiny) ((1 + 11 / 100) * (1 + ulp) + tiny)"
    by (intro inside_add one_bounds) auto
  then have "inside (f32_add f32_one (f32_div (f32_of_nat ?v) (f32_of_nat 100))) 0 (6 / 5)"
    by (rule inside_mono) (simp_all add: ulp_def tiny_def)
  then show ?thesis by (simp add: named_value_def Cons case_prod_unfold square_okI)
qed

definition unit_meta :: "node \<Rightarrow> bool" where
  \<comment> \<open>confidence and authority as the constructors of \<open>types.rs\<close> make them\<close>
  "unit_meta n \<longleftrightarrow> f32_wf (nd_conf n) \<and> in_unit (nd_conf n) \<and> f32_wf (nd_auth n) \<and> in_unit (nd_auth n)"

lemma write_arg_squares: "list_all square_ok d \<Longrightarrow> list_all square_ok (write_arg C args k d)"
proof -
  assume d: "list_all square_ok d"
  have "list_all square_ok (encode_string s 6)" for s
    using pair_codes_le [of 6 "chars s"] slot_square by (simp add: encode_string_codes max_encoded list_all_iff)
  then show ?thesis using d by (simp add: write_arg_def write_floats_all)
qed

lemma encoded_squares:
  assumes "head_to_index r (pr_head (nd_pred n)) \<le> 300" "unit_meta n"
  shows "list_all square_ok (encoded C r n)"
proof -
  have z: "square_ok f32_zero" using inside_mono [OF inside_zero, of 0 "6 / 5"] by (simp add: square_okI zero_one_fin)
  have o: "square_ok f32_one" using inside_mono [OF one_bounds, of 0 "6 / 5"] by (simp add: square_okI)
  have h: "square_ok (f32_div (f32_of_nat (head_to_index r (pr_head (nd_pred n)))) MAX_MORPHEMES)"
    unfolding MAX_MORPHEMES_def using assms(1) by (intro slot_square) auto
  have p: "square_ok (pack_args (min (length (pr_args (nd_pred n))) 3) (type_codes C (pr_args (nd_pred n))))"
    unfolding pack_args_def MAX_PACKED_ARGS_def
    using unpack_packed(2) [OF _ type_codes_facts(1,2)] by (intro slot_square) auto
  have r: "list_all square_ok (replicate 24 f32_zero)" using z by (auto simp: list_all_iff)
  show ?thesis
    unfolding encoded_def encode_predicate_slots
    using h p r o assms(2) named_square square_ok_unit by (intro update_all write_arg_squares) (auto simp: unit_meta_def)
qed

lemma encoded_Cons: "\<exists>xs. encoded C r n = f32_one # xs \<and> length xs = 23"
proof -
  have "length (encoded C r n) = Suc 23" by simp
  then obtain x xs where "encoded C r n = x # xs" "length xs = 23" by (meson length_Suc_conv)
  moreover from this have "x = f32_one" using encoded_slots(1) [of C r n] by simp
  ultimately show ?thesis by simp
qed

lemma norm_bounds:
  assumes "list_all square_ok (f32_one # xs)" "length xs = 23"
  shows "inside (l2_norm \<lparr>tv_data = f32_one # xs, tv_dim = d\<rparr>) (9 / 10) 6"
proof -
  let ?sq = "\<lambda>x. f32_mul x x"
  have "inside (?sq f32_one) (1 * 1 * (1 - ulp) - tiny) (1 * 1 * (1 + ulp) + tiny)"
    by (intro inside_mul one_bounds) auto
  then have "inside (f32_add (F32_Fin False 0) (?sq f32_one))
      ((0 + (1 * 1 * (1 - ulp) - tiny)) * (1 - ulp) - tiny) ((0 + (1 * 1 * (1 + ulp) + tiny)) * (1 + ulp) + tiny)"
    by (intro inside_add inside_zero) (auto simp: ulp_def tiny_def)
  then have a: "inside (f32_add (F32_Fin False 0) (?sq f32_one)) (99 / 100) (101 / 100)"
    by (rule inside_mono) (simp_all add: ulp_def tiny_def)
  have "inside (foldl f32_add (f32_add (F32_Fin False 0) (?sq f32_one)) (map ?sq xs))
      (99 / 100 - of_nat (length (map ?sq xs)) / 100000) (101 / 100 + of_nat (length (map ?sq xs)) * (29 / 20 + 1 / 1000))"
    using assms by (intro inside_foldl_add a) (auto simp: list_all_iff square_ok_def)
  then have "inside (f32_sum (map ?sq (f32_one # xs))) ((95 / 100) ^ 2) ((59 / 10) ^ 2)"
    using assms(2) by (auto simp: f32_sum_def power2_eq_square elim!: inside_mono)
  then have "inside (f32_sqrt (f32_sum (map ?sq (f32_one # xs)))) (95 / 100 * 0.999999) (59 / 10 * 1.000001)"
    by (rule inside_sqrt) simp_all
  then show ?thesis by (auto simp: l2_norm_def elim!: inside_mono)
qed

section \<open>After the latent operation\<close>

definition blurred :: "f32 \<Rightarrow> f32 list \<Rightarrow> f32 list" where
  \<comment> \<open>every value divided by the norm and shifted\<close>
  "blurred N d = map (\<lambda>x. f32_add (f32_div x N) noise) d"

lemma latent_operation_blurs:
  assumes "inside (l2_norm \<lparr>tv_data = d, tv_dim = length d\<rparr>) (9 / 10) 6"
  shows "latent_operation \<lparr>tv_data = d, tv_dim = length d\<rparr> =
    \<lparr>tv_data = blurred (l2_norm \<lparr>tv_data = d, tv_dim = length d\<rparr>) d, tv_dim = length d\<rparr>"
  using inside_pos_not_less [OF assms norm_floor_bounds]
  by (simp add: latent_operation_def tv_normalize_def Let_def tv_from_vec_def blurred_def comp_def)

lemma blurred_scale:
  assumes "inside N (9 / 10) 6"
  shows "inside (f32_add (f32_div f32_one N) noise) (1 / 10) 2"
proof -
  have "inside (f32_div f32_one N) (1 / 6 * (1 - ulp) - tiny) (1 / (9 / 10) * (1 + ulp) + tiny)"
    by (rule inside_div [OF one_bounds assms]) auto
  then have "inside (f32_div f32_one N) (15 / 100) (12 / 10)"
    by (rule inside_mono) (simp_all add: ulp_def tiny_def)
  then have "inside (f32_add (f32_div f32_one N) noise)
      ((15 / 100 + 9 / 10 ^ 7) * (1 - ulp) - tiny) ((12 / 10 + 11 / 10 ^ 7) * (1 + ulp) + tiny)"
    by (intro inside_add noise_bounds) auto
  then show ?thesis by (rule inside_mono) (simp_all add: ulp_def tiny_def)
qed

lemma blurred_recover:
  assumes "inside N (9 / 10) 6"
  shows "\<not> scale_lost (blurred N (encoded C r n))"
    and "i < 24 \<Longrightarrow> recover_value (blurred N (encoded C r n)) i =
      f32_div (f32_add (f32_div (encoded C r n ! i) N) noise) (f32_add (f32_div f32_one N) noise)"
proof -
  have z: "blurred N (encoded C r n) ! 0 = f32_add (f32_div f32_one N) noise"
    by (simp add: blurred_def encoded_slots)
  then show l: "\<not> scale_lost (blurred N (encoded C r n))"
    using blurred_scale [OF assms] by (intro not_scale_lost) (simp only: z, simp)
  show "i < 24 \<Longrightarrow> recover_value (blurred N (encoded C r n)) i =
      f32_div (f32_add (f32_div (encoded C r n ! i) N) noise) (f32_add (f32_div f32_one N) noise)"
    using l z by (simp add: recover_value_def OFF_SCALE_REF_def) (simp add: blurred_def)
qed

lemma blurred_close:
  assumes "inside N (9 / 10) 6"
  shows "close_to C (pr_args (nd_pred n)) (blurred N (encoded C r n))"
proof -
  let ?d = "blurred N (encoded C r n)"
  let ?v = "packed_code (min (length (pr_args (nd_pred n))) 3) (type_codes C (pr_args (nd_pred n)))"
  have "?v \<le> 5323" using unpack_packed(2) [OF _ type_codes_facts(1,2)] by simp
  then have "reads (recover_value ?d 2) ?v 5323"
    using reads_noisy [of ?v 5323, OF _ _ _ assms] by (simp add: blurred_recover [OF assms] encoded_slots MAX_PACKED_ARGS_def)
  moreover have "reads (f32_div (?d ! (arg_offset k + j)) (?d ! 0))
      (pair_codes 6 (chars (fst (term_value_string C (pr_args (nd_pred n) ! k)))) ! j) 4488"
    if "k < 3" "k < length (pr_args (nd_pred n))" "j < 6" for k j
  proof -
    have "arg_offset k + j < 24" using that(1,3) by (auto simp: arg_offset_def)
    then show ?thesis
      using reads_noisy [OF code_bound _ _ assms] that
      by (simp add: blurred_def encoded_arg encoded_slots max_encoded)
  qed
  ultimately show ?thesis by (simp add: close_to_def blurred_recover [OF assms])
qed

lemma blurred_head:
  assumes "inside N (9 / 10) 6" "head_to_index r (pr_head (nd_pred n)) \<le> 300"
  shows "decode_head r (blurred N (encoded C r n)) = kept_head r (pr_head (nd_pred n))"
proof -
  let ?i = "head_to_index r (pr_head (nd_pred n))"
  have "f32_to_uint 64 (f32_max (f32_round_away (f32_mul (f32_div (f32_add (f32_div (f32_div (f32_of_nat ?i)
      MAX_MORPHEMES) N) noise) (f32_add (f32_div f32_one N) noise)) MAX_MORPHEMES)) f32_zero) = ?i"
    unfolding MAX_MORPHEMES_def using assms by (intro reads_max_zero reads_noisy) auto
  note i = this
  have "recover_value (blurred N (encoded C r n)) 1 = f32_div (f32_add (f32_div (f32_div (f32_of_nat ?i)
      MAX_MORPHEMES) N) noise) (f32_add (f32_div f32_one N) noise)"
    using blurred_recover(2) [OF assms(1), of 1 C r n] by (simp add: encoded_slots(2) [unfolded One_nat_def])
  then show ?thesis unfolding decode_head_def kept_head_def OFF_HEAD_INDEX_def Let_def by (simp only: i)
qed

lemma blurred_decodes:
  assumes "head_to_index r (pr_head (nd_pred n)) \<le> 300" "unit_meta n"
  shows "\<exists>a. packed_decode C r (latent_operation \<lparr>tv_data = encoded C r n, tv_dim = 24\<rparr>) =
    bindr (kept_predicate C r (nd_pred n)) (\<lambda>p. Inr (packed_result C a p))"
proof -
  obtain xs where xs: "encoded C r n = f32_one # xs" "length xs = 23" using encoded_Cons by blast
  define N where "N = l2_norm \<lparr>tv_data = encoded C r n, tv_dim = 24\<rparr>"
  have N: "inside N (9 / 10) 6"
    unfolding N_def xs(1) using encoded_squares [OF assms, of C, unfolded xs(1)] xs(2) by (rule norm_bounds)
  then have "latent_operation \<lparr>tv_data = encoded C r n, tv_dim = 24\<rparr> =
      \<lparr>tv_data = blurred N (encoded C r n), tv_dim = 24\<rparr>"
    using latent_operation_blurs [of "encoded C r n"] by (simp add: N_def)
  then show ?thesis
    using close_decodes [OF blurred_close [OF N] blurred_head [OF N assms(1)]]
    by (auto simp add: packed_decode_dim simp del: bindr_eq_Inr)
qed

section \<open>What fits\<close>

definition fits_text :: "string \<Rightarrow> bool" where
  "fits_text s \<longleftrightarrow> s \<noteq> [] \<and> length s \<le> 12 \<and> list_all in_charset s"

fun fits :: "chrono \<Rightarrow> trm \<Rightarrow> bool" where
  "fits C (TEnt e) = fits_text e"
| "fits C (TVar s) = fits_text s"
| "fits C (TLit l) =
     (case l of
        LDec m sc \<Rightarrow> sint m \<noteq> - (2 ^ 127) \<and> fits_text (dec_canonical m sc)
      | LStr s \<Rightarrow> fits_text s
      | LDate d \<Rightarrow> fits_text (fmt_date C d) \<and> parse_date C (fmt_date C d) = Some d
      | LBool b \<Rightarrow> True
      | LUri u \<Rightarrow> fits_text u
      | LDur d \<Rightarrow> 0 \<le> d \<and> d < 10 ^ 12)"
| "fits C (TCompound p) = False"
| "fits C (TList items) = False"

lemma stored_fits: "fits_text s \<Longrightarrow> stored_text 12 s = s"
proof -
  assume s: "fits_text s"
  then have "\<forall>x \<in> set s. in_charset x" by (simp add: fits_text_def list_all_iff)
  then have "takeWhile in_charset s = s" by (simp only: takeWhile_eq_all_conv)
  then show ?thesis using s unfolding stored_text_def fits_text_def by (simp only: take_all)
qed

lemma digit_in_charset: "is_digit c \<Longrightarrow> in_charset c"
  by (auto simp: is_digit_def in_charset_def CHARSET_def)

lemma fits_int_dec: "0 \<le> d \<Longrightarrow> d < 10 ^ 12 \<Longrightarrow> fits_text (int_dec d)"
  using int_dec_length [of d 12] int_dec_digits [of d] digit_in_charset
  by (auto simp: fits_text_def list_all_iff)

lemma parse_u128_int_dec: "0 \<le> d \<Longrightarrow> d < 2 ^ 128 \<Longrightarrow> parse_u128 (int_dec d) = Some d"
proof -
  assume d: "0 \<le> d" "d < 2 ^ 128"
  obtain c t where ct: "int_dec d = c # t" by (cases "int_dec d") (use int_dec_nonempty [of d] in auto)
  then have "c \<noteq> CHR ''+''" using int_dec_digits [of d] digit_no_sign [of c] by simp
  then show ?thesis using d ct int_dec_digits [of d] dec_val_int_dec [of d]
    by (simp add: parse_u128_def del: dec_val_int_dec)
qed

lemma fits_kept:
  assumes "fits C t"
  shows "kept_term C t = Inr t"
proof (cases t)
  case (TLit l)
  have b: "fits_text ''1''" "fits_text ''0''" by (simp_all add: fits_text_def in_charset_def CHARSET_def)
  show ?thesis
  proof (cases l)
    case (LDec m sc)
    then have f: "fits_text (dec_canonical m sc)" and m: "sint m \<noteq> - (2 ^ 127)" using assms TLit by auto
    have "dec_canonical m sc \<noteq> []" using f by (simp add: fits_text_def)
    then show ?thesis
      using stored_fits [OF f] dec_roundtrip_aux [OF m] LDec TLit by (simp add: kept_term_def reconstruct_term_def Let_def)
  next
    case (LDur d)
    then have d: "0 \<le> d" "d < 10 ^ 12" using assms TLit by auto
    then have "parse_u128 (int_dec d) = Some d" "d mod 2 ^ 64 = d" by (simp_all add: parse_u128_int_dec)
    then show ?thesis
      using stored_fits [OF fits_int_dec [OF d]] LDur TLit by (simp add: kept_term_def reconstruct_term_def Let_def)
  next
    case (LDate d)
    then show ?thesis
      using assms TLit stored_fits [of "fmt_date C d"]
      by (auto simp: kept_term_def reconstruct_term_def Let_def fits_text_def)
  next
    case (LBool v)
    then show ?thesis
      using TLit stored_fits [OF b(1)] stored_fits [OF b(2)]
      by (auto simp: kept_term_def reconstruct_term_def Let_def lower_def)
  next
    case (LStr s)
    then show ?thesis using assms TLit stored_fits [of s]
      by (auto simp: kept_term_def reconstruct_term_def Let_def fits_text_def)
  next
    case (LUri s)
    then show ?thesis using assms TLit stored_fits [of s]
      by (auto simp: kept_term_def reconstruct_term_def Let_def fits_text_def)
  qed
next
  case (TEnt e)
  then show ?thesis using assms stored_fits [of e]
    by (auto simp: kept_term_def reconstruct_term_def Let_def fits_text_def)
next
  case (TVar s)
  then show ?thesis using assms stored_fits [of s]
    by (auto simp: kept_term_def reconstruct_term_def Let_def fits_text_def)
qed (use assms in auto)

lemma all_ok_Inr: "\<forall>x \<in> set xs. f x = Inr (g x) \<Longrightarrow> all_ok (map f xs) = Inr (map g xs)"
  by (induction xs) auto

lemma fits_predicate:
  assumes "lookup_id r (word_of_nat (head_to_index r (pr_head p))) = Some d"
    and "length (pr_args p) \<le> 3" "list_all (fits C) (pr_args p)"
  shows "kept_predicate C r p = Inr (Predicate (HeadName (md_name d)) (pr_args p) [])"
proof -
  have "all_ok (map (kept_term C) (pr_args p)) = Inr (map id (pr_args p))"
    using assms(3) fits_kept by (intro all_ok_Inr) (auto simp: list_all_iff)
  then show ?thesis using assms(1,2) by (simp add: kept_predicate_def kept_head_def)
qed

end
