(* ===== verification/Baseline.thy ===== *)
theory Baseline
  imports Latent
begin

text \<open>
  The baseline codec of \<open>factum-l/src/encoder.rs\<close> and \<open>factum-l/src/decoder.rs\<close>: a bag of
  morphemes, hashed character n-grams, counts of term types and metadata features, and the decoder
  that rebuilds a node from them. A \<open>HashMap\<close> from indices to values is a map; the code only looks
  its entries up or visits each once, so its order does not matter.
\<close>

definition NGRAM_HASH_SIZE :: nat where "NGRAM_HASH_SIZE = 256"
definition NGRAM_SIZES :: "nat list" where "NGRAM_SIZES = [2, 3, 4]"
definition TYPE_FEATURE_COUNT :: nat where "TYPE_FEATURE_COUNT = 8"
definition META_FEATURE_COUNT :: nat where "META_FEATURE_COUNT = 8"

definition baseline_dim :: "registry \<Rightarrow> nat" where
  "baseline_dim r = registry_len r + NGRAM_HASH_SIZE + TYPE_FEATURE_COUNT + META_FEATURE_COUNT"

text \<open>The decoder has constants of its own, with the comment that they must match the encoder's.\<close>

definition dec_NGRAM_HASH_SIZE :: nat where "dec_NGRAM_HASH_SIZE = 256"
definition dec_TYPE_FEATURE_COUNT :: nat where "dec_TYPE_FEATURE_COUNT = 8"
definition dec_META_FEATURE_COUNT :: nat where "dec_META_FEATURE_COUNT = 8"

definition decoder_dim :: "registry \<Rightarrow> nat" where
  "decoder_dim r = registry_len r + dec_NGRAM_HASH_SIZE + dec_TYPE_FEATURE_COUNT + dec_META_FEATURE_COUNT"

lemma constants_match [simp]:
  "dec_NGRAM_HASH_SIZE = NGRAM_HASH_SIZE" "dec_TYPE_FEATURE_COUNT = TYPE_FEATURE_COUNT"
  "dec_META_FEATURE_COUNT = META_FEATURE_COUNT" "decoder_dim r = baseline_dim r"
  by (simp_all add: decoder_dim_def baseline_dim_def dec_NGRAM_HASH_SIZE_def NGRAM_HASH_SIZE_def
      dec_TYPE_FEATURE_COUNT_def TYPE_FEATURE_COUNT_def dec_META_FEATURE_COUNT_def META_FEATURE_COUNT_def)

definition ngram_offset :: "registry \<Rightarrow> nat" where
  "ngram_offset r = registry_len r"

definition type_offset :: "registry \<Rightarrow> nat" where
  "type_offset r = registry_len r + NGRAM_HASH_SIZE"

definition meta_offset :: "registry \<Rightarrow> nat" where
  "meta_offset r = registry_len r + NGRAM_HASH_SIZE + TYPE_FEATURE_COUNT"

section \<open>Features\<close>

definition bump_at :: "nat \<Rightarrow> f32 list \<Rightarrow> f32 list" where
  \<comment> \<open>\<open>features[i] += 1.0\<close>\<close>
  "bump_at i fs = fs[i := f32_add (fs ! i) f32_one]"

definition gram_index :: "string list \<Rightarrow> nat" where
  "gram_index g = unat (fnv1a_hash (concat g)) mod NGRAM_HASH_SIZE"

definition count_grams :: "string list \<Rightarrow> nat \<Rightarrow> f32 list \<Rightarrow> f32 list" where
  "count_grams cs n fs =
     (if length cs < n then fs
      else fold (\<lambda>i fs. bump_at (gram_index (take n (drop i cs))) fs) [0..<length cs - n + 1] fs)"

definition extract_ngram_features :: "string \<Rightarrow> f32 list" where
  "extract_ngram_features text =
     (let fs = fold (count_grams (chars text)) NGRAM_SIZES (replicate NGRAM_HASH_SIZE f32_zero);
          total = f32_sum fs in
      if f32_lt f32_zero total then map (\<lambda>f. f32_div f total) fs else fs)"

definition baseline_head_index :: "registry \<Rightarrow> predicate_head \<Rightarrow> nat option" where
  "baseline_head_index r h =
     (case h of HeadId i \<Rightarrow> Some (unat i) | HeadName nm \<Rightarrow> map_option unat (resolve r nm))"

type_synonym morpheme_features = "nat \<Rightarrow> f32 option"

definition add_feature :: "nat \<Rightarrow> f32 \<Rightarrow> morpheme_features \<Rightarrow> morpheme_features" where
  \<comment> \<open>\<open>*features.entry(idx).or_insert(0.0) += tf\<close>\<close>
  "add_feature i tf m = m(i \<mapsto> f32_add (case m i of None \<Rightarrow> f32_zero | Some v \<Rightarrow> v) tf)"

definition head_feature :: "registry \<Rightarrow> predicate_head \<Rightarrow> morpheme_features \<Rightarrow> morpheme_features" where
  "head_feature r h m =
     (case baseline_head_index r h of None \<Rightarrow> m | Some i \<Rightarrow> add_feature i f32_one m)"

fun features_from_term :: "registry \<Rightarrow> trm \<Rightarrow> morpheme_features \<Rightarrow> morpheme_features"
  and features_from_pred :: "registry \<Rightarrow> predicate \<Rightarrow> morpheme_features \<Rightarrow> morpheme_features"
  and features_from_terms :: "registry \<Rightarrow> trm list \<Rightarrow> morpheme_features \<Rightarrow> morpheme_features"
  and features_from_named :: "registry \<Rightarrow> (string \<times> trm) list \<Rightarrow> morpheme_features \<Rightarrow> morpheme_features" where
  "features_from_term r (TCompound p) m = features_from_pred r p m"
| "features_from_term r (TList items) m = features_from_terms r items m"
| "features_from_term r _ m = m"
| "features_from_pred r (Predicate h as ns) m =
     features_from_named r ns (features_from_terms r as (head_feature r h m))"
| "features_from_terms r [] m = m"
| "features_from_terms r (t # ts) m = features_from_terms r ts (features_from_term r t m)"
| "features_from_named r [] m = m"
| "features_from_named r ((k, t) # ts) m = features_from_named r ts (features_from_term r t m)"

definition extract_morpheme_features :: "registry \<Rightarrow> predicate \<Rightarrow> morpheme_features" where
  "extract_morpheme_features r p = features_from_pred r p Map.empty"

text \<open>A nested predicate contributes the types of its positional arguments only.\<close>

fun type_features_from_term :: "trm \<Rightarrow> f32 list \<Rightarrow> f32 list"
  and type_features_from_terms :: "trm list \<Rightarrow> f32 list \<Rightarrow> f32 list" where
  "type_features_from_term (TVar _) fs = bump_at 0 fs"
| "type_features_from_term (TEnt _) fs = bump_at 1 fs"
| "type_features_from_term (TLit l) fs =
     (let fs = bump_at 2 fs in
      case l of LDec _ _ \<Rightarrow> bump_at 5 fs | LStr _ \<Rightarrow> bump_at 6 fs | _ \<Rightarrow> bump_at 7 fs)"
| "type_features_from_term (TCompound (Predicate h as ns)) fs = type_features_from_terms as (bump_at 3 fs)"
| "type_features_from_term (TList items) fs = type_features_from_terms items (bump_at 4 fs)"
| "type_features_from_terms [] fs = fs"
| "type_features_from_terms (t # ts) fs = type_features_from_terms ts (type_features_from_term t fs)"

definition extract_type_features :: "predicate \<Rightarrow> f32 list" where
  "extract_type_features p =
     (let fs = type_features_from_terms (pr_args p) (replicate TYPE_FEATURE_COUNT f32_zero);
          fs = type_features_from_terms (map snd (pr_named p)) fs;
          total = f32_of_nat (max (length (pr_args p)) 1) in
      map (\<lambda>f. f32_div f total) fs)"

definition extract_meta_features :: "node \<Rightarrow> f32 list" where
  "extract_meta_features n =
     [nd_conf n, nd_auth n,
      f32_div (f32_of_nat (if nd_perm n = PUBLIC then 0 else if nd_perm n = INTERNAL then 1
        else if nd_perm n = CONFIDENTIAL then 2 else if nd_perm n = RESTRICTED then 3 else 4)) (f32_of_nat 4),
      (case nd_validity n of Forever \<Rightarrow> f32_zero | Window _ _ \<Rightarrow> f32_one),
      f32_div (f32_of_nat (case nd_prov n of Verbatim _ _ \<Rightarrow> 0 | Summary _ _ \<Rightarrow> 1 | Extracted _ _ _ \<Rightarrow> 2
        | Derived _ _ \<Rightarrow> 3 | Asserted _ \<Rightarrow> 4)) (f32_of_nat 4),
      (if nd_deps n = [] then f32_zero else f32_one),
      f32_div (f32_of_nat (case nd_status n of Active \<Rightarrow> 0 | Retracted \<Rightarrow> 1 | Pending \<Rightarrow> 2)) (f32_of_nat 2),
      (if nd_note n = None then f32_zero else f32_one)]"

section \<open>Encoder\<close>

definition build_vector :: "registry \<Rightarrow> morpheme_features \<Rightarrow> string \<Rightarrow> f32 list \<Rightarrow> f32 list \<Rightarrow> thought_vector" where
  \<comment> \<open>every index written is below the dimension, for features of the lengths that the extractors give
    (lemma \<open>build_vector_layout\<close> of \<open>Baseline_Facts\<close>): the source would panic past the end\<close>
  "build_vector r morphemes text types metas =
     (let count = registry_len r;
          data = replicate (baseline_dim r) f32_zero;
          data = write_floats 0 (map (\<lambda>i. case morphemes i of None \<Rightarrow> f32_zero | Some tf \<Rightarrow> tf) [0..<count]) data;
          data = write_floats count (extract_ngram_features text) data;
          data = write_floats (count + NGRAM_HASH_SIZE) types data;
          data = write_floats (count + NGRAM_HASH_SIZE + TYPE_FEATURE_COUNT) metas data
      in \<lparr>tv_data = data, tv_dim = baseline_dim r\<rparr>)"

definition baseline_encode_node ::
    "(string \<Rightarrow> u64) \<Rightarrow> chrono \<Rightarrow> registry \<Rightarrow> node \<Rightarrow> latent_error + encode_result" where
  "baseline_encode_node H C r n =
     Inr \<lparr>er_vector = build_vector r (extract_morpheme_features r (nd_pred n)) (canonical C n)
            (extract_type_features (nd_pred n)) (extract_meta_features n),
          er_source_hash = H (canonical C n)\<rparr>"

definition add_features :: "morpheme_features \<Rightarrow> morpheme_features \<Rightarrow> morpheme_features" where
  \<comment> \<open>\<open>for (idx, tf) in mf { *combined.entry(idx).or_insert(0.0) += tf }\<close>\<close>
  "add_features c mf =
     (\<lambda>i. case mf i of None \<Rightarrow> c i
          | Some tf \<Rightarrow> Some (f32_add (case c i of None \<Rightarrow> f32_zero | Some v \<Rightarrow> v) tf))"

definition add_values :: "f32 list \<Rightarrow> f32 list \<Rightarrow> f32 list" where
  "add_values cs vs = map (\<lambda>(c, v). f32_add c v) (zip cs vs)"

definition combine_node ::
    "registry \<Rightarrow> node \<Rightarrow> morpheme_features \<times> f32 list \<times> f32 list \<Rightarrow> morpheme_features \<times> f32 list \<times> f32 list" where
  "combine_node r n = (\<lambda>(ms, ts, xs).
     (add_features ms (extract_morpheme_features r (nd_pred n)),
      add_values ts (extract_type_features (nd_pred n)),
      add_values xs (extract_meta_features n)))"

definition baseline_encode_sequence ::
    "(string \<Rightarrow> u64) \<Rightarrow> chrono \<Rightarrow> registry \<Rightarrow> node list \<Rightarrow> latent_error + encode_result" where
  "baseline_encode_sequence H C r ns =
     (if ns = [] then Inr \<lparr>er_vector = tv_zeros (baseline_dim r), er_source_hash = 0\<rparr>
      else
        let (ms, ts, xs) = fold (combine_node r) ns
              (Map.empty, replicate TYPE_FEATURE_COUNT f32_zero, replicate META_FEATURE_COUNT f32_zero);
            n = f32_of_nat (length ns) in
        Inr \<lparr>er_vector = build_vector r ms (canonical_all C ns)
               (map (\<lambda>v. f32_div v n) ts) (map (\<lambda>v. f32_div v n) xs),
             er_source_hash = H (canonical_all C ns)\<rparr>)"

definition baseline_encode_text ::
    "(string \<Rightarrow> u64) \<Rightarrow> chrono \<Rightarrow> registry \<Rightarrow> string \<Rightarrow> latent_error + encode_result" where
  "baseline_encode_text H C r s =
     (case parse C s of
        Inl e \<Rightarrow> Inl (EncodeError (MsgParse e))
      | Inr [] \<Rightarrow> Inr \<lparr>er_vector = tv_zeros (baseline_dim r), er_source_hash = 0\<rparr>
      | Inr [n] \<Rightarrow> baseline_encode_node H C r n
      | Inr ns \<Rightarrow> baseline_encode_sequence H C r ns)"

section \<open>Decoder\<close>

definition f32_MIN :: f32 where
  \<comment> \<open>\<open>f32::MIN\<close>: the least finite value\<close>
  "f32_MIN = F32_Fin True ((2 ^ 24 - 1) * 2 ^ 253)"

fun best_from :: "nat \<Rightarrow> f32 list \<Rightarrow> nat \<times> f32 \<Rightarrow> nat \<times> f32" where
  "best_from i [] b = b"
| "best_from i (v # vs) (bi, bv) = best_from (Suc i) vs (if f32_lt bv v then (i, v) else (bi, bv))"

definition extract_head_morpheme :: "registry \<Rightarrow> thought_vector \<Rightarrow> morpheme_def option" where
  "extract_head_morpheme r v =
     (if tv_dim v < registry_len r then None
      else let (i, b) = best_from 0 (take (registry_len r) (tv_data v)) (0, f32_MIN) in
        if f32_le b f32_zero then None else lookup_id r (word_of_nat i))"

definition read_features :: "nat \<Rightarrow> nat \<Rightarrow> thought_vector \<Rightarrow> f32 list" where
  "read_features off k v = map (\<lambda>i. if off + i < tv_dim v then tv_data v ! (off + i) else f32_zero) [0..<k]"

definition read_type_features :: "registry \<Rightarrow> thought_vector \<Rightarrow> f32 list" where
  "read_type_features r = read_features (registry_len r + dec_NGRAM_HASH_SIZE) dec_TYPE_FEATURE_COUNT"

definition read_meta_features :: "registry \<Rightarrow> thought_vector \<Rightarrow> f32 list" where
  "read_meta_features r =
     read_features (registry_len r + dec_NGRAM_HASH_SIZE + dec_TYPE_FEATURE_COUNT) dec_META_FEATURE_COUNT"

definition rounded :: "f32 \<Rightarrow> nat" where
  \<comment> \<open>\<open>.round() as usize\<close>\<close>
  "rounded f = f32_to_uint 64 (f32_round_away f)"

definition placeholder_ent :: "nat \<Rightarrow> trm" where
  "placeholder_ent i = TEnt (''ENT-'' @ int_dec (int i))"

definition placeholder_lit :: "nat \<Rightarrow> nat \<Rightarrow> nat \<Rightarrow> trm" where
  "placeholder_lit dec_count str_count i =
     TLit (if i < dec_count then LDec 0 1
           else if i < dec_count + str_count then LStr ''placeholder'' else LBool False)"

definition build_predicate :: "morpheme_def \<Rightarrow> f32 list \<Rightarrow> predicate" where
  "build_predicate d fs =
     (let var_count = rounded (fs ! 0); ent_count = rounded (fs ! 1); lit_count = rounded (fs ! 2);
          dec_count = rounded (fs ! 5); str_count = rounded (fs ! 6); other_count = rounded (fs ! 7);
          lit_to_add = max lit_count (dec_count + str_count + other_count);
          args = map placeholder_ent [0..<ent_count]
               @ map (placeholder_lit dec_count str_count) [0..<lit_to_add]
               @ map (\<lambda>i. TVar (''v'' @ int_dec (int i))) [0..<var_count];
          missing = (if md_kind d = MkRelation then 2 - length args else 0)
      in with_args (args @ map (\<lambda>i. placeholder_ent (ent_count + i)) [0..<missing])
           (predicate_new (HeadName (md_name d))))"

record node_meta =
  nm_conf :: f32
  nm_auth :: f32
  nm_perm :: u32
  nm_validity :: validity
  nm_prov :: provenance
  nm_has_deps :: bool
  nm_status :: node_status
  nm_has_note :: bool

definition half :: f32 where "half = f32_lit 5 1"

definition rounded_u32 :: "f32 \<Rightarrow> nat" where
  \<comment> \<open>\<open>.round() as u32\<close>\<close>
  "rounded_u32 f = f32_to_uint 32 (f32_round_away f)"

definition decoded_span :: span where
  "decoded_span = \<lparr>sp_start = 0, sp_end = 0\<rparr>"

definition build_metadata :: "datetime \<Rightarrow> f32 list \<Rightarrow> node_meta" where
  \<comment> \<open>the first argument is \<open>chrono::Utc::now()\<close>\<close>
  "build_metadata now fs =
     (let perm = rounded_u32 (f32_mul (fs ! 2) (f32_of_nat 4));
          kind = rounded_u32 (f32_mul (fs ! 4) (f32_of_nat 4));
          status = rounded_u32 (f32_mul (fs ! 6) (f32_of_nat 2));
          prov =
            (if kind = 0 then Verbatim ''decoded'' decoded_span
             else if kind = 1 then Summary ''decoded'' decoded_span
             else if kind = 2 then
               Extracted ''decoded'' decoded_span \<lparr>m_name = ''baseline-decoder'', m_version = ''0.1''\<rparr>
             else if kind = 3 then Derived ''decoded-src'' ''decoded-rule''
             else Asserted ''decoder'')
      in \<lparr>nm_conf = default_confidence_for_provenance prov,
          nm_auth = f32_clamp f32_zero f32_one (fs ! 1),
          nm_perm = (if perm = 0 then PUBLIC else if perm = 1 then INTERNAL
            else if perm = 2 then CONFIDENTIAL else if perm = 3 then RESTRICTED else PUBLIC),
          nm_validity = (if f32_lt half (fs ! 3) then Window now None else Forever),
          nm_prov = prov,
          nm_has_deps = f32_lt half (fs ! 5),
          nm_status = (if status = 0 then Active else if status = 1 then Retracted else Pending),
          nm_has_note = f32_lt half (fs ! 7)\<rparr>)"

definition baseline_node :: "predicate \<Rightarrow> node_meta \<Rightarrow> node" where
  "baseline_node p m =
     (let n = with_provenance (nm_prov m) (with_validity (nm_validity m) (with_permissions (nm_perm m)
                (with_authority (nm_auth m) (with_confidence (nm_conf m) (node_new ''decoded'' p)))));
          n = (if nm_has_deps m then with_dep ''decoded-dep'' n else n);
          n = (if nm_has_note m then with_note ''decoded from latent space'' n else n)
      in n\<lparr>nd_status := nm_status m\<rparr>)"

definition baseline_decode ::
    "chrono \<Rightarrow> datetime \<Rightarrow> registry \<Rightarrow> thought_vector \<Rightarrow> latent_error + decode_result" where
  "baseline_decode C now r v =
     (if tv_dim v \<noteq> decoder_dim r then Inl (DimensionMismatch (decoder_dim r) (tv_dim v))
      else case extract_head_morpheme r v of
        None \<Rightarrow> Inl (DecodeError MsgNoActivatedMorpheme)
      | Some d \<Rightarrow>
          let n = baseline_node (build_predicate d (read_type_features r v))
                    (build_metadata now (read_meta_features r v)) in
          Inr \<lparr>dr_nodes = [n], dr_text = canonical C n\<rparr>)"

definition baseline_decode_text ::
    "chrono \<Rightarrow> datetime \<Rightarrow> registry \<Rightarrow> thought_vector \<Rightarrow> latent_error + string" where
  "baseline_decode_text C now r v = bindr (baseline_decode C now r v) (\<lambda>d. Inr (dr_text d))"

lemma placeholder_dec: "dec_from_str ''0.0'' = Inr (LDec 0 1)"
  by code_simp

end
