(* ===== verification/Sequiv.thy ===== *)
theory Sequiv
  imports Morphemes F32_Arith
begin

text \<open>
  Semantic equivalence, \<open>factum-l/src/sequiv.rs\<close>: two nodes are compared field by field and the
  result is a level, a score and the list of differences. A difference is kept as the format
  string's constructor with its arguments.
\<close>

definition F32_EPS :: f32 where "F32_EPS = f32_lit 1 6"

datatype equiv_level = Exact | MetadataDrift | WrongValues | Different

datatype head_match = Same | SameKind morpheme_kind morpheme_kind | DifferentHead

datatype difference =
    DiffHeadKind morpheme_kind morpheme_kind
  | DiffHead predicate_head predicate_head
  | DiffArgCount nat nat
  | DiffArgValue nat "difference list"
  | DiffArgType nat "difference list"
  | DiffArgDrift nat "difference list"
  | DiffNamedCount nat nat
  | DiffNamedKey nat string string
  | DiffNamedValue nat "difference list"
  | DiffNamedType nat "difference list"
  | DiffNamedDrift nat "difference list"
  | DiffVar string string
  | DiffEntity entity_id entity_id
  | DiffLitValue literal literal
  | DiffLitType literal literal
  | DiffListLength nat nat
  | DiffListValue nat "difference list"
  | DiffListType nat "difference list"
  | DiffListDrift nat "difference list"
  | DiffTermType string string
  | DiffValidity
  | DiffProvenance
  | DiffConfidence f32 f32
  | DiffAuthority f32 f32
  | DiffPermissions
  | DiffDeps
  | DiffStatus node_status node_status

record equiv_result =
  eq_level :: equiv_level
  eq_score :: f32
  eq_differences :: "difference list"

definition result_exact :: equiv_result where
  "result_exact = \<lparr>eq_level = Exact, eq_score = f32_one, eq_differences = []\<rparr>"

definition metadata_drift :: "difference list \<Rightarrow> equiv_result" where
  "metadata_drift ds = \<lparr>eq_level = MetadataDrift, eq_score = f32_lit 85 2, eq_differences = ds\<rparr>"

definition wrong_values :: "f32 \<Rightarrow> difference list \<Rightarrow> equiv_result" where
  "wrong_values s ds = \<lparr>eq_level = WrongValues, eq_score = f32_min s (f32_lit 3 1), eq_differences = ds\<rparr>"

definition different :: "difference \<Rightarrow> equiv_result" where
  "different d = \<lparr>eq_level = Different, eq_score = f32_zero, eq_differences = [d]\<rparr>"

section \<open>Heads, literals, kinds\<close>

definition starts_with :: "string \<Rightarrow> string \<Rightarrow> bool" where
  "starts_with p s \<longleftrightarrow> take (length p) s = p"

definition ends_with :: "string \<Rightarrow> string \<Rightarrow> bool" where
  "ends_with p s \<longleftrightarrow> length p \<le> length s \<and> drop (length s - length p) s = p"

definition infer_kind_from_name :: "string \<Rightarrow> morpheme_kind" where
  "infer_kind_from_name nm =
     (if ends_with ''-of'' nm \<or> ends_with ''-by'' nm \<or> ends_with ''-in'' nm then MkRelation
      else if starts_with ''is-'' nm \<or> nm = ''instance-of'' then MkRelation
      else MkRelation)"

definition head_info :: "registry \<Rightarrow> predicate_head \<Rightarrow> morpheme_kind \<times> string" where
  "head_info r h =
     (case h of
        HeadId i \<Rightarrow>
          (case lookup_id r i of
             Some d \<Rightarrow> (md_kind d, md_name d) | None \<Rightarrow> (MkRelation, ''M'' @ int_dec (uint i)))
      | HeadName nm \<Rightarrow>
          (case morpheme_lookup r nm of
             Some d \<Rightarrow> (md_kind d, md_name d) | None \<Rightarrow> (infer_kind_from_name nm, nm)))"

definition compare_heads :: "registry \<Rightarrow> predicate_head \<Rightarrow> predicate_head \<Rightarrow> head_match" where
  "compare_heads r a b =
     (let (kind_a, name_a) = head_info r a; (kind_b, name_b) = head_info r b in
      if name_a = name_b then Same
      else if kind_a = kind_b then SameKind kind_a kind_b
      else DifferentHead)"

definition lit_eq :: "literal \<Rightarrow> literal \<Rightarrow> bool" where
  "lit_eq a b =
     (case (a, b) of (LDec ma sa, LDec mb sb) \<Rightarrow> ma = mb \<and> sa = sb | _ \<Rightarrow> a = b)"

definition same_lit_type :: "literal \<Rightarrow> literal \<Rightarrow> bool" where
  "same_lit_type a b =
     (case (a, b) of
        (LDec _ _, LDec _ _) \<Rightarrow> True
      | (LStr _, LStr _) \<Rightarrow> True
      | (LDate _, LDate _) \<Rightarrow> True
      | (LDur _, LDur _) \<Rightarrow> True
      | (LBool _, LBool _) \<Rightarrow> True
      | (LUri _, LUri _) \<Rightarrow> True
      | _ \<Rightarrow> False)"

fun term_kind_name :: "trm \<Rightarrow> string" where
  "term_kind_name (TVar _) = ''Var''"
| "term_kind_name (TEnt _) = ''Ent''"
| "term_kind_name (TLit _) = ''Lit''"
| "term_kind_name (TCompound _) = ''Compound''"
| "term_kind_name (TList _) = ''List''"

section \<open>Terms and predicates\<close>

text \<open>
  A loop over two zipped sequences keeps the differences so far and the number of wrong values;
  its early return is the left side of the sum. The counter is a \<open>u32\<close>, which no sequence in
  memory makes overflow.
\<close>

definition wrong_score :: "nat \<Rightarrow> f32" where
  \<comment> \<open>\<open>(0.3 - 0.1 * wrong_count as f32).max(0.0)\<close>\<close>
  "wrong_score n = f32_max (f32_sub (f32_lit 3 1) (f32_mul (f32_lit 1 1) (f32_of_nat n))) f32_zero"

definition conclude :: "difference list \<Rightarrow> nat \<Rightarrow> equiv_result" where
  "conclude ds wrong =
     (if 0 < wrong then wrong_values (wrong_score wrong) ds
      else if ds = [] then result_exact else metadata_drift ds)"

fun compare_terms :: "registry \<Rightarrow> trm \<Rightarrow> trm \<Rightarrow> equiv_result"
  and compare_predicates :: "registry \<Rightarrow> predicate \<Rightarrow> predicate \<Rightarrow> equiv_result"
  and compare_args :: "registry \<Rightarrow> nat \<Rightarrow> difference list \<Rightarrow> nat \<Rightarrow> trm list \<Rightarrow> trm list \<Rightarrow>
    equiv_result + difference list \<times> nat"
  and compare_named :: "registry \<Rightarrow> nat \<Rightarrow> difference list \<Rightarrow> nat \<Rightarrow> (string \<times> trm) list \<Rightarrow>
    (string \<times> trm) list \<Rightarrow> equiv_result + difference list \<times> nat"
  and compare_items :: "registry \<Rightarrow> nat \<Rightarrow> difference list \<Rightarrow> nat \<Rightarrow> trm list \<Rightarrow> trm list \<Rightarrow>
    equiv_result + difference list \<times> nat" where
  "compare_terms r (TVar sa) (TVar sb) =
     (if sa = sb then result_exact else wrong_values (f32_lit 2 1) [DiffVar sa sb])"
| "compare_terms r (TEnt ea) (TEnt eb) =
     (if ea = eb then result_exact else wrong_values (f32_lit 3 1) [DiffEntity ea eb])"
| "compare_terms r (TLit la) (TLit lb) =
     (if lit_eq la lb then result_exact
      else if same_lit_type la lb then wrong_values (f32_lit 3 1) [DiffLitValue la lb]
      else different (DiffLitType la lb))"
| "compare_terms r (TCompound pa) (TCompound pb) = compare_predicates r pa pb"
| "compare_terms r (TList as) (TList bs) =
     (if length as \<noteq> length bs then different (DiffListLength (length as) (length bs))
      else case compare_items r 0 [] 0 as bs of Inl e \<Rightarrow> e | Inr (ds, w) \<Rightarrow> conclude ds w)"
| "compare_terms r a b = different (DiffTermType (term_kind_name a) (term_kind_name b))"
| "compare_predicates r (Predicate ha as na) (Predicate hb bs nb) =
     (case compare_heads r ha hb of
        SameKind ka kb \<Rightarrow> different (DiffHeadKind ka kb)
      | DifferentHead \<Rightarrow> different (DiffHead ha hb)
      | Same \<Rightarrow>
          if length as \<noteq> length bs then different (DiffArgCount (length as) (length bs))
          else case compare_args r 0 [] 0 as bs of
            Inl e \<Rightarrow> e
          | Inr (ds, w) \<Rightarrow>
              if length na \<noteq> length nb then different (DiffNamedCount (length na) (length nb))
              else case compare_named r 0 ds w na nb of Inl e \<Rightarrow> e | Inr (ds, w) \<Rightarrow> conclude ds w)"
| "compare_args r i ds w (a # as) (b # bs) =
     (let t = compare_terms r a b in
      case eq_level t of
        Exact \<Rightarrow> compare_args r (Suc i) ds w as bs
      | WrongValues \<Rightarrow> compare_args r (Suc i) (ds @ [DiffArgValue i (eq_differences t)]) (w + 1) as bs
      | Different \<Rightarrow> Inl (different (DiffArgType i (eq_differences t)))
      | MetadataDrift \<Rightarrow> compare_args r (Suc i) (ds @ [DiffArgDrift i (eq_differences t)]) w as bs)"
| "compare_args r i ds w as bs = Inr (ds, w)"
| "compare_named r i ds w ((ka, a) # as) ((kb, b) # bs) =
     (if ka \<noteq> kb then Inl (different (DiffNamedKey i ka kb))
      else let t = compare_terms r a b in
      case eq_level t of
        Exact \<Rightarrow> compare_named r (Suc i) ds w as bs
      | WrongValues \<Rightarrow> compare_named r (Suc i) (ds @ [DiffNamedValue i (eq_differences t)]) (w + 1) as bs
      | Different \<Rightarrow> Inl (different (DiffNamedType i (eq_differences t)))
      | MetadataDrift \<Rightarrow> compare_named r (Suc i) (ds @ [DiffNamedDrift i (eq_differences t)]) w as bs)"
| "compare_named r i ds w as bs = Inr (ds, w)"
| "compare_items r i ds w (a # as) (b # bs) =
     (let t = compare_terms r a b in
      case eq_level t of
        Exact \<Rightarrow> compare_items r (Suc i) ds w as bs
      | WrongValues \<Rightarrow> compare_items r (Suc i) (ds @ [DiffListValue i (eq_differences t)]) (w + 1) as bs
      | Different \<Rightarrow> Inl (different (DiffListType i (eq_differences t)))
      | MetadataDrift \<Rightarrow> compare_items r (Suc i) (ds @ [DiffListDrift i (eq_differences t)]) w as bs)"
| "compare_items r i ds w as bs = Inr (ds, w)"

section \<open>Nodes\<close>

definition beyond_eps :: "f32 \<Rightarrow> f32 \<Rightarrow> bool" where
  "beyond_eps a b \<longleftrightarrow> f32_lt F32_EPS (f32_abs (f32_sub a b))"

definition collect_metadata_diffs :: "node \<Rightarrow> node \<Rightarrow> difference list \<Rightarrow> difference list" where
  "collect_metadata_diffs a b ds =
     ds @ (if nd_validity a \<noteq> nd_validity b then [DiffValidity] else [])
        @ (if nd_prov a \<noteq> nd_prov b then [DiffProvenance] else [])
        @ (if beyond_eps (nd_conf a) (nd_conf b) then [DiffConfidence (nd_conf a) (nd_conf b)] else [])
        @ (if beyond_eps (nd_auth a) (nd_auth b) then [DiffAuthority (nd_auth a) (nd_auth b)] else [])
        @ (if nd_perm a \<noteq> nd_perm b then [DiffPermissions] else [])
        @ (if nd_deps a \<noteq> nd_deps b then [DiffDeps] else [])
        @ (if nd_status a \<noteq> nd_status b then [DiffStatus (nd_status a) (nd_status b)] else [])"

definition compare_nodes :: "registry \<Rightarrow> node \<Rightarrow> node \<Rightarrow> equiv_result" where
  "compare_nodes r a b =
     (let p = compare_predicates r (nd_pred a) (nd_pred b) in
      case eq_level p of
        Different \<Rightarrow> p
      | WrongValues \<Rightarrow> wrong_values (eq_score p) (collect_metadata_diffs a b (eq_differences p))
      | l \<Rightarrow>
          let ds = collect_metadata_diffs a b (if l = MetadataDrift then eq_differences p else []) in
          if ds = [] then result_exact else metadata_drift ds)"

definition compare_sequence :: "registry \<Rightarrow> node list \<Rightarrow> node list \<Rightarrow> f32" where
  "compare_sequence r as bs =
     (if as = [] \<and> bs = [] then f32_one
      else if length as \<noteq> length bs then f32_zero
      else f32_div (f32_sum (map (\<lambda>(a, b). eq_score (compare_nodes r a b)) (zip as bs)))
             (f32_of_nat (length as)))"

end
