(* ===== verification/Benchmark.thy ===== *)
theory Benchmark
  imports Packed_Codec Baseline Sequiv
begin

text \<open>
  The round-trip benchmark of \<open>factum-l/src/benchmark.rs\<close>: each node is encoded, decoded and
  compared with itself, optionally behind the three gates. The functions take the codec's
  \<open>encode_node\<close> and \<open>decode\<close> as arguments, as the source takes trait objects.
\<close>

section \<open>Results\<close>

datatype bench_note =
    NoteDifference difference
  | NoteError latent_error
  | NoteGate1 nat nat nat nat nat nat \<comment> \<open>dims, vector bits, canonical bits, divisor, budget, bytes\<close>

record node_result =
  nr_id :: node_id
  nr_score :: f32
  nr_level :: equiv_level
  nr_notes :: "bench_note list"

record bench_result =
  br_total :: nat
  br_passed :: f32
  br_avg :: f32
  br_min :: f32
  br_max :: f32
  br_details :: "node_result list"
  br_failures :: "(node_id \<times> latent_error) list"

definition DEFAULT_THRESHOLD :: f32 where "DEFAULT_THRESHOLD = f32_lit 5 1"
definition V01_TARGET :: f32 where "V01_TARGET = f32_lit 95 2"
definition ACCEPTANCE_THRESHOLD :: f32 where "ACCEPTANCE_THRESHOLD = f32_lit 99 2"

section \<open>Gates\<close>

record gates =
  gt_divisor :: nat
  gt_latent :: bool
  gt_ratio :: f32

definition USIZE_MAX :: nat where "USIZE_MAX = 2 ^ 64 - 1"

definition default_gates :: gates where
  "default_gates = \<lparr>gt_divisor = 3, gt_latent = True, gt_ratio = f32_lit 5 1\<rparr>"

definition disabled_gates :: gates where
  "disabled_gates = \<lparr>gt_divisor = USIZE_MAX, gt_latent = False, gt_ratio = f32_zero\<rparr>"

definition check_dimension_budget :: "gates \<Rightarrow> nat \<Rightarrow> nat \<Rightarrow> bench_note option" where
  \<comment> \<open>\<open>None\<close> when the vector is within the budget; a divisor of 0 panics in the source\<close>
  "check_dimension_budget g dims bytes =
     (if gt_divisor g = USIZE_MAX then None
      else let vector_bits = dims * 32; canonical_bits = bytes * 8; budget = canonical_bits div gt_divisor g in
        if budget \<le> vector_bits
        then Some (NoteGate1 dims vector_bits canonical_bits (gt_divisor g) budget bytes)
        else None)"

definition apply_latent_operation :: "gates \<Rightarrow> thought_vector \<Rightarrow> thought_vector" where
  "apply_latent_operation g v = (if gt_latent g then latent_operation v else v)"

fun f32_ceil :: "f32 \<Rightarrow> f32" where
  "f32_ceil (F32_Fin s k) =
     F32_Fin s (if s then k div 2 ^ 149 * 2 ^ 149 else (k + (2 ^ 149 - 1)) div 2 ^ 149 * 2 ^ 149)"
| "f32_ceil f = f"

fun split_loop :: "nat \<Rightarrow> nat \<Rightarrow> node list \<Rightarrow> node list \<Rightarrow> node list \<Rightarrow> node list \<times> node list" where
  "split_loop k i train test [] = (train, test)"
| "split_loop k i train test (n # ns) =
     (if length test < k \<and> odd i then split_loop k (Suc i) train (test @ [n]) ns
      else split_loop k (Suc i) (train @ [n]) test ns)"

definition train_test_split :: "gates \<Rightarrow> node list \<Rightarrow> node list \<times> node list" where
  "train_test_split g ns =
     (if f32_le (gt_ratio g) f32_zero then ([], ns)
      else let k = f32_to_uint 64 (f32_ceil (f32_mul (f32_of_nat (length ns)) (gt_ratio g))) in
        split_loop (min k (length ns)) 0 [] [] ns)"

section \<open>One node\<close>

type_synonym encoder = "node \<Rightarrow> latent_error + encode_result"
type_synonym decoder = "thought_vector \<Rightarrow> latent_error + decode_result"

definition compared :: "registry \<Rightarrow> node \<Rightarrow> decode_result \<Rightarrow> latent_error + node_result" where
  "compared r n d =
     (case dr_nodes d of
        [] \<Rightarrow> Inl (DecodeError MsgNoNodes)
      | m # _ \<Rightarrow>
          let e = compare_nodes r n m in
          Inr \<lparr>nr_id = nd_id n, nr_score = eq_score e, nr_level = eq_level e,
               nr_notes = map NoteDifference (eq_differences e)\<rparr>)"

definition bench_single_node ::
    "encoder \<Rightarrow> decoder \<Rightarrow> registry \<Rightarrow> node \<Rightarrow> latent_error + node_result" where
  "bench_single_node encode decode r n =
     bindr (encode n) (\<lambda>e. bindr (decode (er_vector e)) (\<lambda>d. compared r n d))"

definition bench_single_node_gated ::
    "encoder \<Rightarrow> decoder \<Rightarrow> (node \<Rightarrow> string) \<Rightarrow> registry \<Rightarrow> gates \<Rightarrow> node \<Rightarrow> latent_error + node_result" where
  \<comment> \<open>the third argument is \<open>serialize::canonical\<close>\<close>
  "bench_single_node_gated encode decode print r g n =
     bindr (encode n) (\<lambda>e.
       case check_dimension_budget g (tv_dim (er_vector e)) (length (print n)) of
         Some msg \<Rightarrow>
           Inr \<lparr>nr_id = nd_id n, nr_score = f32_zero, nr_level = Different, nr_notes = [msg]\<rparr>
       | None \<Rightarrow>
           bindr (decode (apply_latent_operation g (er_vector e))) (\<lambda>d. compared r n d))"

section \<open>All nodes\<close>

definition failed_result :: "node \<Rightarrow> latent_error \<Rightarrow> node_result" where
  "failed_result n e =
     \<lparr>nr_id = nd_id n, nr_score = f32_zero, nr_level = Different, nr_notes = [NoteError e]\<rparr>"

record bench_state =
  bs_details :: "node_result list"
  bs_failures :: "(node_id \<times> latent_error) list"
  bs_scores :: "f32 list"
  bs_passed :: nat

definition bench_step ::
    "(node \<Rightarrow> latent_error + node_result) \<Rightarrow> f32 \<Rightarrow> node \<Rightarrow> bench_state \<Rightarrow> bench_state" where
  "bench_step run threshold n st =
     (case run n of
        Inr res \<Rightarrow>
          st\<lparr>bs_passed := bs_passed st + (if f32_le threshold (nr_score res) then 1 else 0),
             bs_scores := bs_scores st @ [nr_score res], bs_details := bs_details st @ [res]\<rparr>
      | Inl e \<Rightarrow>
          st\<lparr>bs_failures := bs_failures st @ [(nd_id n, e)], bs_scores := bs_scores st @ [f32_zero],
             bs_details := bs_details st @ [failed_result n e]\<rparr>)"

definition summarise :: "nat \<Rightarrow> bench_state \<Rightarrow> bench_result" where
  "summarise cnt st =
     \<lparr>br_total = cnt,
      br_passed = (if 0 < cnt then f32_div (f32_of_nat (bs_passed st)) (f32_of_nat cnt) else f32_zero),
      br_avg = (if bs_scores st = [] then f32_zero
        else f32_div (f32_sum (bs_scores st)) (f32_of_nat (length (bs_scores st)))),
      br_min = (if bs_scores st = [] then f32_zero else foldl f32_min (F32_Inf False) (bs_scores st)),
      br_max = (if bs_scores st = [] then f32_zero else foldl f32_max (F32_Inf True) (bs_scores st)),
      br_details = bs_details st, br_failures = bs_failures st\<rparr>"

definition bench_loop :: "(node \<Rightarrow> latent_error + node_result) \<Rightarrow> f32 \<Rightarrow> node list \<Rightarrow> bench_result" where
  "bench_loop run threshold ns =
     summarise (length ns)
       (fold (bench_step run threshold) ns
          \<lparr>bs_details = [], bs_failures = [], bs_scores = [], bs_passed = 0\<rparr>)"

definition bench_semantic_roundtrip_with_threshold ::
    "encoder \<Rightarrow> decoder \<Rightarrow> registry \<Rightarrow> node list \<Rightarrow> f32 \<Rightarrow> bench_result" where
  "bench_semantic_roundtrip_with_threshold encode decode r ns threshold =
     bench_loop (bench_single_node encode decode r) threshold ns"

definition bench_semantic_roundtrip :: "encoder \<Rightarrow> decoder \<Rightarrow> registry \<Rightarrow> node list \<Rightarrow> bench_result" where
  "bench_semantic_roundtrip encode decode r ns =
     bench_semantic_roundtrip_with_threshold encode decode r ns DEFAULT_THRESHOLD"

definition bench_semantic_roundtrip_gated_with ::
    "encoder \<Rightarrow> decoder \<Rightarrow> (node \<Rightarrow> string) \<Rightarrow> registry \<Rightarrow> node list \<Rightarrow> gates \<Rightarrow> bench_result" where
  "bench_semantic_roundtrip_gated_with encode decode print r ns g =
     (let (_, test) = train_test_split g ns;
          tests = (if test = [] then ns else test) in
      bench_loop (bench_single_node_gated encode decode print r g) DEFAULT_THRESHOLD tests)"

definition bench_semantic_roundtrip_gated ::
    "encoder \<Rightarrow> decoder \<Rightarrow> (node \<Rightarrow> string) \<Rightarrow> registry \<Rightarrow> node list \<Rightarrow> bench_result" where
  "bench_semantic_roundtrip_gated encode decode print r ns =
     bench_semantic_roundtrip_gated_with encode decode print r ns default_gates"

section \<open>The built-in nodes\<close>

definition bench_node :: "string \<Rightarrow> string \<Rightarrow> trm list \<Rightarrow> node" where
  "bench_node i h args = node_new i (with_args args (predicate_new (HeadName h)))"

definition generate_benchmark_nodes :: "node list" where
  "generate_benchmark_nodes =
     [bench_node ''bm001'' ''located-in'' [TEnt ''ACME-CORP'', TEnt ''CUPERTINO''],
      bench_node ''bm002'' ''revenue'' [TEnt ''ACME-CORP'', TLit (LDec 100000000 2)],
      bench_node ''bm003'' ''shareholder-major'' [TEnt ''ACME-CORP'', TEnt ''FOUNDER-1'', TLit (LDec 73 2)],
      bench_node ''bm004'' ''ceo-of'' [TEnt ''PERSON-X'', TEnt ''ACME-CORP''],
      bench_node ''bm005'' ''active'' [TEnt ''ACME-CORP''],
      node_new ''bm006'' (with_named ''period'' (TLit (LDate 19723))
        (with_args [TEnt ''ACME-CORP'', TLit (LDec 500000000 2)] (predicate_new (HeadName ''revenue'')))),
      bench_node ''bm007'' ''instance-of'' [TEnt ''ACME-CORP'', TEnt ''organization''],
      with_permissions CONFIDENTIAL (with_authority (f32_lit 9 1) (with_confidence (f32_lit 95 2)
        (bench_node ''bm008'' ''located-in'' [TEnt ''APPLE'', TEnt ''CUPERTINO'']))),
      with_provenance (Extracted ''annual-report'' \<lparr>sp_start = 0, sp_end = 500\<rparr>
          \<lparr>m_name = ''gpt-4'', m_version = ''2024-06''\<rparr>)
        (bench_node ''bm009'' ''revenue'' [TEnt ''GOOGLE'', TLit (LDec 30000000000 2)]),
      with_dep ''bm001'' (bench_node ''bm010'' ''subsidiary-of'' [TEnt ''SUB-CORP'', TEnt ''ACME-CORP''])]"

end
