(* ===== verification/Sequiv_Facts.thy ===== *)
theory Sequiv_Facts
  imports Sequiv Arbitration_Facts
begin

text \<open>
  What the four levels of the comparison mean. \<open>agree_term\<close> walks two terms in parallel and asks a
  relation of the leaves; with equality it says that the terms are the same up to the spelling of
  heads, with \<open>leaf_shape\<close> that they have the same shape.
\<close>

section \<open>Agreement of terms\<close>

definition same_head :: "registry \<Rightarrow> predicate_head \<Rightarrow> predicate_head \<Rightarrow> bool" where
  "same_head r a b \<longleftrightarrow> snd (head_info r a) = snd (head_info r b)"

fun leaf_shape :: "trm \<Rightarrow> trm \<Rightarrow> bool" where
  "leaf_shape (TVar _) (TVar _) = True"
| "leaf_shape (TEnt _) (TEnt _) = True"
| "leaf_shape (TLit a) (TLit b) = same_lit_type a b"
| "leaf_shape _ _ = False"

fun agree_term :: "(trm \<Rightarrow> trm \<Rightarrow> bool) \<Rightarrow> registry \<Rightarrow> trm \<Rightarrow> trm \<Rightarrow> bool"
  and agree_pred :: "(trm \<Rightarrow> trm \<Rightarrow> bool) \<Rightarrow> registry \<Rightarrow> predicate \<Rightarrow> predicate \<Rightarrow> bool"
  and agree_terms :: "(trm \<Rightarrow> trm \<Rightarrow> bool) \<Rightarrow> registry \<Rightarrow> trm list \<Rightarrow> trm list \<Rightarrow> bool"
  and agree_named :: "(trm \<Rightarrow> trm \<Rightarrow> bool) \<Rightarrow> registry \<Rightarrow> (string \<times> trm) list \<Rightarrow> (string \<times> trm) list \<Rightarrow> bool" where
  "agree_term P r (TCompound p) (TCompound q) = agree_pred P r p q"
| "agree_term P r (TList as) (TList bs) = agree_terms P r as bs"
| "agree_term P r a b = P a b"
| "agree_pred P r (Predicate h as ns) (Predicate h' bs ms) =
     (same_head r h h' \<and> agree_terms P r as bs \<and> agree_named P r ns ms)"
| "agree_terms P r [] [] = True"
| "agree_terms P r (a # as) (b # bs) = (agree_term P r a b \<and> agree_terms P r as bs)"
| "agree_terms P r _ _ = False"
| "agree_named P r [] [] = True"
| "agree_named P r ((k, a) # as) ((l, b) # bs) = (k = l \<and> agree_term P r a b \<and> agree_named P r as bs)"
| "agree_named P r _ _ = False"

abbreviation same_term :: "registry \<Rightarrow> trm \<Rightarrow> trm \<Rightarrow> bool" where
  "same_term \<equiv> agree_term (=)"

abbreviation same_shape :: "registry \<Rightarrow> trm \<Rightarrow> trm \<Rightarrow> bool" where
  "same_shape \<equiv> agree_term leaf_shape"

lemma agree_refl:
  "(\<And>t. leaf_shape t t \<Longrightarrow> P t t) \<Longrightarrow> agree_term P r t t"
  "(\<And>t. leaf_shape t t \<Longrightarrow> P t t) \<Longrightarrow> agree_pred P r p p"
proof (induction t and p)
  case (TLit l)
  then show ?case by (cases l) (simp_all add: same_lit_type_def)
next
  case (TList ts)
  then have "\<forall>t \<in> set ts. agree_term P r t t" by blast
  then have "agree_terms P r ts ts" by (induction ts) auto
  then show ?case by simp
next
  case (Predicate h as ns)
  then have "\<forall>t \<in> set as. agree_term P r t t" "\<forall>kv \<in> set ns. agree_term P r (snd kv) (snd kv)"
    by (fastforce intro: snds.intros)+
  then have "agree_terms P r as as" "agree_named P r ns ns"
    by (induction as, simp_all) (induction ns, auto)
  then show ?case by (simp add: same_head_def)
qed auto

lemma agree_terms_length: "agree_terms P r as bs \<Longrightarrow> length as = length bs"
  by (induction as arbitrary: bs; case_tac bs) auto

lemma agree_named_length: "agree_named P r as bs \<Longrightarrow> length as = length bs"
proof (induction as arbitrary: bs)
  case (Cons a as)
  then show ?case by (cases a; cases bs) auto
qed (case_tac bs; simp)

lemma same_has_shape:
  "agree_term (=) r a b \<Longrightarrow> agree_term leaf_shape r a b"
  "agree_pred (=) r p q \<Longrightarrow> agree_pred leaf_shape r p q"
  "agree_terms (=) r as bs \<Longrightarrow> agree_terms leaf_shape r as bs"
  "agree_named (=) r ns ms \<Longrightarrow> agree_named leaf_shape r ns ms"
proof (induction "(=) :: trm \<Rightarrow> trm \<Rightarrow> bool" r a b and "(=) :: trm \<Rightarrow> trm \<Rightarrow> bool" r p q
    and "(=) :: trm \<Rightarrow> trm \<Rightarrow> bool" r as bs and "(=) :: trm \<Rightarrow> trm \<Rightarrow> bool" r ns ms
    rule: agree_term_agree_pred_agree_terms_agree_named.induct)
qed (auto simp: same_lit_type_def split: literal.split)

section \<open>Levels\<close>

definition level_of :: "bool \<Rightarrow> bool \<Rightarrow> equiv_level" where
  \<comment> \<open>from: same shape, same values\<close>
  "level_of shape same = (if \<not> shape then Different else if same then Exact else WrongValues)"

definition loop_spec ::
    "bool \<Rightarrow> bool \<Rightarrow> difference list \<Rightarrow> nat \<Rightarrow> equiv_result + difference list \<times> nat \<Rightarrow> bool" where
  "loop_spec shape same ds w res \<longleftrightarrow>
     (case res of
        Inl e \<Rightarrow> \<not> shape \<and> eq_level e = Different
      | Inr (ds', w') \<Rightarrow> shape \<and> (if same then ds' = ds \<and> w' = w else w < w'))"

lemma level_simps [simp]:
  "eq_level result_exact = Exact" "eq_level (metadata_drift ds) = MetadataDrift"
  "eq_level (wrong_values s ds) = WrongValues" "eq_level (different d) = Different"
  "eq_differences result_exact = []" "eq_score result_exact = f32_one"
  by (simp_all add: result_exact_def metadata_drift_def wrong_values_def different_def)

lemma compare_heads_simps:
  "compare_heads r a b = Same \<longleftrightarrow> same_head r a b"
  by (simp add: compare_heads_def same_head_def case_prod_unfold Let_def)

lemma lit_eq_iff: "lit_eq a b \<longleftrightarrow> a = b"
  by (simp add: lit_eq_def split: literal.split)

lemma same_lit_type_refl [simp]: "same_lit_type l l"
  by (simp add: same_lit_type_def split: literal.split)

lemma conclude_level: "eq_level (conclude [] 0) = Exact" "0 < w \<Longrightarrow> eq_level (conclude ds w) = WrongValues"
  by (simp_all add: conclude_def)

lemma loop_cons:
  assumes "eq_level t = level_of sh sm" "sm \<Longrightarrow> sh" "SM \<Longrightarrow> SH"
    and "eq_level t = Exact \<Longrightarrow> loop_spec SH SM ds w (f ds w)"
    and "eq_level t = WrongValues \<Longrightarrow> loop_spec SH SM (ds @ [d]) (w + 1) (f (ds @ [d]) (w + 1))"
  shows "loop_spec (sh \<and> SH) (sm \<and> SM) ds w
    (case eq_level t of
       Exact \<Rightarrow> f ds w | WrongValues \<Rightarrow> f (ds @ [d]) (w + 1) | Different \<Rightarrow> Inl (different e)
     | MetadataDrift \<Rightarrow> g)"
proof -
  consider "eq_level t = Exact" "sh" "sm" | "eq_level t = WrongValues" "sh" "\<not> sm" | "eq_level t = Different" "\<not> sh"
    using assms(1,2) by (auto simp: level_of_def split: if_splits)
  then show ?thesis
  proof cases
    case 1
    then show ?thesis using assms(4) by simp
  next
    case 2
    then show ?thesis using assms(5) by (auto simp: loop_spec_def split: sum.splits if_splits)
  next
    case 3
    then show ?thesis by (simp add: loop_spec_def)
  qed
qed

lemma compare_levels:
  "eq_level (compare_terms r a b) = level_of (agree_term leaf_shape r a b) (agree_term (=) r a b)"
  "eq_level (compare_predicates r p q) = level_of (agree_pred leaf_shape r p q) (agree_pred (=) r p q)"
  "length as = length bs \<Longrightarrow>
     loop_spec (agree_terms leaf_shape r as bs) (agree_terms (=) r as bs) ds w (compare_args r i ds w as bs)"
  "length na = length nb \<Longrightarrow>
     loop_spec (agree_named leaf_shape r na nb) (agree_named (=) r na nb) ds w (compare_named r i ds w na nb)"
  "length as = length bs \<Longrightarrow>
     loop_spec (agree_terms leaf_shape r as bs) (agree_terms (=) r as bs) ds w (compare_items r i ds w as bs)"
proof (induction r a b and r p q and r i ds w as bs and r i ds w na nb and r i ds w as bs
    rule: compare_terms_compare_predicates_compare_args_compare_named_compare_items.induct)
  case (5 r as bs)
  show ?case
  proof (cases "length as = length bs")
    case True
    then show ?thesis using 5
      by (auto simp: loop_spec_def level_of_def conclude_level split: sum.splits if_splits)
  next
    case False
    then show ?thesis using agree_terms_length [of leaf_shape r as bs] by (auto simp: level_of_def)
  qed
next
  case (7 r ha as na hb bs nb)
  show ?case
  proof (cases "same_head r ha hb \<and> length as = length bs")
    case True
    then have h: "compare_heads r ha hb = Same" by (simp add: compare_heads_simps)
    show ?thesis
    proof (cases "compare_args r 0 [] 0 as bs")
      case (Inl e)
      then show ?thesis using 7(1) True h by (simp add: loop_spec_def level_of_def)
    next
      case (Inr dw)
      obtain ds w where dw: "dw = (ds, w)" by fastforce
      have a: "agree_terms leaf_shape r as bs"
        "if agree_terms (=) r as bs then ds = [] \<and> w = 0 else 0 < w"
        using 7(1) True h Inr dw by (simp_all add: loop_spec_def)
      show ?thesis
      proof (cases "length na = length nb")
        case len: True
        have n: "loop_spec (agree_named leaf_shape r na nb) (agree_named (=) r na nb) ds w (compare_named r 0 ds w na nb)"
          using 7(2) [OF h _ Inr dw [symmetric]] True len by simp
        then show ?thesis
          using a True h Inr dw len
          by (auto simp: loop_spec_def level_of_def conclude_level split: sum.splits if_splits)
      next
        case False
        then show ?thesis
          using True h Inr dw agree_named_length [of leaf_shape r na nb] by (auto simp: level_of_def)
      qed
    qed
  next
    case False
    then show ?thesis
      using agree_terms_length [of leaf_shape r as bs] compare_heads_simps [of r ha hb]
      by (auto simp: level_of_def split: head_match.split)
  qed
next
  case (8 r i ds w a as b bs)
  show ?case
    unfolding agree_terms.simps compare_args.simps Let_def
    by (rule loop_cons [where f = "\<lambda>ds w. compare_args r (Suc i) ds w as bs"])
       (use 8 same_has_shape in auto)
next
  case (10 r i ds w ka a as kb b bs)
  show ?case
  proof (cases "ka = kb")
    case True
    then show ?thesis
      unfolding agree_named.simps compare_named.simps Let_def
      using loop_cons [where f = "\<lambda>ds w. compare_named r (Suc i) ds w as bs" and t = "compare_terms r a b"] 10 same_has_shape
      by simp
  next
    case False
    then show ?thesis by (simp add: loop_spec_def)
  qed
next
  case (12 r i ds w a as b bs)
  show ?case
    unfolding agree_terms.simps compare_items.simps Let_def
    by (rule loop_cons [where f = "\<lambda>ds w. compare_items r (Suc i) ds w as bs"])
       (use 12 same_has_shape in auto)
qed (auto simp: level_of_def lit_eq_iff loop_spec_def)

section \<open>Scores\<close>

definition score_ok :: "equiv_result \<Rightarrow> bool" where
  \<comment> \<open>the score belongs to the level, and every level but the best is explained\<close>
  "score_ok e \<longleftrightarrow>
     (case eq_level e of
        Exact \<Rightarrow> eq_score e = f32_one \<and> eq_differences e = []
      | MetadataDrift \<Rightarrow> eq_score e = f32_lit 85 2 \<and> eq_differences e \<noteq> []
      | WrongValues \<Rightarrow> f32_le f32_zero (eq_score e) \<and> f32_le (eq_score e) (f32_lit 3 1) \<and> eq_differences e \<noteq> []
      | Different \<Rightarrow> eq_score e = f32_zero \<and> length (eq_differences e) = 1)"

lemma lit_points: "f32_le f32_zero (f32_lit 3 1)" "f32_le f32_zero (f32_lit 2 1)" "f32_lit 3 1 \<noteq> F32_NaN"
  by code_simp+

lemma f32_min_le: "b \<noteq> F32_NaN \<Longrightarrow> f32_le (f32_min a b) b"
  by (cases a; cases b) (auto simp: f32_min_def f32_le_def f32_lt_def sgn_if)

lemma f32_min_ge: "f32_le z a \<Longrightarrow> f32_le z b \<Longrightarrow> f32_le z (f32_min a b)"
  by (simp add: f32_min_def)

lemma f32_max_ge: "b \<noteq> F32_NaN \<Longrightarrow> f32_le b (f32_max a b)"
  by (cases a; cases b) (auto simp: f32_max_def f32_le_def f32_lt_def sgn_if)

lemma wrong_score_ge: "f32_le f32_zero (wrong_score n)"
  unfolding wrong_score_def by (rule f32_max_ge) (simp add: f32_zero_def)

lemma score_ok_makers [simp]:
  "score_ok result_exact" "ds \<noteq> [] \<Longrightarrow> score_ok (metadata_drift ds)" "score_ok (different d)"
  "f32_le f32_zero s \<Longrightarrow> ds \<noteq> [] \<Longrightarrow> score_ok (wrong_values s ds)"
  by (simp_all add: score_ok_def result_exact_def metadata_drift_def different_def wrong_values_def
      f32_min_le f32_min_ge lit_points del: One_nat_def)

lemma score_ok_conclude: "(0 < w \<longrightarrow> ds \<noteq> []) \<Longrightarrow> score_ok (conclude ds w)"
  by (simp add: conclude_def wrong_score_ge)

definition loop_score :: "equiv_result + difference list \<times> nat \<Rightarrow> bool" where
  "loop_score res \<longleftrightarrow> (case res of Inl e \<Rightarrow> score_ok e | Inr (ds, w) \<Rightarrow> 0 < w \<longrightarrow> ds \<noteq> [])"

lemma compare_scores:
  "score_ok (compare_terms r a b)"
  "score_ok (compare_predicates r p q)"
  "(0 < w \<longrightarrow> ds \<noteq> []) \<Longrightarrow> loop_score (compare_args r i ds w as bs)"
  "(0 < w \<longrightarrow> ds \<noteq> []) \<Longrightarrow> loop_score (compare_named r i ds w na nb)"
  "(0 < w \<longrightarrow> ds \<noteq> []) \<Longrightarrow> loop_score (compare_items r i ds w as bs)"
proof (induction r a b and r p q and r i ds w as bs and r i ds w na nb and r i ds w as bs
    rule: compare_terms_compare_predicates_compare_args_compare_named_compare_items.induct)
  case (5 r as bs)
  then show ?case
    by (auto simp: loop_score_def score_ok_conclude split: sum.splits)
next
  case (7 r ha as na hb bs nb)
  show ?case
  proof (cases "compare_heads r ha hb = Same \<and> length as = length bs")
    case True
    show ?thesis
    proof (cases "compare_args r 0 [] 0 as bs")
      case (Inl e)
      then show ?thesis using 7(1) True by (simp add: loop_score_def)
    next
      case (Inr dw)
      obtain ds w where dw: "dw = (ds, w)" by fastforce
      have "0 < w \<longrightarrow> ds \<noteq> []" using 7(1) True Inr dw by (simp add: loop_score_def)
      then have "length na = length nb \<Longrightarrow> loop_score (compare_named r 0 ds w na nb)"
        using 7(2) [OF _ _ Inr dw [symmetric]] True by simp
      then show ?thesis
        using True Inr dw by (auto simp: loop_score_def score_ok_conclude split: sum.splits)
    qed
  qed (auto split: head_match.split)
next
  case (8 r i ds w a as b bs)
  then show ?case by (auto simp: Let_def loop_score_def split: equiv_level.split)
next
  case (10 r i ds w ka a as kb b bs)
  then show ?case by (auto simp: Let_def loop_score_def split: equiv_level.split)
next
  case (12 r i ds w a as b bs)
  then show ?case by (auto simp: Let_def loop_score_def split: equiv_level.split)
qed (auto simp: loop_score_def lit_points simp del: One_nat_def)

section \<open>Nodes\<close>

definition same_metadata :: "node \<Rightarrow> node \<Rightarrow> bool" where
  "same_metadata a b \<longleftrightarrow>
     nd_validity a = nd_validity b \<and> nd_prov a = nd_prov b \<and> \<not> beyond_eps (nd_conf a) (nd_conf b)
     \<and> \<not> beyond_eps (nd_auth a) (nd_auth b) \<and> nd_perm a = nd_perm b \<and> nd_deps a = nd_deps b
     \<and> nd_status a = nd_status b"

lemma metadata_diffs: "collect_metadata_diffs a b ds = [] \<longleftrightarrow> ds = [] \<and> same_metadata a b"
  by (auto simp: collect_metadata_diffs_def same_metadata_def)

lemma compare_nodes_facts:
  "score_ok (compare_nodes r a b)"
  "eq_level (compare_nodes r a b) =
     (if \<not> agree_pred leaf_shape r (nd_pred a) (nd_pred b) then Different
      else if \<not> agree_pred (=) r (nd_pred a) (nd_pred b) then WrongValues
      else if same_metadata a b then Exact else MetadataDrift)"
proof -
  let ?p = "compare_predicates r (nd_pred a) (nd_pred b)"
  have l: "eq_level ?p = level_of (agree_pred leaf_shape r (nd_pred a) (nd_pred b)) (agree_pred (=) r (nd_pred a) (nd_pred b))"
    by (rule compare_levels)
  have s: "score_ok ?p" by (rule compare_scores)
  show "score_ok (compare_nodes r a b)"
    using s by (auto simp: compare_nodes_def Let_def score_ok_def [of ?p] metadata_diffs split: equiv_level.splits)
  show "eq_level (compare_nodes r a b) =
     (if \<not> agree_pred leaf_shape r (nd_pred a) (nd_pred b) then Different
      else if \<not> agree_pred (=) r (nd_pred a) (nd_pred b) then WrongValues
      else if same_metadata a b then Exact else MetadataDrift)"
    using l by (auto simp: compare_nodes_def Let_def level_of_def metadata_diffs split: equiv_level.splits if_splits)
qed

lemma f32_cmp_nan: "f32_cmp a F32_NaN = None"
  by (cases a) simp_all

lemma not_beyond_self: "\<not> beyond_eps a a"
proof (cases a)
  case (F32_Fin s k)
  have "\<not> f32_lt F32_EPS (F32_Fin False 0)" by code_simp
  then show ?thesis by (simp add: F32_Fin beyond_eps_def f32_sub_def)
qed (simp_all add: beyond_eps_def f32_sub_def f32_lt_def f32_cmp_nan)

lemma compare_self: "compare_nodes r a a = result_exact"
proof -
  have "agree_pred (=) r (nd_pred a) (nd_pred a)" "agree_pred leaf_shape r (nd_pred a) (nd_pred a)"
    by (auto intro!: agree_refl)
  then have "eq_level (compare_nodes r a a) = Exact"
    using compare_nodes_facts(2) [of r a a] by (simp add: same_metadata_def not_beyond_self)
  then show ?thesis
    using compare_nodes_facts(1) [of r a a] by (simp add: score_ok_def result_exact_def)
qed

lemma sum_ones:
  "m + n \<le> 2 ^ 24 \<Longrightarrow>
   foldl f32_add (F32_Fin False (int m * 2 ^ 149)) (replicate n f32_one) = F32_Fin False (int (m + n) * 2 ^ 149)"
proof (induction n arbitrary: m)
  case (Suc n)
  have "f32_add (F32_Fin False (int m * 2 ^ 149)) f32_one = f32_of_nat (Suc m)"
    by (simp add: f32_one_def f32_of_nat_def algebra_simps)
  then have "f32_add (F32_Fin False (int m * 2 ^ 149)) f32_one = F32_Fin False (int (Suc m) * 2 ^ 149)"
    using f32_of_nat_exact [of "Suc m"] Suc.prems by simp
  then show ?case using Suc.IH [of "Suc m"] Suc.prems by (simp only: replicate_Suc foldl_Cons) simp
qed simp

lemma compare_sequence_self:
  assumes "length ns \<le> 2 ^ 24"
  shows "compare_sequence r ns ns = f32_one"
proof (cases "ns = []")
  case False
  have "map (\<lambda>(a, b). eq_score (compare_nodes r a b)) (zip ns ns) = replicate (length ns) f32_one"
    by (rule nth_equalityI) (simp_all add: compare_self)
  then have "f32_sum (map (\<lambda>(a, b). eq_score (compare_nodes r a b)) (zip ns ns)) = F32_Fin False (int (length ns) * 2 ^ 149)"
    using sum_ones [of 0 "length ns"] assms by (simp add: f32_sum_def)
  moreover have "f32_of_nat (length ns) = F32_Fin False (int (length ns) * 2 ^ 149)"
    using assms by (rule f32_of_nat_exact)
  moreover have "f32_round False (int (length ns) * 2 ^ 149 * 2 ^ 149) (int (length ns) * 2 ^ 149) = f32_one"
    using f32_round_exact [of "2 ^ 149" "int (length ns) * 2 ^ 149" False] repr_nat [of 1] False
    by (simp add: f32_one_def mult.commute)
  ultimately show ?thesis using False by (simp add: compare_sequence_def)
qed (simp add: compare_sequence_def)

end
