(* ===== verification/Baseline_Facts.thy ===== *)
theory Baseline_Facts
  imports Baseline Sequiv_Facts
begin

text \<open>
  The layout of the baseline's vectors, what its decoder reads of them, and what it cannot read: the
  n-gram section never reaches the decoded node.
\<close>

section \<open>Layout\<close>

lemma write_floats_eq:
  assumes "off + length xs \<le> length d"
  shows "write_floats off xs d = take off d @ xs @ drop (off + length xs) d"
proof (rule nth_equalityI)
  fix i assume "i < length (write_floats off xs d)"
  then show "write_floats off xs d ! i = (take off d @ xs @ drop (off + length xs) d) ! i"
    using assms by (auto simp: write_floats_nth nth_append)
qed (use assms in simp)

lemma fold_length: "(\<And>x d. length (f x d) = length d) \<Longrightarrow> length (fold f xs d) = length d"
  by (induction xs arbitrary: d) auto

lemma bump_at_length [simp]: "length (bump_at i fs) = length fs"
  by (simp add: bump_at_def)

lemma count_grams_length [simp]: "length (count_grams cs n fs) = length fs"
  by (simp add: count_grams_def fold_length)

lemma ngram_length [simp]: "length (extract_ngram_features s) = 256"
  by (simp add: extract_ngram_features_def Let_def fold_length NGRAM_HASH_SIZE_def)

lemma type_features_term_length [simp]:
  "length (type_features_from_term t fs) = length fs" "length (type_features_from_terms ts fs) = length fs"
  by (induction t fs and ts fs rule: type_features_from_term_type_features_from_terms.induct)
     (auto simp: Let_def split: literal.split)

lemma type_features_length [simp]: "length (extract_type_features p) = 8"
  by (simp add: extract_type_features_def Let_def TYPE_FEATURE_COUNT_def)

lemma meta_features_length [simp]: "length (extract_meta_features n) = 8"
  by (simp add: extract_meta_features_def)

definition bag :: "registry \<Rightarrow> morpheme_features \<Rightarrow> f32 list" where
  "bag r ms = map (\<lambda>i. case ms i of None \<Rightarrow> f32_zero | Some tf \<Rightarrow> tf) [0..<registry_len r]"

lemma bag_length [simp]: "length (bag r ms) = registry_len r"
  by (simp add: bag_def)

lemma build_vector_layout:
  assumes "length ts = 8" "length xs = 8"
  shows "build_vector r ms text ts xs =
    \<lparr>tv_data = bag r ms @ extract_ngram_features text @ ts @ xs, tv_dim = registry_len r + 272\<rparr>"
  using assms
  by (simp add: build_vector_def Let_def write_floats_eq bag_def [symmetric] baseline_dim_def
      NGRAM_HASH_SIZE_def TYPE_FEATURE_COUNT_def META_FEATURE_COUNT_def)

lemma build_vector_dim:
  "tv_ok (build_vector r ms text ts xs)" "tv_dim (build_vector r ms text ts xs) = baseline_dim r"
  by (simp_all add: build_vector_def Let_def tv_ok_def)

section \<open>What the decoder reads\<close>

lemma read_back:
  assumes "length ts = 8" "length xs = 8"
  shows "read_type_features r (build_vector r ms text ts xs) = ts"
    and "read_meta_features r (build_vector r ms text ts xs) = xs"
  unfolding read_type_features_def read_meta_features_def read_features_def build_vector_layout [OF assms]
  using assms
  by (auto simp: NGRAM_HASH_SIZE_def TYPE_FEATURE_COUNT_def META_FEATURE_COUNT_def nth_append intro!: nth_equalityI)

definition bag_head :: "registry \<Rightarrow> morpheme_features \<Rightarrow> morpheme_def option" where
  "bag_head r ms =
     (let (i, b) = best_from 0 (bag r ms) (0, f32_MIN) in
      if f32_le b f32_zero then None else lookup_id r (word_of_nat i))"

lemma baseline_decode_built:
  assumes "length ts = 8" "length xs = 8"
  shows "baseline_decode C now r (build_vector r ms text ts xs) =
    (case bag_head r ms of
       None \<Rightarrow> Inl (DecodeError MsgNoActivatedMorpheme)
     | Some d \<Rightarrow>
         let n = baseline_node (build_predicate d ts) (build_metadata now xs) in
         Inr \<lparr>dr_nodes = [n], dr_text = canonical C n\<rparr>)"
proof -
  have "extract_head_morpheme r (build_vector r ms text ts xs) = bag_head r ms"
    by (simp add: extract_head_morpheme_def bag_head_def build_vector_layout [OF assms])
  then show ?thesis
    unfolding baseline_decode_def constants_match(4) build_vector_dim read_back [OF assms] by (simp only: simp_thms if_False)
qed

text \<open>The text only fills the n-gram section.\<close>

lemma baseline_text_unread:
  "length ts = 8 \<Longrightarrow> length xs = 8 \<Longrightarrow>
   baseline_decode C now r (build_vector r ms text ts xs) = baseline_decode C now r (build_vector r ms text' ts xs)"
  by (simp add: baseline_decode_built)

section \<open>The head\<close>

fun flat_term :: "trm \<Rightarrow> bool" where
  \<comment> \<open>no predicate inside\<close>
  "flat_term (TCompound p) = False"
| "flat_term (TList items) = list_all flat_term items"
| "flat_term _ = True"

definition flat_pred :: "predicate \<Rightarrow> bool" where
  "flat_pred p \<longleftrightarrow> list_all flat_term (pr_args p) \<and> list_all (\<lambda>kv. flat_term (snd kv)) (pr_named p)"

lemma flat_features: "flat_term t \<Longrightarrow> features_from_term r t m = m"
proof (induction t arbitrary: m rule: flat_term.induct)
  case (2 items)
  have "features_from_terms r ts m = m" if "\<And>t. t \<in> set ts \<Longrightarrow> features_from_term r t m = m" for ts
    using that by (induction ts) auto
  then show ?case using 2 by (simp add: list_all_iff)
qed auto

lemma flat_lists:
  "list_all flat_term ts \<Longrightarrow> features_from_terms r ts m = m"
  "list_all (\<lambda>kv. flat_term (snd kv)) ns \<Longrightarrow> features_from_named r ns m = m"
  by (induction ts) (auto simp: flat_features, induction ns, auto simp: flat_features)

lemma flat_pred_features:
  "flat_pred p \<Longrightarrow> extract_morpheme_features r p = head_feature r (pr_head p) Map.empty"
  by (cases p) (simp add: flat_pred_def extract_morpheme_features_def flat_lists)

lemma best_from_append:
  "best_from i (xs @ ys) b = best_from (i + length xs) ys (best_from i xs b)"
  by (induction xs arbitrary: i b) auto

lemma best_from_zeros:
  "best_from i (replicate k f32_zero) (b, f32_zero) = (b, f32_zero)"
  "best_from i (replicate k f32_zero) (b, f32_one) = (b, f32_one)"
proof -
  have "\<not> f32_lt f32_zero f32_zero" "\<not> f32_lt f32_one f32_zero" by code_simp+
  then show "best_from i (replicate k f32_zero) (b, f32_zero) = (b, f32_zero)"
    "best_from i (replicate k f32_zero) (b, f32_one) = (b, f32_one)"
    by (induction k arbitrary: i) auto
qed

lemma best_from_one:
  "best_from 0 (replicate k f32_zero @ f32_one # replicate m f32_zero) (0, f32_MIN) = (k, f32_one)"
proof -
  have lt: "f32_lt f32_MIN f32_zero" "f32_lt f32_MIN f32_one" "f32_lt f32_zero f32_one" by code_simp+
  show ?thesis
    using lt by (cases k) (auto simp: best_from_append best_from_zeros)
qed

lemma bag_one:
  assumes "i < registry_len r"
  shows "bag r (Map.empty(i \<mapsto> f32_one)) =
    replicate i f32_zero @ f32_one # replicate (registry_len r - Suc i) f32_zero"
  by (rule nth_equalityI) (use assms in \<open>auto simp: bag_def nth_append nth_Cons split: nat.split\<close>)

lemma flat_head:
  assumes "flat_pred p" "baseline_head_index r (pr_head p) = Some i" "i < registry_len r" "registry_len r \<le> 2 ^ 32"
  shows "bag_head r (extract_morpheme_features r p) = Some (rg_by_id r ! i)"
proof -
  have "f32_add f32_zero f32_one = f32_one" by code_simp
  then have "extract_morpheme_features r p = Map.empty(i \<mapsto> f32_one)"
    using assms(1,2) by (simp add: flat_pred_features head_feature_def add_feature_def)
  moreover have "\<not> f32_le f32_one f32_zero" by code_simp
  moreover have "unat (word_of_nat i :: u32) = i" using assms(3,4) by (simp add: unat_of_nat)
  ultimately show ?thesis
    using assms(3) by (simp add: bag_head_def bag_one best_from_one lookup_id_def registry_len_def)
qed

lemma flat_no_head:
  assumes "flat_pred p" "baseline_head_index r (pr_head p) = None"
  shows "bag_head r (extract_morpheme_features r p) = None"
proof -
  have "extract_morpheme_features r p = Map.empty"
    using assms by (simp add: flat_pred_features head_feature_def)
  then have b: "bag r (extract_morpheme_features r p) = replicate (registry_len r) f32_zero"
    by (simp add: bag_def map_replicate_const)
  have "f32_lt f32_MIN f32_zero" "f32_le f32_zero f32_zero" "f32_le f32_MIN f32_zero" by code_simp+
  then show ?thesis
    unfolding bag_head_def b by (cases "registry_len r") (auto simp: best_from_zeros)
qed

section \<open>Metadata\<close>

lemma whole_reads: "k \<le> 2 ^ 24 \<Longrightarrow> k < 2 ^ w \<Longrightarrow> f32_to_uint w (f32_round_away (f32_of_nat k)) = k"
  using inside_to_nat [OF inside_of_nat, of k k w] by simp

text \<open>Dividing a small number by a power of two and multiplying by it again is exact.\<close>

lemma scaled_back:
  assumes "k \<le> 2 ^ 24" "j \<le> 24"
  shows "f32_mul (f32_div (f32_of_nat k) (f32_of_nat (2 ^ j))) (f32_of_nat (2 ^ j)) = f32_of_nat k"
proof -
  define e :: int where "e = 2 ^ (149 - j)"
  have e: "0 < e" "e * 2 ^ j = 2 ^ 149" using assms(2) by (simp_all add: e_def power_add [symmetric])
  have j24: "(2::nat) ^ j \<le> 2 ^ 24" using assms(2) by (intro power_increasing) auto
  have f: "f32_of_nat k = F32_Fin False (int k * 2 ^ 149)" "f32_of_nat (2 ^ j) = F32_Fin False (2 ^ j * 2 ^ 149)"
    using f32_of_nat_exact [OF assms(1)] f32_of_nat_exact [OF j24] by simp_all
  have "int k \<le> 2 ^ 24" using assms(1) by (metis of_nat_le_iff of_nat_numeral of_nat_power)
  then have "bitlen (int k * e) \<le> 24 \<or> 2 ^ (bitlen (int k * e) - 24) dvd int k * e"
    unfolding e_def by (intro repr_small) auto
  moreover have "int k * e \<le> int k * 2 ^ 149"
    unfolding e_def by (intro mult_left_mono power_increasing) auto
  ultimately have r: "f32_repr (int k * e)"
    using repr_nat [OF assms(1)] e(1) by (auto simp: f32_repr_def)
  have "int k * 2 ^ 149 * 2 ^ 149 = int k * e * (2 ^ j * 2 ^ 149)" by (simp only: e(2) [symmetric] mult_ac)
  then have "f32_div (f32_of_nat k) (f32_of_nat (2 ^ j)) = F32_Fin False (int k * e)"
    using f32_round_exact [OF r, of "2 ^ j * 2 ^ 149" False] by (simp only: f f32_div.simps) simp
  moreover have "int k * e * (2 ^ j * 2 ^ 149) = int k * 2 ^ 149 * 2 ^ 149" by (simp only: e(2) [symmetric] mult_ac)
  ultimately show ?thesis
    using f32_round_exact [OF repr_nat [OF assms(1)], of "2 ^ 149" False] by (simp only: f f32_mul.simps) simp
qed

lemma quarter_reads: "k \<le> 4 \<Longrightarrow> rounded_u32 (f32_mul (f32_div (f32_of_nat k) (f32_of_nat 4)) (f32_of_nat 4)) = k"
  using scaled_back [of k 2] whole_reads [of k 32] by (simp add: rounded_u32_def)

lemma half_reads: "k \<le> 2 \<Longrightarrow> rounded_u32 (f32_mul (f32_div (f32_of_nat k) (f32_of_nat 2)) (f32_of_nat 2)) = k"
  using scaled_back [of k 1] whole_reads [of k 32] by (simp add: rounded_u32_def)

lemma half_points: "f32_lt half f32_one" "\<not> f32_lt half f32_zero"
  by code_simp+

definition standard_perm :: "u32 \<Rightarrow> u32" where
  "standard_perm p = (if p \<in> {PUBLIC, INTERNAL, CONFIDENTIAL, RESTRICTED} then p else PUBLIC)"

definition prov_template :: "provenance \<Rightarrow> provenance" where
  \<comment> \<open>the kind of a provenance with the decoder's placeholders in it\<close>
  "prov_template p =
     (case p of
        Verbatim _ _ \<Rightarrow> Verbatim ''decoded'' decoded_span
      | Summary _ _ \<Rightarrow> Summary ''decoded'' decoded_span
      | Extracted _ _ _ \<Rightarrow> Extracted ''decoded'' decoded_span \<lparr>m_name = ''baseline-decoder'', m_version = ''0.1''\<rparr>
      | Derived _ _ \<Rightarrow> Derived ''decoded-src'' ''decoded-rule''
      | Asserted _ \<Rightarrow> Asserted ''decoder'')"

lemma metadata_reads:
  fixes n :: node and now :: datetime
  defines "m \<equiv> build_metadata now (extract_meta_features n)"
  shows "nm_perm m = standard_perm (nd_perm n)" "nm_prov m = prov_template (nd_prov n)"
    "nm_conf m = default_confidence_for_provenance (prov_template (nd_prov n))"
    "nm_validity m = (if nd_validity n = Forever then Forever else Window now None)"
    "nm_has_deps m \<longleftrightarrow> nd_deps n \<noteq> []" "nm_status m = nd_status n" "nm_has_note m \<longleftrightarrow> nd_note n \<noteq> None"
    "nm_auth m = f32_clamp f32_zero f32_one (nd_auth n)"
  unfolding m_def build_metadata_def extract_meta_features_def Let_def
  by (auto simp: quarter_reads half_reads half_points standard_perm_def prov_template_def
      PUBLIC_def INTERNAL_def CONFIDENTIAL_def RESTRICTED_def
      split: provenance.split validity.split node_status.split)

section \<open>Entities\<close>

lemma count_ents:
  assumes "length fs = 8" "fs ! 1 = F32_Fin False (int m * 2 ^ 149)" "m + length es \<le> 2 ^ 24"
  shows "type_features_from_terms (map TEnt es) fs = fs[1 := F32_Fin False (int (m + length es) * 2 ^ 149)]"
  using assms
proof (induction es arbitrary: fs m)
  case (Cons e es)
  have "f32_add (fs ! 1) f32_one = F32_Fin False (int (m + 1) * 2 ^ 149)"
    using sum_ones [of m 1] Cons.prems by simp
  then show ?case
    using Cons.IH [of "fs[1 := F32_Fin False (int (m + 1) * 2 ^ 149)]" "m + 1"] Cons.prems
    by (simp add: bump_at_def)
next
  case Nil
  then show ?case by (metis add_0_right list.map(1) list.size(3) list_update_id type_features_from_terms.simps(1))
qed

lemma entity_features:
  assumes "es \<noteq> []" "length es \<le> 2 ^ 24"
  shows "extract_type_features (Predicate h (map TEnt es) []) = [f32_zero, f32_one, f32_zero, f32_zero,
    f32_zero, f32_zero, f32_zero, f32_zero]"
proof -
  let ?t = "f32_of_nat (length es)"
  have t: "?t = F32_Fin False (int (length es) * 2 ^ 149)" using assms(2) by (rule f32_of_nat_exact)
  have m: "max (length es) 1 = length es" using assms(1) by (cases es) auto
  have z: "f32_div f32_zero ?t = f32_zero"
    using assms(1) by (simp add: t f32_zero_def f32_round_def f32_mag_def rnd_ne_def)
  have o: "f32_div ?t ?t = f32_one"
    using f32_round_exact [of "2 ^ 149" "int (length es) * 2 ^ 149" False] repr_nat [of 1] assms(1)
    by (simp add: t f32_one_def mult.commute)
  have "type_features_from_terms (map TEnt es) (replicate 8 f32_zero) = (replicate 8 f32_zero)[1 := ?t]"
    using count_ents [of "replicate 8 f32_zero" 0 es] assms(2) by (simp add: t f32_zero_def)
  then show ?thesis
    using m z o by (simp add: extract_type_features_def TYPE_FEATURE_COUNT_def numeral_eq_Suc Let_def)
qed

lemma entity_predicate:
  assumes "es \<noteq> []" "length es \<le> 2 ^ 24"
  shows "build_predicate d (extract_type_features (Predicate h (map TEnt es) [])) =
    Predicate (HeadName (md_name d))
      (if md_kind d = MkRelation then [TEnt ''ENT-0'', TEnt ''ENT-1''] else [TEnt ''ENT-0'']) []"
proof -
  have "f32_of_nat 0 = f32_zero" "f32_of_nat 1 = f32_one"
    by (simp_all add: f32_of_nat_exact f32_zero_def f32_one_def)
  then have r: "rounded f32_zero = 0" "rounded f32_one = 1"
    using whole_reads [of 0 64] whole_reads [of 1 64] by (simp_all add: rounded_def)
  have e: "placeholder_ent 0 = TEnt ''ENT-0''" "placeholder_ent (Suc 0) = TEnt ''ENT-1''"
    unfolding placeholder_ent_def by (simp_all add: int_dec.simps digit_char_def)
  show ?thesis
    unfolding build_predicate_def entity_features [OF assms]
    by (simp add: r e Let_def with_args_def predicate_new_def)
qed

end
