(* ===== verification/Codec.thy ===== *)
theory Codec
  imports Benchmark Baseline_Facts "HOL-Library.Multiset"
begin

text \<open>
  The interface between the benchmark and a codec, the traits \<open>Encoder\<close> and \<open>Decoder\<close>: what the
  benchmark's loops need of the two, and what follows for every codec. Both codecs of the crate
  provide it.
\<close>

section \<open>The loop\<close>

definition result_of :: "(node \<Rightarrow> latent_error + node_result) \<Rightarrow> node \<Rightarrow> node_result" where
  "result_of run n = (case run n of Inr res \<Rightarrow> res | Inl e \<Rightarrow> failed_result n e)"

definition failures_of :: "(node \<Rightarrow> latent_error + node_result) \<Rightarrow> node list \<Rightarrow> (node_id \<times> latent_error) list" where
  "failures_of run ns = concat (map (\<lambda>n. case run n of Inr res \<Rightarrow> [] | Inl e \<Rightarrow> [(nd_id n, e)]) ns)"

definition passes :: "(node \<Rightarrow> latent_error + node_result) \<Rightarrow> f32 \<Rightarrow> node \<Rightarrow> bool" where
  "passes run threshold n \<longleftrightarrow> (\<exists>res. run n = Inr res \<and> f32_le threshold (nr_score res))"

lemma bench_fold:
  "fold (bench_step run threshold) ns st =
   \<lparr>bs_details = bs_details st @ map (result_of run) ns,
    bs_failures = bs_failures st @ failures_of run ns,
    bs_scores = bs_scores st @ map (\<lambda>n. nr_score (result_of run n)) ns,
    bs_passed = bs_passed st + length (filter (passes run threshold) ns)\<rparr>"
proof (induction ns arbitrary: st)
  case (Cons n ns)
  then show ?case
    by (cases "run n") (simp_all add: bench_step_def result_of_def failures_of_def failed_result_def passes_def)
qed (simp add: failures_of_def)

lemma bench_loop_facts:
  "br_total (bench_loop run threshold ns) = length ns"
  "br_details (bench_loop run threshold ns) = map (result_of run) ns"
  "br_failures (bench_loop run threshold ns) = failures_of run ns"
  "ns \<noteq> [] \<Longrightarrow> br_passed (bench_loop run threshold ns) =
     f32_div (f32_of_nat (length (filter (passes run threshold) ns))) (f32_of_nat (length ns))"
  by (simp_all add: bench_loop_def bench_fold summarise_def)

section \<open>The split\<close>

lemma split_loop_parts:
  "mset (fst (split_loop k i train test ns)) + mset (snd (split_loop k i train test ns)) = mset train + mset test + mset ns"
  "length (snd (split_loop k i train test ns)) \<le> length test + (length ns + i mod 2) div 2"
  "length test \<le> k \<Longrightarrow> length (snd (split_loop k i train test ns)) \<le> k"
proof (induction k i train test ns rule: split_loop.induct)
  case (2 k i train test n ns)
  { case 1 then show ?case using 2(1,4) by simp }
  { case 2 then show ?case
      using "2.IH"(2,5) by (cases "odd i") (auto simp: odd_iff_mod_2_eq_one even_iff_mod_2_eq_zero mod_Suc intro: order_trans)
  }
  { case 3 then show ?case using "2.IH"(3,6) by auto }
qed auto

section \<open>Codecs\<close>

lemma threshold_points:
  "f32_le DEFAULT_THRESHOLD f32_one" "f32_le DEFAULT_THRESHOLD (f32_lit 85 2)"
  "\<not> f32_le DEFAULT_THRESHOLD (f32_lit 3 1)" "\<not> f32_le DEFAULT_THRESHOLD f32_zero"
  by code_simp+

lemma score_passes:
  assumes "score_ok e"
  shows "f32_le DEFAULT_THRESHOLD (eq_score e) \<longleftrightarrow> eq_level e = Exact \<or> eq_level e = MetadataDrift"
proof (cases "eq_level e")
  case WrongValues
  then have "f32_le (eq_score e) (f32_lit 3 1)" using assms by (simp add: score_ok_def)
  then have "\<not> f32_le DEFAULT_THRESHOLD (eq_score e)" using f32_le_trans threshold_points(3) by blast
  then show ?thesis using WrongValues by simp
qed (use assms threshold_points in \<open>auto simp: score_ok_def\<close>)

definition same_content :: "registry \<Rightarrow> node \<Rightarrow> node \<Rightarrow> bool" where
  \<comment> \<open>the predicates agree, up to the spelling of heads\<close>
  "same_content r a b \<longleftrightarrow> agree_pred (=) r (nd_pred a) (nd_pred b)"

lemma compare_passes: "f32_le DEFAULT_THRESHOLD (eq_score (compare_nodes r a b)) \<longleftrightarrow> same_content r a b"
  using score_passes [OF compare_nodes_facts(1)] compare_nodes_facts(2) [of r a b] same_has_shape(2)
  by (auto simp: same_content_def split: if_splits)

lemma compared_id: "compared r n d = Inr res \<Longrightarrow> nr_id res = nd_id n"
  by (auto simp: compared_def Let_def split: list.splits)

lemma latent_operation_dim:
  "tv_ok v \<Longrightarrow> tv_ok (latent_operation v) \<and> tv_dim (latent_operation v) = tv_dim v"
  using tv_ok_normalize [of v] by (simp add: latent_operation_def) (simp add: tv_from_vec_def tv_ok_def)

locale codec =
  fixes encode :: encoder and decode :: decoder and dim :: nat
  assumes encodes: "\<exists>e. encode n = Inr e \<and> tv_ok (er_vector e) \<and> tv_dim (er_vector e) = dim"
    and decodes_one: "decode v = Inr d \<Longrightarrow> \<exists>m. dr_nodes d = [m]"
    and decode_error: "tv_dim v = dim \<Longrightarrow> decode v = Inl e \<Longrightarrow> \<exists>m. e = DecodeError m"
    and wrong_dim: "tv_dim v \<noteq> dim \<Longrightarrow> decode v = Inl (DimensionMismatch dim (tv_dim v))"
begin

lemma encode_cases:
  obtains e where "encode n = Inr e" "tv_ok (er_vector e)" "tv_dim (er_vector e) = dim"
  using encodes [of n] by blast

lemma gated_dim: "tv_ok v \<Longrightarrow> tv_dim (apply_latent_operation g v) = tv_dim v"
  using latent_operation_dim [of v] by (simp add: apply_latent_operation_def)

lemma single_error:
  assumes "bench_single_node encode decode r n = Inl e"
  shows "\<exists>m. e = DecodeError m"
proof -
  obtain c where c: "encode n = Inr c" "tv_dim (er_vector c) = dim" by (rule encode_cases)
  show ?thesis
  proof (cases "decode (er_vector c)")
    case (Inl x)
    then show ?thesis using assms c decode_error [OF c(2) Inl] by (simp add: bench_single_node_def)
  next
    case (Inr d)
    then obtain m where "dr_nodes d = [m]" using decodes_one by blast
    then show ?thesis using assms c Inr by (simp add: bench_single_node_def compared_def Let_def)
  qed
qed

lemma single_passes:
  "passes (bench_single_node encode decode r) DEFAULT_THRESHOLD n \<longleftrightarrow>
   (\<exists>e d m. encode n = Inr e \<and> decode (er_vector e) = Inr d \<and> dr_nodes d = [m] \<and> same_content r n m)"
proof -
  obtain c where c: "encode n = Inr c" "tv_dim (er_vector c) = dim" by (rule encode_cases)
  show ?thesis
  proof (cases "decode (er_vector c)")
    case (Inr d)
    then obtain m where "dr_nodes d = [m]" using decodes_one by blast
    then show ?thesis using c Inr compare_passes
      by (simp add: passes_def bench_single_node_def compared_def Let_def)
  qed (use c in \<open>simp add: passes_def bench_single_node_def\<close>)
qed

lemma gated_passes:
  assumes "encode n = Inr e" "check_dimension_budget g dim (length (print n)) = None"
  shows "passes (bench_single_node_gated encode decode print r g) DEFAULT_THRESHOLD n \<longleftrightarrow>
   (\<exists>d m. decode (apply_latent_operation g (er_vector e)) = Inr d \<and> dr_nodes d = [m] \<and> same_content r n m)"
proof -
  have e: "tv_dim (er_vector e) = dim" using assms(1) by (metis encode_cases sum.inject(2))
  show ?thesis
  proof (cases "decode (apply_latent_operation g (er_vector e))")
    case (Inr d)
    then obtain m where "dr_nodes d = [m]" using decodes_one by blast
    then show ?thesis using assms e Inr compare_passes
      by (simp add: passes_def bench_single_node_gated_def compared_def Let_def)
  qed (use assms e in \<open>simp add: passes_def bench_single_node_gated_def\<close>)
qed

lemma gated_refused:
  assumes "check_dimension_budget g dim (length (print n)) = Some msg"
  shows "\<not> passes (bench_single_node_gated encode decode print r g) DEFAULT_THRESHOLD n"
proof -
  obtain c where c: "encode n = Inr c" "tv_dim (er_vector c) = dim" by (rule encode_cases)
  show ?thesis using assms c threshold_points(4) by (simp add: passes_def bench_single_node_gated_def)
qed

lemma gated_error:
  assumes "bench_single_node_gated encode decode print r g n = Inl e"
  shows "\<exists>m. e = DecodeError m"
proof -
  obtain c where c: "encode n = Inr c" "tv_ok (er_vector c)" "tv_dim (er_vector c) = dim" by (rule encode_cases)
  have v: "tv_dim (apply_latent_operation g (er_vector c)) = dim" using c gated_dim by simp
  show ?thesis
  proof (cases "decode (apply_latent_operation g (er_vector c))")
    case (Inl x)
    then show ?thesis using assms c decode_error [OF v Inl]
      by (auto simp: bench_single_node_gated_def split: option.splits)
  next
    case (Inr d)
    then obtain m where "dr_nodes d = [m]" using decodes_one by blast
    then show ?thesis using assms c Inr
      by (auto simp: bench_single_node_gated_def compared_def Let_def split: option.splits)
  qed
qed

end

section \<open>The two codecs\<close>

lemma reconstruct_error: "reconstruct_term C s tc = Inl e \<Longrightarrow> \<exists>m. e = DecodeError m"
  by (auto simp: reconstruct_term_def split: if_splits sum.splits option.splits list.splits)

lemma decode_args_error: "decode_args C d ts is = Inl e \<Longrightarrow> \<exists>m. e = DecodeError m"
  by (induction C d ts "is" rule: decode_args.induct)
     (auto simp: Let_def bindr_eq_Inl dest: reconstruct_error split: if_splits)

lemma decode_predicate_error: "decode_predicate C r d = Inl e \<Longrightarrow> \<exists>m. e = DecodeError m"
  by (auto simp: decode_predicate_def decode_head_def bindr_eq_Inl Let_def case_prod_unfold
      dest: decode_args_error split: option.splits)

interpretation packed: codec "packed_encode_node H C r" "packed_decode C r" 24 for H C r
proof
  show "\<exists>e. packed_encode_node H C r n = Inr e \<and> tv_ok (er_vector e) \<and> tv_dim (er_vector e) = 24" for n
    by (simp add: encode_node_encoded tv_ok_def)
  show "packed_decode C r v = Inr d \<Longrightarrow> \<exists>m. dr_nodes d = [m]" for v d
    by (auto simp: packed_decode_def Let_def split: if_splits)
  show "tv_dim v = 24 \<Longrightarrow> packed_decode C r v = Inl e \<Longrightarrow> \<exists>m. e = DecodeError m" for v e
    by (auto simp: packed_decode_def PACKED_CODEC_DIM_def bindr_eq_Inl Let_def dest: decode_predicate_error)
  show "tv_dim v \<noteq> 24 \<Longrightarrow> packed_decode C r v = Inl (DimensionMismatch 24 (tv_dim v))" for v
    by (simp add: packed_decode_def PACKED_CODEC_DIM_def)
qed

interpretation baseline: codec "baseline_encode_node H C r" "baseline_decode C now r" "baseline_dim r" for H C r now
proof
  show "\<exists>e. baseline_encode_node H C r n = Inr e \<and> tv_ok (er_vector e) \<and> tv_dim (er_vector e) = baseline_dim r" for n
    by (simp add: baseline_encode_node_def build_vector_dim)
  show "baseline_decode C now r v = Inr d \<Longrightarrow> \<exists>m. dr_nodes d = [m]" for v d
    by (auto simp: baseline_decode_def Let_def split: if_splits option.splits)
  show "tv_dim v = baseline_dim r \<Longrightarrow> baseline_decode C now r v = Inl e \<Longrightarrow> \<exists>m. e = DecodeError m" for v e
    by (auto simp: baseline_decode_def Let_def split: option.splits)
  show "tv_dim v \<noteq> baseline_dim r \<Longrightarrow> baseline_decode C now r v = Inl (DimensionMismatch (baseline_dim r) (tv_dim v))" for v
    by (simp add: baseline_decode_def)
qed

end
