(* ===== verification/Latent_Properties.thy ===== *)
theory Latent_Properties
  imports Codec Samples
begin

text \<open>
  Properties of the latent codecs, of the comparison of nodes and of the benchmark that joins them.
\<close>

section \<open>The packed codec\<close>

lemma clean_decodes_string: "decode_string (encode_string s n) = stored_text (2 * n) s"
proof -
  have "decodes (f32_div (f32_of_nat v) MAX_ENCODED) v" if "v \<le> 4488" for v
  proof (rule reads_decodes [OF reads_closeI that])
    define x where "x = real v / real 4488"
    have x: "0 \<le> x" "x \<le> 1" using that by (simp_all add: x_def)
    have u: "0 \<le> x * ulp" "x * ulp \<le> 1 * ulp"
      using mult_nonneg_nonneg [OF x(1) small_eps(1)] mult_right_mono [OF x(2) small_eps(1)] by simp_all
    show "inside (f32_div (f32_of_nat v) MAX_ENCODED) (max 0 (x * (1 - ulp) - tiny)) (x * (1 + ulp) + tiny)"
      unfolding max_encoded x_def using that by (intro slot_bounds) auto
    show "real v / real 4488 - slack \<le> max 0 (x * (1 - ulp) - tiny)"
      "x * (1 + ulp) + tiny \<le> real v / real 4488 + slack"
      unfolding x_def [symmetric] using u small_eps by (simp_all add: slack_def algebra_simps)
  qed
  then have "list_all2 decodes (encode_string s n) (pair_codes n (chars s))"
    using pair_codes_le [of n "chars s"] by (auto simp: encode_string_codes list_all2_conv_all_nth)
  then show ?thesis by (rule decode_string_codes)
qed

text \<open>Text in the packed codec. Whatever the text, decoding its floats gives back the longest
  prefix of characters of the 66-letter alphabet, cut at two characters per float; so a text over
  the alphabet that is short enough comes back whole.\<close>

lemma packed_text_roundtrip:
  "decode_string (encode_string s n) = take (2 * n) (takeWhile in_charset s)"
  unfolding clean_decodes_string by (simp add: stored_text_def)

text \<open>C21. The codec against its reference. Encoding a node and decoding the vector is the same as
  keeping the registered name of the head and rebuilding each of the first three arguments from the
  twelve characters that fit, with the authority unchanged, or failing with the first error of
  those, for every node with authority in the unit interval and a head index below a million.\<close>

theorem packed_equivalence:
  assumes "head_to_index r (pr_head (nd_pred n)) < 2 ^ 20" "f32_wf (nd_auth n)" "in_unit (nd_auth n)"
  shows "bindr (packed_encode_node H C r n) (\<lambda>e. packed_decode C r (er_vector e)) =
    bindr (kept_predicate C r (nd_pred n)) (\<lambda>p. Inr (packed_result C (nd_auth n) p))"
  using clean_decodes [OF assms, of C] by (simp add: encode_node_encoded)

definition one_relation :: registry where
  "one_relation = snd (register_name ''located-in'' MkRelation registry_new)"

lemma one_relation_facts:
  "reg_ok one_relation" "resolve one_relation ''located-in'' = Some 0" "registry_len one_relation = 1"
proof -
  show "reg_ok one_relation"
    unfolding one_relation_def register_name_def
    by (rule reg_ok_register [OF reg_ok_new]) (simp add: registry_new_def)
  show "resolve one_relation ''located-in'' = Some 0" "registry_len one_relation = 1"
    by (simp_all add: one_relation_def register_name_def register_def registry_new_def resolve_def registry_len_def)
qed

definition sample_fact :: node where
  "sample_fact = bench_node ''bm001'' ''located-in'' [TEnt ''ACME-CORP'', TEnt ''CUPERTINO'']"

lemma sample_fact_head: "head_to_index one_relation (pr_head (nd_pred sample_fact)) = 0"
  by (simp add: sample_fact_def bench_node_def node_new_def with_args_def predicate_new_def
      head_to_index_def one_relation_facts)

lemma default_in_unit:
  "f32_wf default_authority" "in_unit default_authority" "f32_wf default_confidence" "in_unit default_confidence"
  by code_simp+

lemma sample_fact_unit: "unit_meta sample_fact"
  by (simp add: unit_meta_def sample_fact_def bench_node_def node_new_def default_in_unit)

lemma packed_equivalence_witness:
  "bindr (packed_encode_node (\<lambda>_. 7) sample_chrono one_relation sample_fact)
     (\<lambda>e. packed_decode sample_chrono one_relation (er_vector e)) =
   bindr (kept_predicate sample_chrono one_relation (nd_pred sample_fact))
     (\<lambda>p. Inr (packed_result sample_chrono (nd_auth sample_fact) p))"
  using packed_equivalence [of one_relation sample_fact] sample_fact_head sample_fact_unit
  by (simp add: unit_meta_def)

text \<open>C22. The benchmark's second gate. Normalising the vector to unit length and adding \<open>1e-6\<close> to
  every place does not change what is decoded: the head and the arguments are those of the
  reference, for every node with metadata in the unit interval and a head index of at most 300. The
  divisions, the square root, the sum of squares and the additions are rounded as \<open>f32\<close>.\<close>

theorem packed_survives_gate:
  assumes "head_to_index r (pr_head (nd_pred n)) \<le> 300" "unit_meta n" "packed_encode_node H C r n = Inr e"
  shows "\<exists>a. packed_decode C r (latent_operation (er_vector e)) =
    bindr (kept_predicate C r (nd_pred n)) (\<lambda>p. Inr (packed_result C a p))"
  using blurred_decodes [OF assms(1,2), of C] assms(3) by (auto simp: encode_node_encoded)

lemma packed_survives_gate_witness:
  "\<exists>e a. packed_encode_node (\<lambda>_. 7) sample_chrono one_relation sample_fact = Inr e \<and>
     packed_decode sample_chrono one_relation (latent_operation (er_vector e)) =
     bindr (kept_predicate sample_chrono one_relation (nd_pred sample_fact))
       (\<lambda>p. Inr (packed_result sample_chrono a p))"
proof -
  obtain e where e: "packed_encode_node (\<lambda>_. 7) sample_chrono one_relation sample_fact = Inr e"
    by (simp add: encode_node_encoded)
  show ?thesis
    using packed_survives_gate [OF _ sample_fact_unit e] sample_fact_head e by auto
qed

section \<open>What passes the benchmark\<close>

definition registered :: "registry \<Rightarrow> predicate_head \<Rightarrow> bool" where
  "registered r h \<longleftrightarrow>
     (case h of HeadId i \<Rightarrow> unat i < registry_len r | HeadName nm \<Rightarrow> resolve r nm \<noteq> None)"

lemma registered_head:
  assumes ok: "reg_ok r" and h: "registered r h"
  obtains d where "lookup_id r (word_of_nat (head_to_index r h)) = Some d"
    "same_head r h (HeadName (md_name d))" "head_to_index r h < registry_len r"
proof -
  let ?i = "head_to_index r h"
  have i: "?i < length (rg_by_id r)"
    using h ok unfolding reg_ok_def
    by (auto simp: registered_def head_to_index_def registry_len_def resolve_def split: predicate_head.splits option.splits)
  have "?i < 2 ^ 32" using i ok unfolding reg_ok_def by linarith
  then have w: "unat (word_of_nat ?i :: u32) = ?i" by (simp add: unat_of_nat)
  define d where "d = rg_by_id r ! ?i"
  have l: "lookup_id r (word_of_nat ?i) = Some d" using i w by (simp add: lookup_id_def d_def)
  have "map_of (rg_by_name r) (md_name d) = Some (word_of_nat ?i)"
    using ok i unfolding reg_ok_def d_def by blast
  then have m: "morpheme_lookup r (md_name d) = Some d" using l by (simp add: morpheme_lookup_def)
  have "snd (head_info r h) = md_name d"
  proof (cases h)
    case (HeadId j)
    then show ?thesis using l by (simp add: head_info_def head_to_index_def)
  next
    case (HeadName nm)
    then obtain j where j: "map_of (rg_by_name r) nm = Some j"
      using h by (auto simp: registered_def resolve_def)
    then have "md_name (rg_by_id r ! unat j) = nm" "?i = unat j"
      using ok HeadName unfolding reg_ok_def by (auto simp: head_to_index_def resolve_def)
    then have "morpheme_lookup r nm = Some d"
      using m j by (simp add: d_def)
    then show ?thesis using HeadName by (simp add: head_info_def)
  qed
  then have "same_head r h (HeadName (md_name d))" using m by (simp add: same_head_def head_info_def)
  then show ?thesis using that l i by (simp add: registry_len_def)
qed

definition fits_node :: "chrono \<Rightarrow> registry \<Rightarrow> node \<Rightarrow> bool" where
  \<comment> \<open>what the packed codec has room for\<close>
  "fits_node C r n \<longleftrightarrow>
     registered r (pr_head (nd_pred n)) \<and> head_to_index r (pr_head (nd_pred n)) \<le> 300 \<and>
     length (pr_args (nd_pred n)) \<le> 3 \<and> list_all (fits C) (pr_args (nd_pred n)) \<and>
     pr_named (nd_pred n) = [] \<and> unit_meta n"

lemma fits_same_content:
  assumes "reg_ok r" "fits_node C r n"
  obtains p where "kept_predicate C r (nd_pred n) = Inr p" "\<And>a. same_content r n (packed_node p a)"
proof -
  obtain h as where p: "nd_pred n = Predicate h as []"
    using assms(2) by (cases "nd_pred n") (auto simp: fits_node_def)
  obtain d where d: "lookup_id r (word_of_nat (head_to_index r h)) = Some d" "same_head r h (HeadName (md_name d))"
    using registered_head [OF assms(1), of h] assms(2) p by (auto simp: fits_node_def)
  have "agree_pred (=) r (Predicate h as []) (Predicate h as [])" by (rule agree_refl) auto
  then have "agree_terms (=) r as as" by simp
  then have "same_content r n (packed_node (Predicate (HeadName (md_name d)) as []) a)" for a
    using d(2) by (simp add: same_content_def p packed_node_def)
  moreover have "kept_predicate C r (nd_pred n) = Inr (Predicate (HeadName (md_name d)) as [])"
    using fits_predicate [of r "nd_pred n" d C] d(1) assms(2) by (simp add: p fits_node_def)
  ultimately show ?thesis using that by blast
qed

text \<open>The budget under the default gates: a text of at least 289 bytes for 24 floats.\<close>

lemma default_budget: "check_dimension_budget default_gates 24 bytes = None \<longleftrightarrow> 288 < bytes"
proof -
  have "USIZE_MAX \<noteq> 3" by (simp add: USIZE_MAX_def)
  moreover have "bytes * 8 div 3 \<le> 768 \<longleftrightarrow> bytes \<le> 288" by linarith
  ultimately show ?thesis by (simp add: check_dimension_budget_def default_gates_def Let_def not_le)
qed

text \<open>C23. The packed codec and its benchmark. A node with a registered head, at most three arguments
  that fit the alphabet and the twelve characters, and no named argument scores at least the threshold
  without the gates. With the gates it does so exactly when the first gate lets it pass, that is when
  its text is long enough for the dimension budget: the noise of the second gate never costs it the
  pass. Under the default gates that takes more than 288 bytes of text, so short nodes that fit
  are refused.\<close>

theorem packed_passes:
  assumes "reg_ok r" "fits_node C r n"
  shows "passes (bench_single_node (packed_encode_node H C r) (packed_decode C r) r) DEFAULT_THRESHOLD n \<and>
    (passes (bench_single_node_gated (packed_encode_node H C r) (packed_decode C r) print r g) DEFAULT_THRESHOLD n
      \<longleftrightarrow> check_dimension_budget g 24 (length (print n)) = None) \<and>
    (passes (bench_single_node_gated (packed_encode_node H C r) (packed_decode C r) print r default_gates)
        DEFAULT_THRESHOLD n
      \<longleftrightarrow> 288 < length (print n))"
proof -
  obtain p where p: "kept_predicate C r (nd_pred n) = Inr p" "\<And>a. same_content r n (packed_node p a)"
    using fits_same_content [OF assms] by blast
  have b: "head_to_index r (pr_head (nd_pred n)) \<le> 300" "unit_meta n" using assms(2) by (simp_all add: fits_node_def)
  let ?v = "\<lparr>tv_data = encoded C r n, tv_dim = 24\<rparr>"
  have c: "packed_decode C r ?v = Inr (packed_result C (nd_auth n) p)"
    using clean_decodes [of r n C] b p(1) by (simp add: unit_meta_def)
  obtain a where a: "packed_decode C r (latent_operation ?v) = Inr (packed_result C a p)"
    using blurred_decodes [OF b, of C] p(1) by auto
  have "passes (bench_single_node (packed_encode_node H C r) (packed_decode C r) r) DEFAULT_THRESHOLD n"
    unfolding packed.single_passes using c p(2) by (simp add: encode_node_encoded packed_result_def)
  moreover have gated:
    "passes (bench_single_node_gated (packed_encode_node H C r) (packed_decode C r) print r g) DEFAULT_THRESHOLD n
      \<longleftrightarrow> check_dimension_budget g 24 (length (print n)) = None" for g
  proof (cases "check_dimension_budget g 24 (length (print n))")
    case None
    then show ?thesis
      using packed.gated_passes [OF encode_node_encoded [of H C r n], of g print r] a c p(2)
      by (auto simp: packed_result_def apply_latent_operation_def)
  qed (simp add: packed.gated_refused)
  ultimately show ?thesis using default_budget by simp
qed

lemma sample_fact_fits: "fits_node sample_chrono one_relation sample_fact"
  using sample_fact_head sample_fact_unit
  by (simp add: fits_node_def registered_def one_relation_facts)
    (simp add: sample_fact_def bench_node_def node_new_def with_args_def predicate_new_def
      one_relation_facts fits_text_def in_charset_def CHARSET_def)

definition long_noted_fact :: node where
  "long_noted_fact = sample_fact\<lparr>nd_note := Some (replicate 300 CHR ''a'')\<rparr>"

lemma long_noted_fact_fits: "fits_node sample_chrono one_relation long_noted_fact"
  using sample_fact_fits by (simp add: fits_node_def long_noted_fact_def unit_meta_def)

lemma sample_lengths:
  "length (canonical sample_chrono sample_fact) \<le> 288" "288 < length (canonical sample_chrono long_noted_fact)"
  by code_simp+

lemma packed_passes_witness:
  "passes (bench_single_node (packed_encode_node (\<lambda>_. 7) sample_chrono one_relation)
     (packed_decode sample_chrono one_relation) one_relation) DEFAULT_THRESHOLD sample_fact \<and>
   \<not> passes (bench_single_node_gated (packed_encode_node (\<lambda>_. 7) sample_chrono one_relation)
     (packed_decode sample_chrono one_relation) (canonical sample_chrono) one_relation default_gates)
     DEFAULT_THRESHOLD sample_fact \<and>
   passes (bench_single_node_gated (packed_encode_node (\<lambda>_. 7) sample_chrono one_relation)
     (packed_decode sample_chrono one_relation) (canonical sample_chrono) one_relation default_gates)
     DEFAULT_THRESHOLD long_noted_fact"
  using packed_passes [OF one_relation_facts(1) sample_fact_fits, of "\<lambda>_. 7" "canonical sample_chrono" disabled_gates]
    packed_passes [OF one_relation_facts(1) long_noted_fact_fits, of "\<lambda>_. 7" "canonical sample_chrono" disabled_gates]
    sample_lengths by simp

section \<open>The comparison\<close>

text \<open>C24. Semantic equivalence. Two nodes are \<open>Different\<close> exactly when the shapes of their predicates
  differ (heads, numbers of arguments, keys, kinds of terms and literals, at any depth),
  \<open>WrongValues\<close> exactly when only values differ, and of nodes with the same predicate exactly those
  with the same metadata, floats up to \<open>1e-6\<close>, are \<open>Exact\<close>, the others \<open>MetadataDrift\<close>. The score is 1,
  0.85, at most 0.3 or 0 by the level, and every level below \<open>Exact\<close> names a difference. A node is
  \<open>Exact\<close> to itself whatever its floats.\<close>

theorem equivalence_levels:
  "eq_level (compare_nodes r a b) =
     (if \<not> agree_pred leaf_shape r (nd_pred a) (nd_pred b) then Different
      else if \<not> agree_pred (=) r (nd_pred a) (nd_pred b) then WrongValues
      else if same_metadata a b then Exact else MetadataDrift)
   \<and> score_ok (compare_nodes r a b) \<and> compare_nodes r a a = result_exact"
  using compare_nodes_facts [of r a b] compare_self [of r a] by simp

section \<open>The baseline codec\<close>

definition baseline_kept :: "datetime \<Rightarrow> morpheme_def \<Rightarrow> node \<Rightarrow> node" where
  \<comment> \<open>what the baseline keeps: the head's name, counts of types, and the metadata without its contents\<close>
  "baseline_kept now d n =
     \<lparr>nd_id = ''decoded'', nd_pred = build_predicate d (extract_type_features (nd_pred n)),
      nd_validity = (if nd_validity n = Forever then Forever else Window now None),
      nd_prov = prov_template (nd_prov n),
      nd_conf = default_confidence_for_provenance (prov_template (nd_prov n)),
      nd_auth = f32_clamp f32_zero f32_one (nd_auth n), nd_perm = standard_perm (nd_perm n),
      nd_deps = (if nd_deps n = [] then [] else [''decoded-dep'']), nd_status = nd_status n,
      nd_note = (if nd_note n = None then None else Some ''decoded from latent space'')\<rparr>"

lemma baseline_node_kept:
  "baseline_node (build_predicate d (extract_type_features (nd_pred n)))
     (build_metadata now (extract_meta_features n)) = baseline_kept now d n"
  by (simp add: baseline_node_def baseline_kept_def Let_def metadata_reads node_new_def with_provenance_def
      with_validity_def with_permissions_def with_authority_def with_confidence_def with_dep_def with_note_def)

text \<open>C35. The baseline codec against its reference. A node without nested predicates decodes to a node
  with the registered name of its head, its status, its standard permission tag, its authority, the
  kind of its provenance and whether it had dependencies, a note or a window; the confidence is the
  default of that kind, never the encoded one. A head that does not resolve makes decoding fail.\<close>

theorem baseline_equivalence:
  assumes "flat_pred (nd_pred n)" "registry_len r \<le> 2 ^ 32"
    and "case_option True (\<lambda>i. i < registry_len r) (baseline_head_index r (pr_head (nd_pred n)))"
  shows "bindr (baseline_encode_node H C r n) (\<lambda>e. baseline_decode C now r (er_vector e)) =
    (case baseline_head_index r (pr_head (nd_pred n)) of
       None \<Rightarrow> Inl (DecodeError MsgNoActivatedMorpheme)
     | Some i \<Rightarrow>
         Inr \<lparr>dr_nodes = [baseline_kept now (rg_by_id r ! i) n],
              dr_text = canonical C (baseline_kept now (rg_by_id r ! i) n)\<rparr>)"
  using assms flat_head [OF assms(1)] flat_no_head [OF assms(1)]
  by (auto simp: baseline_encode_node_def baseline_decode_built baseline_node_kept Let_def split: option.splits)

lemma baseline_equivalence_witness:
  "bindr (baseline_encode_node (\<lambda>_. 7) sample_chrono one_relation sample_fact)
     (\<lambda>e. baseline_decode sample_chrono 5 one_relation (er_vector e)) =
   Inr \<lparr>dr_nodes = [baseline_kept 5 (rg_by_id one_relation ! 0) sample_fact],
        dr_text = canonical sample_chrono (baseline_kept 5 (rg_by_id one_relation ! 0) sample_fact)\<rparr>"
proof -
  have i: "baseline_head_index one_relation (pr_head (nd_pred sample_fact)) = Some 0"
    by (simp add: sample_fact_def bench_node_def node_new_def with_args_def predicate_new_def
        baseline_head_index_def one_relation_facts)
  have f: "flat_pred (nd_pred sample_fact)"
    by (simp add: sample_fact_def bench_node_def node_new_def with_args_def predicate_new_def flat_pred_def)
  show ?thesis
    using baseline_equivalence [OF f, of one_relation "\<lambda>_. 7" sample_chrono 5] i by (simp add: one_relation_facts)
qed

text \<open>What the baseline forgets. A predicate over entities decodes to one placeholder entity, or
  to two when the head is a relation, whatever the entities, their order and their number: the encoder divides
  the counts of types by the number of arguments and the decoder reads them as counts, and the
  n-grams are not read.\<close>

lemma baseline_forgets:
  assumes "es \<noteq> []" "length es \<le> 2 ^ 24"
  shows "nd_pred (baseline_kept now d (n\<lparr>nd_pred := Predicate h (map TEnt es) []\<rparr>)) =
    Predicate (HeadName (md_name d))
      (if md_kind d = MkRelation then [TEnt ''ENT-0'', TEnt ''ENT-1''] else [TEnt ''ENT-0'']) []"
  using entity_predicate [OF assms, of d h] by (simp add: baseline_kept_def)

lemma baseline_forgets_witness:
  "nd_pred (baseline_kept 5 (rg_by_id one_relation ! 0)
     (sample_fact\<lparr>nd_pred := Predicate (HeadName ''located-in'') (map TEnt [''A'', ''B'', ''C'']) []\<rparr>)) =
   Predicate (HeadName ''located-in'') [TEnt ''ENT-0'', TEnt ''ENT-1''] []"
  using baseline_forgets [of "[''A'', ''B'', ''C'']", where now = 5 and d = "rg_by_id one_relation ! 0"
      and n = sample_fact and h = "HeadName ''located-in''"]
  by (simp add: one_relation_def register_name_def register_def registry_new_def)

section \<open>Vectors and the benchmark\<close>

definition vector_typed :: "nat \<Rightarrow> latent_error + encode_result \<Rightarrow> bool" where
  \<comment> \<open>a vector, if there is one, holds as many values as its dimension says, and that is the codec's\<close>
  "vector_typed d res \<longleftrightarrow>
     (case res of Inl e \<Rightarrow> True | Inr e \<Rightarrow> tv_ok (er_vector e) \<and> tv_dim (er_vector e) = d)"

text \<open>C36. Vectors are well typed. Every vector that either codec makes, of a node, of a sequence, of a
  text or of nothing, has the codec's dimension and that many values, and neither decoder rejects a
  vector for its dimension unless that is another one.\<close>

theorem vectors_typed:
  "vector_typed 24 (packed_encode_node H C r n) \<and> vector_typed 24 (packed_encode_sequence H C r ns)
   \<and> vector_typed 24 (packed_encode_text H C r s)
   \<and> vector_typed (baseline_dim r) (baseline_encode_node H C r n)
   \<and> vector_typed (baseline_dim r) (baseline_encode_sequence H C r ns)
   \<and> vector_typed (baseline_dim r) (baseline_encode_text H C r s)
   \<and> (packed_decode C r v = Inl (DimensionMismatch a b) \<longleftrightarrow> tv_dim v \<noteq> 24 \<and> a = 24 \<and> b = tv_dim v)
   \<and> (baseline_decode C now r v = Inl (DimensionMismatch a b) \<longleftrightarrow>
        tv_dim v \<noteq> baseline_dim r \<and> a = baseline_dim r \<and> b = tv_dim v)"
proof -
  have p: "vector_typed 24 (packed_encode_node H C r n)" for n
    by (simp add: vector_typed_def encode_node_encoded tv_ok_def)
  have pe: "vector_typed 24 (Inr packed_empty)"
    by (simp add: vector_typed_def packed_empty_def PACKED_CODEC_DIM_def) (simp add: tv_zeros_def)
  have b: "vector_typed (baseline_dim r) (baseline_encode_node H C r n)" for n
    by (simp add: vector_typed_def baseline_encode_node_def build_vector_dim)
  have be: "vector_typed (baseline_dim r) (Inr \<lparr>er_vector = tv_zeros (baseline_dim r), er_source_hash = 0\<rparr>)"
    by (simp add: vector_typed_def) (simp add: tv_zeros_def)
  have bs: "vector_typed (baseline_dim r) (baseline_encode_sequence H C r ns)" for ns
    using be by (simp add: baseline_encode_sequence_def case_prod_unfold Let_def) (simp add: vector_typed_def build_vector_dim)
  have "vector_typed 24 (packed_encode_sequence H C r ns)" "vector_typed 24 (packed_encode_text H C r s)"
    using p pe by (auto simp: packed_encode_sequence_def packed_encode_text_def vector_typed_def [of _ "Inl _"]
        split: list.split sum.split)
  moreover have "vector_typed (baseline_dim r) (baseline_encode_text H C r s)"
    using b be bs by (auto simp: baseline_encode_text_def vector_typed_def [of _ "Inl _"] split: list.split sum.split)
  moreover have "packed_decode C r v = Inl (DimensionMismatch a b) \<longleftrightarrow> tv_dim v \<noteq> 24 \<and> a = 24 \<and> b = tv_dim v"
    using packed.wrong_dim [of v C r] packed.decode_error [of v C r] by (cases "tv_dim v = 24") auto
  moreover have "baseline_decode C now r v = Inl (DimensionMismatch a b) \<longleftrightarrow>
      tv_dim v \<noteq> baseline_dim r \<and> a = baseline_dim r \<and> b = tv_dim v"
    using baseline.wrong_dim [of v r C now] baseline.decode_error [of v r C now] by (cases "tv_dim v = baseline_dim r") auto
  ultimately show ?thesis using p b bs by blast
qed

text \<open>What the benchmark reports. One detail for each node in order; a failure exactly for the
  nodes whose decoding fails; and as passed the fraction of nodes, of all of them, whose decoded
  predicate is the original one up to the spelling of heads. A mean score never hides a failure: a
  failed node scores 0.\<close>

lemma benchmark_reports:
  assumes "ns \<noteq> []" "res = bench_semantic_roundtrip (packed_encode_node H C r) (packed_decode C r) r ns"
  shows "br_total res = length ns \<and> map nr_id (br_details res) = map nd_id ns
    \<and> br_failures res = concat (map (\<lambda>n. case bench_single_node (packed_encode_node H C r) (packed_decode C r) r n of
        Inr _ \<Rightarrow> [] | Inl e \<Rightarrow> [(nd_id n, e)]) ns)
    \<and> br_passed res = f32_div (f32_of_nat (length (filter (\<lambda>n. \<exists>e d m. packed_encode_node H C r n = Inr e
        \<and> packed_decode C r (er_vector e) = Inr d \<and> dr_nodes d = [m] \<and> same_content r n m) ns)))
        (f32_of_nat (length ns))"
proof -
  let ?run = "bench_single_node (packed_encode_node H C r) (packed_decode C r) r"
  have res: "res = bench_loop ?run DEFAULT_THRESHOLD ns"
    by (simp add: assms(2) bench_semantic_roundtrip_def bench_semantic_roundtrip_with_threshold_def)
  have "nr_id (result_of ?run n) = nd_id n" for n
    by (cases "?run n") (auto simp: result_of_def failed_result_def bench_single_node_def dest: compared_id)
  then have "map nr_id (br_details res) = map nd_id ns" by (simp add: res bench_loop_facts)
  moreover have "passes ?run DEFAULT_THRESHOLD = (\<lambda>n. \<exists>e d m. packed_encode_node H C r n = Inr e
        \<and> packed_decode C r (er_vector e) = Inr d \<and> dr_nodes d = [m] \<and> same_content r n m)"
    by (rule ext) (rule packed.single_passes)
  ultimately show ?thesis using assms(1) by (simp add: res bench_loop_facts failures_of_def)
qed

lemma benchmark_reports_witness:
  "br_total (bench_semantic_roundtrip (packed_encode_node (\<lambda>_. 7) sample_chrono one_relation)
     (packed_decode sample_chrono one_relation) one_relation [sample_fact]) = 1"
  using benchmark_reports [of "[sample_fact]" "bench_semantic_roundtrip (packed_encode_node (\<lambda>_. 7) sample_chrono
      one_relation) (packed_decode sample_chrono one_relation) one_relation [sample_fact]"] by simp

text \<open>The benchmark's third gate. Splitting keeps every node on one side, and at most every other
  node is tested, however large a fraction is asked for.\<close>

lemma split_partition:
  "mset (fst (train_test_split g ns)) + mset (snd (train_test_split g ns)) = mset ns
   \<and> (if f32_le (gt_ratio g) f32_zero then snd (train_test_split g ns) = ns
      else length (snd (train_test_split g ns)) \<le> length ns div 2)"
  using split_loop_parts(1,2) [of _ 0 "[]" "[]" ns] by (simp add: train_test_split_def Let_def)

end
