(* ===== verification/Rocks.thy ===== *)
theory Rocks
  imports Storage "HOL-Library.List_Lexorder" "HOL-Library.Char_ord"
begin

text \<open>
  The persistent backend, \<open>factum-rt/src/rocksdb_backend.rs\<close>, and the trait both backends implement.
  RocksDB and bincode are not part of the repository: the record \<open>rocksdb\<close> holds the functions the
  backend calls, an argument of every definition here, and \<open>Rocks_Facts\<close> states what they are
  documented to do. Every call may fail with a text. Bytes are characters.
\<close>

section \<open>The trait\<close>

type_synonym ('s, 'a) backend_result = "(storage_error + 'a) \<times> 's"

record 's backend =
  bk_get_node :: "'s \<Rightarrow> node_id \<Rightarrow> storage_error + node option"
  bk_put_node :: "node \<Rightarrow> 's \<Rightarrow> ('s, unit) backend_result"
  bk_delete_node :: "node_id \<Rightarrow> 's \<Rightarrow> ('s, unit) backend_result"
  bk_scan_index :: "'s \<Rightarrow> cf \<Rightarrow> string \<Rightarrow> storage_error + node_id list"
  bk_put_index :: "cf \<Rightarrow> string \<Rightarrow> node_id \<Rightarrow> 's \<Rightarrow> ('s, unit) backend_result"
  bk_delete_index :: "cf \<Rightarrow> string \<Rightarrow> node_id \<Rightarrow> 's \<Rightarrow> ('s, unit) backend_result"
  bk_batch_write :: "write_op list \<Rightarrow> 's \<Rightarrow> ('s, unit) backend_result"
  bk_len :: "'s \<Rightarrow> storage_error + nat"
  bk_iter_nodes :: "'s \<Rightarrow> storage_error + node list"

definition bk_is_empty :: "'s backend \<Rightarrow> 's \<Rightarrow> storage_error + bool" where
  \<comment> \<open>the trait's default method\<close>
  "bk_is_empty B s = bindr (bk_len B s) (\<lambda>n. Inr (n = 0))"

definition mem_backend :: "mem backend" where
  "mem_backend =
     \<lparr>bk_get_node = get_node, bk_put_node = put_node, bk_delete_node = delete_node,
      bk_scan_index = scan_index, bk_put_index = put_index, bk_delete_index = delete_index,
      bk_batch_write = batch_write, bk_len = mem_len, bk_iter_nodes = iter_nodes\<rparr>"

section \<open>The libraries\<close>

datatype db_op = DbPut cf string string | DbDelete cf string

record 'db rocksdb =
  rk_open :: "cf list \<Rightarrow> 'db \<Rightarrow> (string + unit) \<times> 'db" \<comment> \<open>\<open>DB::open_cf_descriptors\<close> on what is on disk\<close>
  rk_cf :: "'db \<Rightarrow> cf \<Rightarrow> bool" \<comment> \<open>\<open>cf_handle\<close> finds the family\<close>
  rk_get :: "'db \<Rightarrow> cf \<Rightarrow> string \<Rightarrow> string + string option"
  rk_put :: "cf \<Rightarrow> string \<Rightarrow> string \<Rightarrow> 'db \<Rightarrow> (string + unit) \<times> 'db"
  rk_delete :: "cf \<Rightarrow> string \<Rightarrow> 'db \<Rightarrow> (string + unit) \<times> 'db"
  rk_write :: "db_op list \<Rightarrow> 'db \<Rightarrow> (string + unit) \<times> 'db" \<comment> \<open>a \<open>WriteBatch\<close>\<close>
  rk_iter :: "'db \<Rightarrow> cf \<Rightarrow> (string + string \<times> string) list" \<comment> \<open>\<open>iterator_cf\<close> from the start\<close>
  rk_prefix :: "'db \<Rightarrow> cf \<Rightarrow> string \<Rightarrow> (string + string \<times> string) list" \<comment> \<open>\<open>prefix_iterator_cf\<close>\<close>
  bc_write :: "node \<Rightarrow> string + string" \<comment> \<open>bincode of every field but \<open>note\<close>\<close>
  bc_read :: "string \<Rightarrow> string + node \<times> string" \<comment> \<open>those fields from the front of the bytes\<close>

section \<open>Nodes as bytes\<close>

text \<open>
  The derived \<open>Serialize\<close> of \<open>Node\<close> (types.rs) writes the fields in order and, by
  \<open>skip_serializing_if\<close>, the last one only when there is a note; the derived \<open>Deserialize\<close> asks bincode for
  all ten fields. An \<open>Option\<close> is a tag byte, a string its length in eight bytes, little end first,
  and its bytes. \<open>bincode::deserialize\<close> ignores bytes after the value.
\<close>

fun le_bytes :: "nat \<Rightarrow> nat \<Rightarrow> string" where
  "le_bytes 0 n = []"
| "le_bytes (Suc k) n = char_of n # le_bytes k (n div 256)"

fun le_value :: "string \<Rightarrow> nat" where
  "le_value [] = 0"
| "le_value (c # cs) = of_char c + 256 * le_value cs"

definition write_note :: "string option \<Rightarrow> string" where
  "write_note note = (case note of None \<Rightarrow> [] | Some s \<Rightarrow> CHR 0x01 # le_bytes 8 (length s) @ s)"

definition EOF_ERROR :: string where
  "EOF_ERROR = ''io error: unexpected end of file''"

definition read_note :: "string \<Rightarrow> string + string option" where
  "read_note bs =
     (case bs of
        [] \<Rightarrow> Inl EOF_ERROR
      | tag # bs \<Rightarrow>
          if tag = CHR 0x00 then Inr None
          else if tag = CHR 0x01 then
            (let n = le_value (take 8 bs); s = take n (drop 8 bs) in
             if length bs < 8 \<or> length (drop 8 bs) < n then Inl EOF_ERROR
             else if utf8_valid s then Inr (Some s) else Inl ''invalid utf-8'')
          else Inl ''invalid tag'')"

definition serialize_node :: "'db rocksdb \<Rightarrow> node \<Rightarrow> storage_error + string" where
  "serialize_node R n =
     (case bc_write R n of
        Inl e \<Rightarrow> Inl (SerializationError e) | Inr bs \<Rightarrow> Inr (bs @ write_note (nd_note n)))"

definition deserialize_node :: "'db rocksdb \<Rightarrow> string \<Rightarrow> storage_error + node" where
  "deserialize_node R bs =
     (case bc_read R bs of
        Inl e \<Rightarrow> Inl (SerializationError e)
      | Inr (n, rest) \<Rightarrow>
          (case read_note rest of
             Inl e \<Rightarrow> Inl (SerializationError e) | Inr note \<Rightarrow> Inr (n\<lparr>nd_note := note\<rparr>)))"

section \<open>The backend\<close>

definition cf_names :: "cf list" where
  "cf_names = [CF_NODES, BY_ENTITY, BY_PRED, BY_SRC, BY_PERM]"

definition io_result :: "(string + 'a) \<times> 'db \<Rightarrow> ('db, 'a) backend_result" where
  \<comment> \<open>\<open>map_err(|e| StorageError::Io(e.to_string()))\<close>\<close>
  "io_result r = (case fst r of Inl e \<Rightarrow> Inl (IoError e) | Inr x \<Rightarrow> Inr x, snd r)"

definition rocks_open :: "'db rocksdb \<Rightarrow> 'db \<Rightarrow> ('db, unit) backend_result" where
  "rocks_open R db = io_result (rk_open R cf_names db)"

definition cf_handle :: "'db rocksdb \<Rightarrow> 'db \<Rightarrow> cf \<Rightarrow> storage_error + cf" where
  "cf_handle R db c = (if rk_cf R db c then Inr c else Inl (CfNotFound c))"

definition rocks_get_node :: "'db rocksdb \<Rightarrow> 'db \<Rightarrow> node_id \<Rightarrow> storage_error + node option" where
  "rocks_get_node R db i =
     bindr (cf_handle R db CF_NODES) (\<lambda>c.
       case rk_get R db c i of
         Inr (Some bs) \<Rightarrow> (case deserialize_node R bs of Inr n \<Rightarrow> Inr (Some n) | Inl _ \<Rightarrow> Inr None)
       | Inr None \<Rightarrow> Inr None
       | Inl e \<Rightarrow> Inl (IoError e))"

definition rocks_put_node :: "'db rocksdb \<Rightarrow> node \<Rightarrow> 'db \<Rightarrow> ('db, unit) backend_result" where
  "rocks_put_node R n db =
     (case bindr (cf_handle R db CF_NODES) (\<lambda>c. bindr (serialize_node R n) (\<lambda>bs. Inr (c, bs))) of
        Inl e \<Rightarrow> (Inl e, db)
      | Inr (c, bs) \<Rightarrow> io_result (rk_put R c (nd_id n) bs db))"

definition rocks_delete_node :: "'db rocksdb \<Rightarrow> node_id \<Rightarrow> 'db \<Rightarrow> ('db, unit) backend_result" where
  "rocks_delete_node R i db =
     (case cf_handle R db CF_NODES of
        Inl e \<Rightarrow> (Inl e, db) | Inr c \<Rightarrow> io_result (rk_delete R c i db))"

fun scan_keys :: "string \<Rightarrow> (string + string \<times> string) list \<Rightarrow> node_id list \<Rightarrow> storage_error + node_id list" where
  "scan_keys p [] ids = Inr ids"
| "scan_keys p (Inl e # items) ids = Inl (IoError e)"
| "scan_keys p (Inr (key, _) # items) ids =
     (if \<not> prefix p key then Inr ids
      else scan_keys p items
        (case decode_node_id_from_index key of None \<Rightarrow> ids | Some i \<Rightarrow> ids @ [i]))"

definition rocks_scan_index :: "'db rocksdb \<Rightarrow> 'db \<Rightarrow> cf \<Rightarrow> string \<Rightarrow> storage_error + node_id list" where
  "rocks_scan_index R db c p =
     bindr (cf_handle R db c) (\<lambda>c.
       scan_keys (encode_index_prefix p) (rk_prefix R db c (encode_index_prefix p)) [])"

definition rocks_put_index :: "'db rocksdb \<Rightarrow> cf \<Rightarrow> string \<Rightarrow> node_id \<Rightarrow> 'db \<Rightarrow> ('db, unit) backend_result" where
  "rocks_put_index R c key i db =
     (case cf_handle R db c of Inl e \<Rightarrow> (Inl e, db) | Inr c \<Rightarrow> io_result (rk_put R c key [] db))"

definition rocks_delete_index :: "'db rocksdb \<Rightarrow> cf \<Rightarrow> string \<Rightarrow> node_id \<Rightarrow> 'db \<Rightarrow> ('db, unit) backend_result" where
  "rocks_delete_index R c key i db =
     (case cf_handle R db c of Inl e \<Rightarrow> (Inl e, db) | Inr c \<Rightarrow> io_result (rk_delete R c key db))"

definition batch_op :: "'db rocksdb \<Rightarrow> 'db \<Rightarrow> write_op \<Rightarrow> storage_error + db_op" where
  "batch_op R db op =
     (case op of
        PutNode n \<Rightarrow>
          bindr (cf_handle R db CF_NODES) (\<lambda>c. bindr (serialize_node R n) (\<lambda>bs. Inr (DbPut c (nd_id n) bs)))
      | DeleteNode i \<Rightarrow> bindr (cf_handle R db CF_NODES) (\<lambda>c. Inr (DbDelete c i))
      | PutIndex c key _ \<Rightarrow> bindr (cf_handle R db c) (\<lambda>c. Inr (DbPut c key []))
      | DeleteIndex c key _ \<Rightarrow> bindr (cf_handle R db c) (\<lambda>c. Inr (DbDelete c key)))"

fun fill_batch :: "'db rocksdb \<Rightarrow> 'db \<Rightarrow> write_op list \<Rightarrow> db_op list \<Rightarrow> storage_error + db_op list" where
  "fill_batch R db [] batch = Inr batch"
| "fill_batch R db (op # ops) batch =
     bindr (batch_op R db op) (\<lambda>b. fill_batch R db ops (batch @ [b]))"

definition rocks_batch_write :: "'db rocksdb \<Rightarrow> write_op list \<Rightarrow> 'db \<Rightarrow> ('db, unit) backend_result" where
  "rocks_batch_write R ops db =
     (case fill_batch R db ops [] of
        Inl e \<Rightarrow> (Inl e, db) | Inr batch \<Rightarrow> io_result (rk_write R batch db))"

fun count_items :: "(string + string \<times> string) list \<Rightarrow> nat \<Rightarrow> storage_error + nat" where
  "count_items [] n = Inr n"
| "count_items (Inl e # items) n = Inl (IoError e)"
| "count_items (Inr _ # items) n = count_items items (n + 1)"

definition rocks_len :: "'db rocksdb \<Rightarrow> 'db \<Rightarrow> storage_error + nat" where
  "rocks_len R db = bindr (cf_handle R db CF_NODES) (\<lambda>c. count_items (rk_iter R db c) 0)"

fun read_items :: "'db rocksdb \<Rightarrow> (string + string \<times> string) list \<Rightarrow> node list \<Rightarrow> storage_error + node list" where
  "read_items R [] ns = Inr ns"
| "read_items R (Inl e # items) ns = Inl (IoError e)"
| "read_items R (Inr (_, bs) # items) ns =
     read_items R items (case deserialize_node R bs of Inr n \<Rightarrow> ns @ [n] | Inl _ \<Rightarrow> ns)"

definition rocks_iter_nodes :: "'db rocksdb \<Rightarrow> 'db \<Rightarrow> storage_error + node list" where
  "rocks_iter_nodes R db = bindr (cf_handle R db CF_NODES) (\<lambda>c. read_items R (rk_iter R db c) [])"

definition rocks_backend :: "'db rocksdb \<Rightarrow> 'db backend" where
  "rocks_backend R =
     \<lparr>bk_get_node = rocks_get_node R, bk_put_node = rocks_put_node R, bk_delete_node = rocks_delete_node R,
      bk_scan_index = rocks_scan_index R, bk_put_index = rocks_put_index R, bk_delete_index = rocks_delete_index R,
      bk_batch_write = rocks_batch_write R, bk_len = rocks_len R, bk_iter_nodes = rocks_iter_nodes R\<rparr>"

end
