(* ===== verification/Rocks_Facts.thy ===== *)
theory Rocks_Facts
  imports Rocks
begin

text \<open>
  What a backend promises the store, as the locale \<open>storage_contract\<close>: each operation that answers
  \<open>Ok\<close> has its effect on the nodes and on the index entries, and each read answers from them. The
  in-memory backend is an interpretation. RocksDB's documented behaviour is the locale
  \<open>rocks_library\<close>, and under it the persistent backend keeps the contract for the nodes that have a
  note.
\<close>

section \<open>The abstract storage\<close>

record contents =
  ct_nodes :: "node_id \<Rightarrow> node option"
  ct_entries :: "cf \<Rightarrow> (string \<times> node_id) set"

fun op_effect :: "write_op \<Rightarrow> contents \<Rightarrow> contents" where
  "op_effect (PutNode n) t = t\<lparr>ct_nodes := (ct_nodes t)(nd_id n \<mapsto> n)\<rparr>"
| "op_effect (DeleteNode i) t = t\<lparr>ct_nodes := (ct_nodes t)(i := None)\<rparr>"
| "op_effect (PutIndex c key i) t = t\<lparr>ct_entries := (ct_entries t)(c := insert (key, i) (ct_entries t c))\<rparr>"
| "op_effect (DeleteIndex c key i) t = t\<lparr>ct_entries := (ct_entries t)(c := ct_entries t c - {(key, i)})\<rparr>"

fun op_ok :: "(node \<Rightarrow> bool) \<Rightarrow> write_op \<Rightarrow> bool" where
  \<comment> \<open>the node can be stored; the index exists and the key ends in the id\<close>
  "op_ok storable (PutNode n) \<longleftrightarrow> storable n"
| "op_ok storable (DeleteNode i) \<longleftrightarrow> True"
| "op_ok storable (PutIndex c key i) \<longleftrightarrow> is_cf c \<and> decode_node_id_from_index key = Some i"
| "op_ok storable (DeleteIndex c key i) \<longleftrightarrow> is_cf c \<and> decode_node_id_from_index key = Some i"

definition run_op :: "'s backend \<Rightarrow> write_op \<Rightarrow> 's \<Rightarrow> ('s, unit) backend_result" where
  "run_op B op s =
     (case op of
        PutNode n \<Rightarrow> bk_put_node B n s
      | DeleteNode i \<Rightarrow> bk_delete_node B i s
      | PutIndex c key i \<Rightarrow> bk_put_index B c key i s
      | DeleteIndex c key i \<Rightarrow> bk_delete_index B c key i s)"

definition indexed :: "contents \<Rightarrow> cf \<Rightarrow> string \<Rightarrow> node_id set" where
  "indexed t c p = {i. \<exists>key. prefix (encode_index_prefix p) key \<and> (key, i) \<in> ct_entries t c}"

text \<open>What a client of the trait does: write, write a batch, or read.\<close>

datatype request =
    Write write_op | Batch "write_op list"
  | GetNode node_id | ScanIndex cf string | CountNodes | AllNodes

datatype reply = Done | Found "node option" | Ids "node_id set" | Count nat | Nodes "node set"

fun request_ok :: "(node \<Rightarrow> bool) \<Rightarrow> request \<Rightarrow> bool" where
  "request_ok storable (Write op) \<longleftrightarrow> op_ok storable op"
| "request_ok storable (Batch ops) \<longleftrightarrow> list_all (op_ok storable) ops"
| "request_ok storable (ScanIndex c p) \<longleftrightarrow> is_cf c"
| "request_ok storable _ \<longleftrightarrow> True"

fun serve :: "'s backend \<Rightarrow> request \<Rightarrow> 's \<Rightarrow> (storage_error + reply) \<times> 's" where
  "serve B (Write op) s = (bindr (fst (run_op B op s)) (\<lambda>_. Inr Done), snd (run_op B op s))"
| "serve B (Batch ops) s = (bindr (fst (bk_batch_write B ops s)) (\<lambda>_. Inr Done), snd (bk_batch_write B ops s))"
| "serve B (GetNode i) s = (bindr (bk_get_node B s i) (\<lambda>n. Inr (Found n)), s)"
| "serve B (ScanIndex c p) s = (bindr (bk_scan_index B s c p) (\<lambda>ids. Inr (Ids (set ids))), s)"
| "serve B CountNodes s = (bindr (bk_len B s) (\<lambda>k. Inr (Count k)), s)"
| "serve B AllNodes s = (bindr (bk_iter_nodes B s) (\<lambda>ns. Inr (Nodes (set ns))), s)"

fun serve_all :: "'s backend \<Rightarrow> request list \<Rightarrow> 's \<Rightarrow> storage_error + reply list" where
  \<comment> \<open>the first error ends the client\<close>
  "serve_all B [] s = Inr []"
| "serve_all B (q # qs) s =
     bindr (fst (serve B q s)) (\<lambda>a. bindr (serve_all B qs (snd (serve B q s))) (\<lambda>as. Inr (a # as)))"

definition served :: "'s backend \<Rightarrow> request list \<Rightarrow> 's \<Rightarrow> 's" where
  "served B qs s = fold (\<lambda>q s. snd (serve B q s)) qs s"

fun effect :: "request \<Rightarrow> contents \<Rightarrow> contents" where
  "effect (Write op) t = op_effect op t"
| "effect (Batch ops) t = fold op_effect ops t"
| "effect _ t = t"

fun expected :: "request \<Rightarrow> contents \<Rightarrow> reply" where
  "expected (GetNode i) t = Found (ct_nodes t i)"
| "expected (ScanIndex c p) t = Ids (indexed t c p)"
| "expected CountNodes t = Count (card (dom (ct_nodes t)))"
| "expected AllNodes t = Nodes (ran (ct_nodes t))"
| "expected _ t = Done"

fun expected_all :: "request list \<Rightarrow> contents \<Rightarrow> reply list" where
  "expected_all [] t = []"
| "expected_all (q # qs) t = expected q t # expected_all qs (effect q t)"

lemma expected_append: "expected_all (qs @ rs) t = expected_all qs t @ expected_all rs (fold effect qs t)"
  by (induction qs arbitrary: t) simp_all

lemma op_ok_any: "op_ok storable op \<Longrightarrow> op_ok (\<lambda>_. True) op"
  by (cases op) auto

lemma request_ok_any: "request_ok storable q \<Longrightarrow> request_ok (\<lambda>_. True) q"
  using op_ok_any by (cases q) (auto simp: list_all_iff)

locale storage_contract =
  fixes B :: "'s backend" and ok :: "'s \<Rightarrow> bool" and abs :: "'s \<Rightarrow> contents" and storable :: "node \<Rightarrow> bool"
  assumes run_op: "ok s \<Longrightarrow> op_ok storable op \<Longrightarrow> run_op B op s = (Inr x, s') \<Longrightarrow> ok s' \<and> abs s' = op_effect op (abs s)"
    and batch: "ok s \<Longrightarrow> list_all (op_ok storable) ops \<Longrightarrow> bk_batch_write B ops s = (Inr x, s') \<Longrightarrow>
      ok s' \<and> abs s' = fold op_effect ops (abs s)"
    and get: "ok s \<Longrightarrow> bk_get_node B s i = Inr n \<Longrightarrow> n = ct_nodes (abs s) i"
    and scan: "ok s \<Longrightarrow> is_cf c \<Longrightarrow> bk_scan_index B s c p = Inr ids \<Longrightarrow> set ids = indexed (abs s) c p"
    and len: "ok s \<Longrightarrow> bk_len B s = Inr k \<Longrightarrow> k = card (dom (ct_nodes (abs s)))"
    and iter: "ok s \<Longrightarrow> bk_iter_nodes B s = Inr ns \<Longrightarrow> set ns = ran (ct_nodes (abs s))"
begin

lemma serve_step:
  assumes "ok s" "request_ok storable q" "fst (serve B q s) = Inr a"
  shows "a = expected q (abs s) \<and> ok (snd (serve B q s)) \<and> abs (snd (serve B q s)) = effect q (abs s)"
proof (cases q)
  case (Write op)
  obtain x s' where "run_op B op s = (x, s')" by fastforce
  then show ?thesis using assms Write run_op [of s op] by (cases x) auto
next
  case (Batch ops)
  obtain x s' where "bk_batch_write B ops s = (x, s')" by fastforce
  then show ?thesis using assms Batch batch [of s ops] by (cases x) auto
next
  case (GetNode i)
  then show ?thesis using assms get [of s i] by auto
next
  case (ScanIndex c p)
  then show ?thesis using assms scan [of s c p] by auto
next
  case CountNodes
  then show ?thesis using assms len [of s] by auto
next
  case AllNodes
  then show ?thesis using assms iter [of s] by auto
qed

lemma serve_all_expected:
  "ok s \<Longrightarrow> list_all (request_ok storable) qs \<Longrightarrow> serve_all B qs s = Inr as \<Longrightarrow>
   as = expected_all qs (abs s) \<and> ok (served B qs s) \<and> abs (served B qs s) = fold effect qs (abs s)"
proof (induction qs arbitrary: s as)
  case (Cons q qs)
  then obtain a as' where a: "fst (serve B q s) = Inr a" "serve_all B qs (snd (serve B q s)) = Inr as'" "as = a # as'"
    by auto
  then show ?case using serve_step [OF Cons.prems(1) _ a(1)] Cons.IH [OF _ _ a(2)] Cons.prems(2)
    by (simp add: served_def)
qed (simp add: served_def)

end

section \<open>The in-memory backend keeps the contract\<close>

definition mem_contents :: "mem \<Rightarrow> contents" where
  "mem_contents m =
     \<lparr>ct_nodes = map_of (mb_nodes m),
      ct_entries = (\<lambda>c. if is_cf c then {(key, i). i \<in> set (idx m c key)} else {})\<rparr>"

lemma delete_node_effect:
  assumes "mem_ok m" shows "mem_ok (snd (delete_node i m))"
    "mem_contents (snd (delete_node i m)) = op_effect (DeleteNode i) (mem_contents m)"
proof -
  have "set (AList.delete i (mb_nodes m)) \<subseteq> set (mb_nodes m)" by (simp add: AList.delete_eq)
  then show "mem_ok (snd (delete_node i m))" using assms
    by (auto simp: mem_ok_def delete_node_def AList.distinct_delete)
  have "idx (snd (delete_node i m)) c key = idx m c key" for c key by (simp add: delete_node_def idx_def)
  moreover have "map_of (mb_nodes (snd (delete_node i m))) = (map_of (mb_nodes m))(i := None)"
    by (simp add: delete_node_def AList.delete_conv')
  ultimately show "mem_contents (snd (delete_node i m)) = op_effect (DeleteNode i) (mem_contents m)"
    by (simp add: mem_contents_def fun_eq_iff)
qed

lemma entries_at_delete: "entries_at k (AList.delete k' al) = (if k = k' then [] else entries_at k al)"
  by (simp add: entries_at_def AList.delete_conv')

lemma delete_index_cases:
  assumes "mem_ok m" "is_cf c"
  obtains al' where "delete_index c key i m = (Inr (), m\<lparr>mb_indices := AList.update c al' (mb_indices m)\<rparr>)
      \<or> delete_index c key i m = (Inr (), m) \<and> al' = entries_at c (mb_indices m)"
    "distinct (map fst al')" "\<And>k. entries_at k al' =
      (if k = key then filter (\<lambda>j. j \<noteq> i) (idx m c key) else idx m c k)"
proof -
  obtain al where al: "map_of (mb_indices m) c = Some al" using assms by (auto simp: mem_ok_def)
  then have e: "entries_at c (mb_indices m) = al" by (simp add: entries_at_def)
  have d: "distinct (map fst al)" using assms(1) e unfolding mem_ok_def by metis
  have i: "idx m c k = entries_at k al" for k by (simp add: idx_def e)
  show ?thesis
  proof (cases "map_of al key")
    case None
    then have "entries_at key al = []" by (simp add: entries_at_def)
    with that [of al] None al d assms(2) show ?thesis
      by (simp add: delete_index_def get_index_map_cf e i)
  next
    case (Some ids)
    then have k: "entries_at key al = ids" by (simp add: entries_at_def)
    let ?ids = "filter (\<lambda>j. j \<noteq> i) ids"
    let ?al = "if ?ids = [] then AList.delete key al else AList.update key ?ids al"
    have "delete_index c key i m = (Inr (), m\<lparr>mb_indices := AList.update c ?al (mb_indices m)\<rparr>)"
      using Some al assms(2) by (simp add: delete_index_def get_index_map_cf Let_def)
    moreover have "distinct (map fst ?al)" using d by (simp add: AList.distinct_delete distinct_update)
    moreover have "entries_at k ?al = (if k = key then filter (\<lambda>j. j \<noteq> i) (idx m c key) else idx m c k)" for k
      using k by (simp add: entries_at_delete i)
    ultimately show ?thesis using that [of ?al] by blast
  qed
qed

lemma delete_index_effect:
  assumes "mem_ok m" "is_cf c"
  shows "fst (delete_index c key i m) = Inr ()" "mem_ok (snd (delete_index c key i m))"
    "mem_contents (snd (delete_index c key i m)) = op_effect (DeleteIndex c key i) (mem_contents m)"
proof -
  obtain al' where al': "delete_index c key i m = (Inr (), m\<lparr>mb_indices := AList.update c al' (mb_indices m)\<rparr>)
      \<or> delete_index c key i m = (Inr (), m) \<and> al' = entries_at c (mb_indices m)"
    and d: "distinct (map fst al')"
    and e: "\<And>k. entries_at k al' = (if k = key then filter (\<lambda>j. j \<noteq> i) (idx m c key) else idx m c k)"
    using delete_index_cases [OF assms, of key i] by metis
  let ?m = "snd (delete_index c key i m)"
  show "fst (delete_index c key i m) = Inr ()" using al' by auto
  show "mem_ok ?m" using al' d assms by (auto simp: mem_ok_def update_conv)
  have "idx ?m c' k = (if c' = c \<and> k = key then filter (\<lambda>j. j \<noteq> i) (idx m c key) else idx m c' k)" for c' k
    using al' e [of k] by (auto simp: idx_def)
  moreover have "mb_nodes ?m = mb_nodes m" using al' by auto
  ultimately show "mem_contents ?m = op_effect (DeleteIndex c key i) (mem_contents m)"
    using assms(2) by (auto simp: mem_contents_def fun_eq_iff split: if_splits)
qed

lemma mem_run_op:
  assumes "mem_ok m" "op_ok (\<lambda>_. True) op"
  shows "fst (run_op mem_backend op m) = Inr () \<and> mem_ok (snd (run_op mem_backend op m))
    \<and> mem_contents (snd (run_op mem_backend op m)) = op_effect op (mem_contents m)"
proof (cases op)
  case (PutNode n)
  have "mem_contents (snd (put_node n m)) = op_effect (PutNode n) (mem_contents m)"
    by (simp add: mem_contents_def fun_eq_iff)
  then show ?thesis using PutNode assms mem_ok_put_node [of m n] by (simp add: run_op_def mem_backend_def)
next
  case (DeleteNode i)
  then show ?thesis using delete_node_effect [OF assms(1), of i]
    by (simp add: run_op_def mem_backend_def delete_node_def)
next
  case (PutIndex c key i)
  then show ?thesis using assms mem_ok_put_index [of m c key i]
    by (auto simp: run_op_def mem_backend_def mem_contents_def fun_eq_iff)
next
  case (DeleteIndex c key i)
  then show ?thesis using delete_index_effect [OF assms(1), of c key i] assms(2)
    by (simp add: run_op_def mem_backend_def)
qed

lemma apply_op_run: "apply_op op m = run_op mem_backend op m"
  by (simp add: apply_op_def run_op_def mem_backend_def split: write_op.split)

lemma mem_batch:
  "mem_ok m \<Longrightarrow> list_all (op_ok (\<lambda>_. True)) ops \<Longrightarrow>
   fst (batch_write ops m) = Inr () \<and> mem_ok (snd (batch_write ops m))
   \<and> mem_contents (snd (batch_write ops m)) = fold op_effect ops (mem_contents m)"
proof (induction ops arbitrary: m)
  case (Cons op ops)
  obtain m' where m': "apply_op op m = (Inr (), m')" "mem_ok m'" "mem_contents m' = op_effect op (mem_contents m)"
    using mem_run_op [of m op] Cons.prems by (cases "apply_op op m") (auto simp: apply_op_run)
  show ?case using Cons.IH [OF m'(2)] Cons.prems(2) m'(1,3) by simp
qed simp

lemma mem_filed: "is_cf c \<Longrightarrow> indexed (mem_contents m) c p = {i. \<exists>key. prefix (encode_index_prefix p) key \<and> i \<in> set (idx m c key)}"
  by (simp add: indexed_def mem_contents_def)

interpretation mem: storage_contract mem_backend mem_ok mem_contents "\<lambda>_. True"
proof (unfold_locales, goal_cases)
  case (1 s op x s')
  then show ?case using mem_run_op [of s op] by simp
next
  case (2 s ops x s')
  then show ?case using mem_batch [of s ops] by (simp add: mem_backend_def)
next
  case (3 s i n)
  then show ?case by (simp add: mem_backend_def get_node_def mem_contents_def)
next
  case (4 s c p ids)
  obtain ids' where "scan_index s c p = Inr ids'"
    "\<And>i. i \<in> set ids' \<longleftrightarrow> (\<exists>key. prefix (encode_index_prefix p) key \<and> i \<in> set (idx s c key))"
    using scan_index_ok [OF 4(1,2)] by blast
  with 4 show ?case by (auto simp: mem_backend_def mem_filed)
next
  case (5 s k)
  then have "distinct (map fst (mb_nodes s))" by (simp add: mem_ok_def)
  then have "card (fst ` set (mb_nodes s)) = length (mb_nodes s)"
    using distinct_card [of "map fst (mb_nodes s)"] by simp
  with 5 show ?case by (simp add: mem_backend_def mem_len_def mem_contents_def dom_map_of_conv_image_fst)
next
  case (6 s ns)
  then have "distinct (map fst (mb_nodes s))" by (simp add: mem_ok_def)
  with 6 show ?case by (auto simp add: mem_backend_def iter_nodes_def mem_contents_def ran_distinct simp flip: set_map)
qed

text \<open>In memory nothing fails that the contract allows.\<close>

lemma mem_serves:
  "mem_ok m \<Longrightarrow> list_all (request_ok (\<lambda>_. True)) qs \<Longrightarrow> serve_all mem_backend qs m = Inr (expected_all qs (mem_contents m))"
proof (induction qs arbitrary: m)
  case (Cons q qs)
  have q: "request_ok (\<lambda>_. True) q" using Cons.prems(2) by simp
  have "\<exists>a. fst (serve mem_backend q m) = Inr a"
  proof (cases q)
    case (ScanIndex c p)
    then have "is_cf c" using q by simp
    then obtain ids where "scan_index m c p = Inr ids" by (rule scan_index_ok [OF Cons.prems(1), of c p])
    then show ?thesis using ScanIndex by (simp add: mem_backend_def)
  qed (use mem_run_op [OF Cons.prems(1)] mem_batch [OF Cons.prems(1)] q in
    \<open>auto simp: mem_backend_def get_node_def mem_len_def iter_nodes_def\<close>)
  then obtain a where "fst (serve mem_backend q m) = Inr a" by blast
  then show ?case using mem.serve_step [OF Cons.prems(1) q] Cons by auto
qed simp

end
