(* ===== verification/Rocks_Library.thy ===== *)
theory Rocks_Library
  imports Rocks_Facts
begin

text \<open>
  RocksDB and bincode as they are documented, the locale \<open>rocks_library\<close>: a column family is a map
  from byte strings to byte strings that is visited in the order of its keys; a write that fails
  changes nothing, and a batch is written whole or not at all; reads answer from what was written or
  fail. Under it the persistent backend keeps the contract of storage for nodes with a note.
\<close>

section \<open>Keys in order\<close>

lemma prefix_ge: "prefix p k \<Longrightarrow> p \<le> (k :: string)"
proof (induction p arbitrary: k)
  case (Cons c p)
  then show ?case by (cases k) auto
qed simp

lemma prefix_block: "p \<le> k \<Longrightarrow> k \<le> k' \<Longrightarrow> prefix p k' \<Longrightarrow> prefix p (k :: string)"
proof (induction p arbitrary: k k')
  case (Cons c p)
  from Cons.prems(3) obtain k2 where k2: "k' = c # k2" "prefix p k2" by (cases k') auto
  then show ?case using Cons by (cases k) auto
qed simp

definition below :: "string \<Rightarrow> string \<times> 'a \<Rightarrow> bool" where
  "below p e \<longleftrightarrow> fst e < p"

lemma prefix_run:
  fixes es :: "(string \<times> 'a) list"
  assumes "sorted_wrt (<) (map fst es)"
  shows "takeWhile (\<lambda>e. prefix p (fst e)) (dropWhile (below p) es) = filter (\<lambda>e. prefix p (fst e)) es"
  using assms
proof (induction es)
  case (Cons e es)
  show ?case
  proof (cases "fst e < p")
    case True
    then have "\<not> prefix p (fst e)" using prefix_ge by (meson leD)
    then show ?thesis using True Cons by (simp add: below_def)
  next
    case False
    then have le: "p \<le> fst e" by simp
    have "takeWhile (\<lambda>e. prefix p (fst e)) xs = filter (\<lambda>e. prefix p (fst e)) xs"
      if "sorted_wrt (<) (map fst xs)" "\<forall>x \<in> set xs. p \<le> fst x" for xs :: "(string \<times> 'a) list"
      using that
    proof (induction xs)
      case (Cons x xs)
      have "\<not> prefix p (fst x) \<Longrightarrow> y \<in> set xs \<Longrightarrow> \<not> prefix p (fst y)" for y
        using Cons.prems prefix_block [of p "fst x" "fst y"] by fastforce
      then show ?case using Cons by (auto simp: filter_empty_conv)
    qed simp
    moreover have "\<forall>x \<in> set (e # es). p \<le> fst x" using Cons.prems le by fastforce
    ultimately show ?thesis using Cons.prems False by (simp add: below_def del: takeWhile.simps filter.simps)
  qed
qed simp

section \<open>The libraries' laws\<close>

fun db_effect :: "db_op \<Rightarrow> (cf \<Rightarrow> string \<Rightarrow> string option) \<Rightarrow> cf \<Rightarrow> string \<Rightarrow> string option" where
  "db_effect (DbPut c k v) t = t(c := (t c)(k \<mapsto> v))"
| "db_effect (DbDelete c k) t = t(c := (t c)(k := None))"

definition visits :: "(string + 'a) list \<Rightarrow> 'a list \<Rightarrow> bool" where
  \<comment> \<open>an iterator yields the entries in order, or some of them and then an error\<close>
  "visits items es \<longleftrightarrow>
     items = map Inr es \<or> (\<exists>k e rest. items = map Inr (take k es) @ Inl e # rest)"

definition tables :: "('db \<Rightarrow> cf \<Rightarrow> (string \<times> string) list) \<Rightarrow> 'db \<Rightarrow> cf \<Rightarrow> string \<Rightarrow> string option" where
  "tables view db = (\<lambda>c. map_of (view db c))"

definition stored_node :: "'db rocksdb \<Rightarrow> string option \<Rightarrow> node option" where
  "stored_node R v =
     (case v of None \<Rightarrow> None
      | Some bs \<Rightarrow> (case deserialize_node R bs of Inl _ \<Rightarrow> None | Inr n \<Rightarrow> Some n))"

definition table_contents :: "'db rocksdb \<Rightarrow> (cf \<Rightarrow> string \<Rightarrow> string option) \<Rightarrow> contents" where
  "table_contents R t =
     \<lparr>ct_nodes = (\<lambda>i. stored_node R (t CF_NODES i)),
      ct_entries = (\<lambda>c. if is_cf c then {(key, i). t c key \<noteq> None \<and> decode_node_id_from_index key = Some i} else {})\<rparr>"

definition readable :: "'db rocksdb \<Rightarrow> (cf \<Rightarrow> string \<Rightarrow> string option) \<Rightarrow> bool" where
  "readable R t \<longleftrightarrow> (\<forall>i bs. t CF_NODES i = Some bs \<longrightarrow> (\<exists>n. deserialize_node R bs = Inr n))"

definition noted :: "node \<Rightarrow> bool" where
  "noted n \<longleftrightarrow> (case nd_note n of None \<Rightarrow> False | Some s \<Rightarrow> utf8_valid s \<and> length s < 2 ^ 64)"

definition db_ok :: "'db rocksdb \<Rightarrow> ('db \<Rightarrow> cf \<Rightarrow> (string \<times> string) list) \<Rightarrow> 'db \<Rightarrow> bool" where
  "db_ok R view db \<longleftrightarrow> (\<forall>c \<in> set cf_names. rk_cf R db c) \<and> readable R (tables view db)"

definition db_contents :: "'db rocksdb \<Rightarrow> ('db \<Rightarrow> cf \<Rightarrow> (string \<times> string) list) \<Rightarrow> 'db \<Rightarrow> contents" where
  "db_contents R view db = table_contents R (tables view db)"

section \<open>Loops over an iterator\<close>

lemma count_items_map: "count_items (map Inr es) n = Inr (n + length es)"
  by (induction es arbitrary: n) auto

lemma count_items_error: "count_items (map Inr es @ Inl e # rest) n = Inl (IoError e)"
  by (induction es arbitrary: n) auto

lemma read_items_map:
  "read_items R (map Inr es) ns = Inr (ns @ List.map_filter (\<lambda>e. stored_node R (Some (snd e))) es)"
  by (induction es arbitrary: ns) (auto simp: stored_node_def List.map_filter_simps split: sum.split)

lemma read_items_error: "read_items R (map Inr es @ Inl e # rest) ns = Inl (IoError e)"
  by (induction es arbitrary: ns) auto

definition ids_of :: "string \<Rightarrow> (string \<times> string) list \<Rightarrow> node_id list" where
  "ids_of p es = List.map_filter decode_node_id_from_index (map fst (takeWhile (\<lambda>e. prefix p (fst e)) es))"

lemma scan_keys_map: "scan_keys p (map Inr es) ids = Inr (ids @ ids_of p es)"
  by (induction es arbitrary: ids) (auto simp: ids_of_def List.map_filter_simps split: option.split)

lemma scan_keys_error:
  "scan_keys p (map Inr es @ Inl e # rest) ids =
     (if list_all (\<lambda>x. prefix p (fst x)) es then Inl (IoError e) else Inr (ids @ ids_of p es))"
  by (induction es arbitrary: ids) (auto simp: ids_of_def List.map_filter_simps split: option.split)

lemma scan_keys_visits:
  assumes "visits items es" "scan_keys p items [] = Inr ids"
  shows "ids = ids_of p es"
proof -
  consider "items = map Inr es" | k e rest where "items = map Inr (take k es) @ Inl e # rest"
    using assms(1) by (auto simp: visits_def)
  then show ?thesis
  proof cases
    case 2
    then have "\<exists>x \<in> set (take k es). \<not> prefix p (fst x)" and i: "ids = ids_of p (take k es)"
      using assms(2) by (auto simp: scan_keys_error list_all_iff split: if_splits)
    then have "takeWhile (\<lambda>e. prefix p (fst e)) (take k es @ drop k es) = takeWhile (\<lambda>e. prefix p (fst e)) (take k es)"
      by (meson takeWhile_append1)
    then show ?thesis by (simp add: i ids_of_def)
  qed (use assms(2) in \<open>simp add: scan_keys_map\<close>)
qed

lemma visits_whole:
  assumes "visits items es" "\<And>k e rest. items = map Inr (take k es) @ Inl e # rest \<Longrightarrow> f items = Inl (IoError e)"
    "f items = Inr x"
  shows "items = map Inr es"
  using assms by (auto simp: visits_def)

section \<open>Nodes as bytes\<close>

lemma le_value_bytes: "n < 256 ^ k \<Longrightarrow> le_value (le_bytes k n) = n"
  by (induction k arbitrary: n) (auto simp: less_mult_imp_div_less)

lemma le_bytes_length [simp]: "length (le_bytes k n) = k"
  by (induction k arbitrary: n) auto

lemma read_write_note:
  assumes "utf8_valid s" "length s < 2 ^ 64"
  shows "read_note (write_note (Some s)) = Inr (Some s)"
  using assms le_value_bytes [of "length s" 8] by (simp add: read_note_def write_note_def Let_def)

section \<open>The locale\<close>

locale rocks_library =
  fixes R :: "'db rocksdb" and view :: "'db \<Rightarrow> cf \<Rightarrow> (string \<times> string) list"
  assumes view_sorted: "sorted_wrt (<) (map fst (view db c))"
    and on_opened: "rk_open R cs db = (Inr x, db') \<Longrightarrow> view db' = view db \<and> (\<forall>c \<in> set cs. rk_cf R db' c)"
    and on_get: "rk_get R db c k = Inr found \<Longrightarrow> found = map_of (view db c) k"
    and on_put: "rk_put R c k v db = (r, db') \<Longrightarrow> rk_cf R db' = rk_cf R db \<and>
      (\<lambda>c. map_of (view db' c)) = (case r of Inl e \<Rightarrow> \<lambda>c. map_of (view db c)
        | Inr _ \<Rightarrow> db_effect (DbPut c k v) (\<lambda>c. map_of (view db c)))"
    and on_delete: "rk_delete R c k db = (r, db') \<Longrightarrow> rk_cf R db' = rk_cf R db \<and>
      (\<lambda>c. map_of (view db' c)) = (case r of Inl e \<Rightarrow> \<lambda>c. map_of (view db c)
        | Inr _ \<Rightarrow> db_effect (DbDelete c k) (\<lambda>c. map_of (view db c)))"
    and on_write: "rk_write R ops db = (r, db') \<Longrightarrow> rk_cf R db' = rk_cf R db \<and>
      (\<lambda>c. map_of (view db' c)) = (case r of Inl e \<Rightarrow> \<lambda>c. map_of (view db c)
        | Inr _ \<Rightarrow> fold db_effect ops (\<lambda>c. map_of (view db c)))"
    and on_iterate: "visits (rk_iter R db c) (view db c)"
    and on_seek: "visits (rk_prefix R db c p) (dropWhile (below p) (view db c))"
    and fields: "bc_write R n = Inr bs \<Longrightarrow> bc_read R (bs @ rest) = Inr (n\<lparr>nd_note := None\<rparr>, rest)"
begin

lemma note_read_back: "serialize_node R n = Inr bs \<Longrightarrow> noted n \<Longrightarrow> deserialize_node R bs = Inr n"
  using read_write_note by (auto simp: serialize_node_def deserialize_node_def noted_def fields split: sum.splits option.splits)

lemma noteless_unreadable:
  "serialize_node R n = Inr bs \<Longrightarrow> nd_note n = None \<Longrightarrow> deserialize_node R bs = Inl (SerializationError EOF_ERROR)"
  using fields [of n _ "[]"] by (auto simp: serialize_node_def deserialize_node_def write_note_def read_note_def split: sum.splits)

section \<open>Writes\<close>

lemma batch_op_effect:
  assumes "readable R t" "op_ok noted op" "batch_op R db op = Inr d"
  shows "readable R (db_effect d t) \<and> table_contents R (db_effect d t) = op_effect op (table_contents R t)"
proof (cases op)
  case (PutNode n)
  then obtain bs where bs: "serialize_node R n = Inr bs" "d = DbPut CF_NODES (nd_id n) bs"
    using assms(3) by (auto simp: batch_op_def cf_handle_def split: if_splits)
  then have "deserialize_node R bs = Inr n" using note_read_back assms(2) PutNode by simp
  then show ?thesis using assms(1) bs PutNode
    by (auto simp: readable_def table_contents_def stored_node_def is_cf_def cf_names_def fun_eq_iff CF_NODES_def
        BY_ENTITY_def BY_PRED_def BY_SRC_def BY_PERM_def)
next
  case (DeleteNode i)
  then have "d = DbDelete CF_NODES i" using assms(3) by (auto simp: batch_op_def cf_handle_def split: if_splits)
  then show ?thesis using assms(1) DeleteNode
    by (auto simp: readable_def table_contents_def stored_node_def is_cf_def cf_names_def fun_eq_iff CF_NODES_def
        BY_ENTITY_def BY_PRED_def BY_SRC_def BY_PERM_def)
next
  case (PutIndex c key i)
  then have d: "d = DbPut c key []" "is_cf c" "decode_node_id_from_index key = Some i" "c \<noteq> CF_NODES"
    using assms(2,3) by (auto simp: batch_op_def cf_handle_def is_cf_def CF_NODES_def
        BY_ENTITY_def BY_PRED_def BY_SRC_def BY_PERM_def split: if_splits)
  then show ?thesis using assms(1) PutIndex
    by (auto simp: readable_def table_contents_def fun_eq_iff split: if_splits)
next
  case (DeleteIndex c key i)
  then have d: "d = DbDelete c key" "is_cf c" "decode_node_id_from_index key = Some i" "c \<noteq> CF_NODES"
    using assms(2,3) by (auto simp: batch_op_def cf_handle_def is_cf_def CF_NODES_def
        BY_ENTITY_def BY_PRED_def BY_SRC_def BY_PERM_def split: if_splits)
  then show ?thesis using assms(1) DeleteIndex
    by (auto simp: readable_def table_contents_def fun_eq_iff split: if_splits)
qed

lemma fill_batch_effect:
  assumes "fill_batch R db ops batch = Inr ds" "readable R (fold db_effect batch t)" "list_all (op_ok noted) ops"
  shows "readable R (fold db_effect ds t) \<and>
    table_contents R (fold db_effect ds t) = fold op_effect ops (table_contents R (fold db_effect batch t))"
  using assms
proof (induction ops arbitrary: batch)
  case (Cons op ops)
  then obtain d where d: "batch_op R db op = Inr d" "fill_batch R db ops (batch @ [d]) = Inr ds" by auto
  with Cons show ?case using batch_op_effect [OF Cons.prems(2) _ d(1)] Cons.IH [OF d(2)] by simp
qed simp

lemma put_tables: "rk_put R c k v db = (Inr x, db') \<Longrightarrow> rk_cf R db' = rk_cf R db \<and> tables view db' = db_effect (DbPut c k v) (tables view db)"
  using on_put [of c k v db] by (auto simp: tables_def)

lemma delete_tables: "rk_delete R c k db = (Inr x, db') \<Longrightarrow> rk_cf R db' = rk_cf R db \<and> tables view db' = db_effect (DbDelete c k) (tables view db)"
  using on_delete [of c k db] by (auto simp: tables_def)

lemma run_op_tables:
  assumes "run_op (rocks_backend R) op db = (Inr x, db')"
  obtains d where "batch_op R db op = Inr d" "rk_cf R db' = rk_cf R db" "tables view db' = db_effect d (tables view db)"
  using assms put_tables delete_tables that
  by (cases op) (auto simp: run_op_def rocks_backend_def batch_op_def rocks_put_node_def rocks_delete_node_def
      rocks_put_index_def rocks_delete_index_def io_result_def prod_eq_iff split: sum.splits)

lemma batch_tables:
  assumes "rocks_batch_write R ops db = (r, db')"
  shows "case r of
      Inl e \<Rightarrow> tables view db' = tables view db
    | Inr _ \<Rightarrow> \<exists>ds. fill_batch R db ops [] = Inr ds \<and> rk_cf R db' = rk_cf R db
        \<and> tables view db' = fold db_effect ds (tables view db)"
proof (cases "fill_batch R db ops []")
  case (Inr ds)
  then show ?thesis using assms on_write [OF surjective_pairing, of ds db]
    by (auto simp: rocks_batch_write_def io_result_def tables_def split: sum.splits)
qed (use assms in \<open>auto simp: rocks_batch_write_def\<close>)

section \<open>Reads\<close>

lemma get_tables:
  assumes "rocks_get_node R db i = Inr n"
  shows "n = stored_node R (tables view db CF_NODES i)"
proof -
  have c: "cf_handle R db CF_NODES = Inr CF_NODES"
    using assms by (auto simp: rocks_get_node_def cf_handle_def split: if_splits)
  show ?thesis
  proof (cases "rk_get R db CF_NODES i")
    case (Inr found)
    then show ?thesis using assms c on_get [OF Inr]
      by (auto simp: rocks_get_node_def stored_node_def tables_def split: sum.splits option.splits)
  qed (use assms c in \<open>simp add: rocks_get_node_def\<close>)
qed

lemma scan_tables:
  assumes "rocks_scan_index R db c p = Inr ids" "is_cf c"
  shows "set ids = indexed (db_contents R view db) c p"
proof -
  let ?p = "encode_index_prefix p" and ?es = "view db c"
  have "scan_keys ?p (rk_prefix R db c ?p) [] = Inr ids"
    using assms(1) by (auto simp: rocks_scan_index_def cf_handle_def split: if_splits)
  then have "ids = ids_of ?p (dropWhile (below ?p) ?es)" by (rule scan_keys_visits [OF on_seek])
  then have "ids = List.map_filter decode_node_id_from_index (map fst (filter (\<lambda>e. prefix ?p (fst e)) ?es))"
    by (simp add: ids_of_def prefix_run [OF view_sorted])
  then have "i \<in> set ids \<longleftrightarrow> (\<exists>key \<in> fst ` set ?es. prefix ?p key \<and> decode_node_id_from_index key = Some i)" for i
    by (force simp: in_map_filter)
  moreover have "tables view db c key \<noteq> None \<longleftrightarrow> key \<in> fst ` set ?es" for key
    by (simp add: tables_def map_of_eq_None_iff)
  ultimately show ?thesis
    using assms(2) by (fastforce simp: indexed_def db_contents_def table_contents_def simp del: not_None_eq)
qed

lemma view_distinct: "distinct (map fst (view db c))"
  using view_sorted [of db c] by (simp add: strict_sorted_iff)

lemma len_tables:
  assumes "rocks_len R db = Inr k"
  shows "k = card (dom (tables view db CF_NODES))"
proof -
  let ?es = "view db CF_NODES"
  have c: "count_items (rk_iter R db CF_NODES) 0 = Inr k"
    using assms by (auto simp: rocks_len_def cf_handle_def split: if_splits)
  then have "rk_iter R db CF_NODES = map Inr ?es"
    using visits_whole [OF on_iterate, where f = "\<lambda>is. count_items is 0"] by (simp add: count_items_error)
  with c have "k = length ?es" by (simp add: count_items_map)
  also have "\<dots> = card (dom (map_of ?es))"
    using distinct_card [OF view_distinct, of db CF_NODES] by (simp add: dom_map_of_conv_image_fst)
  finally show ?thesis by (simp add: tables_def)
qed

lemma iter_tables:
  assumes "rocks_iter_nodes R db = Inr ns"
  shows "set ns = ran (ct_nodes (db_contents R view db))"
proof -
  let ?es = "view db CF_NODES"
  have c: "read_items R (rk_iter R db CF_NODES) [] = Inr ns"
    using assms by (auto simp: rocks_iter_nodes_def cf_handle_def split: if_splits)
  then have "rk_iter R db CF_NODES = map Inr ?es"
    using visits_whole [OF on_iterate, where f = "\<lambda>is. read_items R is []"] by (simp add: read_items_error)
  with c have "ns = List.map_filter (\<lambda>e. stored_node R (Some (snd e))) ?es" by (simp add: read_items_map)
  then have "set ns = {n. \<exists>e \<in> set ?es. stored_node R (Some (snd e)) = Some n}"
    by (simp add: set_eq_iff in_map_filter)
  also have "\<dots> = {n. \<exists>i. stored_node R (tables view db CF_NODES i) = Some n}"
  proof (intro Collect_cong iffI; elim bexE exE)
    fix n e assume "e \<in> set ?es" "stored_node R (Some (snd e)) = Some n"
    then show "\<exists>i. stored_node R (tables view db CF_NODES i) = Some n"
      using map_of_is_SomeI [OF view_distinct [of db CF_NODES], of "fst e" "snd e"] by (intro exI [of _ "fst e"]) (simp add: tables_def)
  next
    fix n i assume "stored_node R (tables view db CF_NODES i) = Some n"
    then obtain v where "map_of ?es i = Some v" "stored_node R (Some v) = Some n"
      by (cases "map_of ?es i") (auto simp: tables_def stored_node_def)
    then show "\<exists>e \<in> set ?es. stored_node R (Some (snd e)) = Some n" by (force dest: map_of_SomeD)
  qed
  finally show ?thesis by (simp add: db_contents_def table_contents_def ran_def)
qed

end

section \<open>The contract\<close>

sublocale rocks_library \<subseteq> rocks: storage_contract "rocks_backend R" "db_ok R view" "db_contents R view" noted
proof (unfold_locales, goal_cases)
  case (1 s op x s')
  obtain d where d: "batch_op R s op = Inr d" "rk_cf R s' = rk_cf R s" "tables view s' = db_effect d (tables view s)"
    using run_op_tables [OF 1(3)] by blast
  show ?case using batch_op_effect [OF _ 1(2) d(1), of "tables view s"] 1(1) d(2,3)
    by (simp add: db_ok_def db_contents_def)
next
  case (2 s ops x s')
  then obtain ds where ds: "fill_batch R s ops [] = Inr ds" "rk_cf R s' = rk_cf R s"
    "tables view s' = fold db_effect ds (tables view s)"
    using batch_tables [of ops s "Inr x" s'] by (auto simp: rocks_backend_def)
  show ?case using fill_batch_effect [OF ds(1) _ 2(2), of "tables view s"] 2(1) ds(2,3)
    by (simp add: db_ok_def db_contents_def)
next
  case (3 s i n)
  then show ?case using get_tables [of s i n] by (simp add: rocks_backend_def db_contents_def table_contents_def)
next
  case (4 s c p ids)
  then show ?case using scan_tables [of s c p ids] by (simp add: rocks_backend_def)
next
  case (5 s k)
  then have "dom (ct_nodes (db_contents R view s)) = dom (tables view s CF_NODES)"
    by (force simp: db_ok_def db_contents_def table_contents_def readable_def stored_node_def split: option.splits sum.splits)
  with 5 show ?case using len_tables [of s k] by (simp add: rocks_backend_def)
next
  case (6 s ns)
  then show ?case using iter_tables [of s ns] by (simp add: rocks_backend_def)
qed

context rocks_library begin

lemma open_result:
  assumes "rocks_open R db = (Inr x, db')"
  shows "tables view db' = tables view db \<and> (\<forall>c \<in> set cf_names. rk_cf R db' c)"
proof -
  have o: "rk_open R cf_names db = (Inr x, db')"
    using assms by (cases "rk_open R cf_names db") (auto simp: rocks_open_def io_result_def split: sum.splits)
  show ?thesis using on_opened [OF o] by (simp add: tables_def)
qed

lemma opened_empty:
  assumes "rocks_open R disk = (Inr x, db)" "\<And>c. view disk c = []"
  shows "db_ok R view db \<and> db_contents R view db = mem_contents mem_new"
proof -
  have "tables view db = (\<lambda>c k. None)" using open_result [OF assms(1)] assms(2) by (simp add: tables_def)
  moreover have "is_cf c \<Longrightarrow> idx mem_new c key = []" for c key
    by (auto simp: idx_def mem_new_def entries_at_def is_cf_def)
  ultimately show ?thesis using open_result [OF assms(1)]
    by (auto simp: db_ok_def db_contents_def readable_def table_contents_def mem_contents_def stored_node_def
        mem_new_def fun_eq_iff)
qed

lemma reopened:
  assumes "rocks_open R s = (Inr x, db)" "db_ok R view s"
  shows "db_ok R view db \<and> db_contents R view db = db_contents R view s"
  using open_result [OF assms(1)] assms(2) by (simp add: db_ok_def db_contents_def)

lemma agrees_with_memory:
  assumes "\<And>c. view disk c = []" "list_all (request_ok noted) (qs @ rs)"
    and "rocks_open R disk = (Inr x, db)" "serve_all (rocks_backend R) qs db = Inr as"
    and "rocks_open R (served (rocks_backend R) qs db) = (Inr y, db')" "serve_all (rocks_backend R) rs db' = Inr bs"
  shows "serve_all mem_backend (qs @ rs) mem_new = Inr (as @ bs)"
proof -
  have a: "db_ok R view db" "db_contents R view db = mem_contents mem_new"
    using opened_empty [OF assms(3,1)] by simp_all
  have b: "as = expected_all qs (mem_contents mem_new)" "db_ok R view (served (rocks_backend R) qs db)"
    "db_contents R view (served (rocks_backend R) qs db) = fold effect qs (mem_contents mem_new)"
    using rocks.serve_all_expected [OF a(1) _ assms(4)] assms(2) a(2) by simp_all
  have "bs = expected_all rs (fold effect qs (mem_contents mem_new))"
    using rocks.serve_all_expected [OF _ _ assms(6)] reopened [OF assms(5) b(2)] assms(2) b(3) by simp
  moreover have "list_all (request_ok (\<lambda>_. True)) (qs @ rs)"
    using assms(2) request_ok_any by (auto simp: list_all_iff)
  ultimately show ?thesis using mem_serves [OF mem_ok_new] b(1) by (simp add: expected_append)
qed

lemma put_then_read:
  assumes "rocks_put_node R n db = (Inr x, db')" "nd_note n = None \<or> noted n"
  shows "rocks_get_node R db' (nd_id n) = Inr found \<Longrightarrow> found = (if nd_note n = None then None else Some n)"
    "rocks_iter_nodes R db' = Inr ns \<Longrightarrow> rocks_len R db' = Inr k \<Longrightarrow> nd_note n = None \<Longrightarrow> card (set ns) < k"
proof -
  have "run_op (rocks_backend R) (PutNode n) db = (Inr x, db')"
    using assms(1) by (simp add: run_op_def rocks_backend_def)
  then obtain d where d: "batch_op R db (PutNode n) = Inr d" "tables view db' = db_effect d (tables view db)"
    by (rule run_op_tables)
  then obtain bs where bs: "serialize_node R n = Inr bs" "tables view db' = db_effect (DbPut CF_NODES (nd_id n) bs) (tables view db)"
    by (auto simp: batch_op_def cf_handle_def split: if_splits)
  have s: "stored_node R (tables view db' CF_NODES (nd_id n)) = (if nd_note n = None then None else Some n)"
    using note_read_back [OF bs(1)] noteless_unreadable [OF bs(1)] assms(2) bs(2) by (auto simp: stored_node_def)
  then show "rocks_get_node R db' (nd_id n) = Inr found \<Longrightarrow> found = (if nd_note n = None then None else Some n)"
    using get_tables by fastforce
  assume i: "rocks_iter_nodes R db' = Inr ns" and l: "rocks_len R db' = Inr k" and bare: "nd_note n = None"
  let ?t = "tables view db' CF_NODES"
  have fin: "finite (dom ?t)" by (simp add: tables_def finite_dom_map_of)
  have "set ns \<subseteq> (\<lambda>i. the (stored_node R (?t i))) ` (dom ?t - {nd_id n})"
  proof
    fix m assume "m \<in> set ns"
    then obtain i where i: "stored_node R (?t i) = Some m"
      using iter_tables [OF i] by (auto simp: db_contents_def table_contents_def ran_def)
    then have "i \<in> dom ?t - {nd_id n}" using s bare by (auto simp: stored_node_def split: option.splits)
    then show "m \<in> (\<lambda>i. the (stored_node R (?t i))) ` (dom ?t - {nd_id n})" by (rule rev_image_eqI) (simp add: i)
  qed
  then have "card (set ns) \<le> card (dom ?t - {nd_id n})" using fin by (intro surj_card_le) auto
  also have "\<dots> < card (dom ?t)" using fin bs(2) by (intro psubset_card_mono) auto
  finally show "card (set ns) < k" using len_tables [OF l] by simp
qed

end

end
