(* ===== verification/Rocks_Properties.thy ===== *)
theory Rocks_Properties
  imports Rocks_Library Store_Facts "HOL-Library.RBT"
begin

text \<open>
  Properties of the persistent backend, with a table of sorted rows as the instance of RocksDB.
\<close>

section \<open>A table that behaves like RocksDB\<close>

record table =
  tb_cfs :: "cf list"
  tb_tables :: "(cf \<times> (string, string) rbt) list"

definition no_rows :: table where
  "no_rows = \<lparr>tb_cfs = [], tb_tables = []\<rparr>"

definition tb_rows :: "table \<Rightarrow> cf \<Rightarrow> (string, string) rbt" where
  "tb_rows db c = (case map_of (tb_tables db) c of None \<Rightarrow> RBT.empty | Some t \<Rightarrow> t)"

fun table_apply :: "db_op \<Rightarrow> table \<Rightarrow> table" where
  "table_apply (DbPut c k v) db = db\<lparr>tb_tables := AList.update c (RBT.insert k v (tb_rows db c)) (tb_tables db)\<rparr>"
| "table_apply (DbDelete c k) db = db\<lparr>tb_tables := AList.update c (RBT.delete k (tb_rows db c)) (tb_tables db)\<rparr>"

definition table_view :: "table \<Rightarrow> cf \<Rightarrow> (string \<times> string) list" where
  "table_view db c = RBT.entries (tb_rows db c)"

definition noted_fact :: node where
  "noted_fact = with_note ''kept'' (node_new ''n001''
     (with_args [TEnt ''ACME-CORP'', TEnt ''CUPERTINO''] (predicate_new (HeadName ''located-in''))))"

definition table_rocks :: "table rocksdb" where
  \<comment> \<open>its bincode knows one node\<close>
  "table_rocks =
     \<lparr>rk_open = \<lambda>cs db. (Inr (), db\<lparr>tb_cfs := cs @ tb_cfs db\<rparr>),
      rk_cf = \<lambda>db c. c \<in> set (tb_cfs db),
      rk_get = \<lambda>db c k. Inr (RBT.lookup (tb_rows db c) k),
      rk_put = \<lambda>c k v db. (Inr (), table_apply (DbPut c k v) db),
      rk_delete = \<lambda>c k db. (Inr (), table_apply (DbDelete c k) db),
      rk_write = \<lambda>ops db. (Inr (), fold table_apply ops db),
      rk_iter = \<lambda>db c. map Inr (table_view db c),
      rk_prefix = \<lambda>db c p. map Inr (dropWhile (below p) (table_view db c)),
      bc_write = \<lambda>n. if n\<lparr>nd_note := None\<rparr> = noted_fact\<lparr>nd_note := None\<rparr> then Inr ''F'' else Inl ''unknown'',
      bc_read = \<lambda>bs. case bs of [] \<Rightarrow> Inl EOF_ERROR | c # rest \<Rightarrow> Inr (noted_fact\<lparr>nd_note := None\<rparr>, rest)\<rparr>"

lemma table_lookup: "(\<lambda>c. map_of (table_view db c)) = (\<lambda>c. RBT.lookup (tb_rows db c))"
  by (simp add: table_view_def RBT.map_of_entries)

lemma table_apply_lookup:
  "(\<lambda>c. RBT.lookup (tb_rows (table_apply d db) c)) = db_effect d (\<lambda>c. RBT.lookup (tb_rows db c))"
  "tb_cfs (table_apply d db) = tb_cfs db"
  by (cases d; auto simp: fun_eq_iff tb_rows_def update_conv)+

lemma table_batch_lookup:
  "(\<lambda>c. RBT.lookup (tb_rows (fold table_apply ds db) c)) = fold db_effect ds (\<lambda>c. RBT.lookup (tb_rows db c))"
  "tb_cfs (fold table_apply ds db) = tb_cfs db"
  by (induction ds arbitrary: db) (simp_all add: table_apply_lookup)

interpretation table: rocks_library table_rocks table_view
proof (unfold_locales, goal_cases)
  case (1 db c)
  then show ?case by (simp add: table_view_def strict_sorted_iff RBT.distinct_entries RBT.sorted_entries)
next
  case (2 cs db x db')
  then show ?case by (auto simp: table_rocks_def table_view_def tb_rows_def)
next
  case (3 db c k found)
  then show ?case by (simp add: table_rocks_def table_view_def RBT.map_of_entries)
next
  case (4 c k v db r db')
  then show ?case using table_apply_lookup [of "DbPut c k v" db] unfolding table_lookup
    by (auto simp: table_rocks_def fun_eq_iff)
next
  case (5 c k db r db')
  then show ?case using table_apply_lookup [of "DbDelete c k" db] unfolding table_lookup
    by (auto simp: table_rocks_def fun_eq_iff)
next
  case (6 ops db r db')
  then show ?case using table_batch_lookup [of ops db] unfolding table_lookup
    by (auto simp: table_rocks_def fun_eq_iff)
next
  case (9 n bs rest)
  then show ?case by (auto simp: table_rocks_def split: if_splits)
qed (simp_all add: table_rocks_def visits_def)

section \<open>The two backends\<close>

text \<open>C11. The two backends agree. A client that starts on an empty disk, works, closes and opens the database
  and works on gets the answers it would get from the in-memory backend without a break, as long as
  RocksDB reports no error, the nodes it writes have a note, and index entries name one of the four
  indices with a key that ends in the id. Answers that are lists are compared as sets.\<close>

theorem backends_agree:
  assumes "rocks_library R view" "\<And>c. view disk c = []"
    and "list_all (request_ok noted) (qs @ rs)"
    and "rocks_open R disk = (Inr x, db)" "serve_all (rocks_backend R) qs db = Inr as"
    and "rocks_open R (served (rocks_backend R) qs db) = (Inr y, db')" "serve_all (rocks_backend R) rs db' = Inr bs"
  shows "serve_all mem_backend (qs @ rs) mem_new = Inr (as @ bs)"
  by (rule rocks_library.agrees_with_memory [OF assms])

definition first_requests :: "request list" where
  "first_requests =
     [Batch [PutNode noted_fact, PutIndex BY_ENTITY (encode_index_key ''ACME-CORP'' ''n001'') ''n001''],
      ScanIndex BY_ENTITY ''ACME-CORP'']"

definition later_requests :: "request list" where
  "later_requests =
     [GetNode ''n001'', Write (DeleteIndex BY_ENTITY (encode_index_key ''ACME-CORP'' ''n001'') ''n001''),
      ScanIndex BY_ENTITY ''ACME-CORP'', CountNodes]"

definition first_table :: table where
  "first_table = snd (rocks_open table_rocks no_rows)"

lemma table_open: "rocks_open table_rocks db = (Inr (), snd (rocks_open table_rocks db))"
  by (simp add: rocks_open_def io_result_def table_rocks_def)

lemma table_serves_first:
  "serve_all (rocks_backend table_rocks) first_requests first_table = Inr [Done, Ids {''n001''}]"
  by code_simp

lemma table_serves_later:
  "serve_all (rocks_backend table_rocks) later_requests
     (snd (rocks_open table_rocks (served (rocks_backend table_rocks) first_requests first_table)))
   = Inr [Found (Some noted_fact), Done, Ids {}, Count 1]"
  by code_simp

lemma requests_ok: "list_all (request_ok noted) (first_requests @ later_requests)"
proof -
  have "utf8_valid ''kept''" "utf8_valid ''n001''" by code_simp+
  then have "noted noted_fact" "decode_node_id_from_index (encode_index_key ''ACME-CORP'' ''n001'') = Some ''n001''"
    by (simp_all add: noted_def noted_fact_def with_note_def decode_encode_key nul_free_def)
  then show ?thesis by (simp add: first_requests_def later_requests_def is_cf_def)
qed

lemma no_rows_empty: "table_view no_rows c = []"
proof -
  have "RBT.entries (RBT.empty :: (string, string) rbt) = []" by code_simp
  then show ?thesis by (simp add: table_view_def no_rows_def tb_rows_def)
qed

lemma backends_agree_witness:
  "serve_all mem_backend (first_requests @ later_requests) mem_new =
   Inr ([Done, Ids {''n001''}] @ [Found (Some noted_fact), Done, Ids {}, Count 1])"
  by (rule backends_agree [OF table.rocks_library_axioms no_rows_empty requests_ok table_open
        table_serves_first [unfolded first_table_def] table_open table_serves_later [unfolded first_table_def]])

lemma failed_batch_prefix:
  "batch_write ops m = (Inl e, m') \<Longrightarrow> \<exists>k < length ops. batch_write (take k ops) m = (Inr (), m')"
proof (induction ops arbitrary: m)
  case (Cons op ops)
  show ?case
  proof (cases "apply_op op m")
    case (Pair r m1)
    show ?thesis
    proof (cases r)
      case (Inl e1)
      then show ?thesis using Cons.prems Pair by (auto simp: apply_op_def put_node_def delete_node_def put_index_def
          delete_index_def Let_def split: write_op.splits option.splits)
    next
      case (Inr u)
      then have "batch_write ops m1 = (Inl e, m')" using Cons.prems Pair by simp
      then obtain k where "k < length ops" "batch_write (take k ops) m1 = (Inr (), m')" using Cons.IH by blast
      then show ?thesis using Pair Inr by (intro exI [of _ "Suc k"]) simp
    qed
  qed
qed simp

text \<open>Batches. A batch that the persistent backend answers with an error leaves every table as it was,
  whatever the operations and whatever went wrong, as the trait promises. The in-memory backend
  keeps the operations before the one that failed.\<close>

lemma failed_batches:
  assumes "rocks_library R view"
  shows "(rocks_batch_write R ops db = (Inl e, db') \<longrightarrow> tables view db' = tables view db)
    \<and> (batch_write ops m = (Inl e', m') \<longrightarrow> (\<exists>k < length ops. batch_write (take k ops) m = (Inr (), m')))"
  using rocks_library.batch_tables [OF assms, of ops db "Inl e" db'] failed_batch_prefix [of ops m e' m'] by simp

definition bad_batch :: "write_op list" where
  "bad_batch = [PutNode noted_fact, PutIndex ''by_note'' (encode_index_key ''kept'' ''n001'') ''n001'']"

lemma failed_batches_witness:
  "tables table_view (snd (rocks_batch_write table_rocks bad_batch first_table)) = tables table_view first_table
   \<and> (\<exists>k < length bad_batch. batch_write (take k bad_batch) mem_new = (Inr (), snd (batch_write bad_batch mem_new)))
   \<and> snd (batch_write bad_batch mem_new) \<noteq> mem_new"
proof -
  have "rocks_batch_write table_rocks bad_batch first_table = (Inl (CfNotFound ''by_note''), first_table)"
    unfolding bad_batch_def first_table_def rocks_batch_write_def
    by (simp add: batch_op_def cf_handle_def serialize_node_def)
      (simp add: table_rocks_def rocks_open_def io_result_def cf_names_def no_rows_def CF_NODES_def
        BY_ENTITY_def BY_PRED_def BY_SRC_def BY_PERM_def)
  moreover have m: "batch_write bad_batch mem_new = (Inl (CfNotFound ''by_note''), snd (put_node noted_fact mem_new))"
    by (simp add: bad_batch_def apply_op_def put_node_def put_index_def get_index_map_def
        BY_ENTITY_def BY_PRED_def BY_SRC_def BY_PERM_def)
  moreover have "mb_nodes (snd (put_node noted_fact mem_new)) \<noteq> mb_nodes mem_new" by (simp add: put_node_def mem_new_def)
  then have "snd (put_node noted_fact mem_new) \<noteq> mem_new" by metis
  ultimately show ?thesis
    using failed_batches [OF table.rocks_library_axioms, of bad_batch first_table _ _ mem_new] by simp
qed

text \<open>Notes. A node written without a note cannot be read back: the derived \<open>Serialize\<close> leaves the
  last field out and the derived \<open>Deserialize\<close> asks for it. The write succeeds, the node is then not
  found, and it is counted but not listed. A node with a note is found as it was written.\<close>

lemma noteless_lost:
  assumes "rocks_library R view" "rocks_put_node R n db = (Inr x, db')" "nd_note n = None \<or> noted n"
    and "rocks_get_node R db' (nd_id n) = Inr found" "rocks_iter_nodes R db' = Inr ns" "rocks_len R db' = Inr k"
  shows "found = (if nd_note n = None then None else Some n) \<and> (nd_note n = None \<longrightarrow> card (set ns) < k)"
  using rocks_library.put_then_read [OF assms(1-3)] assms(4-6) by blast

definition bare_table :: table where
  "bare_table = snd (rocks_put_node table_rocks (noted_fact\<lparr>nd_note := None\<rparr>) first_table)"

lemma bare_table_facts:
  "rocks_put_node table_rocks (noted_fact\<lparr>nd_note := None\<rparr>) first_table = (Inr (), bare_table)"
  "rocks_get_node table_rocks bare_table ''n001'' = Inr None"
  "rocks_iter_nodes table_rocks bare_table = Inr []" "rocks_len table_rocks bare_table = Inr 1"
proof -
  show "rocks_put_node table_rocks (noted_fact\<lparr>nd_note := None\<rparr>) first_table = (Inr (), bare_table)"
    unfolding bare_table_def by (rule prod_eqI) (simp_all, code_simp)
  show "rocks_get_node table_rocks bare_table ''n001'' = Inr None" by code_simp
  show "rocks_iter_nodes table_rocks bare_table = Inr []" by code_simp
  show "rocks_len table_rocks bare_table = Inr 1" by code_simp
qed

lemma noteless_lost_witness:
  "\<exists>found ns k. rocks_get_node table_rocks bare_table ''n001'' = Inr found \<and> found = None
     \<and> rocks_iter_nodes table_rocks bare_table = Inr ns \<and> rocks_len table_rocks bare_table = Inr k \<and> card (set ns) < k"
  using noteless_lost [OF table.rocks_library_axioms bare_table_facts(1) _ _ bare_table_facts(3,4), of None]
    bare_table_facts by (simp add: noted_fact_def node_new_def with_note_def with_args_def)

section \<open>The store's batch on a backend\<close>

lemma build_insert_ops_ok:
  assumes "storable n" "nul_free (nd_id n)" "utf8_valid (nd_id n)"
  shows "list_all (op_ok storable) (build_insert_ops reg n)"
proof -
  have "op_ok storable op" if op: "op \<in> set (index_ops reg n)" for op
  proof -
    have "index_op (nd_id n) op" using index_ops_ok [of n reg] op by (simp add: list_all_iff)
    then obtain c key where c: "op = PutIndex c key (nd_id n)" "is_cf c" by (cases op) (auto simp: index_op_def)
    then have "has_key reg n c key" using op by (simp add: has_key_def)
    then obtain nm where "key = encode_index_key nm (nd_id n)" by (auto simp: has_key_iff)
    then show ?thesis using c decode_encode_key [OF assms(2,3)] by simp
  qed
  then show ?thesis using assms(1) by (auto simp: build_insert_ops_split list_all_iff)
qed

lemma index_effect:
  "list_all (index_op i) ops \<Longrightarrow>
   ct_entries (fold op_effect ops t) c = ct_entries t c \<union> {(key, i) | key. PutIndex c key i \<in> set ops}"
  by (induction ops arbitrary: t) (auto simp: index_op_def split: write_op.splits)

context storage_contract begin

lemma insert_filed:
  assumes "ok s" "storable n" "nul_free (nd_id n)" "utf8_valid (nd_id n)"
    and "bk_batch_write B (build_insert_ops reg n) s = (Inr x, s')"
    and "is_cf c" "nul_free p" "\<And>nm. filed_under reg c n nm \<Longrightarrow> nul_free nm"
    and "bk_scan_index B s' c p = Inr ids"
  shows "set ids = indexed (abs s) c p \<union> (if filed_under reg c n p then {nd_id n} else {})"
proof -
  have s': "ok s'" "abs s' = fold op_effect (build_insert_ops reg n) (abs s)"
    using batch [OF assms(1) build_insert_ops_ok [of storable, OF assms(2-4)] assms(5)] by simp_all
  have "ct_entries (abs s') c = ct_entries (abs s) c \<union> {(key, nd_id n) | key. has_key reg n c key}"
    using index_effect [OF index_ops_ok, of reg n _ c] by (simp add: s'(2) build_insert_ops_split has_key_def)
  moreover have "(\<exists>key. prefix (encode_index_prefix p) key \<and> has_key reg n c key) \<longleftrightarrow> filed_under reg c n p"
    using prefix_key_iff [OF assms(7)] assms(8) by (metis has_key_iff)
  ultimately have "indexed (abs s') c p = indexed (abs s) c p \<union> (if filed_under reg c n p then {nd_id n} else {})"
    by (auto simp: indexed_def)
  then show ?thesis using scan [OF s'(1) assms(6,9)] by simp
qed

end

context rocks_library begin

lemmas rocks_insert_filed = rocks.insert_filed

end

text \<open>The store on RocksDB. After the batch of an insertion, a scan of an index under a name answers
  what it answered before and the new node exactly when the index files it under that name.\<close>

lemma inserted_found:
  assumes "rocks_library R view" "db_ok R view db" "noted n" "nul_free (nd_id n)" "utf8_valid (nd_id n)"
    and "bk_batch_write (rocks_backend R) (build_insert_ops reg n) db = (Inr x, db')"
    and "is_cf c" "nul_free p" "\<And>nm. filed_under reg c n nm \<Longrightarrow> nul_free nm"
    and "bk_scan_index (rocks_backend R) db' c p = Inr ids"
  shows "set ids = indexed (db_contents R view db) c p \<union> (if filed_under reg c n p then {nd_id n} else {})"
  by (rule rocks_library.rocks_insert_filed [OF assms])

definition fact_table :: table where
  "fact_table = snd (bk_batch_write (rocks_backend table_rocks) (build_insert_ops registry_new noted_fact) first_table)"

lemma fact_table_facts:
  "bk_batch_write (rocks_backend table_rocks) (build_insert_ops registry_new noted_fact) first_table = (Inr (), fact_table)"
  "bk_scan_index (rocks_backend table_rocks) fact_table BY_ENTITY ''ACME-CORP'' = Inr [''n001'']"
proof -
  have "fst (bk_batch_write (rocks_backend table_rocks) (build_insert_ops registry_new noted_fact) first_table) = Inr ()"
    by code_simp
  then show "bk_batch_write (rocks_backend table_rocks) (build_insert_ops registry_new noted_fact) first_table = (Inr (), fact_table)"
    by (simp add: fact_table_def prod_eq_iff)
  show "bk_scan_index (rocks_backend table_rocks) fact_table BY_ENTITY ''ACME-CORP'' = Inr [''n001'']" by code_simp
qed

lemma inserted_found_witness:
  "set [''n001''] = indexed (db_contents table_rocks table_view first_table) BY_ENTITY ''ACME-CORP''
     \<union> (if filed_under registry_new BY_ENTITY noted_fact ''ACME-CORP'' then {nd_id noted_fact} else {})"
proof (rule inserted_found [OF table.rocks_library_axioms])
  have i: "nd_id noted_fact = ''n001''" by (simp add: noted_fact_def with_note_def node_new_def)
  have u: "utf8_valid ''n001''" by code_simp
  have n: "noted noted_fact" using requests_ok by (simp add: first_requests_def)
  show "noted noted_fact" "nul_free (nd_id noted_fact)" "utf8_valid (nd_id noted_fact)"
    using i u n by (simp_all add: nul_free_def)
  show "db_ok table_rocks table_view first_table"
    using rocks_library.opened_empty [OF table.rocks_library_axioms table_open no_rows_empty] by (simp add: first_table_def)
  show "filed_under registry_new BY_ENTITY noted_fact nm \<Longrightarrow> nul_free nm" for nm
    by (auto simp: filed_under_def node_mentions_def noted_fact_def with_note_def node_new_def with_args_def
        predicate_new_def nul_free_def)
qed (use fact_table_facts in \<open>simp_all add: nul_free_def\<close>)

end
