(* ===== verification/Transport.thy ===== *)
theory Transport
  imports Handler
begin

text \<open>
  The two transports, \<open>factum-mcp/src/bin/stdio.rs\<close> and \<open>factum-mcp/src/bin/http.rs\<close>: command lines, the
  choice of the store, and how a message reaches the handler. Parsing a line as JSON is
  \<open>serde_json::from_str\<close>, an argument; each request comes with the environment it is handled in. The
  router is the configuration the program gives axum; what axum and sockets do with it is not modelled.
\<close>

section \<open>Command lines\<close>

datatype 'a cli = Start 'a | Exit nat \<comment> \<open>go on with a value, or leave with a code\<close>

fun stdio_args :: "string option \<Rightarrow> string list \<Rightarrow> string option cli" where
  "stdio_args db [] = Start db"
| "stdio_args db (a # rest) =
     (if a = ''--help'' \<or> a = ''-h'' then Exit 0
      else if a = ''--in-memory'' then stdio_args None rest
      else if a = ''--db-path'' then (case rest of [] \<Rightarrow> Exit 1 | v # rest \<Rightarrow> stdio_args (Some v) rest)
      else Exit 1)"

record http_cli =
  hc_addr :: string
  hc_db :: "string option"
  hc_cors :: "string list"

fun split_comma :: "string \<Rightarrow> string \<Rightarrow> string list" where
  "split_comma cur [] = [cur]"
| "split_comma cur (c # s) = (if c = CHR '','' then cur # split_comma [] s else split_comma (cur @ [c]) s)"

fun http_args_loop :: "http_cli \<Rightarrow> string list \<Rightarrow> http_cli cli" where
  "http_args_loop c [] = Start c"
| "http_args_loop c (a # rest) =
     (if a = ''--help'' \<or> a = ''-h'' then Exit 0
      else if a = ''--addr'' then (case rest of [] \<Rightarrow> Exit 1 | v # rest \<Rightarrow> http_args_loop (c\<lparr>hc_addr := v\<rparr>) rest)
      else if a = ''--db-path'' then (case rest of [] \<Rightarrow> Exit 1 | v # rest \<Rightarrow> http_args_loop (c\<lparr>hc_db := Some v\<rparr>) rest)
      else if a = ''--in-memory'' then http_args_loop (c\<lparr>hc_db := None\<rparr>) rest
      else if a = ''--cors-origins'' then
        (case rest of [] \<Rightarrow> Exit 1
         | v # rest \<Rightarrow> http_args_loop (c\<lparr>hc_cors := map trim (split_comma [] v)\<rparr>) rest)
      else Exit 1)"

definition http_args :: "string list \<Rightarrow> http_cli cli" where
  "http_args args = http_args_loop \<lparr>hc_addr = ''0.0.0.0:8080'', hc_db = None, hc_cors = []\<rparr> args"

definition build_store :: "(string \<Rightarrow> string + store) option \<Rightarrow> string option \<Rightarrow> store cli" where
  \<comment> \<open>the first argument is \<open>FactumStore::with_rocksdb\<close>, \<open>None\<close> when the feature is off\<close>
  "build_store rocks db =
     (case db of
        None \<Rightarrow> Start (store_new with_seeds)
      | Some path \<Rightarrow>
          (case rocks of
             None \<Rightarrow> Exit 1
           | Some open_db \<Rightarrow> (case open_db path of Inr s \<Rightarrow> Start s | Inl e \<Rightarrow> Exit 1)))"

section \<open>Requests in JSON\<close>

definition json_index :: "string \<Rightarrow> json \<Rightarrow> json" where
  \<comment> \<open>\<open>value[k]\<close>: \<open>Null\<close> when there is none\<close>
  "json_index k v = (case json_get k v of None \<Rightarrow> JNull | Some w \<Rightarrow> w)"

definition request_of_json :: "json \<Rightarrow> json_rpc_request option" where
  \<comment> \<open>the derived \<open>Deserialize\<close> of \<open>JsonRpcRequest\<close>: an object, or an array of the fields in order\<close>
  "request_of_json v =
     (let make = (\<lambda>ver i meth params. case (ver, meth) of
            (JStr r, JStr m) \<Rightarrow> Some \<lparr>rq_jsonrpc = r, rq_id = i, rq_method = m, rq_params =
                (case params of None \<Rightarrow> None | Some JNull \<Rightarrow> None | Some p \<Rightarrow> Some p)\<rparr>
          | _ \<Rightarrow> None)
      in case v of
           JObj kvs \<Rightarrow>
             (case (map_of kvs ''jsonrpc'', map_of kvs ''id'', map_of kvs ''method'') of
                (Some r, Some i, Some m) \<Rightarrow> make r i m (map_of kvs ''params'')
              | _ \<Rightarrow> None)
         | JArr [r, i, m] \<Rightarrow> make r i m None
         | JArr [r, i, m, p] \<Rightarrow> make r i m (Some p)
         | _ \<Rightarrow> None)"

definition is_notification :: "json \<Rightarrow> bool" where
  "is_notification v \<longleftrightarrow>
     json_index ''jsonrpc'' v = JStr ''2.0'' \<and> as_str (json_index ''method'' v) \<noteq> None \<and> json_get ''id'' v = None"

definition valid_request :: "json_rpc_request \<Rightarrow> bool" where
  \<comment> \<open>the guard of the \<open>Ok(req)\<close> arm: the version, and \<open>is_string\<close>, \<open>is_i64\<close> or \<open>is_u64\<close> of the id\<close>
  "valid_request req \<longleftrightarrow>
     rq_jsonrpc req = ''2.0''
     \<and> (case rq_id req of JStr _ \<Rightarrow> True | JNum (PosInt _) \<Rightarrow> True | JNum (NegInt _) \<Rightarrow> True | _ \<Rightarrow> False)"

section \<open>The line loop\<close>

datatype line_kind = Blank | BadJson | Notification | BadRequest | Request json_rpc_request

definition read_line :: "(string \<Rightarrow> json option) \<Rightarrow> string \<Rightarrow> line_kind" where
  "read_line from_str line =
     (let trimmed = trim line in
      if trimmed = [] then Blank
      else case from_str trimmed of
        None \<Rightarrow> BadJson
      | Some v \<Rightarrow>
          if is_notification v then Notification
          else case request_of_json v of
            Some req \<Rightarrow> if valid_request req then Request req else BadRequest
          | None \<Rightarrow> BadRequest)"

datatype reply = Answered json_rpc_response | Refused int string \<comment> \<open>with a null id: a code and a message\<close>

definition stdio_line ::
    "(string \<Rightarrow> json option) \<Rightarrow> env \<Rightarrow> string \<Rightarrow> mcp \<Rightarrow> reply list option \<times> mcp" where
  \<comment> \<open>the body of the loop; \<open>None\<close> where the handler panics\<close>
  "stdio_line from_str E line h =
     (case read_line from_str line of
        Blank \<Rightarrow> (Some [], h)
      | BadJson \<Rightarrow> (Some [Refused (-32700) ''Parse error''], h)
      | Notification \<Rightarrow> (Some [], h)
      | BadRequest \<Rightarrow> (Some [Refused (-32600) ''Invalid Request''], h)
      | Request req \<Rightarrow> apfst (map_option (\<lambda>r. [Answered r])) (handle E req h))"

datatype ending = Ended | Panicked

fun stdio_loop ::
    "(string \<Rightarrow> json option) \<Rightarrow> (env \<times> string option) list \<Rightarrow> mcp \<Rightarrow> reply list \<times> mcp \<times> ending" where
  \<comment> \<open>a line, or \<open>None\<close> for a read error, which ends the loop\<close>
  "stdio_loop from_str [] h = ([], h, Ended)"
| "stdio_loop from_str ((E, None) # ins) h = ([], h, Ended)"
| "stdio_loop from_str ((E, Some line) # ins) h =
     (case stdio_line from_str E line h of
        (None, h') \<Rightarrow> ([], h', Panicked)
      | (Some out, h') \<Rightarrow>
          (case stdio_loop from_str ins h' of (outs, h'', e) \<Rightarrow> (out @ outs, h'', e)))"

definition stdio_main ::
    "(string \<Rightarrow> string + store) option \<Rightarrow> (string \<Rightarrow> json option) \<Rightarrow> string list \<Rightarrow>
     (env \<times> string option) list \<Rightarrow> (reply list \<times> mcp \<times> ending) cli" where
  "stdio_main rocks from_str args ins =
     (case stdio_args None args of
        Exit c \<Rightarrow> Exit c
      | Start db \<Rightarrow>
          (case build_store rocks db of
             Exit c \<Rightarrow> Exit c
           | Start s \<Rightarrow> Start (stdio_loop from_str ins (mcp_new s))))"

section \<open>HTTP\<close>

definition handle_mcp :: "env \<Rightarrow> json_rpc_request \<Rightarrow> mcp \<Rightarrow> (nat \<times> json_rpc_response) option \<times> mcp" where
  \<comment> \<open>status and body; the request is the one the \<open>Json\<close> extractor read\<close>
  "handle_mcp E req h = apfst (map_option (\<lambda>r. (200, r))) (handle E req h)"

definition handle_health :: "nat \<times> string" where
  "handle_health = (200, ''ok'')"

datatype endpoint = PostMcp | GetHealth

record cors =
  co_origins :: "string list"
  co_headers :: "string list"
  co_methods :: "string list"

record http_router =
  ro_routes :: "(string \<times> endpoint) list"
  ro_body_limit :: nat
  ro_cors :: cors

definition cors_layer :: "(string \<Rightarrow> bool) \<Rightarrow> string list \<Rightarrow> cors" where
  \<comment> \<open>the first argument tells which texts are header values\<close>
  "cors_layer is_header cors_origins =
     (let closed = \<lparr>co_origins = [], co_headers = [], co_methods = []\<rparr>;
          origins = filter is_header cors_origins in
      if cors_origins \<noteq> [] \<and> origins \<noteq> [] then
        closed\<lparr>co_origins := origins, co_headers := [''content-type'', ''mcp-session-id''],
          co_methods := [''POST'', ''GET'', ''DELETE'', ''OPTIONS'']\<rparr>
      else closed)"

definition build_router :: "(string \<Rightarrow> bool) \<Rightarrow> string list \<Rightarrow> http_router" where
  "build_router is_header cors_origins =
     \<lparr>ro_routes = [(''/mcp'', PostMcp), (''/health'', GetHealth)], ro_body_limit = 1024 * 1024,
      ro_cors = cors_layer is_header cors_origins\<rparr>"

definition http_main ::
    "(string \<Rightarrow> string + store) option \<Rightarrow> (string \<Rightarrow> bool) \<Rightarrow> (string \<Rightarrow> bool) \<Rightarrow> string list
     \<Rightarrow> (string \<times> http_router \<times> mcp) cli" where
  \<comment> \<open>what is served where; \<open>bind\<close> tells which addresses can be listened on\<close>
  "http_main rocks is_header bind args =
     (case http_args args of
        Exit c \<Rightarrow> Exit c
      | Start cli \<Rightarrow>
          (case build_store rocks (hc_db cli) of
             Exit c \<Rightarrow> Exit c
           | Start s \<Rightarrow>
               if bind (hc_addr cli) then Start (hc_addr cli, build_router is_header (hc_cors cli), mcp_new s)
               else Exit 1))"

lemma http_main_serves:
  assumes "http_main None is_header bind args = Start (addr, r, h)"
  shows "bind addr \<and> h = mcp_new store_with_seeds \<and> ro_body_limit r = 1048576
    \<and> list_all is_header (co_origins (ro_cors r)) \<and> (co_origins (ro_cors r) = [] \<longleftrightarrow> co_methods (ro_cors r) = [])"
  using assms
  by (auto simp: http_main_def build_store_def build_router_def cors_layer_def store_with_seeds_def Let_def list_all_iff
      split: cli.splits option.splits if_splits)

section \<open>Replies\<close>

definition replies :: "json_rpc_request \<Rightarrow> json_rpc_response \<Rightarrow> bool" where
  \<comment> \<open>a JSON-RPC response to the request: its id, and a result or an error\<close>
  "replies req r \<longleftrightarrow>
     rs_jsonrpc r = ''2.0'' \<and> rs_id r = rq_id req \<and> (rs_result r = None \<longleftrightarrow> rs_error r \<noteq> None)"

lemma replies_simps [simp]:
  "replies req (fst (refuse req e h))" "replies req (fst (answer E req v h))" "replies req (rpc_success (rq_id req) v)"
  by (simp_all add: replies_def refuse_def answer_def rpc_success_def rpc_error_def)

lemma replies_write:
  "replies req (fst (tool_insert E req args h))" "replies req (fst (tool_insert_batch E req args h))"
  "replies req (fst (tool_retract E req args h))"
  by (simp_all add: tool_insert_def tool_insert_batch_def tool_retract_def Let_def split: sum.split list.split prod.split)

lemma replies_upsert: "replies req (fst (tool_upsert E req args h))"
  by (simp add: tool_upsert_def upsert_insert_def upsert_replace_def upsert_ambiguous_def
      split: sum.split list.split prod.split)

lemma replies_assert: "replies req (fst (tool_assert E req args h))"
  by (simp add: tool_assert_def assert_existing_def Let_def split: sum.split prod.split store_error.split)

lemma replies_search: "replies req (fst (tool_search E req args h))"
  by (simp add: tool_search_def search_keyword_def Let_def split: sum.split option.split)

lemma replies_review: "replies req (fst (tool_review E req args h))"
  by (simp add: tool_review_def review_list_pending_def review_list_all_def review_approve_def review_reject_def
      review_detail_def Let_def split: sum.split prod.split option.split)

lemma replies_reads:
  "replies req (fst (tool_lookup E req args h))" "replies req (fst (handle_initialize E req h))"
  "replies req (fst (handle_list_tools req h))" "replies req (fst (handle_list_resources req h))"
  "replies req (fst (handle_read_resource E req h))"
  by (simp_all add: tool_lookup_def handle_initialize_def handle_list_tools_def handle_list_resources_def
      handle_read_resource_def Let_def split: sum.split option.split)

lemma replies_query: "fst (tool_query E req args h) = Some r \<Longrightarrow> replies req r"
  by (auto simp: tool_query_def split: sum.splits option.splits)

lemma fst_apfst_Some_iff: "fst (apfst Some x) = Some r \<longleftrightarrow> fst x = r"
  by (cases x) simp

lemmas replies_all = replies_write replies_upsert replies_assert replies_search replies_review replies_reads

lemma replies_handle: "fst (handle E req h) = Some r \<Longrightarrow> replies req r"
  using replies_query [of E req _ h r]
  by (auto simp: handle_def handle_call_tool_def fst_apfst_Some_iff Let_def replies_all split: if_splits option.splits)

end
