(* ===== verification/Transport_Properties.thy ===== *)
theory Transport_Properties
  imports Transport Handler_Properties
begin

text \<open>
  The properties of the line transport: what is answered, in which order, and what changes the server.
\<close>

definition read_lines :: "(env \<times> string option) list \<Rightarrow> (env \<times> string) list" where
  \<comment> \<open>the lines before the first read error\<close>
  "read_lines ins = map (\<lambda>(E, l). (E, the l)) (takeWhile (\<lambda>(E, l). l \<noteq> None) ins)"

definition due :: "(string \<Rightarrow> json option) \<Rightarrow> string \<Rightarrow> json list" where
  \<comment> \<open>the id a line must be answered with, if it must be answered\<close>
  "due from_str line =
     (case read_line from_str line of
        Blank \<Rightarrow> [] | Notification \<Rightarrow> [] | BadJson \<Rightarrow> [JNull] | BadRequest \<Rightarrow> [JNull] | Request req \<Rightarrow> [rq_id req])"

definition serve_lines :: "(string \<Rightarrow> json option) \<Rightarrow> (env \<times> string) list \<Rightarrow> mcp \<Rightarrow> mcp" where
  "serve_lines from_str ls h =
     fold (\<lambda>(E, line) h. case read_line from_str line of Request req \<Rightarrow> snd (handle E req h) | _ \<Rightarrow> h) ls h"

fun reply_id :: "reply \<Rightarrow> json" where
  "reply_id (Answered r) = rs_id r"
| "reply_id (Refused c m) = JNull"

lemma stdio_line_facts:
  assumes "stdio_line from_str E line h = (Some out, h')"
  shows "map reply_id out = due from_str line
    \<and> h' = (case read_line from_str line of Request req \<Rightarrow> snd (handle E req h) | _ \<Rightarrow> h)"
proof (cases "read_line from_str line")
  case (Request req)
  then obtain r where "out = [Answered r]" "fst (handle E req h) = Some r" "snd (handle E req h) = h'"
    using assms by (cases "handle E req h") (auto simp: stdio_line_def)
  then show ?thesis using replies_handle [of E req h r] Request by (simp add: due_def replies_def)
qed (use assms in \<open>auto simp: stdio_line_def due_def\<close>)

text \<open>C20. The line server. Every line is answered at most once and in order: a request with its own id, a line
  that is not JSON or not a request with a null id, and a blank line or a notification not at all.
  The server afterwards is the one that handled exactly the requests, in the order of their lines.
  This holds up to the end of the input or the first read error, when no request panics.\<close>

theorem stdio_answers:
  assumes "stdio_loop from_str ins h = (outs, h', Ended)"
  shows "map reply_id outs = concat (map (\<lambda>(E, line). due from_str line) (read_lines ins))
    \<and> h' = serve_lines from_str (read_lines ins) h"
  using assms
proof (induction from_str ins h arbitrary: outs rule: stdio_loop.induct)
  case (3 from_str E line ins h)
  obtain out h1 outs1 where l: "stdio_line from_str E line h = (Some out, h1)"
      "stdio_loop from_str ins h1 = (outs1, h', Ended)" "outs = out @ outs1"
    using "3.prems" by (auto split: prod.splits option.splits)
  have "map reply_id outs1 = concat (map (\<lambda>(E, line). due from_str line) (read_lines ins))
    \<and> h' = serve_lines from_str (read_lines ins) h1"
    using "3.IH" [OF l(1) [symmetric] refl l(2)] .
  then show ?case using stdio_line_facts [OF l(1)] l(3) by (simp add: read_lines_def serve_lines_def)
qed (simp_all add: read_lines_def serve_lines_def)

definition ping_text :: string where
  "ping_text = ''ping''"

definition sample_json :: "string \<Rightarrow> json option" where
  \<comment> \<open>a reader of three texts\<close>
  "sample_json t =
     (if t = ping_text then Some (JObj [(''id'', JStr ''7''), (''jsonrpc'', JStr ''2.0''), (''method'', JStr ''ping'')])
      else if t = ''note'' then Some (JObj [(''jsonrpc'', JStr ''2.0''), (''method'', JStr ''initialized'')])
      else if t = ''list'' then Some (JArr [])
      else None)"

definition sample_lines :: "(env \<times> string option) list" where
  "sample_lines = map (\<lambda>l. (sample_env, l)) [Some ''note'', Some '' '', Some ''ping'', Some ''list'', Some ''x'', None, Some ''ping'']"

lemma sample_lines_served:
  "stdio_loop sample_json sample_lines (mcp_new one_fact) =
   ([Answered (rpc_success (JStr ''7'') (jobj [])), Refused (-32600) ''Invalid Request'', Refused (-32700) ''Parse error''],
    mcp_new one_fact, Ended)"
proof -
  have t: "trim ''note'' = ''note''" "trim '' '' = []" "trim ''ping'' = ''ping''" "trim ''list'' = ''list''" "trim ''x'' = ''x''"
    by code_simp+
  show ?thesis
    by (simp add: sample_lines_def stdio_line_def read_line_def t sample_json_def ping_text_def Let_def is_notification_def
        json_index_def json_get_def as_str_def request_of_json_def valid_request_def handle_def)
qed

lemma stdio_answers_witness:
  "map reply_id [Answered (rpc_success (JStr ''7'') (jobj [])), Refused (-32600) ''Invalid Request'', Refused (-32700) ''Parse error'']
   = concat (map (\<lambda>(E, line). due sample_json line) (read_lines sample_lines))
   \<and> mcp_new one_fact = serve_lines sample_json (read_lines sample_lines) (mcp_new one_fact)"
  by (rule stdio_answers [OF sample_lines_served])

end
