(* ===== verification/Lexed.thy ===== *)
theory Lexed
  imports Lexing
begin

text \<open>
  What the lexer can produce: every token is well formed, whatever the text. Texts of tokens are
  UTF-8 again, and names and symbols are the ones that the lexer would read back as they are.
\<close>

section \<open>Pieces of UTF-8 text\<close>

lemma utf8_valid_char:
  assumes "utf8_char_ok b" "utf8_len (hd b) = Some (length b)"
  shows "utf8_valid (b @ s) \<longleftrightarrow> utf8_valid s"
proof -
  obtain c r where "b = c # r" using assms(1) by (cases b) simp_all
  with assms show ?thesis by simp
qed

lemma utf8_valid_append: "utf8_valid a \<Longrightarrow> utf8_valid b \<Longrightarrow> utf8_valid (a @ b)"
proof (induction a rule: utf8_valid.induct)
  case (2 c s)
  obtain n where n: "utf8_len c = Some n" "n \<le> Suc (length s)" "utf8_char_ok (take n (c # s))"
    "utf8_valid (drop (n - 1) s)"
    using "2.prems"(1) by (simp split: option.splits)
  have "0 < n" using n(1) by (rule utf8_len_pos)
  have "utf8_valid (drop (n - 1) s @ b)" using "2.IH" [OF n(1)] n "2.prems"(2) by simp
  moreover have "take n (c # s @ b) = take n (c # s)" using n(2) \<open>0 < n\<close> by (cases n) simp_all
  moreover have "drop (n - 1) (s @ b) = drop (n - 1) s @ b" using n(2) \<open>0 < n\<close> by (cases n) simp_all
  ultimately show ?case using n by simp
qed simp

lemma utf8_valid_ascii: "\<not> is_high c \<Longrightarrow> utf8_valid [c]"
  by (cases c) (simp add: utf8_len_def is_high_def in_range_def)

lemma utf8_valid_latin1: "utf8_valid (latin1_utf8 c)"
  by (cases c) (auto simp: latin1_utf8_def is_high_def utf8_len_def in_range_def utf8_valid_ascii)

lemma read_utf8_char_gives:
  assumes "read_utf8_char s = Inr (b, s')" "lx_rest s = c # r" "is_high c"
  shows "utf8_valid b \<and> list_all is_high b"
proof -
  obtain n where n: "utf8_len c = Some n" "n \<le> length (lx_rest s)" "utf8_char_ok b" "b = take n (c # r)"
    using assms(1,2) by (auto simp: read_utf8_char_def split: option.splits if_splits)
  have "0 < n" using n(1) by (rule utf8_len_pos)
  then have b: "hd b = c" "length b = n" using n(2,4) assms(2) by (cases n; simp)+
  then have "utf8_valid (b @ [])" using utf8_valid_char [of b "[]"] n(1,3) by simp
  moreover have "list_all is_high b"
    using utf8_char_high [OF n(1), of r] n(3,4) assms(3) by (simp add: list_all_iff)
  ultimately show ?thesis by simp
qed

lemma utf8_valid_snoc: "utf8_valid a \<Longrightarrow> \<not> is_high c \<Longrightarrow> utf8_valid (a @ [c])"
  by (intro utf8_valid_append utf8_valid_ascii)

section \<open>The loops\<close>

lemma run_ok_Nil [simp]: "run_ok P []"
  by (simp add: run_ok_def)

lemma run_ok_snoc: "run_ok P a \<Longrightarrow> P c \<Longrightarrow> \<not> is_high c \<Longrightarrow> run_ok P (a @ [c])"
  by (simp add: run_ok_def utf8_valid_snoc)

lemma run_ok_append_high: "run_ok P a \<Longrightarrow> utf8_valid b \<Longrightarrow> list_all is_high b \<Longrightarrow> run_ok P (a @ b)"
  by (auto simp: run_ok_def utf8_valid_append list_all_iff)

lemma peek_rest: "peek s = Some c \<Longrightarrow> lx_rest s = c # tl (lx_rest s)"
  by auto

lemma lex_run_gives:
  "lex_run P buf s = Inr (b, s') \<Longrightarrow> run_ok P buf \<Longrightarrow> run_ok P b"
proof (induction P buf s rule: lex_run.induct)
  case (1 P buf s)
  show ?case
  proof (cases "peek s")
    case None
    then show ?thesis using "1.prems" by (subst (asm) lex_run.simps) (simp del: peek_None)
  next
    case (Some c)
    note step = lex_run.simps [of P buf s, unfolded Some option.case]
    consider "\<not> P c \<and> \<not> is_high c" | "P c" "\<not> is_high c" | "is_high c" by blast
    then show ?thesis
    proof cases
      case 1
      then show ?thesis using "1.prems" step by simp
    next
      case 2
      then show ?thesis using "1.prems" "1.IH"(2) [OF Some] by (simp add: step run_ok_snoc)
    next
      case 3
      then obtain d u where d: "read_utf8_char s = Inr (d, u)" "lex_run P (buf @ d) u = Inr (b, s')"
        using "1.prems"(1) by (auto simp: step split: sum.splits)
      then show ?thesis
        using "1.IH"(1) [OF Some _ 3 d(1) refl d(2)] 3 "1.prems"(2)
          read_utf8_char_gives [OF d(1) peek_rest [OF Some] 3]
        by (simp add: run_ok_append_high)
    qed
  qed
qed

lemma lex_string_loop_gives:
  "lex_string_loop st buf s = Inr (b, s') \<Longrightarrow> utf8_valid buf \<Longrightarrow> utf8_valid b"
proof (induction st buf s rule: lex_string_loop.induct)
  case (1 st buf s)
  show ?case
  proof (cases "peek s")
    case None
    then show ?thesis using "1.prems" by (subst (asm) lex_string_loop.simps) (simp del: peek_None)
  next
    case (Some c)
    note step = lex_string_loop.simps [of st buf s, unfolded Some option.case]
    consider "c = CHR 0x22" | "c = CHR 0x5C" | "c \<noteq> CHR 0x22" "c \<noteq> CHR 0x5C" "\<not> is_high c"
      | "c \<noteq> CHR 0x22" "c \<noteq> CHR 0x5C" "is_high c" by blast
    then show ?thesis
    proof cases
      case 1
      then show ?thesis using "1.prems" step by simp
    next
      case 2
      then obtain d where d: "peek (advance s) = Some d"
        using "1.prems"(1) by (auto simp: step simp del: peek_Some split: option.splits)
      have "utf8_valid [CHR 0x0A]" "utf8_valid [CHR 0x09]" "utf8_valid [CHR 0x0D]" by code_simp+
      then have "utf8_valid (buf @ (if d = CHR ''n'' then [CHR 0x0A] else if d = CHR ''t'' then [CHR 0x09]
                           else if d = CHR ''r'' then [CHR 0x0D] else latin1_utf8 d))"
        using "1.prems"(2) by (simp add: utf8_valid_append utf8_valid_latin1)
      moreover have "c \<noteq> CHR 0x22" using 2 by simp
      ultimately show ?thesis
        using "1.prems"(1) "1.IH"(1) [OF Some _ 2 d] 2 d by (simp add: step del: peek_Some)
    next
      case 3
      then show ?thesis
        using "1.prems" "1.IH"(2) [OF Some] by (simp add: step utf8_valid_snoc)
    next
      case 4
      then obtain d u where d: "read_utf8_char s = Inr (d, u)" "lex_string_loop st (buf @ d) u = Inr (b, s')"
        using "1.prems"(1) by (auto simp: step split: sum.splits)
      then show ?thesis
        using "1.IH"(3) [OF Some _ _ _ d(1) refl d(2)] 4 "1.prems"(2)
          read_utf8_char_gives [OF d(1) peek_rest [OF Some] 4(3)]
        by (simp add: utf8_valid_append)
    qed
  qed
qed

lemma high_no_angle: "list_all is_high b \<Longrightarrow> CHR ''>'' \<notin> set b"
  by (auto simp: list_all_iff is_high_def)

lemma lex_uri_loop_gives:
  "lex_uri_loop st buf s = Inr (b, s') \<Longrightarrow> uri_ok buf \<Longrightarrow> uri_ok b"
proof (induction st buf s rule: lex_uri_loop.induct)
  case (1 st buf s)
  show ?case
  proof (cases "peek s")
    case None
    then show ?thesis using "1.prems" by (subst (asm) lex_uri_loop.simps) (simp del: peek_None)
  next
    case (Some c)
    note step = lex_uri_loop.simps [of st buf s, unfolded Some option.case]
    consider "c = CHR ''>''" | "c \<noteq> CHR ''>''" "\<not> is_high c" | "c \<noteq> CHR ''>''" "is_high c" by blast
    then show ?thesis
    proof cases
      case 1
      then show ?thesis using "1.prems" step by simp
    next
      case 2
      then show ?thesis
        using "1.prems" "1.IH"(2) [OF Some] by (simp add: step uri_ok_def utf8_valid_snoc)
    next
      case 3
      then obtain d u where d: "read_utf8_char s = Inr (d, u)" "lex_uri_loop st (buf @ d) u = Inr (b, s')"
        using "1.prems"(1) by (auto simp: step split: sum.splits)
      then show ?thesis
        using "1.IH"(1) [OF Some _ _ d(1) refl d(2)] 3 "1.prems"(2)
          read_utf8_char_gives [OF d(1) peek_rest [OF Some] 3(2)] high_no_angle
        by (simp add: uri_ok_def utf8_valid_append)
    qed
  qed
qed

section \<open>Tokens\<close>

definition kind_ok :: "token_kind \<Rightarrow> bool" where
  "kind_ok k =
     (case k of
        Symbol s \<Rightarrow> sym_ok s
      | VarTok s \<Rightarrow> name_ok ident_byte s
      | Keyword s \<Rightarrow> name_ok ident_byte s
      | StrTok s \<Rightarrow> utf8_valid s
      | UriTok s \<Rightarrow> uri_ok s
      | EntityTok s \<Rightarrow> name_ok entity_byte s
      | _ \<Rightarrow> True)"

text \<open>A run is a prefix of the text that was left.\<close>

lemma lex_run_prefix:
  "lex_run P buf s = Inr (b, s') \<Longrightarrow> b @ lx_rest s' = buf @ lx_rest s"
proof (induction P buf s rule: lex_run.induct)
  case (1 P buf s)
  show ?case
  proof (cases "peek s")
    case None
    then show ?thesis using "1.prems" by (subst (asm) lex_run.simps) (simp del: peek_None)
  next
    case (Some c)
    note step = lex_run.simps [of P buf s, unfolded Some option.case]
    consider "\<not> P c \<and> \<not> is_high c" | "P c" "\<not> is_high c" | "is_high c" by blast
    then show ?thesis
    proof cases
      case 1
      then show ?thesis using "1.prems" step by simp
    next
      case 2
      then show ?thesis using "1.prems" "1.IH"(2) [OF Some] peek_rest [OF Some] by (simp add: step)
    next
      case 3
      then obtain d u where d: "read_utf8_char s = Inr (d, u)" "lex_run P (buf @ d) u = Inr (b, s')"
        using "1.prems"(1) by (auto simp: step split: sum.splits)
      then have "d @ lx_rest u = lx_rest s"
        by (auto simp: read_utf8_char_def split: list.splits option.splits if_splits)
      then show ?thesis using "1.IH"(1) [OF Some _ 3 d(1) refl d(2)] 3 by simp
    qed
  qed
qed

lemma lex_symbol_gives:
  assumes "lex_symbol s = Inr (t, s')" "lx_rest s = c # r"
    "\<not> (is_digit c \<or> c = CHR ''-'' \<and> is_digit_opt (peek_at s 1))"
  shows "kind_ok (tk_kind t)"
proof -
  obtain b u where b: "lex_run symbol_byte [] s = Inr (b, u)" "b \<noteq> []" "tk_kind t = Symbol b"
    using assms(1) by (auto simp: lex_symbol_def make_token_def split: if_splits)
  have "b @ lx_rest u = c # r" using lex_run_prefix [OF b(1)] assms(2) by simp
  then have "\<not> number_start b"
    using assms(2,3) b(2)
    by (auto simp: number_start_def peek_at_def is_digit_opt_def Cons_eq_append_conv append_eq_Cons_conv
        split: list.splits)
  then show ?thesis using lex_run_gives [OF b(1)] b by (simp add: kind_ok_def sym_ok_def)
qed

lemma next_token_gives:
  assumes "next_token s = Inr (t, s')"
  shows "kind_ok (tk_kind t)"
proof -
  obtain c r where s: "lx_rest s = c # r" using assms by (cases "lx_rest s") (simp_all add: next_token_def)
  have run: "name_ok P b" if "lex_run P [] u = Inr (b, u')" "b \<noteq> []" for P u b u'
    using lex_run_gives [OF that(1)] that(2) by (simp add: name_ok_def)
  have str: "utf8_valid b" if "lex_string_loop u [] v = Inr (b, u')" for u v b u'
    using lex_string_loop_gives [OF that] by simp
  have uri: "uri_ok b" if "lex_uri_loop u [] v = Inr (b, u')" for u v b u'
    using lex_uri_loop_gives [OF that] by (simp add: uri_ok_def)
  have parts: "lex_string s = Inr (t, s') \<Longrightarrow> kind_ok (tk_kind t)"
    "lex_var s = Inr (t, s') \<Longrightarrow> kind_ok (tk_kind t)" "lex_keyword s = Inr (t, s') \<Longrightarrow> kind_ok (tk_kind t)"
    "lex_uri s = Inr (t, s') \<Longrightarrow> kind_ok (tk_kind t)" "lex_entity s = Inr (t, s') \<Longrightarrow> kind_ok (tk_kind t)"
    by (auto simp: lex_string_def lex_var_def lex_keyword_def lex_uri_def lex_entity_def make_token_def
        kind_ok_def dest: run str uri split: if_splits)
  have "lex_hash_prefixed s = Inr (t, s') \<Longrightarrow> kind_ok (tk_kind t)" "lex_number s = Inr (t, s') \<Longrightarrow> kind_ok (tk_kind t)"
    by (auto simp: lex_hash_prefixed_def lex_number_def Let_def make_token_def kind_ok_def
        split: if_splits prod.splits)
  then show ?thesis
    using assms s parts lex_symbol_gives [OF _ s, of t s']
    by (auto simp: next_token_def make_token_def kind_ok_def split: if_splits)
qed

lemma tokenize_loop_gives:
  "tokenize_loop n s = Inr ts \<Longrightarrow> list_all (\<lambda>t. kind_ok (tk_kind t)) ts"
proof (induction n s arbitrary: ts rule: tokenize_loop.induct)
  case (1 n s0)
  let ?s = "skip_ws_and_comments s0"
  show ?case
  proof (cases "lx_rest ?s = []")
    case True
    then have "ts = [make_token Eof ?s]" using "1.prems" by (simp add: tokenize_loop.simps [of n s0])
    then show ?thesis by (simp add: make_token_def kind_ok_def)
  next
    case False
    with "1.prems" obtain t s' us where t: "\<not> MAX_TOKENS \<le> n" "next_token ?s = Inr (t, s')"
      "tokenize_loop (n + 1) s' = Inr us" "ts = t # us"
      by (auto simp: tokenize_loop.simps [of n s0] Let_def split: if_splits sum.splits prod.splits)
    then show ?thesis
      using "1.IH" [OF refl False t(1,2) refl t(3)] next_token_gives [OF t(2)] by simp
  qed
qed

end
