(* ===== verification/Positions.thy ===== *)
theory Positions
  imports Lexed
begin

text \<open>
  Positions in the text. The lexer's position is always the place of the text that is left, so a token
  carries the place where it starts, and an error a place in the text.
\<close>

definition at :: "string \<Rightarrow> lexer \<Rightarrow> bool" where
  "at src s \<longleftrightarrow> lx_pos s \<le> length src \<and> lx_rest s = drop (lx_pos s) src"

definition placed :: "string \<Rightarrow> lex_error + 'a \<times> lexer \<Rightarrow> bool" where
  "placed src r = (case r of Inl e \<Rightarrow> le_offset e \<le> length src | Inr (x, s) \<Rightarrow> at src s)"

lemma placed_simps [simp]:
  "at src s \<Longrightarrow> placed src (Inl (err_at m s))" "placed src (Inr (x, s)) \<longleftrightarrow> at src s"
  by (simp_all add: placed_def at_def err_at_def)

lemma placed_bindr:
  assumes "placed src p" "\<And>x s. at src s \<Longrightarrow> placed src (f x s)"
  shows "placed src (bindr p (case_prod f))"
  using assms by (cases p) (auto simp: placed_def)

lemma at_new: "at src (lexer_new src)"
  by (simp add: at_def lexer_new_def)

lemma at_advance: "at src s \<Longrightarrow> lx_rest s \<noteq> [] \<Longrightarrow> at src (advance s)"
  by (auto simp: at_def tl_drop drop_Suc Suc_le_eq)

lemma at_advance_peek [simp]: "at src s \<Longrightarrow> peek s = Some c \<Longrightarrow> at src (advance s)"
  by (rule at_advance) auto

lemma at_line [simp]: "at src (s\<lparr>lx_line := l, lx_col := c\<rparr>) \<longleftrightarrow> at src s"
  by (simp add: at_def)

lemma at_advance_pow: "at src s \<Longrightarrow> n \<le> length (lx_rest s) \<Longrightarrow> at src ((advance ^^ n) s)"
proof (induction n arbitrary: s)
  case (Suc n)
  then have "lx_rest s \<noteq> []" by auto
  then have "at src ((advance ^^ n) (advance s))" using Suc by (intro Suc.IH at_advance) simp_all
  then show ?case by (simp add: funpow_swap1)
qed simp

section \<open>The loops\<close>

lemma at_skip_ws: "at src s \<Longrightarrow> at src (skip_ws s)"
proof (induction s rule: skip_ws.induct)
  case (1 s)
  then show ?case by (subst skip_ws.simps) (simp split: option.split del: peek_Some peek_None)
qed

lemma at_skip_comment: "at src s \<Longrightarrow> at src (skip_comment s)"
proof (induction s rule: skip_comment.induct)
  case (1 s)
  then show ?case by (subst skip_comment.simps) (simp split: option.split del: peek_Some peek_None)
qed

lemma at_skip: "at src s \<Longrightarrow> at src (skip_ws_and_comments s)"
proof (induction s rule: skip_ws_and_comments.induct)
  case (1 s)
  then show ?case by (subst skip_ws_and_comments.simps) (simp add: at_skip_ws at_skip_comment)
qed

lemma placed_read_utf8_char: "at src s \<Longrightarrow> placed src (read_utf8_char s)"
  by (auto simp: read_utf8_char_def intro: at_advance_pow split: list.split option.split)

lemma placed_split:
  "placed src r \<Longrightarrow> (\<And>x s. r = Inr (x, s) \<Longrightarrow> at src s \<Longrightarrow> placed src (f x s)) \<Longrightarrow>
    placed src (case r of Inl e \<Rightarrow> Inl e | Inr (x, s) \<Rightarrow> f x s)"
  by (cases r) (auto simp: placed_def)

lemma placed_lex_run: "at src s \<Longrightarrow> placed src (lex_run P buf s)"
proof (induction P buf s rule: lex_run.induct)
  case (1 P buf s)
  show ?case
    by (subst lex_run.simps)
      (use 1 in \<open>auto simp del: peek_Some peek_None split: option.split
        intro!: placed_split [OF placed_read_utf8_char]\<close>)
qed

lemma placed_lex_string_loop: "at src st \<Longrightarrow> at src s \<Longrightarrow> placed src (lex_string_loop st buf s)"
proof (induction st buf s rule: lex_string_loop.induct)
  case (1 st buf s)
  show ?case
    by (subst lex_string_loop.simps)
      (use 1 in \<open>auto simp del: peek_Some peek_None split: option.split
        intro!: placed_split [OF placed_read_utf8_char]\<close>)
qed

lemma placed_lex_uri_loop: "at src st \<Longrightarrow> at src s \<Longrightarrow> placed src (lex_uri_loop st buf s)"
proof (induction st buf s rule: lex_uri_loop.induct)
  case (1 st buf s)
  show ?case
    by (subst lex_uri_loop.simps)
      (use 1 in \<open>auto simp del: peek_Some peek_None split: option.split
        intro!: placed_split [OF placed_read_utf8_char]\<close>)
qed

lemma at_lex_paren_loop: "at src s \<Longrightarrow> at src (snd (lex_paren_loop buf s))"
proof (induction buf s rule: lex_paren_loop.induct)
  case (1 buf s)
  then show ?case by (subst lex_paren_loop.simps) (simp split: option.split del: peek_Some peek_None)
qed

lemma at_lex_digits: "at src s \<Longrightarrow> at src (snd (lex_digits buf s))"
proof (induction buf s rule: lex_digits.induct)
  case (1 buf s)
  then show ?case by (subst lex_digits.simps) (simp split: option.split del: peek_Some peek_None)
qed

lemma expect_bytes_placed:
  assumes "at src s" "at src st" "\<And>u. at src u \<Longrightarrow> placed src (f u)"
  shows "placed src (bindr (expect_bytes (err_at m st) cs s) f)"
  using assms(1)
proof (induction cs arbitrary: s)
  case Nil
  then show ?case using assms(3) by simp
next
  case (Cons c cs)
  then show ?case using assms(2) by (cases "peek s = Some c") (simp_all del: peek_Some)
qed

section \<open>Tokens\<close>

lemma placed_lex_hash: "at src s \<Longrightarrow> lx_rest s \<noteq> [] \<Longrightarrow> placed src (lex_hash_prefixed s)"
  unfolding lex_hash_prefixed_def Let_def
  by (auto simp del: peek_Some simp: at_advance case_prod_unfold intro!: expect_bytes_placed at_lex_paren_loop)

lemma placed_lex_number:
  assumes "at src s"
  shows "placed src (lex_number s)"
proof -
  define p where "p = (if peek s = Some CHR ''-'' then (''-'', advance s) else ([], s))"
  define q where "q = lex_digits (fst p) (snd p)"
  define r where "r = (if peek (snd q) = Some CHR ''.'' then lex_digits (fst q @ ''.'') (advance (snd q)) else q)"
  have "at src (snd p)" using assms by (simp add: p_def del: peek_Some)
  then have q: "at src (snd q)" unfolding q_def by (rule at_lex_digits)
  then have "at src (snd r)" by (simp add: r_def at_lex_digits del: peek_Some)
  moreover have "lex_number s =
      (if peek (snd r) = Some CHR ''.'' \<and> is_digit_opt (peek_at (snd r) 1)
       then Inl (err_at (MultiDotNumber (fst r)) s) else Inr (make_token (Number (fst r)) s, snd r))"
    by (simp add: lex_number_def Let_def case_prod_unfold p_def q_def r_def del: peek_Some)
  ultimately show ?thesis using assms by simp
qed

lemma placed_next_token:
  assumes "at src s"
  shows "placed src (next_token s)"
proof (cases "lx_rest s")
  case Nil
  then show ?thesis using assms by (simp add: next_token_def)
next
  case (Cons c r)
  then have a: "at src (advance s)" using assms by (simp add: at_advance)
  note loops = placed_bindr [OF placed_lex_run] placed_bindr [OF placed_lex_string_loop]
    placed_bindr [OF placed_lex_uri_loop]
  have "placed src (lex_string s)" "placed src (lex_var s)" "placed src (lex_keyword s)"
    "placed src (lex_uri s)" "placed src (lex_entity s)" "placed src (lex_symbol s)"
    using assms a
    by (simp_all add: lex_string_def lex_var_def lex_keyword_def lex_uri_def lex_entity_def lex_symbol_def loops)
  moreover have "placed src (lex_hash_prefixed s)" "placed src (lex_number s)"
    using assms Cons by (simp_all add: placed_lex_hash placed_lex_number)
  ultimately show ?thesis
    using assms Cons a by (simp add: next_token_def)
qed

lemma next_token_offset: "next_token s = Inr (t, s') \<Longrightarrow> tk_offset t = lx_pos s"
  by (auto simp: next_token_def lex_string_def lex_var_def lex_keyword_def lex_uri_def lex_entity_def
      lex_symbol_def lex_hash_prefixed_def lex_number_def Let_def make_token_def
      split: list.splits if_splits prod.splits)

lemma at_measure: "at src s \<Longrightarrow> lx_pos s + length (lx_rest s) = length src"
  by (simp add: at_def)

lemma at_less:
  assumes "at src s" "at src s'" "length (lx_rest s') < length (lx_rest s)"
  shows "lx_pos s < lx_pos s'"
  using at_measure [OF assms(1)] at_measure [OF assms(2)] assms(3) by linarith

lemma at_le:
  assumes "at src s" "at src s'" "length (lx_rest s') \<le> length (lx_rest s)"
  shows "lx_pos s \<le> lx_pos s'"
  using at_measure [OF assms(1)] at_measure [OF assms(2)] assms(3) by linarith

definition offsets_in :: "string \<Rightarrow> nat \<Rightarrow> token list \<Rightarrow> bool" where
  \<comment> \<open>strictly increasing offsets from \<open>p\<close> on, inside the text\<close>
  "offsets_in src p ts \<longleftrightarrow>
     sorted_wrt (<) (map tk_offset ts) \<and> list_all (\<lambda>t. p \<le> tk_offset t \<and> tk_offset t \<le> length src) ts"

lemma tokenize_loop_offsets:
  "at src s \<Longrightarrow> case tokenize_loop n s of Inl e \<Rightarrow> le_offset e \<le> length src | Inr ts \<Rightarrow> offsets_in src (lx_pos s) ts"
proof (induction n s rule: tokenize_loop.induct)
  case (1 n s0)
  let ?s = "skip_ws_and_comments s0"
  have s: "at src ?s" using "1.prems" by (rule at_skip)
  have le: "lx_pos s0 \<le> lx_pos ?s" using "1.prems" s skip_ws_and_comments_length by (rule at_le)
  show ?case
  proof (cases "lx_rest ?s = []")
    case True
    then show ?thesis
      using s le by (simp add: tokenize_loop.simps [of n s0] Let_def offsets_in_def make_token_def at_def)
  next
    case False
    show ?thesis
    proof (cases "MAX_TOKENS \<le> n \<or> (\<exists>e. next_token ?s = Inl e)")
      case True
      then show ?thesis using False s placed_next_token [OF s]
        by (auto simp: tokenize_loop.simps [of n s0] placed_def err_at_def at_def Let_def split: if_splits)
    next
      case no: False
      then obtain t s' where t: "\<not> MAX_TOKENS \<le> n" "next_token ?s = Inr (t, s')"
        by (cases "next_token ?s") auto
      have s': "at src s'" using placed_next_token [OF s] t(2) by simp
      have lt: "lx_pos ?s < lx_pos s'" using s s' next_token_length [OF t(2) False] by (rule at_less)
      have "tk_offset t = lx_pos ?s" using t(2) by (rule next_token_offset)
      then show ?thesis
        using "1.IH" [OF refl False t(1,2) refl s'] False t s le lt
        by (auto simp: tokenize_loop.simps [of n s0] Let_def offsets_in_def list_all_iff at_def
            dest: less_le_trans le_trans split: sum.splits)
    qed
  qed
qed

lemma tokenize_offsets:
  "case tokenize src of Inl e \<Rightarrow> le_offset e \<le> length src | Inr ts \<Rightarrow> offsets_in src 0 ts"
  using tokenize_loop_offsets [OF at_new, of src 0]
  by (simp add: tokenize_def lexer_new_def split: sum.splits)

end
