(* ===== verification/Parsed.thy ===== *)
theory Parsed
  imports Positions RoundTrip
begin

text \<open>
  Which parsed nodes print to text that parses back. Everything the printer needs of a node is true of
  any node that was parsed, with four exceptions that \<open>node_plain\<close> names: an entity written as a bare
  symbol may not be an entity name, a duration may exceed the nanoseconds that are read, a raw text may
  hold a quote or a backslash, and the date library must read what it prints.
\<close>

section \<open>Plain nodes\<close>

definition raw_plain :: "string \<Rightarrow> bool" where
  "raw_plain s \<longleftrightarrow> CHR 0x22 \<notin> set s \<and> CHR 0x5C \<notin> set s"

definition lit_plain :: "chrono \<Rightarrow> literal \<Rightarrow> bool" where
  "lit_plain C l =
     (case l of
        LDate d \<Rightarrow> paren_ok (fmt_date C d) \<and> parse_date C (fmt_date C d) = Some d
      | LDur d \<Rightarrow> d < 2 ^ 64
      | _ \<Rightarrow> True)"

definition entity_plain :: "string \<Rightarrow> bool" where
  "entity_plain s \<longleftrightarrow> list_all (\<lambda>c. entity_byte c \<or> is_high c) s"

fun term_plain :: "chrono \<Rightarrow> trm \<Rightarrow> bool"
  and pred_plain :: "chrono \<Rightarrow> predicate \<Rightarrow> bool" where
  "term_plain C (TVar s) = True"
| "term_plain C (TEnt e) = entity_plain e"
| "term_plain C (TLit l) = lit_plain C l"
| "term_plain C (TCompound p) = pred_plain C p"
| "term_plain C (TList ts) = list_all (term_plain C) ts"
| "pred_plain C (Predicate h as ns) =
     (list_all (term_plain C) as \<and> list_all (\<lambda>(k, t). term_plain C t) ns)"

definition prov_plain :: "provenance \<Rightarrow> bool" where
  "prov_plain p =
     (case p of
        Verbatim d sp \<Rightarrow> raw_plain d
      | Summary d sp \<Rightarrow> raw_plain d
      | Extracted d sp m \<Rightarrow> raw_plain d \<and> raw_plain (m_name m) \<and> raw_plain (m_version m)
      | Derived f r \<Rightarrow> raw_plain r
      | Asserted b \<Rightarrow> raw_plain b)"

definition node_plain :: "chrono \<Rightarrow> node \<Rightarrow> bool" where
  "node_plain C n \<longleftrightarrow>
     pred_plain C (nd_pred n) \<and> validity_ok C (nd_validity n) \<and> prov_plain (nd_prov n)"

text \<open>Being plain is no more than being printable.\<close>

lemma pred_ok_plain:
  assumes "pred_ok f p" "\<And>t. f t \<Longrightarrow> term_plain C t"
  shows "pred_plain C p"
  using assms by (cases p) (auto simp: pred_ok_def list_all_iff)

lemma term_ok_with_plain:
  assumes "term_ok_with C sub t" "\<And>f t. sub = Some f \<Longrightarrow> f t \<Longrightarrow> term_plain C t"
  shows "term_plain C t"
proof (cases t)
  case (TEnt s)
  then show ?thesis using assms(1)
    by (auto simp: term_ok_with_def name_ok_def run_ok_def entity_plain_def list_all_iff)
next
  case (TLit l)
  then show ?thesis using assms(1) by (auto simp: term_ok_with_def lit_ok_def lit_plain_def split: literal.splits)
next
  case (TCompound p)
  then show ?thesis using assms pred_ok_plain by (auto simp: term_ok_with_def split: option.splits)
next
  case (TList ts)
  then show ?thesis using assms by (auto simp: term_ok_with_def list_all_iff split: option.splits)
qed simp

lemma term_ok_plain: "term_ok C k t \<Longrightarrow> term_plain C t"
proof (induction k arbitrary: t)
  case 0
  then show ?case using term_ok_with_plain [of C None t] by simp
next
  case (Suc k)
  then show ?case using term_ok_with_plain [of C "Some (term_ok C k)" t] by simp
qed

lemma node_ok_plain: "node_ok C n \<Longrightarrow> node_plain C n"
  by (auto simp: node_ok_def node_plain_def prov_ok_def prov_plain_def raw_ok_def raw_plain_def
      intro: pred_ok_plain term_ok_plain split: provenance.splits)

section \<open>Results and the tokens they leave\<close>

text \<open>The offsets of the tokens are bounded by the first part of \<open>N\<close>, their kinds are among the second; an
  error is placed within the bound, and a panic comes from a duration token that overflows.\<close>

definition toks_ok :: "nat \<times> token_kind set \<Rightarrow> token list \<Rightarrow> bool" where
  "toks_ok N ts \<longleftrightarrow> list_all (\<lambda>t. kind_ok (tk_kind t) \<and> tk_offset t \<le> fst N \<and> tk_kind t \<in> snd N) ts"

definition may_panic :: "chrono \<Rightarrow> token_kind set \<Rightarrow> bool" where
  "may_panic C K \<longleftrightarrow> (\<exists>s. DurationTok s \<in> K \<and> parse_duration (overflow_checks C) s = Inl Panicked)"

definition gives :: "chrono \<Rightarrow> nat \<times> token_kind set \<Rightarrow> ('a \<Rightarrow> bool) \<Rightarrow> parse_error + 'a \<times> token list \<Rightarrow> bool" where
  "gives C N Q r =
     (case r of
        Inl e \<Rightarrow> pe_offset e \<le> fst N \<and> (pe_message e = Panicked \<longrightarrow> may_panic C (snd N))
      | Inr (x, ts) \<Rightarrow> Q x \<and> toks_ok N ts)"

lemma gives_simps [simp]:
  "toks_ok N ts \<Longrightarrow> m \<noteq> Panicked \<Longrightarrow> gives C N Q (Inl (perror m ts))"
  "gives C N Q (Inr (x, ts)) \<longleftrightarrow> Q x \<and> toks_ok N ts"
  by (auto simp: gives_def perror_def toks_ok_def split: list.split)

lemma gives_bindr:
  assumes "gives C N P p" "\<And>x ts. P x \<Longrightarrow> toks_ok N ts \<Longrightarrow> gives C N Q (f x ts)"
  shows "gives C N Q (bindr p (case_prod f))"
  using assms by (cases p) (auto simp: gives_def)

lemma gives_ok_or:
  assumes "toks_ok N ts" "m \<noteq> Panicked" "\<And>v. x = Some v \<Longrightarrow> gives C N Q (f v)"
  shows "gives C N Q (bindr (ok_or (perror m ts) x) f)"
  using assms by (cases x) simp_all

lemma gives_if: "(c \<Longrightarrow> gives C N Q a) \<Longrightarrow> (\<not> c \<Longrightarrow> gives C N Q b) \<Longrightarrow> gives C N Q (if c then a else b)"
  by simp

lemma toks_ok_bump [simp]: "toks_ok N ts \<Longrightarrow> toks_ok N (bump ts)"
  by (auto simp: toks_ok_def bump_def split: list.splits)

lemma toks_ok_peek: "toks_ok N ts \<Longrightarrow> kind_ok (peek_kind ts)"
  by (auto simp: toks_ok_def peek_kind_def kind_ok_def split: list.splits)

lemma toks_ok_kind:
  "toks_ok N ts \<Longrightarrow> peek_kind ts = Symbol s \<Longrightarrow> sym_ok s"
  "toks_ok N ts \<Longrightarrow> peek_kind ts = VarTok s \<Longrightarrow> name_ok ident_byte s"
  "toks_ok N ts \<Longrightarrow> peek_kind ts = Keyword s \<Longrightarrow> name_ok ident_byte s"
  "toks_ok N ts \<Longrightarrow> peek_kind ts = StrTok s \<Longrightarrow> utf8_valid s"
  "toks_ok N ts \<Longrightarrow> peek_kind ts = UriTok s \<Longrightarrow> uri_ok s"
  "toks_ok N ts \<Longrightarrow> peek_kind ts = EntityTok s \<Longrightarrow> name_ok entity_byte s"
  by (auto simp: kind_ok_def dest!: toks_ok_peek)

lemma gives_expect:
  assumes "toks_ok N ts" "\<And>us. toks_ok N us \<Longrightarrow> gives C N Q (f us)"
  shows "gives C N Q (bindr (expect k ts) f)"
  using assms by (simp add: expect_def)

lemma gives_expect_symbol:
  assumes "toks_ok N ts" "\<And>us. toks_ok N us \<Longrightarrow> gives C N Q (f us)"
  shows "gives C N Q (bindr (expect_symbol s ts) f)"
  using assms by (simp add: expect_symbol_def)

section \<open>Leaves\<close>

lemma sym_ok_valid: "sym_ok s \<Longrightarrow> utf8_valid s"
  by (simp add: sym_ok_def run_ok_def)

lemma f32_parse_wf: "f32_parse s = Some v \<Longrightarrow> f32_wf v"
proof -
  have "f32_mant neg r = Some v \<Longrightarrow> f32_wf v" for neg r
    by (auto simp: f32_mant_def f32_of_dec_def Let_def intro!: f32_round_wf dec_val_nonneg
        split: if_splits prod.splits)
  then show "f32_parse s = Some v \<Longrightarrow> f32_wf v"
    by (auto simp: f32_parse_def split: list.splits if_splits)
qed

lemma gives_leaves:
  assumes "toks_ok N ts"
  shows "gives C N f32_wf (parse_f32 ts)" "gives C N (\<lambda>_. True) (parse_u32 ts)"
    "gives C N utf8_valid (parse_smol_str ts)" "gives C N utf8_valid (parse_doc_id ts)"
    "gives C N utf8_valid (parse_note ts)" "gives C N (\<lambda>_. True) (parse_datetime_tok C ts)"
    "gives C N (\<lambda>_. True) (parse_permission_tag ts)"
  using assms toks_ok_kind [OF assms] f32_parse_wf
  by (auto simp: parse_f32_def parse_u32_def parse_smol_str_def parse_doc_id_def parse_note_def
      parse_datetime_tok_def parse_permission_tag_def sym_ok_valid
      intro!: gives_ok_or split: token_kind.splits)

lemma gives_id_list_loop:
  "toks_ok N ts \<Longrightarrow> list_all sym_ok ids \<Longrightarrow> gives C N (list_all sym_ok) (id_list_loop n ids ts)"
  by (induction n ids ts rule: id_list_loop.induct) (auto split: token_kind.splits dest: toks_ok_kind(1))

lemma gives_id_list:
  assumes "toks_ok N ts"
  shows "gives C N (list_all sym_ok) (parse_id_list ts)"
  using assms
  by (auto simp: parse_id_list_def simp del: id_list_loop.simps split: token_kind.splits
      intro!: gives_bindr [OF gives_id_list_loop] gives_expect dest: toks_ok_kind(1))

lemma gives_validity: "toks_ok N ts \<Longrightarrow> gives C N (\<lambda>_. True) (parse_validity C ts)"
  unfolding parse_validity_def parse_until_def
  by (intro gives_if gives_expect_symbol gives_bindr [OF gives_leaves(6)] gives_expect
      gives_bindr [where P = "\<lambda>_. True"]) simp_all

section \<open>Provenance\<close>

definition prov_typed :: "provenance \<Rightarrow> bool" where
  "prov_typed p =
     (case p of
        Verbatim d sp \<Rightarrow> utf8_valid d
      | Summary d sp \<Rightarrow> utf8_valid d
      | Extracted d sp m \<Rightarrow> utf8_valid d \<and> utf8_valid (m_name m) \<and> utf8_valid (m_version m)
      | Derived f r \<Rightarrow> sym_ok f \<and> utf8_valid r
      | Asserted b \<Rightarrow> utf8_valid b)"

lemma prov_typed_plain: "prov_typed p \<Longrightarrow> prov_plain p \<Longrightarrow> prov_ok p"
  by (auto simp: prov_typed_def prov_plain_def prov_ok_def raw_plain_def raw_ok_def split: provenance.splits)

lemma gives_span: "toks_ok N ts \<Longrightarrow> gives C N (\<lambda>_. True) (parse_span ts)"
  unfolding parse_span_def
  by (intro gives_if gives_bindr [OF gives_leaves(2)] gives_expect) simp_all

lemma gives_model_ref:
  "toks_ok N ts \<Longrightarrow> gives C N (\<lambda>m. utf8_valid (m_name m) \<and> utf8_valid (m_version m)) (parse_model_ref ts)"
  unfolding parse_model_ref_def
  by (intro gives_if gives_bindr [OF gives_leaves(3)] gives_expect gives_expect_symbol) simp_all

lemma gives_derived: "toks_ok N ts \<Longrightarrow> gives C N prov_typed (parse_derived ts)"
  by (auto simp: parse_derived_def parse_rule_id_def prov_typed_def dest: toks_ok_kind(1)
      intro!: gives_bindr [OF gives_leaves(3)] split: token_kind.splits)

lemma gives_provenance_kind: "toks_ok N ts \<Longrightarrow> gives C N prov_typed (parse_provenance_kind s ts)"
  unfolding parse_provenance_kind_def parse_principal_def
  by (intro gives_if gives_derived gives_bindr [OF gives_leaves(4)] gives_bindr [OF gives_span]
      gives_bindr [OF gives_model_ref] gives_bindr [OF gives_leaves(3)]) (simp_all add: prov_typed_def)

lemma gives_provenance:
  assumes "toks_ok N ts"
  shows "gives C N prov_typed (parse_provenance ts)"
  unfolding parse_provenance_def
  using assms
  by (auto split: token_kind.split
      intro!: gives_expect gives_bindr [OF gives_provenance_kind])

section \<open>Literals\<close>

lemma parse_uint_bounds:
  assumes "parse_uint b s = Some v"
  shows "0 \<le> v" "v < b"
  using assms by (auto simp: parse_uint_def Let_def intro: dec_val_nonneg split: if_splits)

lemma parse_duration_nonneg: "parse_duration checks s = Inr d \<Longrightarrow> 0 \<le> d"
  by (auto simp: parse_duration_def duration_secs_def Let_def bindr_eq_Inr split: if_splits option.splits
      dest: parse_uint_bounds)

lemma dec_from_str_mantissa:
  assumes "dec_from_str s = Inr (LDec m sc)"
  shows "sint m \<noteq> - (2 ^ 127)"
proof -
  obtain sg r where sr: "strip_sign (trim s) = (sg, r)" by (cases "strip_sign (trim s)")
  obtain i f where f: "split_point r = (i, f)" by (cases "split_point r")
  have sg: "sg = 1 \<or> sg = -1" using sr by (auto simp: strip_sign_def split: list.splits if_splits)
  have v: "m = word_of_int (sg * dec_val (i @ f))" "list_all is_digit (i @ f)" "dec_val (i @ f) < 2 ^ 127"
    using assms by (auto simp: dec_from_str_def Let_def sr f split: if_splits)
  have "0 \<le> dec_val (i @ f)" using v(2) by (rule dec_val_nonneg)
  with v sg have "sint m = sg * dec_val (i @ f)"
    by (auto simp: signed_of_int signed_take_bit_int_eq_self simp del: of_int_mult)
  with v(3) sg \<open>0 \<le> dec_val (i @ f)\<close> show ?thesis by auto
qed

lemma dec_from_str_LDec: "dec_from_str s = Inr l \<Longrightarrow> \<exists>m sc. l = LDec m sc"
  by (auto simp: dec_from_str_def Let_def split: prod.splits if_splits)

section \<open>Terms\<close>

lemma gives_args_loop:
  assumes pt: "\<And>ts. toks_ok N ts \<Longrightarrow> gives C N f (pt ts)"
  shows "toks_ok N ts \<Longrightarrow> list_all f args \<Longrightarrow> list_all (\<lambda>(k, t). name_ok ident_byte k \<and> f t) named \<Longrightarrow>
    gives C N (\<lambda>(as, ns). list_all f as \<and> list_all (\<lambda>(k, t). name_ok ident_byte k \<and> f t) ns)
      (args_loop pt n args named b ts)"
proof (induction n arbitrary: args named b ts)
  case (Suc n)
  let ?Q = "\<lambda>(as, ns). list_all f as \<and> list_all (\<lambda>(k, t). name_ok ident_byte k \<and> f t) ns"
  have key: "gives C N ?Q (bindr (pt (bump ts)) (\<lambda>(v, ts). args_loop pt n args (named @ [(key, v)]) True ts))"
    if "peek_kind ts = Keyword key" for key
    using Suc.prems toks_ok_kind(3) [OF Suc.prems(1) that]
    by (intro gives_bindr [OF pt] Suc.IH) simp_all
  have pos: "gives C N ?Q (bindr (pt ts) (\<lambda>(a, ts). args_loop pt n (args @ [a]) named b ts))"
    using Suc.prems by (intro gives_bindr [OF pt] Suc.IH) simp_all
  show ?case using Suc.prems key pos by (cases b) (simp_all split: token_kind.split)
qed simp

lemma gives_items_loop:
  assumes pt: "\<And>ts. toks_ok N ts \<Longrightarrow> gives C N f (pt ts)"
  shows "toks_ok N ts \<Longrightarrow> list_all f items \<Longrightarrow> gives C N (list_all f) (items_loop pt n items ts)"
proof (induction n arbitrary: items ts)
  case (Suc n)
  have "gives C N (list_all f) (bindr (pt ts) (\<lambda>(t, ts). items_loop pt n (items @ [t]) ts))"
    using Suc.prems by (intro gives_bindr [OF pt] Suc.IH) simp_all
  then show ?case using Suc.prems by simp
qed simp

lemma gives_body:
  assumes pt: "\<And>ts. toks_ok N ts \<Longrightarrow> gives C N f (pt ts)" and "toks_ok N ts"
  shows "gives C N (pred_ok f) (parse_predicate_body_inner pt ts)"
proof (cases "peek_kind ts")
  case (Symbol s)
  then show ?thesis
    using assms(2) toks_ok_kind(1) [OF assms(2) Symbol]
    by (auto simp: parse_predicate_body_inner_def pred_ok_def simp del: args_loop.simps
        intro!: gives_bindr [OF gives_args_loop [OF pt]])
qed (use assms(2) in \<open>simp_all add: parse_predicate_body_inner_def\<close>)

lemma pred_ok_gives:
  assumes "pred_ok (\<lambda>t. term_plain C t \<longrightarrow> f t) p" "pred_plain C p"
  shows "pred_ok f p"
  using assms by (cases p) (auto simp: pred_ok_def list_all_iff)

lemma gives_term_with:
  assumes sub: "\<And>pt. sub = Some pt \<Longrightarrow>
      \<exists>f. g = Some f \<and> (\<forall>ts. toks_ok N ts \<longrightarrow> gives C N (\<lambda>t. term_plain C t \<longrightarrow> f t) (pt ts))"
    and ts: "toks_ok N ts"
  shows "gives C N (\<lambda>t. term_plain C t \<longrightarrow> term_ok_with C g t) (parse_term_with C sub ts)"
proof (cases "peek_kind ts")
  case LParen
  show ?thesis
  proof (cases sub)
    case None
    then show ?thesis using LParen ts by (simp add: parse_term_with_def)
  next
    case (Some pt)
    then obtain f where f: "g = Some f"
      "\<And>ts. toks_ok N ts \<Longrightarrow> gives C N (\<lambda>t. term_plain C t \<longrightarrow> f t) (pt ts)" using sub by blast
    show ?thesis
      using LParen Some ts
      by (auto simp: parse_term_with_def term_ok_with_def f(1) dest: pred_ok_gives
          intro!: gives_bindr [OF gives_body [OF f(2)]] gives_expect)
  qed
next
  case LBracket
  show ?thesis
  proof (cases sub)
    case None
    then show ?thesis using LBracket ts by (simp add: parse_term_with_def)
  next
    case (Some pt)
    then obtain f where f: "g = Some f"
      "\<And>ts. toks_ok N ts \<Longrightarrow> gives C N (\<lambda>t. term_plain C t \<longrightarrow> f t) (pt ts)" using sub by blast
    show ?thesis
      using LBracket Some ts
      by (auto simp: parse_term_with_def term_ok_with_def f(1) list_all_iff simp del: items_loop.simps
          intro!: gives_bindr [OF gives_items_loop [OF f(2)]] gives_expect)
  qed
next
  case (Number s)
  then show ?thesis using ts dec_from_str_mantissa dec_from_str_LDec [of s]
    by (fastforce simp: parse_term_with_def term_ok_with_def lit_ok_def split: sum.split)
next
  case (Symbol s)
  then show ?thesis using ts toks_ok_kind(1) [OF ts Symbol]
    by (auto simp: parse_term_with_def term_ok_with_def entity_plain_def name_ok_def sym_ok_def run_ok_def)
next
  case (DurationTok s)
  have panic: "may_panic C (snd N)" if "parse_duration (overflow_checks C) s = Inl Panicked"
    using DurationTok ts that by (auto simp: may_panic_def toks_ok_def peek_kind_def split: list.splits)
  have "gives C N Q (Inl (perror m (bump ts)))" if "parse_duration (overflow_checks C) s = Inl m" for m Q
  proof (cases "m = Panicked")
    case True
    then show ?thesis using panic that toks_ok_bump [OF ts]
      by (auto simp: gives_def perror_def toks_ok_def split: list.split)
  qed (use toks_ok_bump [OF ts] in simp)
  then show ?thesis using DurationTok ts parse_duration_nonneg [of "overflow_checks C" s]
    by (auto simp: parse_term_with_def term_ok_with_def lit_ok_def lit_plain_def split: sum.split)
qed (use ts toks_ok_kind [OF ts] in \<open>auto simp: parse_term_with_def term_ok_with_def lit_ok_def lit_plain_def
  intro!: gives_ok_or\<close>)

lemma gives_term: "toks_ok N ts \<Longrightarrow> gives C N (\<lambda>t. term_plain C t \<longrightarrow> term_ok C k t) (parse_term C k ts)"
proof (induction k arbitrary: ts)
  case 0
  have "gives C N (\<lambda>t. term_plain C t \<longrightarrow> term_ok_with C None t) (parse_term_with C None ts)"
    by (rule gives_term_with [OF _ 0]) simp
  then show ?case by (simp add: gives_def split: sum.splits)
next
  case (Suc k)
  have "gives C N (\<lambda>t. term_plain C t \<longrightarrow> term_ok_with C (Some (term_ok C k)) t)
      (parse_term_with C (Some (parse_term C k)) ts)"
    by (rule gives_term_with [OF _ Suc.prems]) (use Suc.IH in auto)
  then show ?case by (simp add: gives_def split: sum.splits)
qed

definition pred_gives :: "chrono \<Rightarrow> nat \<Rightarrow> predicate \<Rightarrow> bool" where
  "pred_gives C k p \<longleftrightarrow> (pred_plain C p \<longrightarrow> pred_ok (term_ok C k) p)"

lemma gives_predicate_form:
  "toks_ok N ts \<Longrightarrow> gives C N (pred_gives C (k - 1)) (parse_predicate_form C k ts)"
  by (auto simp: parse_predicate_form_def with_depth_def pred_gives_def dest: pred_ok_gives split: nat.split
      intro!: gives_expect gives_bindr [OF gives_body [OF gives_term]])

section \<open>Nodes\<close>

definition fields_typed :: "chrono \<Rightarrow> nat \<Rightarrow> fields \<Rightarrow> bool" where
  "fields_typed C k f \<longleftrightarrow>
     f32_wf (fd_conf f) \<and> f32_wf (fd_auth f) \<and> prov_typed (fd_prov f) \<and> list_all sym_ok (fd_deps f)
     \<and> (case fd_note f of None \<Rightarrow> True | Some s \<Rightarrow> utf8_valid s)
     \<and> (case fd_pred f of None \<Rightarrow> True | Some p \<Rightarrow> pred_gives C (k - 1) p)"

definition node_typed :: "chrono \<Rightarrow> node \<Rightarrow> bool" where
  \<comment> \<open>what the parser guarantees of a node besides \<open>parsed_ok\<close>\<close>
  "node_typed C n \<longleftrightarrow>
     sym_ok (nd_id n) \<and> pred_gives C (MAX_PARSE_DEPTH - 2) (nd_pred n) \<and> prov_typed (nd_prov n)
     \<and> f32_wf (nd_conf n) \<and> f32_wf (nd_auth n) \<and> list_all sym_ok (nd_deps n)
     \<and> (case nd_note n of None \<Rightarrow> True | Some s \<Rightarrow> utf8_valid s)"

lemma gives_refused:
  assumes "toks_ok N us" "gives C N Q (h v)"
  shows "gives C N Q (bindr (refused (confidence_new v) us) h)" "gives C N Q (bindr (refused (authority_new v) us) h)"
  using assms by (auto simp: refused_def confidence_new_def authority_new_def)

lemma gives_field:
  assumes "fields_typed C k f" "toks_ok N ts"
  shows "gives C N (fields_typed C k) (parse_field C k key f ts)"
  unfolding parse_field_def
  using assms(2)
  by (intro gives_if gives_refused gives_bindr [OF gives_predicate_form] gives_bindr [OF gives_validity]
      gives_bindr [OF gives_provenance] gives_bindr [OF gives_leaves(1)] gives_bindr [OF gives_leaves(5)]
      gives_bindr [OF gives_leaves(7)] gives_bindr [OF gives_id_list])
    (use assms(1) in \<open>simp_all add: fields_typed_def\<close>)

lemma gives_fields_loop:
  "toks_ok N ts \<Longrightarrow> fields_typed C k f \<Longrightarrow> gives C N (fields_typed C k) (fields_loop C k n f ts)"
proof (induction n arbitrary: f ts)
  case (Suc n)
  have "gives C N (fields_typed C k)
      (bindr (parse_field C k key f (bump ts)) (\<lambda>(f, ts). fields_loop C k n f ts))" for key
    using Suc.prems by (intro gives_bindr [OF gives_field] Suc.IH) simp_all
  then show ?case using Suc.prems by (simp split: token_kind.split)
qed simp

lemma default_fields_typed: "fields_typed C k default_fields"
proof -
  have "f32_wf default_confidence" "f32_wf default_authority" "utf8_valid ''system''" by code_simp+
  then show ?thesis by (simp add: fields_typed_def default_fields_def default_provenance_def prov_typed_def)
qed

lemma gives_node:
  assumes "toks_ok N ts"
  shows "gives C N (node_typed C) (parse_node C MAX_PARSE_DEPTH ts)"
proof -
  obtain k where k: "MAX_PARSE_DEPTH = Suc (Suc k)" "MAX_PARSE_DEPTH - 2 = k"
    by (simp add: MAX_PARSE_DEPTH_def)
  have fin: "gives C N (node_typed C) (Inr (node_of_fields i f p, us))"
    if "fields_typed C (Suc k) f" "fd_pred f = Some p" "sym_ok i" "toks_ok N us" for i f p us
    using that by (simp add: node_typed_def node_of_fields_def fields_typed_def k)
  have body: "gives C N (node_typed C)
      (bindr (fields_loop C (Suc k) n default_fields us) (\<lambda>(f, ts).
       bindr (expect RParen ts) (\<lambda>ts.
       bindr (ok_or (perror MissingPredField ts) (fd_pred f)) (\<lambda>p. Inr (node_of_fields i f p, ts)))))"
    if "toks_ok N us" "sym_ok i" for i us n
    using that
    by (intro gives_bindr [OF gives_fields_loop] gives_expect gives_ok_or fin default_fields_typed) simp_all
  then show ?thesis
    unfolding parse_node_def with_depth_def k(1)
    using assms
    by (auto simp del: fields_loop.simps gives_simps(2) split: token_kind.split
        intro!: gives_expect gives_expect_symbol body intro: toks_ok_kind(1))
qed

lemma gives_parse_loop:
  "toks_ok N ts \<Longrightarrow> list_all (node_typed C) ns \<Longrightarrow> gives C N (list_all (node_typed C)) (parse_loop C n ns ts)"
proof (induction n arbitrary: ns ts)
  case (Suc n)
  have skip: "toks_ok N us \<Longrightarrow> toks_ok N (skip_loop close d us)" for close d us
    by (induction close d us rule: skip_loop.induct) (auto simp: toks_ok_def)
  then have "toks_ok N (skip_sexp ts)" using Suc.prems by (simp add: skip_sexp_def)
  moreover have "gives C N (list_all (node_typed C))
      (bindr (parse_node C MAX_PARSE_DEPTH ts) (\<lambda>(d, ts). parse_loop C n (ns @ [d]) ts))"
    using Suc.prems by (intro gives_bindr [OF gives_node] Suc.IH) simp_all
  ultimately show ?case using Suc by simp
qed simp

section \<open>Whole inputs\<close>

lemma tokens_of_ok:
  "case tokens_of src of
     Inl e \<Rightarrow> pe_offset e \<le> length src \<and> pe_message e \<noteq> Panicked
   | Inr ts \<Rightarrow> toks_ok (length src, tk_kind ` set ts) ts"
proof (cases "tokenize src")
  case (Inl e)
  then show ?thesis using tokenize_offsets [of src] by (simp add: tokens_of_def lex_failed_def)
next
  case (Inr ts)
  have "list_all (\<lambda>t. kind_ok (tk_kind t)) ts" using Inr tokenize_loop_gives by (simp add: tokenize_def)
  then show ?thesis
    using Inr tokenize_offsets [of src] by (auto simp: tokens_of_def toks_ok_def offsets_in_def list_all_iff)
qed

definition durations_of :: "string \<Rightarrow> string list" where
  \<comment> \<open>the texts of the duration tokens of a text\<close>
  "durations_of src =
     (case tokenize src of
        Inl _ \<Rightarrow> []
      | Inr ts \<Rightarrow> List.map_filter (\<lambda>t. case tk_kind t of DurationTok s \<Rightarrow> Some s | _ \<Rightarrow> None) ts)"

lemma durations_of_kinds:
  assumes "tokens_of src = Inr ts" "DurationTok s \<in> tk_kind ` set ts"
  shows "s \<in> set (durations_of src)"
proof -
  obtain t where t: "t \<in> set ts" "tk_kind t = DurationTok s" using assms(2) by (auto simp: image_iff)
  have "tokenize src = Inr ts" using assms(1) by (auto simp: tokens_of_def split: sum.splits if_splits)
  then show ?thesis using t by (auto simp: durations_of_def in_map_filter intro!: bexI [of _ t])
qed

lemma parse_build_gives:
  "case parse_build C src of
     Inl e \<Rightarrow> pe_offset e \<le> length src
       \<and> (pe_message e = Panicked \<longrightarrow> (\<exists>s \<in> set (durations_of src). parse_duration (overflow_checks C) s = Inl Panicked))
   | Inr ns \<Rightarrow> list_all (node_typed C) ns"
proof (cases "tokens_of src")
  case (Inl e)
  then show ?thesis using tokens_of_ok [of src] by (simp add: parse_build_def)
next
  case (Inr ts)
  then have "gives C (length src, tk_kind ` set ts) (list_all (node_typed C)) (parse_loop C (Suc (length ts)) [] ts)"
    using tokens_of_ok [of src] by (intro gives_parse_loop) simp_all
  then show ?thesis
    using Inr durations_of_kinds [OF Inr] by (cases "parse_loop C (Suc (length ts)) [] ts")
      (auto simp: parse_build_def gives_def may_panic_def simp del: parse_loop.simps)
qed

lemma parse_typed:
  assumes "parse_build C src = Inr ns"
  shows "list_all (node_typed C) ns" "list_all parsed_ok ns"
  using parse_build_gives [of src C] parse_build_cases [of C src] assms by auto

text \<open>The release build does not panic.\<close>

lemma parse_no_panic: "parse C src = Inl e \<Longrightarrow> pe_message e \<noteq> Panicked"
  using parse_build_gives [of src "release C"] by (auto simp: parse_def)

lemma parsed_printable:
  assumes "parse_build C src = Inr ns" "n \<in> set ns"
  shows "node_ok C n \<longleftrightarrow> node_plain C n"
proof
  assume "node_plain C n"
  moreover have "node_typed C n" "parsed_ok n" using parse_typed [OF assms(1)] assms(2) by (auto simp: list_all_iff)
  ultimately show "node_ok C n"
    by (auto simp: node_plain_def node_typed_def parsed_ok_def node_ok_def pred_gives_def unit_ok_def
        prov_typed_plain split: option.splits)
qed (rule node_ok_plain)

end
