(* ===== verification/Fuzz.thy ===== *)
theory Fuzz
  imports Parsed Core_Properties
begin

text \<open>
  The fuzz targets, \<open>fuzz/fuzz_targets\<close>. A run of a target returns or panics; a panic is \<open>None\<close>: a failed
  assertion, or an overflow in a build that checks for it, which the documented \<open>cargo fuzz run\<close> is
  (\<open>overflow_checks C\<close>). Bytes that are not UTF-8 are skipped. The inputs of libFuzzer are shorter than \<open>2^31\<close>
  bytes, so the lexer's counters of lines and columns (\<open>u32\<close>) do not overflow.
\<close>

section \<open>The targets\<close>

definition panics :: "parse_error + 'a \<Rightarrow> bool" where
  "panics r = (case r of Inl e \<Rightarrow> pe_message e = Panicked | Inr _ \<Rightarrow> False)"

definition fuzz_lexer :: "string \<Rightarrow> unit option" where
  \<comment> \<open>the loop over the offsets has an empty body and asserts nothing\<close>
  "fuzz_lexer data =
     (if utf8_valid data then
        case tokenize data of
          Inl e \<Rightarrow> Some ()
        | Inr tokens \<Rightarrow>
            if tokens \<noteq> [] \<and> tk_kind (last tokens) = Eof then Some () else None
      else Some ())"

definition fuzz_parser :: "chrono \<Rightarrow> string \<Rightarrow> unit option" where
  "fuzz_parser C data =
     (if utf8_valid data then
        let result = parse_build C data in
        if panics result then None
        else case result of
          Inl e \<Rightarrow> Some ()
        | Inr nodes \<Rightarrow> if list_all (\<lambda>n. nd_id n \<noteq> []) nodes then Some () else None
      else Some ())"

definition reparse_node :: "chrono \<Rightarrow> node \<Rightarrow> unit option" where
  \<comment> \<open>the body of the loop over the nodes; a panic of the parser and the target's own are the same value\<close>
  "reparse_node C n =
     (case parse_build C (canonical C n) of
        Inr reparsed \<Rightarrow>
          if length reparsed = 1 then
            if nd_id n = nd_id (hd reparsed) \<and> nd_pred n = nd_pred (hd reparsed)
              \<and> nd_validity n = nd_validity (hd reparsed)
            then Some () else None
          else Some ()
      | Inl e \<Rightarrow> None)"

fun reparse_nodes :: "chrono \<Rightarrow> node list \<Rightarrow> unit option" where
  "reparse_nodes C [] = Some ()"
| "reparse_nodes C (n # ns) = (case reparse_node C n of None \<Rightarrow> None | Some _ \<Rightarrow> reparse_nodes C ns)"

definition fuzz_serialize_roundtrip :: "chrono \<Rightarrow> string \<Rightarrow> unit option" where
  "fuzz_serialize_roundtrip C data =
     (if utf8_valid data then
        let result = parse_build C data in
        if panics result then None
        else case result of
          Inl e \<Rightarrow> Some ()
        | Inr nodes \<Rightarrow> reparse_nodes C nodes
      else Some ())"

section \<open>What they find\<close>

definition duration_overflows :: "string \<Rightarrow> bool" where
  "duration_overflows s \<longleftrightarrow> parse_duration True s = Inl Panicked"

lemma parsed_is_active: "parse_build C src = Inr ns \<Longrightarrow> n \<in> set ns \<Longrightarrow> as_parsed n = n"
  using parse_typed(2) [of C src ns] by (auto simp: list_all_iff parsed_ok_def as_parsed_def)

lemma panics_overflow:
  assumes "panics (parse_build C data)"
  shows "overflow_checks C \<and> list_ex duration_overflows (durations_of data)"
proof -
  obtain s where "s \<in> set (durations_of data)" "parse_duration (overflow_checks C) s = Inl Panicked"
    using assms parse_build_gives [of data C] by (auto simp: panics_def split: sum.splits)
  then show ?thesis by (cases "overflow_checks C") (auto simp: list_ex_iff duration_overflows_def)
qed

definition overflow_text :: string where
  "overflow_text = ''(node n :pred (p #dur(213503982334602d)))''"

lemma overflow_panics: "overflow_checks C \<Longrightarrow> fuzz_parser C overflow_text = None"
proof -
  assume "overflow_checks C"
  then obtain pd fd pt ft hr where C: "C = \<lparr>parse_date = pd, fmt_date = fd, parse_datetime = pt,
      fmt_rfc3339 = ft, overflow_checks = True, hash_rank = hr\<rparr>"
    by (cases C) simp
  show ?thesis unfolding C by code_simp
qed

text \<open>C9. On inputs below \<open>2^31\<close> bytes: the lexer target passes. The parser target passes in a release build;
  in a build with overflow checks it passes whenever no duration of the text overflows, and there is a
  text whose duration makes it panic. Besides what the targets assert, the offsets of the tokens
  strictly increase within the text, an error of the lexer or the parser carries a place in it, and what
  is parsed is well typed.\<close>

theorem fuzz_targets_pass:
  assumes "length data < 2 ^ 31"
  shows "fuzz_lexer data = Some ()
   \<and> (fuzz_parser C data = Some () \<or> overflow_checks C \<and> list_ex duration_overflows (durations_of data))
   \<and> (if overflow_checks C then fuzz_parser C overflow_text = None else fuzz_parser C overflow_text = Some ())
   \<and> (case tokenize data of Inl e \<Rightarrow> le_offset e \<le> length data | Inr ts \<Rightarrow> offsets_in data 0 ts)
   \<and> (case parse_build C data of Inl e \<Rightarrow> pe_offset e \<le> length data | Inr ns \<Rightarrow> list_all (node_typed C) ns)"
proof (intro conjI)
  show "fuzz_lexer data = Some ()"
  proof (cases "tokenize data")
    case (Inr ts)
    then have "ts \<noteq> [] \<and> tk_kind (last ts) = Eof"
      using tokenize_loop_shape [OF Inr [unfolded tokenize_def]] by auto
    then show ?thesis by (simp add: fuzz_lexer_def Inr)
  qed (simp add: fuzz_lexer_def)
  have parser: "fuzz_parser C d = Some ()" if "\<not> panics (parse_build C d)" for d
    using that parse_build_gives [of d C]
    by (auto simp: fuzz_parser_def list_all_iff node_typed_def sym_ok_def Let_def split: sum.split)
  show "fuzz_parser C data = Some () \<or> overflow_checks C \<and> list_ex duration_overflows (durations_of data)"
    using parser [of data] panics_overflow [of C data] by blast
  show "if overflow_checks C then fuzz_parser C overflow_text = None else fuzz_parser C overflow_text = Some ()"
    using overflow_panics [of C] parser [of overflow_text] panics_overflow [of C overflow_text] by auto
  show "case parse_build C data of Inl e \<Rightarrow> pe_offset e \<le> length data | Inr ns \<Rightarrow> list_all (node_typed C) ns"
    using parse_build_gives [of data C] by (auto split: sum.splits)
qed (rule tokenize_offsets)

theorem fuzz_targets_pass_witness:
  "fuzz_lexer overflow_text = Some ()
   \<and> fuzz_parser (release sample_chrono) overflow_text = Some () \<and> fuzz_parser sample_chrono overflow_text = None"
  using fuzz_targets_pass [of overflow_text "release sample_chrono"] fuzz_targets_pass [of overflow_text sample_chrono]
  by (simp add: overflow_text_def sample_chrono_def)

text \<open>C8. What was parsed from any text prints to a text that parses to exactly the same nodes, in the
  same order, and the round-trip target passes on it, when the nodes are plain and the printed text is
  shorter than a million bytes.\<close>

theorem parse_print_parse:
  assumes "parse_build C src = Inr ns" "list_all (node_plain C) ns" "int (length (canonical_all C ns)) < MAX_TOKENS"
  shows "parse_build C (canonical_all C ns) = Inr ns \<and> fuzz_serialize_roundtrip C src = Some ()"
proof
  have ok: "list_all (node_ok C) ns" using assms(2) parsed_printable [OF assms(1)] by (auto simp: list_all_iff)
  then have "parse_build C (canonical_all C ns) = Inr (map as_parsed ns)"
    using assms(3) by (intro parse_build_canonical_all) (simp_all add: MAX_TOKENS_def)
  then show "parse_build C (canonical_all C ns) = Inr ns" using parsed_is_active [OF assms(1)] by (simp add: map_idI)
  have "reparse_node C n = Some ()" if n: "n \<in> set ns" for n
  proof -
    have "length (canonical C n) \<le> length (canonical_all C ns)"
      using n by (induction ns) (auto simp: canonical_def canonical_all_def)
    then show ?thesis
      using ok assms(3) n parse_build_canonical [of C n] parsed_is_active [OF assms(1) n]
      by (simp add: reparse_node_def list_all_iff MAX_TOKENS_def)
  qed
  then have "reparse_nodes C ns = Some ()" by (induction ns) simp_all
  then show "fuzz_serialize_roundtrip C src = Some ()" by (simp add: fuzz_serialize_roundtrip_def assms(1) panics_def)
qed

definition fuzz_text :: string where
  "fuzz_text = ''; two nodes'' @ [CHR 0x0A] @ ''(node a :pred (p @x ?y [1.50 #t]))(skipped (form))
    (node b :src (derived a r) :deps [a] :pred (q a :k (in #dur(2h))) :valid forever :conf 0.7)''"

definition fuzz_nodes :: "node list" where
  "fuzz_nodes = (case parse_build sample_chrono fuzz_text of Inl _ \<Rightarrow> [] | Inr ns \<Rightarrow> ns)"

lemma fuzz_nodes_parsed: "parse_build sample_chrono fuzz_text = Inr fuzz_nodes" "length fuzz_nodes = 2"
proof -
  have "case parse_build sample_chrono fuzz_text of Inl _ \<Rightarrow> False | Inr ns \<Rightarrow> length ns = 2" by code_simp
  then show "parse_build sample_chrono fuzz_text = Inr fuzz_nodes" "length fuzz_nodes = 2"
    by (auto simp: fuzz_nodes_def split: sum.splits)
qed

theorem parse_print_parse_witness:
  "parse_build sample_chrono (canonical_all sample_chrono fuzz_nodes) = Inr fuzz_nodes \<and> length fuzz_nodes = 2
   \<and> fuzz_serialize_roundtrip sample_chrono fuzz_text = Some ()"
proof -
  have "list_all (node_plain sample_chrono) fuzz_nodes" by code_simp
  moreover have "int (length (canonical_all sample_chrono fuzz_nodes)) < MAX_TOKENS" by code_simp
  ultimately show ?thesis using parse_print_parse [OF fuzz_nodes_parsed(1)] fuzz_nodes_parsed(2) by blast
qed

text \<open>The three faults of the printer that the round-trip target finds: a principal with a quote, an
  argument written as a symbol that is no entity name, and a duration beyond the nanoseconds that are read.
  Each input parses, and the target panics on it.\<close>

lemma fuzz_roundtrip_panics:
  "fuzz_serialize_roundtrip sample_chrono
     (''(node n :pred (p) :src (asserted '' @ quoted [CHR ''a'', CHR 0x22, CHR ''b''] @ ''))'') = None
   \<and> fuzz_serialize_roundtrip sample_chrono ''(node n :pred (p a+b))'' = None
   \<and> fuzz_serialize_roundtrip sample_chrono ''(node n :pred (p #dur(213504d)))'' = None"
  by (intro conjI; code_simp)

end
