(* ===== verification/Bench.thy ===== *)
theory Bench
  imports Lexed Core_Properties Query_Properties Codec
begin

text \<open>
  The benchmark of \<open>factum-bench/src/round_trip.rs\<close>: the nodes it generates and what becomes of them. Its
  rate of success, a double, is left out. \<open>unwrap\<close> panics, which is \<open>None\<close>.
\<close>

section \<open>The syntactic round trip\<close>

record round_trip_result =
  rt_total :: nat
  rt_passed :: nat
  rt_failures :: "(node_id \<times> roundtrip_error) list"

definition pad_zeros :: "nat \<Rightarrow> nat \<Rightarrow> string" where
  \<comment> \<open>\<open>{:0w}\<close> of a number\<close>
  "pad_zeros w i = replicate (w - length (nat_dec i)) CHR ''0'' @ nat_dec i"

definition rt_entities :: "string list" where
  "rt_entities = [''ACME-CORP'', ''APPLE'', ''GOOGLE'', ''MICROSOFT'', ''TESLA'', ''AMAZON'']"

definition rt_locations :: "string list" where
  "rt_locations = [''ACME-HQ'', ''CUPERTINO'', ''MOUNTAIN-VIEW'', ''REDMOND'', ''AUSTIN'', ''SEATTLE'']"

definition april_first :: "nat \<Rightarrow> date" where
  \<comment> \<open>\<open>from_ymd_opt(1976 + k, 4, 1)\<close> for \<open>k < 30\<close>, in days since 1970\<close>
  "april_first k = 2282 + 365 * int k + int k div 4"

definition rt_revenue :: "nat \<Rightarrow> string" where
  \<comment> \<open>\<open>format!("{}.00", (i + 1) * 1000000)\<close>, the product in \<open>usize\<close>; past \<open>2^64\<close>, from \<open>i\<close> of
    eighteen million million on, it wraps as in a release build\<close>
  "rt_revenue i = int_dec (uint ((word_of_nat i + 1) * 1000000 :: u64)) @ ''.00''"

definition rt_predicate :: "nat \<Rightarrow> predicate option" where
  "rt_predicate i =
     (let ent = rt_entities ! (i mod 6); pred = (\<lambda>h args. with_args args (predicate_new (HeadName h))) in
      if i mod 5 = 0 then Some (pred ''instance-of'' [TEnt ent, TEnt ''organization''])
      else if i mod 5 = 1 then Some (pred ''located-in'' [TEnt ent, TEnt (rt_locations ! (i mod 6))])
      else if i mod 5 = 2 then Some (pred ''founded-on'' [TEnt ent, TLit (LDate (april_first (i mod 30)))])
      else if i mod 5 = 3 then Some (pred ''ceo-of'' [TEnt ''PERSON-X'', TEnt ent])
      else case dec_from_str (rt_revenue i) of
        Inl _ \<Rightarrow> None
      | Inr l \<Rightarrow> Some (pred ''revenue'' [TEnt ent, TLit l]))"

definition rt_confidence :: "nat \<Rightarrow> f32" where
  "rt_confidence i = f32_add (f32_lit 5 1) (f32_mul (f32_of_nat (i mod 5)) (f32_lit 1 1))"

definition rt_authority :: "nat \<Rightarrow> f32" where
  "rt_authority i = f32_add (f32_lit 6 1) (f32_mul (f32_of_nat (i mod 4)) (f32_lit 1 1))"

definition rt_node :: "nat \<Rightarrow> node option" where
  "rt_node i =
     map_option (\<lambda>p. with_authority (rt_authority i) (with_confidence (rt_confidence i)
       (node_new (''n'' @ pad_zeros 4 i) p))) (rt_predicate i)"

fun rt_nodes :: "nat list \<Rightarrow> node list option" where
  "rt_nodes [] = Some []"
| "rt_nodes (i # is) =
     (case rt_node i of None \<Rightarrow> None | Some n \<Rightarrow> map_option (Cons n) (rt_nodes is))"

definition generate_test_nodes :: "nat \<Rightarrow> node list option" where
  "generate_test_nodes cnt = rt_nodes [0..<cnt]"

definition round_trip_step :: "chrono \<Rightarrow> node \<Rightarrow> nat \<times> (node_id \<times> roundtrip_error) list
    \<Rightarrow> nat \<times> (node_id \<times> roundtrip_error) list" where
  "round_trip_step C n st =
     (case verify_roundtrip C n of
        Inr _ \<Rightarrow> (fst st + 1, snd st)
      | Inl e \<Rightarrow> (fst st, snd st @ [(nd_id n, e)]))"

definition bench_roundtrip :: "chrono \<Rightarrow> nat \<Rightarrow> round_trip_result option" where
  "bench_roundtrip C cnt =
     map_option (\<lambda>ns. let st = fold (round_trip_step C) ns (0, []) in
       \<lparr>rt_total = cnt, rt_passed = fst st, rt_failures = snd st\<rparr>) (generate_test_nodes cnt)"

text \<open>The generated nodes are printable, however many there are.\<close>

definition dates_read :: "chrono \<Rightarrow> bool" where
  \<comment> \<open>the date library reads the dates of the benchmark as it prints them\<close>
  "dates_read C \<longleftrightarrow> list_all (\<lambda>k. let s = fmt_date C (april_first k) in
     paren_ok s \<and> parse_date C s = Some (april_first k) \<and> length s \<le> 100) [0..<30]"

lemma revenue_read:
  obtains m where "dec_from_str (rt_revenue i) = Inr (LDec m 2)" "sint m \<noteq> - (2 ^ 127)"
    "0 \<le> sint m" "sint m < 2 ^ 64 * 100"
proof -
  define w where "w = uint ((word_of_nat i + 1) * 1000000 :: u64)"
  have w: "0 \<le> w" "w < 2 ^ 64" unfolding w_def using uint_lt2p [of "(word_of_nat i + 1) * 1000000 :: u64"] by simp_all
  have v: "dec_val (int_dec w @ ''00'') = w * 100"
    using w(1) by (simp only: dec_val_append dec_val_int_dec) (simp add: dec_val_def digit_val_def)
  have "rt_revenue i = int_dec w @ ''.00''" by (simp only: rt_revenue_def w_def)
  then have "dec_from_str (rt_revenue i) = Inr (LDec (word_of_int (w * 100)) 2)"
    using dec_from_str_digits [of "int_dec w" "''00''" "int_dec w @ CHR ''.'' # ''00''" False] v w(2)
    by (simp add: is_digit_def)
  moreover have "sint (word_of_int (w * 100) :: i128) = w * 100"
    using w by (simp add: signed_of_int signed_take_bit_int_eq_self del: of_int_mult)
  ultimately show ?thesis using that w by simp
qed


lemma mod_cases:
  "i mod 4 \<in> set [0, 1, 2, 3]" "i mod 5 \<in> set [0, 1, 2, 3, 4]" "i mod 6 \<in> set [0, 1, 2, 3, 4, 5]"
  for i :: nat
  by simp_all (presburger+)

lemma mod_list: "i mod 4 \<in> set [0..<4]" "i mod 5 \<in> set [0..<5]" "i mod 6 \<in> set [0..<6]" "i mod 30 \<in> set [0..<30]"
  for i :: nat
  by (simp_all del: upt_Suc)

lemma rt_weights:
  "unit_ok (rt_confidence i) \<and> length (format_f32_with_decimal (rt_confidence i)) \<le> 20"
  "unit_ok (rt_authority i) \<and> length (format_f32_with_decimal (rt_authority i)) \<le> 20"
proof -
  have c: "list_all (\<lambda>k. let c = f32_add (f32_lit 5 1) (f32_mul (f32_of_nat k) (f32_lit 1 1)) in
      unit_ok c \<and> length (format_f32_with_decimal c) \<le> 20) [0..<5]" by code_simp
  have a: "list_all (\<lambda>k. let c = f32_add (f32_lit 6 1) (f32_mul (f32_of_nat k) (f32_lit 1 1)) in
      unit_ok c \<and> length (format_f32_with_decimal c) \<le> 20) [0..<4]" by code_simp
  show "unit_ok (rt_confidence i) \<and> length (format_f32_with_decimal (rt_confidence i)) \<le> 20"
    unfolding rt_confidence_def using bspec [OF c [unfolded list_all_iff] mod_list(2)] by (simp only: Let_def)
  show "unit_ok (rt_authority i) \<and> length (format_f32_with_decimal (rt_authority i)) \<le> 20"
    unfolding rt_authority_def using bspec [OF a [unfolded list_all_iff] mod_list(1)] by (simp only: Let_def)
qed

lemma rt_names:
  "name_ok entity_byte (rt_entities ! (i mod 6)) \<and> length (rt_entities ! (i mod 6)) \<le> 20"
  "name_ok entity_byte (rt_locations ! (i mod 6)) \<and> length (rt_locations ! (i mod 6)) \<le> 20"
proof -
  have e: "list_all (\<lambda>k. name_ok entity_byte (rt_entities ! k) \<and> length (rt_entities ! k) \<le> 20) [0..<6]"
    and l: "list_all (\<lambda>k. name_ok entity_byte (rt_locations ! k) \<and> length (rt_locations ! k) \<le> 20) [0..<6]"
    by code_simp+
  show "name_ok entity_byte (rt_entities ! (i mod 6)) \<and> length (rt_entities ! (i mod 6)) \<le> 20"
    using bspec [OF e [unfolded list_all_iff] mod_list(3)] .
  show "name_ok entity_byte (rt_locations ! (i mod 6)) \<and> length (rt_locations ! (i mod 6)) \<le> 20"
    using bspec [OF l [unfolded list_all_iff] mod_list(3)] .
qed

lemma rt_words [simp]:
  "sym_ok ''instance-of''" "sym_ok ''located-in''" "sym_ok ''founded-on''" "sym_ok ''ceo-of''" "sym_ok ''revenue''"
  "name_ok entity_byte ''organization''" "name_ok entity_byte ''PERSON-X''" "raw_ok ''system''"
  by code_simp+

lemma term_ok_leaves [simp]:
  "term_ok C k (TEnt s) \<longleftrightarrow> name_ok entity_byte s" "term_ok C k (TLit l) \<longleftrightarrow> lit_ok C l"
  by (cases k; simp add: term_ok_with_def)+

lemma rt_predicate_ok:
  assumes "dates_read C"
  obtains p where "rt_predicate i = Some p" "pred_ok (term_ok C k) p"
    "length (canonical_predicate_inner C p) \<le> 1000"
proof -
  have d: "paren_ok (fmt_date C (april_first (i mod 30)))"
    "parse_date C (fmt_date C (april_first (i mod 30))) = Some (april_first (i mod 30))"
    "length (fmt_date C (april_first (i mod 30))) \<le> 100"
    using bspec [OF assms [unfolded dates_read_def list_all_iff] mod_list(4)] by (simp_all add: Let_def)
  obtain m where m: "dec_from_str (rt_revenue i) = Inr (LDec m 2)" "sint m \<noteq> - (2 ^ 127)"
    "0 \<le> sint m" "sint m < 2 ^ 64 * 100" by (rule revenue_read)
  have "length (int_dec (sint m)) \<le> 22" using m(3,4) int_dec_length [of "sint m" 22] by simp
  then have len: "length (dec_canonical m 2) \<le> 30"
    using m(3) by (auto simp: dec_canonical_def dec_render_def Let_def)
  consider "i mod 5 = 0" | "i mod 5 = 1" | "i mod 5 = 2" | "i mod 5 = 3" | "i mod 5 = 4"
    using mod_cases(2) [of i] by auto
  then show ?thesis
    by cases
      (use rt_names [of i] d m len in \<open>auto intro!: that simp: rt_predicate_def Let_def with_args_def
        predicate_new_def pred_ok_def lit_ok_def head_text_def canonical_literal_def\<close>)
qed

lemma pad_zeros_digits: "list_all is_digit (pad_zeros w i)"
proof -
  have "is_digit CHR ''0''" by (simp add: is_digit_def)
  then show ?thesis using int_dec_digits [of "int i"]
    by (simp add: pad_zeros_def list_all_iff ball_Un del: int_dec_digits)
qed

lemma utf8_valid_digits: "list_all is_digit s \<Longrightarrow> utf8_valid s"
proof (induction s)
  case (Cons a s)
  then show ?case
    using utf8_valid_append [of "[a]" s] utf8_valid_ascii [of a] digit_not_high [of a] by simp
qed simp

lemma sym_ok_digits:
  assumes "list_all is_digit s"
  shows "sym_ok (''n'' @ s)"
proof -
  have "symbol_byte c" if "is_digit c" for c using that by (auto simp: symbol_byte_def is_digit_def)
  then have "list_all (\<lambda>c. symbol_byte c \<or> is_high c) s" using assms by (simp add: list_all_iff)
  moreover have v: "utf8_valid ''n''" by code_simp
  moreover have "symbol_byte CHR ''n''" "\<not> number_start (''n'' @ s)"
    by (simp_all add: symbol_byte_def number_start_def is_digit_def)
  moreover have "utf8_valid (''n'' @ s)"
    by (rule utf8_valid_append [OF v utf8_valid_digits [OF assms]])
  ultimately show ?thesis by (simp add: sym_ok_def run_ok_def)
qed

lemma rt_node_ok:
  assumes "dates_read C" "i < 2 ^ 64"
  obtains n where "rt_node i = Some n" "node_ok C n" "length (canonical C n) < 1000000"
proof -
  obtain p where p: "rt_predicate i = Some p" "pred_ok (term_ok C (MAX_PARSE_DEPTH - 2)) p"
    "length (canonical_predicate_inner C p) \<le> 1000"
    using rt_predicate_ok [OF assms(1)] .
  define n where "n = with_authority (rt_authority i) (with_confidence (rt_confidence i)
       (node_new (''n'' @ pad_zeros 4 i) p))"
  have id: "sym_ok (''n'' @ pad_zeros 4 i)" by (rule sym_ok_digits [OF pad_zeros_digits])
  have "length (nat_dec i) \<le> 20" using assms(2) int_dec_length [of "int i" 20] by simp
  then have idl: "length (''n'' @ pad_zeros 4 i) \<le> 25" by (simp add: pad_zeros_def)
  have "node_ok C n"
    using id p(2) rt_weights [of i]
    by (simp add: n_def node_ok_def with_authority_def with_confidence_def node_new_def Tokens.validity_ok_def
        prov_ok_def default_provenance_def perm_single_def)
  moreover have "length (canonical C n) < 1000000"
    using idl p(3) rt_weights [of i]
    by (simp add: n_def canonical_def canonical_node_def with_authority_def with_confidence_def node_new_def
        canonical_validity_def canonical_provenance_def default_provenance_def raw_quoted_def quoted_with_def
        perm_text_def PUBLIC_def)
  ultimately show ?thesis using that [of n] p(1) by (simp add: rt_node_def n_def)
qed

lemma rt_nodes_ok:
  assumes "dates_read C" "\<forall>i \<in> set is. i < 2 ^ 64"
  obtains ns where "rt_nodes is = Some ns" "length ns = length is"
    "\<forall>n \<in> set ns. verify_roundtrip C n = Inr ()"
  using assms(2)
proof (induction "is" arbitrary: thesis)
  case (Cons i "is")
  obtain n where n: "rt_node i = Some n" "node_ok C n" "length (canonical C n) < 1000000"
    using rt_node_ok [OF assms(1), of i] Cons.prems(2) by auto
  have "verify_roundtrip C n = Inr ()"
    using parse_canonical_aux [OF n(2,3)] node_eq_as_parsed [OF n(2)] by (simp add: verify_roundtrip_def)
  moreover obtain ns where "rt_nodes is = Some ns" "length ns = length is"
    "\<forall>n \<in> set ns. verify_roundtrip C n = Inr ()" using Cons by auto
  ultimately show ?case using Cons.prems(1) [of "n # ns"] n(1) by simp
qed simp

lemma round_trip_fold:
  "\<forall>n \<in> set ns. verify_roundtrip C n = Inr () \<Longrightarrow> fold (round_trip_step C) ns (k, fs) = (k + length ns, fs)"
  by (induction ns arbitrary: k) (simp_all add: round_trip_step_def)

text \<open>C37. The round-trip benchmark passes completely for every number of nodes: no generated node
  panics, and each is printed and parsed back.\<close>

theorem bench_roundtrip_passes:
  assumes "dates_read C" "cnt < 2 ^ 64"
  shows "bench_roundtrip C cnt = Some \<lparr>rt_total = cnt, rt_passed = cnt, rt_failures = []\<rparr>"
proof -
  obtain ns where "rt_nodes [0..<cnt] = Some ns" "length ns = length [0..<cnt]"
    "\<forall>n \<in> set ns. verify_roundtrip C n = Inr ()"
    using rt_nodes_ok [OF assms(1), of "[0..<cnt]"] assms(2) by auto
  then show ?thesis by (simp add: bench_roundtrip_def generate_test_nodes_def round_trip_fold)
qed

theorem bench_roundtrip_passes_witness:
  "bench_roundtrip sample_chrono 1000 = Some \<lparr>rt_total = 1000, rt_passed = 1000, rt_failures = []\<rparr>"
  by (rule bench_roundtrip_passes) (code_simp, simp)

end
