(* ===== verification/Bench_Store.thy ===== *)
theory Bench_Store
  imports Bench
begin

text \<open>
  The benchmark of \<open>factum-bench/src/query_perf.rs\<close>: the store it fills and the query it asks a thousand
  times.
\<close>

section \<open>The store of the query benchmark\<close>

definition perf_entity :: "nat \<Rightarrow> string" where
  "perf_entity i = (if i mod 100 = 0 then ''ACME-CORP'' else ''E'' @ nat_dec i)"

definition perf_node :: "nat \<Rightarrow> node" where
  "perf_node i =
     with_permissions PUBLIC (node_new (''n'' @ pad_zeros 6 i)
       (with_args [TEnt (perf_entity i), TEnt ''organization''] (predicate_new (HeadName ''instance-of''))))"

definition perf_store :: "nat \<Rightarrow> store" where
  \<comment> \<open>the result of each insertion is dropped\<close>
  "perf_store k = fold (\<lambda>i s. snd (insert_node (perf_node i) s)) [0..<k] (store_new with_seeds)"

definition perf_query :: query where
  "perf_query = query_new (with_args [TEnt ''ACME-CORP'', TVar ''type''] (predicate_new (HeadName ''instance-of'')))"

definition perf_answer :: "chrono \<Rightarrow> datetime \<Rightarrow> nat \<Rightarrow> (query_error + result_set) option" where
  "perf_answer C now k = query_run C perf_query (default_options now) (perf_store k)"

definition bench_query :: "chrono \<Rightarrow> (nat \<Rightarrow> datetime) \<Rightarrow> nat \<Rightarrow> (nat \<times> nat) option" where
  \<comment> \<open>the numbers of nodes and of queries; \<open>clock j\<close> is the time of query \<open>j\<close>, which \<open>QueryOptions::default\<close>
    reads, and a query that panics ends the benchmark\<close>
  "bench_query C clock k =
     (if list_all (\<lambda>j. perf_answer C (clock j) k \<noteq> None) [0..<1000] then Some (k, 1000) else None)"

lemma pad_zeros_value: "dec_val (pad_zeros w i) = int i"
  by (simp add: pad_zeros_def dec_val_append)

lemma perf_id_inj: "nd_id (perf_node i) = nd_id (perf_node j) \<Longrightarrow> i = j"
proof -
  assume "nd_id (perf_node i) = nd_id (perf_node j)"
  then have "pad_zeros 6 i = pad_zeros 6 j" by (simp add: perf_node_def node_new_def with_permissions_def)
  then have "dec_val (pad_zeros 6 i) = dec_val (pad_zeros 6 j)" by simp
  then show "i = j" by (simp add: pad_zeros_value)
qed

lemma perf_store_Suc: "perf_store (Suc k) = snd (insert_node (perf_node k) (perf_store k))"
  by (simp add: perf_store_def)

lemma stored_new: "stored (store_new r) i = None"
  by (simp add: store_new_def with_backend_def rebuild_indices_def iter_nodes_def mem_new_def)

lemma perf_store_facts:
  "store_ok (perf_store k)" "st_verifiers (perf_store k) = None"
  "stored (perf_store k) x = Some n \<longleftrightarrow> (\<exists>i < k. n = perf_node i \<and> x = nd_id n)"
proof (induction k arbitrary: x n)
  case 0
  { case 1 show ?case by (simp add: perf_store_def store_ok_new) }
  { case 2 show ?case by (simp add: perf_store_def store_new_def with_backend_def rebuild_indices_def iter_nodes_def) }
  { case 3 show ?case by (simp add: perf_store_def stored_new) }
next
  case (Suc k)
  have new: "stored (perf_store k) (nd_id (perf_node k)) = None"
  proof (rule ccontr)
    assume "\<not> ?thesis"
    then obtain m where "stored (perf_store k) (nd_id (perf_node k)) = Some m" by auto
    then obtain i where "i < k" "nd_id (perf_node k) = nd_id (perf_node i)" using Suc(3) by auto
    then show False using perf_id_inj by blast
  qed
  then have ins: "perf_store (Suc k) = inserted (perf_node k) (perf_store k)"
    using Suc(1,2) by (simp add: perf_store_Suc insert_node_ok verify_opt_def)
  { case 1 show ?case unfolding ins using Suc(1) new by (rule store_ok_inserted) }
  { case 2 show ?case using Suc(2) by (simp add: ins) }
  { case 3 show ?case
      unfolding ins store_ok_inserted(2) [OF Suc(1) new]
      using Suc(3) new perf_id_inj by (auto simp: less_Suc_eq) }
qed

lemma perf_store_len: "store_len (perf_store k) = k"
proof -
  let ?ns = "mb_nodes (st_mem (perf_store k))"
  have "length ?ns = card (dom (map_of ?ns))"
    using perf_store_facts(1) [of k] unfolding store_ok_def mem_ok_def
    by (metis distinct_card dom_map_of_conv_image_fst length_map set_map)
  also have "dom (map_of ?ns) = (\<lambda>i. nd_id (perf_node i)) ` {..<k}"
    using perf_store_facts(3) [of k] by (auto simp: dom_def)
  also have "card \<dots> = k" using perf_id_inj by (simp add: card_image inj_on_def)
  finally show ?thesis by (simp add: store_len_def mem_len_def)
qed

section \<open>Its query\<close>

lemma perf_node_simps [simp]:
  "nd_pred (perf_node i) = Predicate (HeadName ''instance-of'') [TEnt (perf_entity i), TEnt ''organization''] []"
  "nd_prov (perf_node i) = Asserted ''system''" "nd_status (perf_node i) = Active" "nd_perm (perf_node i) = PUBLIC"
  "nd_validity (perf_node i) = Forever" "nd_conf (perf_node i) = default_confidence"
  "nd_auth (perf_node i) = default_authority"
  by (simp_all add: perf_node_def node_new_def with_permissions_def with_args_def predicate_new_def default_provenance_def)

lemma perf_names: "nul_free (perf_entity i)"
proof -
  have "\<not> is_digit CHR 0x00" by (simp add: is_digit_def)
  then have "CHR 0x00 \<notin> set (nat_dec i)" using int_dec_digits [of "int i"] by (auto simp: list_all_iff simp del: int_dec_digits)
  then show ?thesis by (simp add: perf_entity_def nul_free_def)
qed

lemma perf_names_ok: "names_ok (perf_store k)"
proof -
  have "nul_free ''organization''" "nul_free ''instance-of''" "nul_free ''system''" by (simp_all add: nul_free_def)
  then have "name_sep reg BY_ENTITY (perf_node i)" "name_sep reg BY_PRED (perf_node i)"
    "name_sep reg BY_SRC (perf_node i)" for reg i
    using perf_names [of i] by (auto simp: name_sep_def filed_under_def node_mentions_def pred_key_def src_key_def nul_free_def)
  then show ?thesis by (auto simp: names_ok_def perf_store_facts(3))
qed

lemma perf_matches:
  "qr_node ` set (query_matches perf_query (default_options now) (perf_store k)) = perf_node ` {i. i < k \<and> i mod 100 = 0}"
proof -
  have q: "query_names_ok perf_query"
    by (simp add: query_names_ok_def perf_query_def query_new_def with_args_def predicate_new_def nul_free_def)
  have "CHR ''E'' # nat_dec i \<noteq> ''ACME-CORP''" for i by simp
  moreover have "\<exists>\<sigma>. \<sigma> ''type'' = Some (TEnt ''organization'')" by (rule exI [of _ "\<lambda>_. Some (TEnt ''organization'')"]) simp
  moreover have "\<not> f32_lt default_confidence f32_zero" by code_simp
  ultimately have "answers perf_query (default_options now) (perf_node i) \<longleftrightarrow> i mod 100 = 0" for i
    by (auto simp: answers_def perf_query_def query_new_def with_args_def predicate_new_def default_options_def ctx_public_def tag_grants_def PUBLIC_def psat_iff perf_entity_def)
  then show ?thesis
    unfolding set_eq_iff query_matches_exact [OF perf_store_facts(1) perf_names_ok q] perf_store_facts(3) by auto
qed

lemma perf_answer_one:
  assumes "0 < k"
  shows "\<exists>r a i. perf_answer C now k = Some (Inr \<lparr>rs_results = [r], rs_ambiguous = a\<rparr>)
         \<and> qr_node r = perf_node i \<and> i < k \<and> i mod 100 = 0 \<and> (100 < k \<longrightarrow> a)"
proof -
  let ?ms = "query_matches perf_query (default_options now) (perf_store k)"
  have "perf_node 0 \<in> qr_node ` set ?ms" unfolding perf_matches using assms by simp
  then have ne: "?ms \<noteq> []" by auto
  have node: "\<exists>i. qr_node r = perf_node i \<and> i < k \<and> i mod 100 = 0" if "r \<in> set ?ms" for r
  proof -
    have "qr_node r \<in> perf_node ` {i. i < k \<and> i mod 100 = 0}"
      unfolding perf_matches [symmetric, of _ now] using that by (rule imageI)
    then show ?thesis by (elim imageE CollectE conjE) (intro exI conjI)
  qed
  have sig: "predicate_signature C (nd_pred (qr_node r)) = predicate_signature C (nd_pred (perf_node 0))" if "r \<in> set ?ms" for r
    using node [OF that] by (auto simp: perf_entity_def)
  show ?thesis
  proof (cases "length ?ms = 1")
    case True
    then obtain r where r: "?ms = [r]" by (auto simp: length_Suc_conv)
    have "perf_node ` {i. i < k \<and> i mod 100 = 0} = {qr_node r}" using perf_matches [of now k] r by simp
    moreover have "perf_node 0 \<in> perf_node ` {i. i < k \<and> i mod 100 = 0}" using assms by simp
    moreover have "perf_node 100 \<in> perf_node ` {i. i < k \<and> i mod 100 = 0}" if "100 < k" using that by simp
    ultimately have "\<not> 100 < k" using perf_id_inj [of 0 100] by auto
    then show ?thesis
      using node [of r] arbitrate_pattern [of "[r]"]
      by (auto simp: perf_answer_def query_run_def arbitrate_group_def r)
  next
    case False
    then have len: "1 < length ?ms" using ne by (cases "length ?ms") auto
    have "group_by (\<lambda>r. predicate_signature C (nd_pred (qr_node r))) ?ms [] =
        group_by (\<lambda>_. predicate_signature C (nd_pred (perf_node 0))) ?ms []"
      unfolding group_by_fold by (rule fold_cong) (simp_all add: sig)
    then have sub: "sub_group_by_predicate C ?ms = [?ms]"
      by (simp add: sub_group_by_predicate_def group_const [OF ne])
    obtain w where w: "max_by latest_cmp ?ms = Some w" using max_by_Some [OF ne] by blast
    have close: "f32_lt (f32_abs (f32_sub default_authority default_authority)) (f32_lit 1 3)" by code_simp
    have flat: "nd_auth (qr_node r) = default_authority" "nd_validity (qr_node r) = Forever" if "r \<in> set ?ms" for r
      using node [OF that] by auto
    have "filter (\<lambda>r. auth_close (nd_auth (qr_node w)) r
        \<and> validity_recency_cmp (nd_validity (qr_node r)) (nd_validity (qr_node w)) = 0) ?ms = ?ms"
      using flat max_by_in [OF w] close by (simp add: auth_close_def validity_recency_cmp_def cong: filter_cong)
    then have "latest_sub ?ms = ([w], True)" using len False by (simp add: latest_sub_def w)
    moreover have "qo_policy (default_options now) = LatestWins" by (simp add: default_options_def)
    ultimately have "arbitrate C ?ms (qo_policy (default_options now)) (Some (q_pattern perf_query)) = Some ([w], True)"
      using False by (simp add: arbitrate_pattern [OF ne] arbitrate_group_def sub)
    then have answer: "perf_answer C now k = Some (Inr \<lparr>rs_results = [w], rs_ambiguous = True\<rparr>)"
      by (simp add: perf_answer_def query_run_def)
    obtain i where i: "qr_node w = perf_node i" "i < k" "i mod 100 = 0"
      using node [OF max_by_in [OF w]] by (elim exE conjE)
    show ?thesis
      by (rule exI [of _ w], rule exI [of _ True], rule exI [of _ i]) (simp only: answer i simp_thms)
  qed
qed

text \<open>C40. The store of the query benchmark holds as many nodes as were asked for, the query matches
  exactly the nodes about \<open>ACME-CORP\<close>, every hundredth, and its answer is one of them, marked ambiguous as
  soon as there are two; so the benchmark runs to its end.\<close>

theorem perf_query_answers:
  assumes "0 < k"
  shows "store_len (perf_store k) = k
    \<and> qr_node ` set (query_matches perf_query (default_options now) (perf_store k)) = perf_node ` {i. i < k \<and> i mod 100 = 0}
    \<and> (\<exists>r a i. perf_answer C now k = Some (Inr \<lparr>rs_results = [r], rs_ambiguous = a\<rparr>)
         \<and> qr_node r = perf_node i \<and> i < k \<and> i mod 100 = 0 \<and> (100 < k \<longrightarrow> a))
    \<and> bench_query C clock k = Some (k, 1000)"
proof (intro conjI)
  have "perf_answer C (clock j) k \<noteq> None" for j using perf_answer_one [OF assms, of C "clock j"] by auto
  then show "bench_query C clock k = Some (k, 1000)" by (simp add: bench_query_def list_all_iff)
qed (rule perf_store_len, rule perf_matches, rule perf_answer_one [OF assms])

theorem perf_query_answers_witness:
  "store_len (perf_store 10000) = 10000
    \<and> qr_node ` set (query_matches perf_query (default_options 0) (perf_store 10000)) =
        perf_node ` {i. i < 10000 \<and> i mod 100 = 0}
    \<and> (\<exists>r a i. perf_answer sample_chrono 0 10000 = Some (Inr \<lparr>rs_results = [r], rs_ambiguous = a\<rparr>)
         \<and> qr_node r = perf_node i \<and> i < 10000 \<and> i mod 100 = 0 \<and> (100 < (10000 :: nat) \<longrightarrow> a))
    \<and> bench_query sample_chrono (\<lambda>_. 0) 10000 = Some (10000, 1000)"
  by (rule perf_query_answers) simp

end
