(* ===== verification/Seeds.thy ===== *)
theory Seeds
  imports Core_Properties
begin

text \<open>
  Looking a name up in the registry of the seeds without computing the registry: the definition is the
  first seed of that name, with the index it was given.
\<close>

definition unnumbered :: "morpheme_def \<Rightarrow> morpheme_def" where
  "unnumbered d = d\<lparr>md_id := 0\<rparr>"

lemma unnumbered_simps [simp]:
  "md_name (unnumbered d) = md_name d" "md_kind (unnumbered d) = md_kind d"
  "md_signature (unnumbered d) = md_signature d" "unnumbered (d\<lparr>md_id := i\<rparr>) = unnumbered d"
  by (simp_all add: unnumbered_def)

lemma register_lookup_new:
  assumes "reg_ok r" "length (rg_by_id r) < 2 ^ 32"
  shows "map_option unnumbered (morpheme_lookup (snd (register d r)) (md_name d)) =
    (case morpheme_lookup r (md_name d) of Some e \<Rightarrow> Some (unnumbered e) | None \<Rightarrow> Some (unnumbered d))"
proof (cases "map_of (rg_by_name r) (md_name d)")
  case None
  then show ?thesis
    using unat_index [OF assms(2)]
    by (simp add: register_def Let_def morpheme_lookup_def lookup_id_def nth_append)
next
  case (Some i)
  then have "unat i < length (rg_by_id r)" using assms(1) unfolding reg_ok_def by blast
  then show ?thesis using Some by (simp add: register_def morpheme_lookup_def lookup_id_def)
qed

lemma register_all_find:
  "reg_ok r \<Longrightarrow> length (rg_by_id r) + length ds \<le> 2 ^ 32 \<Longrightarrow>
    map_option unnumbered (morpheme_lookup (register_all ds r) nm) =
    (case morpheme_lookup r nm of
       Some e \<Rightarrow> Some (unnumbered e)
     | None \<Rightarrow> map_option unnumbered (find (\<lambda>d. md_name d = nm) ds))"
proof (induction ds arbitrary: r)
  case Nil
  then show ?case by (simp split: option.split)
next
  case (Cons d ds)
  let ?r = "snd (register d r)"
  have room: "length (rg_by_id r) < 2 ^ 32" using Cons.prems(2) by simp
  have ok: "reg_ok ?r" using Cons.prems(1) room by (rule reg_ok_register)
  have "length (rg_by_id ?r) + length ds \<le> 2 ^ 32"
    using register_length [of d r] Cons.prems(2) by simp
  note IH = Cons.IH [OF ok this]
  show ?case
  proof (cases "nm = md_name d")
    case True
    then show ?thesis
      using IH register_lookup_new [OF Cons.prems(1) room, of d]
      by (cases "morpheme_lookup ?r nm") (auto split: option.splits)
  next
    case False
    obtain i r' where r': "register d r = (i, r')" by (cases "register d r")
    have "morpheme_lookup ?r nm = morpheme_lookup r nm"
      using register_finds(3) [OF Cons.prems(1) room r' False] r' by simp
    then show ?thesis using IH False by (auto split: option.split)
  qed
qed

lemma seed_lookup:
  "map_option unnumbered (morpheme_lookup with_seeds nm) =
   map_option unnumbered (find (\<lambda>d. md_name d = nm) seed_morphemes)"
  using register_all_find [OF reg_ok_new, of seed_morphemes nm]
  by (simp add: with_seeds_def seed_count) (simp add: registry_new_def morpheme_lookup_def)

lemma seed_found:
  assumes "find (\<lambda>d. md_name d = nm) seed_morphemes = Some e"
  obtains i d where "resolve with_seeds nm = Some i" "morpheme_lookup with_seeds nm = Some d"
    "d = rg_by_id with_seeds ! unat i" "unat i < registry_len with_seeds" "unnumbered d = unnumbered e"
proof -
  obtain d where d: "morpheme_lookup with_seeds nm = Some d" "unnumbered d = unnumbered e"
    using seed_lookup [of nm] assms by auto
  obtain i where i: "map_of (rg_by_name with_seeds) nm = Some i" "lookup_id with_seeds i = Some d"
    using d(1) by (auto simp: morpheme_lookup_def split: option.splits)
  then show ?thesis using that [of i d] d by (auto simp: resolve_def lookup_id_def registry_len_def split: if_splits)
qed

lemma seed_missing:
  assumes "find (\<lambda>d. md_name d = nm) seed_morphemes = None"
  shows "resolve with_seeds nm = None" "morpheme_lookup with_seeds nm = None"
proof -
  show "morpheme_lookup with_seeds nm = None" using seed_lookup [of nm] assms by simp
  moreover have "unat i < length (rg_by_id with_seeds)" if "map_of (rg_by_name with_seeds) nm = Some i" for i
    using seeds_ok(1) that unfolding reg_ok_def by blast
  ultimately show "resolve with_seeds nm = None"
    by (auto simp: morpheme_lookup_def resolve_def lookup_id_def split: option.splits if_splits)
qed

end
