(* ===== verification/Bench_Latent.thy ===== *)
theory Bench_Latent
  imports Seeds Bench Latent_Properties
begin

text \<open>
  The benchmark of \<open>factum-bench/src/semantic_roundtrip.rs\<close>: ten nodes through the baseline codec with the
  seed vocabulary.
\<close>

definition semantic_nodes :: "node list" where
  "semantic_nodes =
     [bench_node ''sb001'' ''located-in'' [TEnt ''ACME-CORP'', TEnt ''CUPERTINO''],
      bench_node ''sb002'' ''revenue'' [TEnt ''ACME-CORP'', TLit (LDec 100000000 2)],
      bench_node ''sb003'' ''shareholder-major'' [TEnt ''ACME-CORP'', TEnt ''FOUNDER-1'', TLit (LDec 73 2)],
      bench_node ''sb004'' ''ceo-of'' [TEnt ''PERSON-X'', TEnt ''ACME-CORP''],
      bench_node ''sb005'' ''instance-of'' [TEnt ''ACME-CORP'', TEnt ''organization''],
      bench_node ''sb006'' ''founded-on'' [TEnt ''ACME-CORP'', TLit (LDate 2282)],
      with_authority (f32_lit 9 1) (with_confidence (f32_lit 95 2)
        (bench_node ''sb007'' ''located-in'' [TEnt ''APPLE'', TEnt ''CUPERTINO''])),
      with_provenance (Asserted ''analyst-1'')
        (bench_node ''sb008'' ''revenue'' [TEnt ''GOOGLE'', TLit (LDec 30000000000 2)]),
      with_dep ''sb001'' (bench_node ''sb009'' ''subsidiary-of'' [TEnt ''SUB-CORP'', TEnt ''ACME-CORP'']),
      bench_node ''sb010'' ''active'' [TEnt ''ACME-CORP'']]"

definition bench_semantic :: "(string \<Rightarrow> u64) \<Rightarrow> chrono \<Rightarrow> datetime \<Rightarrow> bench_result" where
  "bench_semantic H C now =
     bench_semantic_roundtrip (baseline_encode_node H C with_seeds) (baseline_decode C now with_seeds) with_seeds
       semantic_nodes"

lemma agree_flat:
  "agree_term (=) r a b \<Longrightarrow> flat_term a \<Longrightarrow> a = b"
  "agree_pred (=) r p q \<Longrightarrow> True"
  "agree_terms (=) r as bs \<Longrightarrow> list_all flat_term as \<Longrightarrow> as = bs"
  "agree_named (=) r ns ms \<Longrightarrow> True"
  by (induction "(=) :: trm \<Rightarrow> _" r a b and "(=) :: trm \<Rightarrow> _" r p q and "(=) :: trm \<Rightarrow> _" r as bs
      and "(=) :: trm \<Rightarrow> _" r ns ms rule: agree_term_agree_pred_agree_terms_agree_named.induct) simp_all

section \<open>What the baseline cannot decode\<close>

definition names_entity :: "node \<Rightarrow> bool" where
  \<comment> \<open>an argument is an entity whose name is not one of the decoder's placeholders\<close>
  "names_entity n \<longleftrightarrow> list_ex (\<lambda>t. case t of TEnt e \<Rightarrow> take 4 e \<noteq> ''ENT-'' | _ \<Rightarrow> False) (pr_args (nd_pred n))"

lemma built_args: "TEnt e \<in> set (pr_args (build_predicate d fs)) \<Longrightarrow> take 4 e = ''ENT-''"
  by (auto simp: build_predicate_def Let_def with_args_def predicate_new_def placeholder_ent_def placeholder_lit_def)

lemma entity_lost:
  assumes "flat_pred (nd_pred n)" "names_entity n"
  shows "\<not> same_content r n (baseline_kept now d n)"
proof
  assume same: "same_content r n (baseline_kept now d n)"
  obtain t where t: "t \<in> set (pr_args (nd_pred n))" "case t of TEnt e \<Rightarrow> take 4 e \<noteq> ''ENT-'' | _ \<Rightarrow> False"
    using assms(2) by (auto simp: names_entity_def list_ex_iff simp del: split_paired_Ex)
  then obtain e where e: "TEnt e \<in> set (pr_args (nd_pred n))" "take 4 e \<noteq> ''ENT-''" by - (cases t, simp_all)
  obtain h as ns where p: "nd_pred n = Predicate h as ns" by (cases "nd_pred n")
  obtain h' bs ms where q: "build_predicate d (extract_type_features (nd_pred n)) = Predicate h' bs ms"
    by (cases "build_predicate d (extract_type_features (nd_pred n))")
  have "agree_terms (=) r as bs" using same q by (simp add: same_content_def baseline_kept_def p)
  moreover have "list_all flat_term as" using assms(1) by (simp add: flat_pred_def p)
  ultimately have "as = bs" by (rule agree_flat(3))
  then have "TEnt e \<in> set (pr_args (build_predicate d (extract_type_features (nd_pred n))))" using e(1) p q by simp
  then show False using built_args e(2) by blast
qed

lemma baseline_run:
  assumes "flat_pred (nd_pred n)" "registry_len r \<le> 2 ^ 32" "baseline_head_index r (pr_head (nd_pred n)) = Some i"
    "i < registry_len r"
  obtains e where "baseline_encode_node H C r n = Inr e"
    "baseline_decode C now r (er_vector e) = Inr \<lparr>dr_nodes = [baseline_kept now (rg_by_id r ! i) n],
              dr_text = canonical C (baseline_kept now (rg_by_id r ! i) n)\<rparr>"
  using flat_head [OF assms(1,3,4,2)] that
  by (auto simp: baseline_encode_node_def baseline_decode_built baseline_node_kept Let_def)

lemma semantic_node_preds:
  "map nd_pred semantic_nodes =
     [Predicate (HeadName ''located-in'') [TEnt ''ACME-CORP'', TEnt ''CUPERTINO''] [],
      Predicate (HeadName ''revenue'') [TEnt ''ACME-CORP'', TLit (LDec 100000000 2)] [],
      Predicate (HeadName ''shareholder-major'') [TEnt ''ACME-CORP'', TEnt ''FOUNDER-1'', TLit (LDec 73 2)] [],
      Predicate (HeadName ''ceo-of'') [TEnt ''PERSON-X'', TEnt ''ACME-CORP''] [],
      Predicate (HeadName ''instance-of'') [TEnt ''ACME-CORP'', TEnt ''organization''] [],
      Predicate (HeadName ''founded-on'') [TEnt ''ACME-CORP'', TLit (LDate 2282)] [],
      Predicate (HeadName ''located-in'') [TEnt ''APPLE'', TEnt ''CUPERTINO''] [],
      Predicate (HeadName ''revenue'') [TEnt ''GOOGLE'', TLit (LDec 30000000000 2)] [],
      Predicate (HeadName ''subsidiary-of'') [TEnt ''SUB-CORP'', TEnt ''ACME-CORP''] [],
      Predicate (HeadName ''active'') [TEnt ''ACME-CORP''] []]"
  by (simp add: semantic_nodes_def bench_node_def node_new_def with_args_def predicate_new_def with_authority_def
      with_confidence_def with_provenance_def with_dep_def)

lemma semantic_flat: "list_all (\<lambda>n. flat_pred (nd_pred n) \<and> names_entity n) semantic_nodes"
proof -
  have "flat_pred p \<and> list_ex (\<lambda>t. case t of TEnt e \<Rightarrow> take 4 e \<noteq> ''ENT-'' | _ \<Rightarrow> False) (pr_args p)"
    if "p \<in> set (map nd_pred semantic_nodes)" for p
    using that unfolding semantic_node_preds by (auto simp: flat_pred_def)
  then show ?thesis by (simp add: list_all_iff names_entity_def)
qed

lemma semantic_heads:
  "list_all (\<lambda>n. case pr_head (nd_pred n) of HeadId _ \<Rightarrow> False | HeadName nm \<Rightarrow> nm \<in> md_name ` set seed_morphemes)
     semantic_nodes"
proof -
  have "list_all (\<lambda>nm. nm \<in> set (map md_name seed_morphemes))
      [''located-in'', ''revenue'', ''shareholder-major'', ''ceo-of'', ''instance-of'', ''founded-on'', ''subsidiary-of'', ''active'']"
    by code_simp
  then have "case pr_head p of HeadId _ \<Rightarrow> False | HeadName nm \<Rightarrow> nm \<in> md_name ` set seed_morphemes"
    if "p \<in> set (map nd_pred semantic_nodes)" for p
    using that unfolding semantic_node_preds by auto
  then show ?thesis by (simp add: list_all_iff)
qed

lemma semantic_run:
  assumes "n \<in> set semantic_nodes"
  shows "\<not> passes (bench_single_node (baseline_encode_node H C with_seeds) (baseline_decode C now with_seeds) with_seeds)
      DEFAULT_THRESHOLD n"
    and "\<exists>res. bench_single_node (baseline_encode_node H C with_seeds) (baseline_decode C now with_seeds) with_seeds n = Inr res"
proof -
  have n: "flat_pred (nd_pred n) \<and> names_entity n" using semantic_flat assms by (simp add: list_all_iff)
  obtain nm where "pr_head (nd_pred n) = HeadName nm" "nm \<in> md_name ` set seed_morphemes"
    using bspec [OF semantic_heads [unfolded list_all_iff] assms] by (cases "pr_head (nd_pred n)") simp_all
  then obtain d0 where nm: "pr_head (nd_pred n) = HeadName nm" "find (\<lambda>d. md_name d = nm) seed_morphemes = Some d0"
    by (cases "find (\<lambda>d. md_name d = nm) seed_morphemes") (auto simp: find_None_iff)
  obtain j where j: "resolve with_seeds nm = Some j" "unat j < registry_len with_seeds"
    using seed_found [OF nm(2)] by metis
  have "registry_len with_seeds \<le> 2 ^ 32" using seeds_ok(2) by (simp add: registry_len_def)
  then obtain e where e: "baseline_encode_node H C with_seeds n = Inr e"
    "baseline_decode C now with_seeds (er_vector e) = Inr \<lparr>dr_nodes = [baseline_kept now (rg_by_id with_seeds ! unat j) n],
              dr_text = canonical C (baseline_kept now (rg_by_id with_seeds ! unat j) n)\<rparr>"
    using baseline_run [of n with_seeds "unat j" H C now] n nm(1) j by (auto simp: baseline_head_index_def)
  then show "\<not> passes (bench_single_node (baseline_encode_node H C with_seeds) (baseline_decode C now with_seeds) with_seeds)
      DEFAULT_THRESHOLD n"
    using entity_lost n by (simp add: baseline.single_passes)
  show "\<exists>res. bench_single_node (baseline_encode_node H C with_seeds) (baseline_decode C now with_seeds) with_seeds n = Inr res"
    using e by (simp add: bench_single_node_def compared_def Let_def)
qed

text \<open>The benchmark of the baseline codec decodes all ten nodes and passes none of them, whatever the hash,
  the date library and the clock.\<close>

lemma bench_semantic_none:
  "br_total (bench_semantic H C now) = 10 \<and> br_failures (bench_semantic H C now) = []
   \<and> br_passed (bench_semantic H C now) = f32_zero"
proof -
  let ?run = "bench_single_node (baseline_encode_node H C with_seeds) (baseline_decode C now with_seeds) with_seeds"
  have b: "bench_semantic H C now = bench_loop ?run DEFAULT_THRESHOLD semantic_nodes"
    by (simp add: bench_semantic_def bench_semantic_roundtrip_def bench_semantic_roundtrip_with_threshold_def)
  have none: "filter (passes ?run DEFAULT_THRESHOLD) semantic_nodes = []"
    using semantic_run(1) by (simp add: filter_empty_conv)
  have "failures_of ?run ns = []" if "set ns \<subseteq> set semantic_nodes" for ns
    using that
  proof (induction ns)
    case (Cons n ns)
    then obtain res where "?run n = Inr res" using semantic_run(2) [of n H C now] by auto
    then show ?case using Cons by (simp add: failures_of_def)
  qed (simp add: failures_of_def)
  moreover have "length semantic_nodes = 10" by (simp add: semantic_nodes_def)
  moreover have "f32_div (f32_of_nat 0) (f32_of_nat 10) = f32_zero" by code_simp
  moreover have "semantic_nodes \<noteq> []" by (simp add: semantic_nodes_def)
  ultimately show ?thesis unfolding b by (simp add: bench_loop_facts none)
qed

end
