(* ===== verification/Bench_Tokens.thy ===== *)
theory Bench_Tokens
  imports Core_Properties Handler
begin

text \<open>
  The benchmark of \<open>factum-bench/src/token_efficiency.rs\<close>: the same nodes as canonical text, as Markdown and as
  JSON, and the estimate of tokens. \<open>{:.2}\<close>, \<open>{:?}\<close> of a predicate, the pretty printer of serde_json and the
  Unicode classes of characters are arguments. The percentage, a double, is left out.
\<close>

section \<open>The three texts\<close>

record efficiency_result =
  ef_factum :: nat
  ef_markdown :: nat
  ef_json :: nat

definition markdown_arg :: "chrono \<Rightarrow> trm \<Rightarrow> string" where
  "markdown_arg C t =
     (case t of
        TEnt e \<Rightarrow> e
      | TLit l \<Rightarrow> to_canonical_string C l
      | TVar s \<Rightarrow> ''?'' @ s
      | _ \<Rightarrow> ''...'')"

fun markdown_args :: "chrono \<Rightarrow> trm list \<Rightarrow> string" where
  "markdown_args C [] = []"
| "markdown_args C (a # as) =
     markdown_arg C a @ concat (map (\<lambda>b. '', '' @ markdown_arg C b) as)"

definition markdown_node :: "chrono \<Rightarrow> (f32 \<Rightarrow> string) \<Rightarrow> node \<Rightarrow> string" where
  \<comment> \<open>the body of the loop of \<open>to_markdown\<close>\<close>
  "markdown_node C fixed2 n =
     ''- **'' @ nd_id n @ ''**: '' @ head_text (pr_head (nd_pred n))
     @ ''('' @ markdown_args C (pr_args (nd_pred n)) @ '')''
     @ '' (confidence: '' @ fixed2 (nd_conf n) @ '', authority: '' @ fixed2 (nd_auth n) @ '')'' @ [CHR 0x0A]"

definition to_markdown :: "chrono \<Rightarrow> (f32 \<Rightarrow> string) \<Rightarrow> node list \<Rightarrow> string" where
  "to_markdown C fixed2 ns = concat (map (markdown_node C fixed2) ns)"

fun term_to_json :: "chrono \<Rightarrow> (predicate \<Rightarrow> string) \<Rightarrow> trm \<Rightarrow> json" where
  "term_to_json C dbg (TVar s) = jobj [(''var'', JStr s)]"
| "term_to_json C dbg (TEnt e) = jobj [(''entity'', JStr e)]"
| "term_to_json C dbg (TLit l) = jobj [(''literal'', JStr (to_canonical_string C l))]"
| "term_to_json C dbg (TCompound p) = jobj [(''compound'', JStr (dbg p))]"
| "term_to_json C dbg (TList items) = jobj [(''list'', JArr (map (term_to_json C dbg) items))]"

definition efficiency_json :: "chrono \<Rightarrow> (predicate \<Rightarrow> string) \<Rightarrow> node list \<Rightarrow> json" where
  "efficiency_json C dbg ns =
     JArr (map (\<lambda>n. jobj
       [(''id'', JStr (nd_id n)),
        (''predicate'', jobj
          [(''head'', JStr (head_text (pr_head (nd_pred n)))),
           (''args'', JArr (map (term_to_json C dbg) (pr_args (nd_pred n))))]),
        (''confidence'', jf32 (nd_conf n)),
        (''authority'', jf32 (nd_auth n))]) ns)"

definition sample_knowledge_nodes :: "node list" where
  "sample_knowledge_nodes =
     (let mk = (\<lambda>i h args c a. with_authority (f32_lit a 2) (with_confidence (f32_lit c 2)
            (node_new i (with_args args (predicate_new (HeadName h)))))) in
      [mk ''n001'' ''instance-of'' [TEnt ''ACME-CORP'', TEnt ''organization''] 95 90,
       mk ''n002'' ''located-in'' [TEnt ''ACME-CORP'', TEnt ''ACME-HQ''] 99 100,
       mk ''n003'' ''founded-on'' [TEnt ''ACME-CORP'', TLit (LDate 11396)] 99 100,
       mk ''n004'' ''shareholder-major'' [TEnt ''ACME-CORP'', TEnt ''FOUNDER-1'', TLit (LDec 73 2)] 85 80,
       mk ''n005'' ''revenue'' [TEnt ''ACME-CORP'', TLit (LDec 23050000000 0)] 90 95])"

definition bench_efficiency ::
    "chrono \<Rightarrow> (f32 \<Rightarrow> string) \<Rightarrow> (predicate \<Rightarrow> string) \<Rightarrow> (json \<Rightarrow> string) \<Rightarrow> efficiency_result" where
  "bench_efficiency C fixed2 dbg pretty =
     \<lparr>ef_factum = length (canonical_all C sample_knowledge_nodes),
      ef_markdown = length (to_markdown C fixed2 sample_knowledge_nodes),
      ef_json = length (pretty (efficiency_json C dbg sample_knowledge_nodes))\<rparr>"

section \<open>The estimate of tokens\<close>

record unicode =
  un_words :: "string \<Rightarrow> string list" \<comment> \<open>\<open>split_whitespace\<close>\<close>
  un_alphabetic :: "string \<Rightarrow> bool" \<comment> \<open>\<open>chars().any(char::is_alphabetic)\<close>\<close>
  un_numeric :: "string \<Rightarrow> bool" \<comment> \<open>\<open>chars().any(char::is_numeric)\<close>\<close>

definition punct :: "char \<Rightarrow> bool" where
  "punct c \<longleftrightarrow> c \<in> set ''()[]:,{}'' \<or> c = CHR 0x22"

definition word_tokens :: "unicode \<Rightarrow> string \<Rightarrow> nat" where
  "word_tokens U w =
     (if 8 < length w \<and> un_alphabetic U w \<and> (un_numeric U w \<or> CHR ''-'' \<in> set w \<or> CHR ''_'' \<in> set w)
      then 1 + (length w - 8) div 4 else 1)"

definition estimate_tokens :: "unicode \<Rightarrow> string \<Rightarrow> nat" where
  "estimate_tokens U s = sum_list (map (word_tokens U) (un_words U s)) + length (filter punct s) * 6 div 10"

section \<open>Comparisons\<close>

lemma escape_min_le: "length (escape_min s) \<le> length (concat (map escape_char s))"
  by (induction s) (auto simp: escape_min_def escape_char_def)

lemma literal_text_le: "length (to_canonical_string C l) \<le> length (canonical_literal C l) + 3"
  by (cases l) (auto simp: canonical_literal_def quoted_def quoted_with_def escape_min_le trans_le_add2)

lemma markdown_arg_le: "length (markdown_arg C t) \<le> length (canonical_term C t) + 3"
proof (cases t)
  case (TLit l)
  then show ?thesis using literal_text_le [of C l] by (simp add: markdown_arg_def)
qed (simp_all add: markdown_arg_def)

lemma markdown_rest_le:
  "length (concat (map (\<lambda>b. '', '' @ markdown_arg C b) as))
   \<le> length (concat (map (\<lambda>a. '' '' @ canonical_term C a) as)) + 4 * length as"
proof (induction as)
  case (Cons a as)
  then show ?case using markdown_arg_le [of C a] by simp
qed simp

lemma markdown_args_le:
  "length (markdown_args C as) \<le> length (concat (map (\<lambda>a. '' '' @ canonical_term C a) as)) + 4 * length as - 2"
proof (cases as)
  case (Cons a bs)
  then show ?thesis using markdown_arg_le [of C a] markdown_rest_le [of C bs] by simp
qed simp

lemma provenance_text_ge: "13 \<le> length (canonical_provenance p)"
  by (cases p) (simp_all add: canonical_provenance_def raw_quoted_def quoted_with_def)

lemma validity_text_ge: "7 \<le> length (canonical_validity C v)"
  by (cases v) (simp_all add: canonical_validity_def raw_quoted_def quoted_with_def)

lemma perm_text_ge: "6 \<le> length (perm_text p)"
  by (simp add: perm_text_def)

lemma predicate_text_ge:
  "length (head_text (pr_head p)) + length (concat (map (\<lambda>a. '' '' @ canonical_term C a) (pr_args p))) + 2
   \<le> length (canonical_predicate_inner C p)"
  by (cases p) simp

lemma markdown_node_less:
  assumes "length (pr_args (nd_pred n)) \<le> 8" "length (fixed2 (nd_conf n)) \<le> 4" "length (fixed2 (nd_auth n)) \<le> 4"
  shows "length (markdown_node C fixed2 n) < length (canonical_node C n @ [CHR 0x0A])"
proof -
  have "length (markdown_node C fixed2 n) \<le> 47 + length (nd_id n) + length (head_text (pr_head (nd_pred n)))
      + length (markdown_args C (pr_args (nd_pred n)))"
    using assms(2,3) by (simp add: markdown_node_def)
  moreover have "77 + length (nd_id n) + length (canonical_predicate_inner C (nd_pred n)) - 2
      \<le> length (canonical_node C n)"
    using provenance_text_ge [of "nd_prov n"] validity_text_ge [of C "nd_validity n"] perm_text_ge [of "nd_perm n"]
    by (simp add: canonical_node_def)
  ultimately show ?thesis
    using markdown_args_le [of C "pr_args (nd_pred n)"] predicate_text_ge [of "nd_pred n" C] assms(1) by simp
qed

text \<open>Markdown is always the shorter text: for any nodes with at most eight arguments each, whose
  confidence and authority print with two decimals in four bytes (as every value between 0 and 1 does), the
  canonical text is longer, so the savings the benchmark reports for it over Markdown are negative.\<close>

lemma markdown_shorter:
  assumes "ns \<noteq> []"
    "list_all (\<lambda>n. length (pr_args (nd_pred n)) \<le> 8 \<and> length (fixed2 (nd_conf n)) \<le> 4 \<and> length (fixed2 (nd_auth n)) \<le> 4) ns"
  shows "length (to_markdown C fixed2 ns) < length (canonical_all C ns)"
  using assms
proof (induction ns)
  case (Cons n ns)
  then have "length (markdown_node C fixed2 n) < length (canonical_node C n @ [CHR 0x0A])"
    by (intro markdown_node_less) simp_all
  then show ?case using Cons by (cases "ns = []") (simp_all add: to_markdown_def canonical_all_def)
qed simp

lemma markdown_shorter_witness:
  "ef_markdown (bench_efficiency sample_chrono (\<lambda>_. ''0.95'') (\<lambda>_. []) (\<lambda>_. []))
   < ef_factum (bench_efficiency sample_chrono (\<lambda>_. ''0.95'') (\<lambda>_. []) (\<lambda>_. []))"
proof -
  have "length (to_markdown sample_chrono (\<lambda>_. ''0.95'') sample_knowledge_nodes)
      < length (canonical_all sample_chrono sample_knowledge_nodes)"
    by (rule markdown_shorter) (simp_all add: sample_knowledge_nodes_def Let_def node_new_def with_args_def
        predicate_new_def with_authority_def with_confidence_def)
  then show ?thesis by (simp add: bench_efficiency_def)
qed

text \<open>The estimate is at most one token a byte.\<close>

lemma word_estimate:
  "w \<noteq> [] \<Longrightarrow> 10 * word_tokens U w + 6 * length (filter punct w) \<le> 10 * length w + 6"
proof -
  assume "w \<noteq> []"
  moreover have "(length w - 8) div 4 * 4 \<le> length w - 8" by (simp add: div_times_less_eq_dividend)
  moreover have "length (filter punct w) \<le> length w" by simp
  ultimately show ?thesis by (cases w) (auto simp: word_tokens_def simp del: length_filter_le)
qed

lemma words_estimate:
  "list_all (\<lambda>w. w \<noteq> []) ws \<Longrightarrow>
   10 * sum_list (map (word_tokens U) ws) + 6 * length (filter punct (concat ws)) \<le> 10 * length (concat ws) + 6 * length ws"
proof (induction ws)
  case (Cons w ws)
  then show ?case using word_estimate [of w U] by simp
qed simp

lemma estimate_at_most_bytes:
  assumes "list_all (\<lambda>w. w \<noteq> []) (un_words U s)"
    "length (filter punct s) = length (filter punct (concat (un_words U s)))"
    "length (concat (un_words U s)) + length (un_words U s) \<le> length s + 1"
  shows "estimate_tokens U s \<le> length s"
proof -
  let ?p = "length (filter punct s)" and ?t = "sum_list (map (word_tokens U) (un_words U s))"
  have "10 * ?t + 6 * ?p \<le> 10 * length (concat (un_words U s)) + 6 * length (un_words U s)"
    using words_estimate [OF assms(1), of U] by (simp add: assms(2))
  moreover have "?p * 6 div 10 * 10 \<le> ?p * 6" by simp
  ultimately have "10 * (?t + ?p * 6 div 10) \<le> 10 * length (concat (un_words U s)) + 6 * length (un_words U s)" by simp
  then have "?t + ?p * 6 div 10 \<le> length s" using assms(3) by (cases "un_words U s") simp_all
  then show ?thesis by (simp add: estimate_tokens_def)
qed

end
