(* ===== verification/Spec2Isabelle.thy ===== *)
theory Spec2Isabelle
  imports Core_Properties Query_Properties Queue_Properties Handler_Properties Latent_Properties
    Rocks_Properties Transport_Properties Fuzz Bench_Store Bench_Latent Bench_Tokens
begin

text \<open>
  Factum is an auditable memory for agents: a store of knowledge nodes with provenance, confidence,
  authority, permissions and validity, a small language to write them in, queries that decide between
  conflicting nodes, and a server that offers all of it as tools over JSON-RPC. This development models
  the Rust implementation under \<open>src/crates\<close> and proves what makes its parts correct.

  \<^bold>\<open>The parts and how they interact.\<close> A text is lexed, parsed to nodes and printed again (\<open>factum-core\<close>). The
  store (\<open>factum-rt\<close>) keeps nodes in a storage backend with index entries, next to two indices of its own,
  a write-ahead log, subscriptions and verifiers; queries take candidates from the indices, match and
  filter them, and arbitrate. The server (\<open>factum-mcp\<close>) turns requests into operations on the store and
  on a queue of events for review, and reads them from lines or HTTP. The latent codecs (\<open>factum-l\<close>)
  encode nodes as vectors of floats, decode them, and measure what survives.

  \<^bold>\<open>Conventions.\<close> A method is a function from the state to its result and the state afterwards. An error
  is the left side of a sum, and a panic that the code can reach is \<open>None\<close>. Strings are their UTF-8 bytes.
  Integers whose width matters are words; \<open>usize\<close> lengths are naturals. Single floats are bit-exact (\<open>F32\<close>,
  \<open>F32_Arith\<close>: a sign and a multiple of \<open>2^-149\<close>, infinities and NaN, with correctly rounded operations).
  A hash map is a list. Those of the in-memory backend are kept in order of insertion; \<open>Orders\<close> relates a store
  to itself with its maps visited in any other order, and the theorems on what a caller cannot learn speak
  of the \<open>outcomes\<close> under all orders; the others speak of sets, numbers and single nodes. Those of arbitration
  are visited in the order of a hash of their keys, a parameter, and every theorem holds for all of them.

  \<^bold>\<open>Which theory models what.\<close>
  \<^item> \<open>factum-core\<close>: \<open>Types\<close> (types.rs), \<open>Lexer\<close> (lexer.rs), \<open>Parser\<close> (parser.rs), \<open>Serialize\<close> and \<open>Compact\<close>
    (serialize.rs), \<open>Calibration\<close>, \<open>Morphemes\<close> (the files of those names).
  \<^item> \<open>factum-rt\<close>: \<open>Permission\<close>, \<open>Storage\<close>, \<open>Rocks\<close> (rocksdb_backend.rs and the trait of storage.rs),
    \<open>Subscription\<close>, \<open>Verifier\<close>, \<open>Store\<close> and \<open>Cascade\<close> (store.rs), \<open>Matching\<close> and \<open>Query\<close> (query.rs),
    \<open>Arbitration\<close>, \<open>Review\<close>.
  \<^item> \<open>factum-mcp\<close>: \<open>Json\<close> (the values of serde_json), \<open>Protocol\<close>, \<open>Tools\<close>, \<open>Handler\<close>, \<open>Transport\<close> (the two
    programs under bin).
  \<^item> \<open>factum-l\<close>: \<open>Latent\<close> (error.rs and the vectors of encoder.rs), \<open>Packed\<close> (packed_codec.rs), \<open>Baseline\<close>
    (encoder.rs, decoder.rs), \<open>Sequiv\<close> (sequiv.rs), \<open>Benchmark\<close> (benchmark.rs).
  \<^item> \<open>factum-bench\<close>: \<open>Bench\<close> (round_trip.rs), \<open>Bench_Store\<close> (query_perf.rs), \<open>Bench_Latent\<close>
    (semantic_roundtrip.rs), \<open>Bench_Tokens\<close> (token_efficiency.rs). \<open>fuzz/fuzz_targets\<close>: \<open>Fuzz\<close>.

  \<^bold>\<open>What the lemmas show.\<close>
  \<^item> \<open>Lexing\<close>, \<open>Tokens\<close>, \<open>Printing\<close>, \<open>Reading\<close>, \<open>RoundTrip\<close>: the lexer reads each piece of canonical text as
    the tokens it was printed from, the parser reads those tokens as the node, and so printing and
    parsing are inverse. \<open>Parser_Facts\<close>: whatever is parsed is well typed.
  \<^item> \<open>Lexed\<close>, \<open>Positions\<close>, \<open>Parsed\<close>: the other direction, for any text: what a token can hold, where in the
    text it stands, and which nodes come out of the parser; \<open>node_plain\<close> says which of those print to a text
    that parses back. \<open>Fuzz\<close> draws the conclusions for the fuzz targets and has the inputs that make one panic.
  \<^item> \<open>Bench\<close>, \<open>Bench_Store\<close>, \<open>Bench_Latent\<close>, \<open>Bench_Tokens\<close>: what each benchmark finds, for every size of
    its input. \<open>Seeds\<close>: looking up a name among the seeds without computing the registry.
  \<^item> \<open>Store_Facts\<close>: the invariant \<open>store_ok\<close>, that every index says what the stored nodes say, kept by every
    operation. \<open>Cascade\<close> refines retraction to reachability in the graph of dependencies.
    \<open>Store_Properties\<close>, \<open>Query_Properties\<close>, \<open>Queue_Properties\<close> and \<open>Core_Properties\<close> state the results.
  \<^item> \<open>Orders\<close>: hash maps in another order keep the invariant; whatever the order after an insertion, taking the
    node out again leaves an order of the maps before it, so that what does not see the node reads the same.
  \<^item> \<open>Arbitration_Facts\<close>: comparison of floats is a preorder, and what each policy may answer.
  \<^item> \<open>Rocks_Facts\<close>, \<open>Rocks_Library\<close>, \<open>Rocks_Properties\<close>: what a backend promises, and that both keep it.
  \<^item> \<open>Handler_Facts\<close>, \<open>Tool_Facts\<close>, \<open>Handler_Properties\<close>, \<open>Transport_Properties\<close>: what requests change, what they
    answer, and what a public client can learn.
  \<^item> \<open>F32_Bounds\<close>, \<open>Packed_Facts\<close>, \<open>Packed_Slots\<close>, \<open>Packed_Gate\<close>, \<open>Packed_Codec\<close>: rounding errors of every float
    operation between a text and its decoding. \<open>Sequiv_Facts\<close>: levels and scores. \<open>Baseline_Facts\<close>:
    features read back. \<open>Codec\<close> and \<open>Latent_Properties\<close> join codecs, comparison and benchmark.

  \<^bold>\<open>Interfaces.\<close> \<open>multimap\<close> (an index of the store; the hash map, the sorted map and the backend's families
  are its interpretations), \<open>comparison\<close> (an order for sorting events; \<open>Review\<close>), \<open>codec\<close> (an encoder and a
  decoder; the packed and the baseline codec), \<open>storage_contract\<close> (the trait of storage; the in-memory
  backend, and RocksDB under \<open>rocks_library\<close>) and \<open>rocks_library\<close> (RocksDB and bincode as documented; a
  table of sorted rows is its instance, a sublocale gives the contract).

  \<^bold>\<open>Fuel and bounds.\<close> The parser recurses at most \<open>MAX_PARSE_DEPTH\<close> deep, which is its fuel for terms; its
  loops start with one more than the number of tokens, and each step consumes one, so \<open>parse_total\<close> and the round trip
  need no assumption on it. Retraction follows the code's own limit of nodes and recurses on stored nodes
  not yet retracted. The search for the shortest decimal of a float tries \<open>short_start k + 150\<close> places,
  down to \<open>10^-149\<close>, below the distance of any two floats. The square root is computed bit by bit, over
  half the bits of its argument and one more.

  \<^bold>\<open>Arithmetic.\<close> The parser multiplies the numbers of durations without a check: a build with overflow checks
  panics there and a release build wraps, and \<open>parse_build\<close> models both. \<open>parse\<close> is the release build; \<open>Fuzz\<close>,
  whose targets are built with checks, is about \<open>parse_build\<close>. Elsewhere words wrap as in a release build.

  \<^bold>\<open>Parameters.\<close> \<open>chrono\<close> (dates and instants to and from text; the round trip assumes that it reads what it
  prints; whether the build checks overflow; the order that hashes give), \<open>env\<close> (clock, \<open>DefaultHasher\<close>, Unicode lower case, \<open>Debug\<close> and fixed-point formatting, serde's reading
  of tool parameters and writing of JSON text), \<open>rocksdb\<close> (RocksDB's calls and bincode of the fields of a
  node), \<open>serde_json::from_str\<close>, which addresses can be bound and which texts are header values, and for the
  benchmark of tokens the pretty printer of JSON and the Unicode classes. Each theorem with a hypothesis on one has a witness with a concrete one.

  \<^bold>\<open>Not modelled.\<close> Locks and threads: every method takes its locks for its whole run or for single steps,
  and the model is sequential. The text of error messages is kept as the value it prints. What axum
  does with the router's configuration is not there. The \<open>Serializer\<close> struct is unused. The times that \<open>factum-bench\<close> measures and its ratios in double precision (\<open>Literal::as_f64\<close> with them) are left
  out. \<open>factum-demo\<close> and the examples of \<open>factum-l\<close> run operations modelled here on fixed inputs and print
  what they give. \<open>usize\<close> products of the benchmark's first gate are taken without
  overflow. The store is modelled over the in-memory backend; the batch of an insertion on RocksDB is the
  subject of \<open>inserted_found\<close>.
\<close>

section \<open>The language\<close>

text \<open>C1. Round trip: a node's canonical text parses back to exactly that node, with the status
  reset to \<open>Active\<close>. The text must lex to fewer than a million tokens (any shorter text does) and
  the node's identifiers must be symbols of the language, its raw strings free of quotes and
  backslashes, and the date library must read back the dates it prints.\<close>

theorem canonical_roundtrip:
  assumes "node_ok C n" "int (length (canonical C n)) < MAX_TOKENS"
  shows "parse C (canonical C n) = Inr [n\<lparr>nd_status := Active\<rparr>]"
  using parse_canonical_aux [OF assms(1)] assms(2) by (simp add: MAX_TOKENS_def as_parsed_def)

theorem canonical_roundtrip_witness:
  "parse sample_chrono (canonical sample_chrono sample_node) = Inr [sample_node\<lparr>nd_status := Active\<rparr>]"
  by (rule canonical_roundtrip [OF sample_node_ok sample_node_length])

end
